(* ===== verification/Flowie_Prelude.thy ===== *)
theory Flowie_Prelude
  imports Main "HOL-Library.Word" "HOL-Library.AList"
begin

text \<open>
  Shared vocabulary of the development: machine integers, byte spans, results of
  fallible C functions, and the list and word lemmas that the component theories use.
  A C function that returns a status code and writes its outputs through pointers is
  a HOL function into \<open>'e + 'a\<close>: \<open>Inl\<close> carries the status code of a failing
  return and \<open>Inr\<close> the outputs of a successful one.
\<close>

unbundle bit_operations_syntax

section \<open>Machine integers and byte spans\<close>

type_synonym u8 = "8 word"
type_synonym u16 = "16 word"
type_synonym u32 = "32 word"
type_synonym u64 = "64 word"
type_synonym bytes = "u8 list"

text \<open>
  A borrowed span is a data pointer with a size. The code tells a NULL pointer from a
  pointer to zero bytes, so the model does too: \<open>NullSpan n\<close> is the span
  \<open>{NULL, n}\<close> and \<open>Span bs\<close> a span whose pointer is not NULL.
\<close>

datatype flowie_mqtt_span = NullSpan nat | Span bytes

fun span_size :: "flowie_mqtt_span \<Rightarrow> nat" where
  "span_size (NullSpan n) = n"
| "span_size (Span bs) = length bs"

fun span_bytes :: "flowie_mqtt_span \<Rightarrow> bytes" where
  "span_bytes (NullSpan n) = []"
| "span_bytes (Span bs) = bs"

fun span_null :: "flowie_mqtt_span \<Rightarrow> bool" where
  "span_null (NullSpan n) = True"
| "span_null (Span bs) = False"

section \<open>Results\<close>

named_theorems result_simps \<open>equations that run a result computation\<close>
named_theorems result_dest \<open>inversion rules for successful result computations\<close>

fun rbind :: "'e + 'a \<Rightarrow> ('a \<Rightarrow> 'e + 'b) \<Rightarrow> 'e + 'b" where
  "rbind (Inl e) f = Inl e"
| "rbind (Inr x) f = f x"

definition fail_if :: "bool \<Rightarrow> 'e \<Rightarrow> 'e + unit" where
  "fail_if c e = (if c then Inl e else Inr ())"

definition map_error :: "('e \<Rightarrow> 'f) \<Rightarrow> 'e + 'a \<Rightarrow> 'f + 'a" where
  "map_error f m = (case m of Inl e \<Rightarrow> Inl (f e) | Inr x \<Rightarrow> Inr x)"

definition is_ok :: "'e + 'a \<Rightarrow> bool" where
  "is_ok m = (case m of Inl _ \<Rightarrow> False | Inr _ \<Rightarrow> True)"

lemma rbind_Inr_iff [result_dest]: "rbind m f = Inr y \<longleftrightarrow> (\<exists>x. m = Inr x \<and> f x = Inr y)"
  by (cases m) auto

lemma rbind_Inl_iff: "rbind m f = Inl e \<longleftrightarrow> m = Inl e \<or> (\<exists>x. m = Inr x \<and> f x = Inl e)"
  by (cases m) auto

lemma rbind_cong [fundef_cong]:
  "m = m' \<Longrightarrow> (\<And>x. m' = Inr x \<Longrightarrow> f x = g x) \<Longrightarrow> rbind m f = rbind m' g"
  by (cases m') auto

lemma fail_if_Inr_iff [simp, result_dest]: "fail_if c e = Inr u \<longleftrightarrow> \<not> c"
  by (simp add: fail_if_def)

lemma fail_if_Inl_iff [simp]: "fail_if c e = Inl e' \<longleftrightarrow> c \<and> e' = e"
  by (auto simp: fail_if_def)

lemma fail_if_False [simp, result_simps]: "fail_if False e = Inr ()"
  by (simp add: fail_if_def)

lemma fail_if_True [simp, result_simps]: "fail_if True e = Inl e"
  by (simp add: fail_if_def)

lemma rbind_fail_if: "rbind (fail_if c e) f = (if c then Inl e else f ())"
  by (simp add: fail_if_def)

lemma map_error_simps [simp]: "map_error f (Inl e) = Inl (f e)" "map_error f (Inr x) = Inr x"
  by (simp_all add: map_error_def)

lemma map_error_Inr_iff [simp, result_dest]: "map_error f m = Inr x \<longleftrightarrow> m = Inr x"
  by (cases m) simp_all

lemma is_ok_simps [simp]: "is_ok (Inl e) = False" "is_ok (Inr x) = True"
  by (simp_all add: is_ok_def)

lemma is_ok_iff: "is_ok m \<longleftrightarrow> (\<exists>x. m = Inr x)"
  by (cases m) auto

section \<open>Lists\<close>

lemma append_sep_eq_iff:
  "x \<notin> set a \<Longrightarrow> x \<notin> set b \<Longrightarrow> a @ x # r = b @ x # s \<longleftrightarrow> a = b \<and> r = s"
proof (induction a arbitrary: b)
  case Nil
  then show ?case by (cases b) auto
next
  case (Cons y a)
  then show ?case by (cases b) auto
qed

lemma takeWhile_sep [simp]: "x \<notin> set a \<Longrightarrow> takeWhile (\<lambda>c. c \<noteq> x) (a @ x # r) = a"
  by (induction a) auto

lemma dropWhile_sep [simp]: "x \<notin> set a \<Longrightarrow> dropWhile (\<lambda>c. c \<noteq> x) (a @ x # r) = x # r"
  by (induction a) auto

section \<open>Words and natural numbers\<close>

lemma unat_of_nat_u8: "n < 256 \<Longrightarrow> unat (of_nat n :: u8) = n"
  by (simp add: unat_of_nat take_bit_eq_mod)

lemma unat_of_nat_u16: "n < 65536 \<Longrightarrow> unat (of_nat n :: u16) = n"
  by (simp add: unat_of_nat take_bit_eq_mod)

lemma unat_of_nat_u32: "n < 4294967296 \<Longrightarrow> unat (of_nat n :: u32) = n"
  by (simp add: unat_of_nat take_bit_eq_mod)

lemma of_nat_eq_u8: "of_nat n = (b::u8) \<longleftrightarrow> n mod 256 = unat b"
  by (simp add: word_unat_eq_iff unat_of_nat take_bit_eq_mod)

lemma ucast_eq_of_nat: "ucast w = of_nat (unat w)"
  by simp

lemma u8_less_256: "unat (b::u8) < 256"
  using unsigned_less [where 'a = nat, of b] by simp

lemma u16_less: "unat (v::u16) < 65536"
  using unsigned_less [where 'a = nat, of v] by simp

lemma u32_less: "unat (v::u32) < 4294967296"
  using unsigned_less [where 'a = nat, of v] by simp

end
