(* ===== verification/Mqtt_Types.thy ===== *)
theory Mqtt_Types
  imports Flowie_Prelude
begin

text \<open>
  Data of the MQTT protocol component: the enumerations and borrowed views of
  \<open>protocol/include/flowie_mqtt_types.h\<close> and
  \<open>protocol/include/flowie_mqtt_protocol.h\<close>. A C enumeration whose values are read
  from the wire or compared with numbers is a 32-bit word with one name per
  enumerator; a status enumeration is a datatype whose \<open>OK\<close> value is \<open>Inr\<close>.
  The fields \<open>size\<close> and \<open>abi_version\<close> that every struct opens with, and the
  NULL checks on the struct pointers themselves, belong to the calling convention:
  the model takes structs of the current size and version.
\<close>

section \<open>Enumerations\<close>

type_synonym flowie_mqtt_version = u32

abbreviation (input) "FLOWIE_MQTT_VERSION_UNSPECIFIED \<equiv> (0::u32)"
abbreviation (input) "FLOWIE_MQTT_VERSION_3_1 \<equiv> (3::u32)"
abbreviation (input) "FLOWIE_MQTT_VERSION_3_1_1 \<equiv> (4::u32)"
abbreviation (input) "FLOWIE_MQTT_VERSION_5 \<equiv> (5::u32)"

definition flowie_mqtt_version_is_supported :: "flowie_mqtt_version \<Rightarrow> bool" where
  "flowie_mqtt_version_is_supported version \<longleftrightarrow>
     version = FLOWIE_MQTT_VERSION_3_1 \<or> version = FLOWIE_MQTT_VERSION_3_1_1 \<or>
     version = FLOWIE_MQTT_VERSION_5"

definition flowie_mqtt_version_is_3x :: "flowie_mqtt_version \<Rightarrow> bool" where
  "flowie_mqtt_version_is_3x version \<longleftrightarrow>
     version = FLOWIE_MQTT_VERSION_3_1 \<or> version = FLOWIE_MQTT_VERSION_3_1_1"

type_synonym flowie_mqtt_packet_type = u32

abbreviation (input) "FLOWIE_MQTT_PACKET_CONNECT \<equiv> (1::u32)"
abbreviation (input) "FLOWIE_MQTT_PACKET_CONNACK \<equiv> (2::u32)"
abbreviation (input) "FLOWIE_MQTT_PACKET_PUBLISH \<equiv> (3::u32)"
abbreviation (input) "FLOWIE_MQTT_PACKET_PUBACK \<equiv> (4::u32)"
abbreviation (input) "FLOWIE_MQTT_PACKET_PUBREC \<equiv> (5::u32)"
abbreviation (input) "FLOWIE_MQTT_PACKET_PUBREL \<equiv> (6::u32)"
abbreviation (input) "FLOWIE_MQTT_PACKET_PUBCOMP \<equiv> (7::u32)"
abbreviation (input) "FLOWIE_MQTT_PACKET_SUBSCRIBE \<equiv> (8::u32)"
abbreviation (input) "FLOWIE_MQTT_PACKET_SUBACK \<equiv> (9::u32)"
abbreviation (input) "FLOWIE_MQTT_PACKET_UNSUBSCRIBE \<equiv> (10::u32)"
abbreviation (input) "FLOWIE_MQTT_PACKET_UNSUBACK \<equiv> (11::u32)"
abbreviation (input) "FLOWIE_MQTT_PACKET_PINGREQ \<equiv> (12::u32)"
abbreviation (input) "FLOWIE_MQTT_PACKET_PINGRESP \<equiv> (13::u32)"
abbreviation (input) "FLOWIE_MQTT_PACKET_DISCONNECT \<equiv> (14::u32)"
abbreviation (input) "FLOWIE_MQTT_PACKET_AUTH \<equiv> (15::u32)"

datatype flowie_mqtt_parse_result =
    FLOWIE_MQTT_PARSE_NEED_MORE
  | FLOWIE_MQTT_PARSE_INVALID_ARGUMENT
  | FLOWIE_MQTT_PARSE_MALFORMED
  | FLOWIE_MQTT_PARSE_PROTOCOL_ERROR
  | FLOWIE_MQTT_PARSE_TOO_LARGE
  | FLOWIE_MQTT_PARSE_NO_MEMORY

type_synonym 'a parse = "flowie_mqtt_parse_result + 'a"

abbreviation (input) "FLOWIE_MQTT_MAX_REMAINING_LENGTH \<equiv> (268435455::nat)"
abbreviation (input) "FLOWIE_MQTT_MAX_WIRE_PACKET_SIZE \<equiv> (268435460::nat)"
abbreviation (input) "FLOWIE_MQTT_MAX_UTF8_SIZE \<equiv> (65535::nat)"

type_synonym flowie_mqtt_property_id = u32

abbreviation (input) "FLOWIE_MQTT_PROPERTY_PAYLOAD_FORMAT_INDICATOR \<equiv> (0x01::u32)"
abbreviation (input) "FLOWIE_MQTT_PROPERTY_MESSAGE_EXPIRY_INTERVAL \<equiv> (0x02::u32)"
abbreviation (input) "FLOWIE_MQTT_PROPERTY_CONTENT_TYPE \<equiv> (0x03::u32)"
abbreviation (input) "FLOWIE_MQTT_PROPERTY_RESPONSE_TOPIC \<equiv> (0x08::u32)"
abbreviation (input) "FLOWIE_MQTT_PROPERTY_CORRELATION_DATA \<equiv> (0x09::u32)"
abbreviation (input) "FLOWIE_MQTT_PROPERTY_SUBSCRIPTION_IDENTIFIER \<equiv> (0x0b::u32)"
abbreviation (input) "FLOWIE_MQTT_PROPERTY_SESSION_EXPIRY_INTERVAL \<equiv> (0x11::u32)"
abbreviation (input) "FLOWIE_MQTT_PROPERTY_ASSIGNED_CLIENT_IDENTIFIER \<equiv> (0x12::u32)"
abbreviation (input) "FLOWIE_MQTT_PROPERTY_SERVER_KEEP_ALIVE \<equiv> (0x13::u32)"
abbreviation (input) "FLOWIE_MQTT_PROPERTY_AUTHENTICATION_METHOD \<equiv> (0x15::u32)"
abbreviation (input) "FLOWIE_MQTT_PROPERTY_AUTHENTICATION_DATA \<equiv> (0x16::u32)"
abbreviation (input) "FLOWIE_MQTT_PROPERTY_REQUEST_PROBLEM_INFORMATION \<equiv> (0x17::u32)"
abbreviation (input) "FLOWIE_MQTT_PROPERTY_WILL_DELAY_INTERVAL \<equiv> (0x18::u32)"
abbreviation (input) "FLOWIE_MQTT_PROPERTY_REQUEST_RESPONSE_INFORMATION \<equiv> (0x19::u32)"
abbreviation (input) "FLOWIE_MQTT_PROPERTY_RESPONSE_INFORMATION \<equiv> (0x1a::u32)"
abbreviation (input) "FLOWIE_MQTT_PROPERTY_SERVER_REFERENCE \<equiv> (0x1c::u32)"
abbreviation (input) "FLOWIE_MQTT_PROPERTY_REASON_STRING \<equiv> (0x1f::u32)"
abbreviation (input) "FLOWIE_MQTT_PROPERTY_RECEIVE_MAXIMUM \<equiv> (0x21::u32)"
abbreviation (input) "FLOWIE_MQTT_PROPERTY_TOPIC_ALIAS_MAXIMUM \<equiv> (0x22::u32)"
abbreviation (input) "FLOWIE_MQTT_PROPERTY_TOPIC_ALIAS \<equiv> (0x23::u32)"
abbreviation (input) "FLOWIE_MQTT_PROPERTY_MAXIMUM_QOS \<equiv> (0x24::u32)"
abbreviation (input) "FLOWIE_MQTT_PROPERTY_RETAIN_AVAILABLE \<equiv> (0x25::u32)"
abbreviation (input) "FLOWIE_MQTT_PROPERTY_USER_PROPERTY \<equiv> (0x26::u32)"
abbreviation (input) "FLOWIE_MQTT_PROPERTY_MAXIMUM_PACKET_SIZE \<equiv> (0x27::u32)"
abbreviation (input) "FLOWIE_MQTT_PROPERTY_WILDCARD_SUBSCRIPTION_AVAILABLE \<equiv> (0x28::u32)"
abbreviation (input) "FLOWIE_MQTT_PROPERTY_SUBSCRIPTION_IDENTIFIER_AVAILABLE \<equiv> (0x29::u32)"
abbreviation (input) "FLOWIE_MQTT_PROPERTY_SHARED_SUBSCRIPTION_AVAILABLE \<equiv> (0x2a::u32)"

datatype flowie_mqtt_property_type =
    FLOWIE_MQTT_PROPERTY_BYTE
  | FLOWIE_MQTT_PROPERTY_UINT16
  | FLOWIE_MQTT_PROPERTY_UINT32
  | FLOWIE_MQTT_PROPERTY_VARIABLE_INTEGER
  | FLOWIE_MQTT_PROPERTY_UTF8
  | FLOWIE_MQTT_PROPERTY_BINARY
  | FLOWIE_MQTT_PROPERTY_UTF8_PAIR

section \<open>Views decoded from the wire\<close>

record flowie_mqtt_property_block_view =
  pb_encoded :: flowie_mqtt_span
  pb_values :: flowie_mqtt_span

record flowie_mqtt_packet_view =
  pv_version :: flowie_mqtt_version
  pv_type :: flowie_mqtt_packet_type
  pv_flags :: u8
  pv_remaining_length :: u32
  pv_fixed_header_size :: nat
  pv_packet :: flowie_mqtt_span
  pv_body :: flowie_mqtt_span

record flowie_mqtt_parse_options =
  po_version :: flowie_mqtt_version
  po_max_packet_size :: nat

record flowie_mqtt_parse_error =
  pe_code :: flowie_mqtt_parse_result
  pe_offset :: nat
  pe_message :: string

record flowie_mqtt_property_view =
  pr_identifier :: flowie_mqtt_property_id
  pr_type :: flowie_mqtt_property_type
  pr_integer :: u32
  pr_value :: flowie_mqtt_span
  pr_pair_value :: flowie_mqtt_span

record flowie_mqtt_connect_view =
  cv_version :: flowie_mqtt_version
  cv_clean_start :: u8
  cv_will_qos :: u8
  cv_will_retain :: u8
  cv_keep_alive :: u16
  cv_properties :: flowie_mqtt_property_block_view
  cv_client_id :: flowie_mqtt_span
  cv_will_properties :: flowie_mqtt_property_block_view
  cv_will_topic :: flowie_mqtt_span
  cv_will_payload :: flowie_mqtt_span
  cv_username :: flowie_mqtt_span
  cv_password :: flowie_mqtt_span

record flowie_mqtt_publish_view =
  pu_qos :: u8
  pu_retain :: u8
  pu_duplicate :: u8
  pu_packet_id :: u16
  pu_topic :: flowie_mqtt_span
  pu_properties :: flowie_mqtt_property_block_view
  pu_payload :: flowie_mqtt_span

record flowie_mqtt_subscription_view =
  sv_filter :: flowie_mqtt_span
  sv_qos :: u8
  sv_no_local :: u8
  sv_retain_as_published :: u8
  sv_retain_handling :: u8

record flowie_mqtt_subscribe_view =
  sb_packet_id :: u16
  sb_properties :: flowie_mqtt_property_block_view
  sb_entries :: flowie_mqtt_span
  sb_entry_count :: nat

record flowie_mqtt_unsubscribe_view =
  us_packet_id :: u16
  us_properties :: flowie_mqtt_property_block_view
  us_filters :: flowie_mqtt_span
  us_filter_count :: nat

record flowie_mqtt_control_packet_view =
  ct_version :: flowie_mqtt_version
  ct_type :: flowie_mqtt_packet_type
  ct_session_present :: u8
  ct_packet_id :: u16
  ct_reason_code :: u8
  ct_properties :: flowie_mqtt_property_block_view
  ct_reason_codes :: flowie_mqtt_span

section \<open>Descriptions given to the encoders\<close>

record flowie_mqtt_connect_packet =
  cp_version :: flowie_mqtt_version
  cp_clean_start :: u8
  cp_has_will :: u8
  cp_will_qos :: u8
  cp_will_retain :: u8
  cp_has_username :: u8
  cp_has_password :: u8
  cp_keep_alive :: u16
  cp_properties :: flowie_mqtt_span
  cp_client_id :: flowie_mqtt_span
  cp_will_properties :: flowie_mqtt_span
  cp_will_topic :: flowie_mqtt_span
  cp_will_payload :: flowie_mqtt_span
  cp_username :: flowie_mqtt_span
  cp_password :: flowie_mqtt_span

record flowie_mqtt_publish_packet =
  pp_version :: flowie_mqtt_version
  pp_qos :: u8
  pp_retain :: u8
  pp_duplicate :: u8
  pp_packet_id :: u16
  pp_topic :: flowie_mqtt_span
  pp_properties :: flowie_mqtt_span
  pp_payload :: flowie_mqtt_span

record flowie_mqtt_subscribe_packet =
  sp_version :: flowie_mqtt_version
  sp_packet_id :: u16
  sp_properties :: flowie_mqtt_span
  sp_subscriptions :: "flowie_mqtt_subscription_view list"

record flowie_mqtt_unsubscribe_packet =
  up_version :: flowie_mqtt_version
  up_packet_id :: u16
  up_properties :: flowie_mqtt_span
  up_filters :: "flowie_mqtt_span list"

record flowie_mqtt_control_packet =
  kp_version :: flowie_mqtt_version
  kp_type :: flowie_mqtt_packet_type
  kp_session_present :: u8
  kp_packet_id :: u16
  kp_reason_code :: u8
  kp_properties :: flowie_mqtt_span
  kp_reason_codes :: flowie_mqtt_span

lemma version_supported_cases:
  assumes "flowie_mqtt_version_is_supported v"
  obtains "v = FLOWIE_MQTT_VERSION_3_1" | "v = FLOWIE_MQTT_VERSION_3_1_1" | "v = FLOWIE_MQTT_VERSION_5"
  using assms by (auto simp: flowie_mqtt_version_is_supported_def)

lemma version_3x_iff:
  "flowie_mqtt_version_is_supported v \<Longrightarrow>
     flowie_mqtt_version_is_3x v \<longleftrightarrow> v \<noteq> FLOWIE_MQTT_VERSION_5"
  by (auto simp: flowie_mqtt_version_is_supported_def flowie_mqtt_version_is_3x_def)

end
