(* ===== verification/Mqtt_Text.thy ===== *)
theory Mqtt_Text
  imports Mqtt_Types
begin

text \<open>
  Text rules of MQTT: UTF-8 validation, topic names, topic filters and topic matching,
  from \<open>protocol/parser/flowie_mqtt_lexer.re\<close>. The code walks byte arrays with
  indices; the model walks the remaining bytes. The UTF-8 decoder \<open>vstr_utf8_next\<close>
  belongs to the Salts library, so it is the parameter \<open>un\<close> of every definition that
  reaches it: \<open>un bs = Some (c, rest)\<close> when it decodes the code point \<open>c\<close> at the
  front of \<open>bs\<close> and leaves \<open>rest\<close>, and \<open>None\<close> when it rejects the input.
\<close>

section \<open>UTF-8 validation\<close>

type_synonym utf8_next = "bytes \<Rightarrow> (u32 \<times> bytes) option"

definition flowie_mqtt_noncharacter :: "u32 \<Rightarrow> bool" where
  "flowie_mqtt_noncharacter codepoint \<longleftrightarrow>
     (codepoint \<ge> 0xfdd0 \<and> codepoint \<le> 0xfdef) \<or> (codepoint AND 0xfffe) = 0xfffe"

text \<open>
  The loop runs until the decoder has consumed everything. The decoder's contract is
  that it advances whenever it succeeds; \<open>utf8_progress\<close> names it, and
  \<open>utf8_loop_unfold\<close> below shows that under it the length test of the model, which
  only serves termination, is never the reason for a rejection.
\<close>

definition utf8_progress :: "utf8_next \<Rightarrow> bool" where
  "utf8_progress un \<longleftrightarrow> (\<forall>bs c rest. un bs = Some (c, rest) \<longrightarrow> length rest < length bs)"

function utf8_loop :: "utf8_next \<Rightarrow> bytes \<Rightarrow> bool" where
  "utf8_loop un rest =
     (if rest = [] then True
      else case un rest of
             None \<Rightarrow> False
           | Some (codepoint, rest') \<Rightarrow>
               if codepoint = 0 \<or> flowie_mqtt_noncharacter codepoint then False
               else if length rest' < length rest then utf8_loop un rest' else False)"
  by pat_completeness auto
termination
  by (relation "measure (\<lambda>(un, rest). length rest)") auto

declare utf8_loop.simps [simp del]

definition flowie_mqtt_utf8_validate :: "utf8_next \<Rightarrow> flowie_mqtt_span \<Rightarrow> bool" where
  "flowie_mqtt_utf8_validate un value \<longleftrightarrow>
     \<not> (span_null value \<and> span_size value \<noteq> 0) \<and> utf8_loop un (span_bytes value)"

section \<open>Topic names and filters\<close>

abbreviation (input) "ch_slash \<equiv> (0x2f::u8)"
abbreviation (input) "ch_plus \<equiv> (0x2b::u8)"
abbreviation (input) "ch_hash \<equiv> (0x23::u8)"
abbreviation (input) "ch_dollar \<equiv> (0x24::u8)"

definition flowie_mqtt_topic_name_validate :: "utf8_next \<Rightarrow> flowie_mqtt_span \<Rightarrow> bool" where
  "flowie_mqtt_topic_name_validate un topic \<longleftrightarrow>
     \<not> (span_null topic \<or> span_size topic = 0 \<or> span_size topic > FLOWIE_MQTT_MAX_UTF8_SIZE \<or>
        \<not> flowie_mqtt_utf8_validate un topic) \<and>
     (\<forall>c \<in> set (span_bytes topic). \<not> (c = ch_plus \<or> c = ch_hash))"

text \<open>The prefix \<open>$share/\<close> of a shared subscription.\<close>

definition share_prefix :: bytes where
  "share_prefix = [0x24, 0x73, 0x68, 0x61, 0x72, 0x65, 0x2f]"

text \<open>
  The group scan of \<open>flowie_mqtt_shared_filter\<close>: \<open>None\<close> when the group holds a
  wildcard, else the bytes from the first slash on (empty when there is none).
\<close>

fun share_group_scan :: "bytes \<Rightarrow> bytes option" where
  "share_group_scan [] = Some []"
| "share_group_scan (c # cs) =
     (if c = ch_slash then Some (c # cs)
      else if c = ch_plus \<or> c = ch_hash then None
      else share_group_scan cs)"

definition flowie_mqtt_shared_filter :: "bytes \<Rightarrow> bytes option" where
  "flowie_mqtt_shared_filter flt =
     (if length flt < length share_prefix \<or> take (length share_prefix) flt \<noteq> share_prefix
      then Some flt
      else let group = drop (length share_prefix) flt in
           case share_group_scan group of
             None \<Rightarrow> None
           | Some tail \<Rightarrow>
               if length tail = length group \<or> tail = [] \<or> length tail = 1 then None
               else Some (tl tail))"

fun topic_filter_scan :: "nat \<Rightarrow> nat \<Rightarrow> bytes \<Rightarrow> bool" where
  "topic_filter_scan i level_start [] = True"
| "topic_filter_scan i level_start (ch # cs) =
     (if ch = ch_slash then topic_filter_scan (i + 1) (i + 1) cs
      else if ch = ch_hash then
        (if i \<noteq> level_start \<or> cs \<noteq> [] then False else topic_filter_scan (i + 1) level_start cs)
      else if ch = ch_plus then
        (if i \<noteq> level_start \<or> (cs \<noteq> [] \<and> hd cs \<noteq> ch_slash) then False
         else topic_filter_scan (i + 1) level_start cs)
      else topic_filter_scan (i + 1) level_start cs)"

definition flowie_mqtt_topic_filter_validate :: "utf8_next \<Rightarrow> flowie_mqtt_span \<Rightarrow> bool" where
  "flowie_mqtt_topic_filter_validate un flt \<longleftrightarrow>
     \<not> (span_null flt \<or> span_size flt = 0 \<or> span_size flt > FLOWIE_MQTT_MAX_UTF8_SIZE \<or>
        \<not> flowie_mqtt_utf8_validate un flt) \<and>
     (case flowie_mqtt_shared_filter (span_bytes flt) of
        None \<Rightarrow> False
      | Some effective \<Rightarrow> topic_filter_scan 0 0 effective)"

section \<open>Matching\<close>

text \<open>
  \<open>flowie_mqtt_next_level\<close> cuts one level off: the level, whether a slash follows, and
  the bytes after that slash (the empty rest when there is none).
\<close>

definition flowie_mqtt_next_level :: "bytes \<Rightarrow> bytes \<times> bool \<times> bytes" where
  "flowie_mqtt_next_level value =
     (let level = takeWhile (\<lambda>c. c \<noteq> ch_slash) value;
          rest = dropWhile (\<lambda>c. c \<noteq> ch_slash) value
      in (level, rest \<noteq> [], tl rest))"

lemma next_level_shorter:
  assumes "flowie_mqtt_next_level bs = (level, True, rest)"
  shows "length rest < length bs"
proof -
  have "dropWhile (\<lambda>c. c \<noteq> ch_slash) bs \<noteq> []" and "rest = tl (dropWhile (\<lambda>c. c \<noteq> ch_slash) bs)"
    using assms by (auto simp: flowie_mqtt_next_level_def Let_def)
  then show ?thesis
    using length_dropWhile_le [of "\<lambda>c. c \<noteq> ch_slash" bs]
    by (cases "dropWhile (\<lambda>c. c \<noteq> ch_slash) bs") auto
qed

function topic_match_loop :: "bytes \<Rightarrow> bytes \<Rightarrow> bool \<Rightarrow> bool" where
  "topic_match_loop flt topic topic_available =
     (case flowie_mqtt_next_level flt of (filter_level, filter_more, filter_rest) \<Rightarrow>
        if filter_level = [ch_hash] then True
        else if \<not> topic_available then False
        else case flowie_mqtt_next_level topic of (topic_level, topic_more, topic_rest) \<Rightarrow>
          if filter_level \<noteq> [ch_plus] \<and> filter_level \<noteq> topic_level then False
          else if \<not> filter_more then \<not> topic_more
          else topic_match_loop filter_rest topic_rest topic_more)"
  by pat_completeness auto
termination
  by (relation "measure (\<lambda>(flt, topic, topic_available). length flt)")
     (auto dest: next_level_shorter [OF sym])

declare topic_match_loop.simps [simp del]

definition flowie_mqtt_topic_matches ::
    "utf8_next \<Rightarrow> flowie_mqtt_span \<Rightarrow> flowie_mqtt_span \<Rightarrow> bool parse" where
  "flowie_mqtt_topic_matches un flt topic =
     (if \<not> flowie_mqtt_topic_filter_validate un flt \<or> \<not> flowie_mqtt_topic_name_validate un topic
      then Inl FLOWIE_MQTT_PARSE_PROTOCOL_ERROR
      else case flowie_mqtt_shared_filter (span_bytes flt) of
             None \<Rightarrow> Inl FLOWIE_MQTT_PARSE_PROTOCOL_ERROR
           | Some effective \<Rightarrow>
               if hd (span_bytes topic) = ch_dollar \<and>
                  (hd effective = ch_plus \<or> hd effective = ch_hash)
               then Inr False
               else Inr (topic_match_loop effective (span_bytes topic) True))"


section \<open>What the scans compute\<close>

text \<open>
  The specification works on the list of levels of a filter or topic. It says nothing
  about offsets: a filter is well-formed when a wildcard stands alone in its level and
  the multi-level wildcard is the last level, and it matches a topic level by level.
\<close>

fun split_levels :: "bytes \<Rightarrow> bytes list" where
  "split_levels [] = [[]]"
| "split_levels (c # cs) =
     (if c = ch_slash then [] # split_levels cs
      else (c # hd (split_levels cs)) # tl (split_levels cs))"

definition filter_levels_ok :: "bytes list \<Rightarrow> bool" where
  "filter_levels_ok fs \<longleftrightarrow>
     (\<forall>i < length fs.
        (ch_hash \<in> set (fs ! i) \<longrightarrow> fs ! i = [ch_hash] \<and> i = length fs - 1) \<and>
        (ch_plus \<in> set (fs ! i) \<longrightarrow> fs ! i = [ch_plus]))"

definition level_ok :: "bytes \<Rightarrow> bytes \<Rightarrow> bool" where
  "level_ok f t \<longleftrightarrow> f = [ch_plus] \<or> f = t"

definition levels_match :: "bytes list \<Rightarrow> bytes list \<Rightarrow> bool" where
  "levels_match fs ts \<longleftrightarrow>
     (if fs \<noteq> [] \<and> last fs = [ch_hash]
      then length fs \<le> length ts + 1 \<and> list_all2 level_ok (butlast fs) (take (length fs - 1) ts)
      else list_all2 level_ok fs ts)"

lemma split_levels_not_Nil [simp]: "split_levels bs \<noteq> []"
  by (cases bs) auto

lemma next_level_split:
  "flowie_mqtt_next_level bs = (level, slash, rest) \<Longrightarrow>
     split_levels bs = level # (if slash then split_levels rest else [])"
proof (induction bs arbitrary: level)
  case Nil
  then show ?case by (simp add: flowie_mqtt_next_level_def)
next
  case (Cons c cs)
  show ?case
  proof (cases "c = ch_slash")
    case True
    then show ?thesis using Cons.prems by (auto simp: flowie_mqtt_next_level_def)
  next
    case False
    then obtain level' where "flowie_mqtt_next_level cs = (level', slash, rest)" "level = c # level'"
      using Cons.prems by (auto simp: flowie_mqtt_next_level_def Let_def)
    with Cons.IH False show ?thesis by simp
  qed
qed

lemma filter_levels_ok_Cons:
  "filter_levels_ok (l # ls) \<longleftrightarrow>
     (ch_hash \<in> set l \<longrightarrow> l = [ch_hash] \<and> ls = []) \<and> (ch_plus \<in> set l \<longrightarrow> l = [ch_plus]) \<and>
     filter_levels_ok ls"
proof -
  have "Suc i = length ls \<longleftrightarrow> i = length ls - Suc 0" if "i < length ls" for i
    using that by arith
  then show ?thesis
    unfolding filter_levels_ok_def by (auto simp: All_less_Suc2)
qed

lemma topic_filter_scan_levels:
  "topic_filter_scan i i cs = filter_levels_ok (split_levels cs) \<and>
   (\<forall>start < i. topic_filter_scan i start cs =
      (ch_hash \<notin> set (hd (split_levels cs)) \<and> ch_plus \<notin> set (hd (split_levels cs)) \<and>
       filter_levels_ok (tl (split_levels cs))))"
proof (induction cs arbitrary: i)
  case Nil
  then show ?case by (simp add: filter_levels_ok_Cons) (simp add: filter_levels_ok_def)
next
  case (Cons c cs)
  obtain l ls where split: "split_levels cs = l # ls"
    by (cases "split_levels cs") auto
  have "hd cs = ch_slash \<and> cs \<noteq> [] \<or> cs = [] \<longleftrightarrow> l = []"
    using split by (cases cs) (auto split: if_splits)
  then show ?case
    using Cons.IH [of "i + 1"] split
    by (cases cs) (auto simp: filter_levels_ok_Cons)
qed

lemma levels_match_Cons:
  "f \<noteq> [ch_hash] \<Longrightarrow> levels_match (f # fs) (t # ts) \<longleftrightarrow> level_ok f t \<and> levels_match fs ts"
  by (cases fs) (auto simp: levels_match_def)

lemma levels_match_Nil_right:
  "f \<noteq> [ch_hash] \<Longrightarrow> \<not> levels_match (f # fs) []"
  by (cases fs) (auto simp: levels_match_def)

lemma levels_match_Nil: "levels_match [] ts \<longleftrightarrow> ts = []"
  by (simp add: levels_match_def)

lemma levels_match_hash: "levels_match [[ch_hash]] ts"
  by (simp add: levels_match_def)

lemma topic_match_loop_levels:
  assumes "filter_levels_ok (split_levels flt)"
  shows "topic_match_loop flt topic available =
           levels_match (split_levels flt) (if available then split_levels topic else [])"
  using assms
proof (induction flt topic available rule: topic_match_loop.induct)
  case (1 flt topic available)
  obtain f fmore frest where f: "flowie_mqtt_next_level flt = (f, fmore, frest)"
    by (cases "flowie_mqtt_next_level flt") auto
  obtain t tmore trest where t: "flowie_mqtt_next_level topic = (t, tmore, trest)"
    by (cases "flowie_mqtt_next_level topic") auto
  note fs = next_level_split [OF f] and ts = next_level_split [OF t]
  note loop = topic_match_loop.simps [of flt topic available]
  show ?case
  proof (cases "f = [ch_hash] \<or> \<not> available")
    case True
    then have "topic_match_loop flt topic available \<longleftrightarrow> f = [ch_hash]"
      by (subst loop) (auto simp: f)
    moreover have "f = [ch_hash] \<Longrightarrow> \<not> fmore"
      using "1.prems" by (simp add: fs filter_levels_ok_Cons split: if_splits)
    ultimately show ?thesis
      using True by (cases "f = [ch_hash]") (simp_all add: fs levels_match_hash levels_match_Nil_right)
  next
    case False
    have ok: "filter_levels_ok (split_levels frest)" if fmore
      using "1.prems" fs that by (simp add: filter_levels_ok_Cons)
    have rec: "topic_match_loop frest trest tmore =
        levels_match (split_levels frest) (if tmore then split_levels trest else [])"
      if "\<not> (f \<noteq> [ch_plus] \<and> f \<noteq> t)" fmore
      using "1.IH" [OF f [symmetric] refl _ _ t [symmetric] refl that(1)] False that ok by simp
    have "levels_match (split_levels flt) (split_levels topic) \<longleftrightarrow>
        level_ok f t \<and> levels_match (if fmore then split_levels frest else [])
                                    (if tmore then split_levels trest else [])"
      using False by (simp add: fs ts levels_match_Cons)
    moreover have "topic_match_loop flt topic available \<longleftrightarrow>
        level_ok f t \<and> (if fmore then topic_match_loop frest trest tmore else \<not> tmore)"
      using False by (subst loop) (simp add: f t level_ok_def)
    ultimately show ?thesis
      using False rec by (auto simp: level_ok_def levels_match_Nil)
  qed
qed

lemma share_group_scan_Some:
  "share_group_scan gs = Some tail \<longleftrightarrow>
     (\<exists>g. gs = g @ tail \<and> set g \<inter> {ch_slash, ch_plus, ch_hash} = {} \<and>
          (tail = [] \<or> hd tail = ch_slash))"
proof (induction gs)
  case Nil
  then show ?case by auto
next
  case (Cons c cs)
  show ?case
  proof (cases "c \<in> {ch_slash, ch_plus, ch_hash}")
    case True
    then show ?thesis by (auto simp: Cons_eq_append_conv)
  next
    case False
    then show ?thesis using Cons.IH by (auto simp: Cons_eq_append_conv)
  qed
qed

text \<open>What a shared subscription's effective filter is, as a relation.\<close>

definition effective_filter :: "bytes \<Rightarrow> bytes \<Rightarrow> bool" where
  "effective_filter bs e \<longleftrightarrow>
     (\<exists>g. bs = share_prefix @ g @ ch_slash # e \<and> g \<noteq> [] \<and> e \<noteq> [] \<and>
          set g \<inter> {ch_slash, ch_plus, ch_hash} = {}) \<or>
     (\<not> (\<exists>r. bs = share_prefix @ r) \<and> e = bs)"

lemma shared_filter_effective:
  "flowie_mqtt_shared_filter bs = Some e \<longleftrightarrow> effective_filter bs e"
proof (cases "\<exists>r. bs = share_prefix @ r")
  case False
  then have "take (length share_prefix) bs \<noteq> share_prefix"
    by (metis append_take_drop_id)
  with False show ?thesis
    by (auto simp: flowie_mqtt_shared_filter_def effective_filter_def)
next
  case True
  then obtain r where bs: "bs = share_prefix @ r" by blast
  have "flowie_mqtt_shared_filter bs = Some e \<longleftrightarrow>
      (\<exists>tail. share_group_scan r = Some tail \<and> length tail \<noteq> length r \<and> length tail > 1 \<and> e = tl tail)"
    unfolding flowie_mqtt_shared_filter_def bs
    by (cases "share_group_scan r") (auto simp: Let_def neq_Nil_conv)
  also have "\<dots> \<longleftrightarrow> (\<exists>g. r = g @ ch_slash # e \<and> g \<noteq> [] \<and> e \<noteq> [] \<and>
      set g \<inter> {ch_slash, ch_plus, ch_hash} = {})" (is "?L \<longleftrightarrow> ?R")
  proof
    assume ?L
    then obtain g tail where g: "r = g @ tail" "set g \<inter> {ch_slash, ch_plus, ch_hash} = {}"
        "hd tail = ch_slash" "length tail \<noteq> length r" "length tail > 1" "e = tl tail"
      unfolding share_group_scan_Some by force
    then have "tail = ch_slash # e" "e \<noteq> []" "g \<noteq> []"
      by (cases tail; force)+
    with g show ?R by blast
  next
    assume ?R
    then obtain g where g: "r = g @ ch_slash # e" "g \<noteq> []" "e \<noteq> []"
        "set g \<inter> {ch_slash, ch_plus, ch_hash} = {}" by blast
    then have "share_group_scan r = Some (ch_slash # e)"
      unfolding share_group_scan_Some by (intro exI [of _ g]) simp
    with g show ?L by auto
  qed
  finally show ?thesis
    using bs by (auto simp: effective_filter_def)
qed

lemma effective_filter_nonempty: "bs \<noteq> [] \<Longrightarrow> effective_filter bs e \<Longrightarrow> e \<noteq> []"
  by (auto simp: effective_filter_def)

lemma topic_filter_validate_Span:
  "flowie_mqtt_topic_filter_validate un (Span bs) \<longleftrightarrow>
     bs \<noteq> [] \<and> length bs \<le> FLOWIE_MQTT_MAX_UTF8_SIZE \<and> utf8_loop un bs \<and>
     (\<exists>e. effective_filter bs e \<and> filter_levels_ok (split_levels e))"
  using topic_filter_scan_levels [of 0]
  by (cases "flowie_mqtt_shared_filter bs")
     (auto simp: flowie_mqtt_topic_filter_validate_def flowie_mqtt_utf8_validate_def
       shared_filter_effective [symmetric])

lemma topic_filter_validate_NullSpan [simp]:
  "\<not> flowie_mqtt_topic_filter_validate un (NullSpan n)"
  by (simp add: flowie_mqtt_topic_filter_validate_def)

section \<open>UTF-8 text\<close>

text \<open>What it means that the decoder reads a byte sequence as a sequence of code points.\<close>

inductive utf8_decodes :: "utf8_next \<Rightarrow> bytes \<Rightarrow> u32 list \<Rightarrow> bool" for un where
  finished: "utf8_decodes un [] []"
| advance: "bs \<noteq> [] \<Longrightarrow> un bs = Some (c, rest) \<Longrightarrow> utf8_decodes un rest cs \<Longrightarrow>
           utf8_decodes un bs (c # cs)"

inductive_simps utf8_decodes_Nil: "utf8_decodes un [] cs"

inductive_cases utf8_decodes_Cons: "utf8_decodes un (b # bs) cs"

definition code_point_ok :: "u32 \<Rightarrow> bool" where
  "code_point_ok c \<longleftrightarrow>
     c \<noteq> 0 \<and> \<not> (0xfdd0 \<le> c \<and> c \<le> 0xfdef) \<and> unat c mod 0x10000 < 0xfffe"

lemma noncharacter_low_bits: "(c::u32) AND 0xfffe = 0xfffe \<longleftrightarrow> 65534 \<le> unat c mod 65536"
proof -
  have m: "(32767::nat) = mask 15" by (simp add: mask_eq_exp_minus_1)
  have "n AND 32767 = n mod 32768" for n :: nat
    unfolding m take_bit_eq_mask [symmetric] by (simp add: take_bit_eq_mod)
  then have "unat c AND 65534 = 2 * (unat c div 2 mod 32768)"
    by (subst and_rec) simp
  then have "unat (c AND 0xfffe) = 2 * (unat c div 2 mod 32768)"
    by (simp add: unsigned_and_eq)
  moreover have "unat c mod 65536 = 2 * (unat c div 2 mod 32768) + unat c mod 2"
    using mod_mult2_eq [of "unat c" 2 32768] by simp
  moreover have "unat c mod 2 < 2" "unat c mod 65536 < 65536" by simp_all
  ultimately show ?thesis
    unfolding word_unat_eq_iff by (simp del: mod_less_divisor) arith
qed

lemma code_point_ok_iff: "code_point_ok c \<longleftrightarrow> c \<noteq> 0 \<and> \<not> flowie_mqtt_noncharacter c"
  by (auto simp: code_point_ok_def flowie_mqtt_noncharacter_def noncharacter_low_bits)

lemma utf8_loop_unfold:
  assumes "utf8_progress un"
  shows "utf8_loop un rest \<longleftrightarrow>
           rest = [] \<or> (\<exists>c rest'. un rest = Some (c, rest') \<and> code_point_ok c \<and> utf8_loop un rest')"
  using assms
  by (subst utf8_loop.simps)
     (auto simp: utf8_progress_def code_point_ok_iff split: option.splits)

lemma utf8_loop_decodes:
  assumes "utf8_progress un"
  shows "utf8_loop un bs \<longleftrightarrow> (\<exists>cs. utf8_decodes un bs cs \<and> (\<forall>c \<in> set cs. code_point_ok c))"
proof (induction "length bs" arbitrary: bs rule: less_induct)
  case less
  show ?case
  proof (cases bs)
    case Nil
    then show ?thesis by (simp add: utf8_decodes_Nil utf8_loop.simps)
  next
    case (Cons b bs')
    have IH: "utf8_loop un rest \<longleftrightarrow>
        (\<exists>cs. utf8_decodes un rest cs \<and> (\<forall>c \<in> set cs. code_point_ok c))"
      if "un bs = Some (c, rest)" for c rest
      using assms that by (intro less) (auto simp: utf8_progress_def)
    show ?thesis
      unfolding utf8_loop_unfold [OF assms, of bs]
      using IH Cons by (force elim: utf8_decodes_Cons intro: utf8_decodes.advance)
  qed
qed

text \<open>
  A decoder that follows RFC 3629: it rejects stray continuation bytes, overlong forms,
  surrogates and code points above 10FFFF. It serves as the concrete instance of the
  parameter \<open>un\<close>.
\<close>

definition continuation :: "u8 \<Rightarrow> bool" where
  "continuation b \<longleftrightarrow> 0x80 \<le> b \<and> b < 0xc0"

definition rfc3629_next :: utf8_next where
  "rfc3629_next bs =
     (case bs of
        [] \<Rightarrow> None
      | b0 # r \<Rightarrow>
          if b0 < 0x80 then Some (ucast b0, r)
          else case r of
            [] \<Rightarrow> None
          | b1 # r1 \<Rightarrow>
              if \<not> continuation b1 then None
              else if 0xc2 \<le> b0 \<and> b0 < 0xe0
              then Some ((ucast b0 - 0xc0) * 64 + (ucast b1 - 0x80), r1)
              else case r1 of
                [] \<Rightarrow> None
              | b2 # r2 \<Rightarrow>
                  if \<not> continuation b2 then None
                  else if 0xe0 \<le> b0 \<and> b0 < 0xf0
                  then if (b0 = 0xe0 \<and> b1 < 0xa0) \<or> (b0 = 0xed \<and> 0xa0 \<le> b1) then None
                       else Some ((ucast b0 - 0xe0) * 4096 + (ucast b1 - 0x80) * 64 +
                                  (ucast b2 - 0x80), r2)
                  else case r2 of
                    [] \<Rightarrow> None
                  | b3 # r3 \<Rightarrow>
                      if \<not> continuation b3 \<or> b0 < 0xf0 \<or> 0xf4 < b0 \<or>
                         (b0 = 0xf0 \<and> b1 < 0x90) \<or> (b0 = 0xf4 \<and> 0x90 \<le> b1) then None
                      else Some ((ucast b0 - 0xf0) * 262144 + (ucast b1 - 0x80) * 4096 +
                                 (ucast b2 - 0x80) * 64 + (ucast b3 - 0x80), r3))"

lemma sample_topic_ok:
  "flowie_mqtt_utf8_validate rfc3629_next (Span [0x61])"
  "flowie_mqtt_topic_name_validate rfc3629_next (Span [0x61])"
  "flowie_mqtt_topic_filter_validate rfc3629_next (Span [0x61])"
proof -
  have loop: "utf8_loop rfc3629_next [0x61]" by code_simp
  then show "flowie_mqtt_utf8_validate rfc3629_next (Span [0x61])"
      "flowie_mqtt_topic_name_validate rfc3629_next (Span [0x61])"
      "flowie_mqtt_topic_filter_validate rfc3629_next (Span [0x61])"
    by (simp_all add: flowie_mqtt_utf8_validate_def flowie_mqtt_topic_name_validate_def
        flowie_mqtt_topic_filter_validate_def flowie_mqtt_shared_filter_def share_prefix_def)
qed

lemma rfc3629_progress: "utf8_progress rfc3629_next"
  by (auto simp: utf8_progress_def rfc3629_next_def Let_def split: list.splits if_splits)

section \<open>Properties\<close>

text \<open>C1: matching agrees with the level-by-level specification. Whatever the decoder
  accepts, \<open>flowie_mqtt_topic_matches\<close> reports a protocol error exactly when the
  filter or the topic name is invalid; otherwise it answers whether the levels of the
  effective filter (the part after \<open>$share/group/\<close>) match the levels of the topic,
  except that a filter that starts with a wildcard never matches a topic that starts
  with a dollar sign.\<close>

theorem topic_matches_spec:
  "flowie_mqtt_topic_matches un (Span bs) (Span ts) =
     (if flowie_mqtt_topic_filter_validate un (Span bs) \<and> flowie_mqtt_topic_name_validate un (Span ts)
      then Inr (\<exists>e. effective_filter bs e \<and>
                    \<not> (hd ts = ch_dollar \<and> hd e \<in> {ch_plus, ch_hash}) \<and>
                    levels_match (split_levels e) (split_levels ts))
      else Inl FLOWIE_MQTT_PARSE_PROTOCOL_ERROR)"
proof (cases "flowie_mqtt_shared_filter bs")
  case None
  then show ?thesis
    by (auto simp: flowie_mqtt_topic_matches_def flowie_mqtt_topic_filter_validate_def)
next
  case (Some e)
  then have "effective_filter bs e' \<longleftrightarrow> e' = e" for e'
    by (auto simp: shared_filter_effective [symmetric])
  then show ?thesis
    using Some topic_match_loop_levels [of e ts True]
    by (auto simp: flowie_mqtt_topic_matches_def topic_filter_validate_Span)
qed

text \<open>C2: a filter is accepted exactly when it is a non-empty string of at most 65535
  bytes of valid text whose effective part obeys the wildcard rules: a wildcard stands
  alone in its level, the multi-level wildcard is the last level, and a shared
  subscription has a non-empty group without wildcards and a non-empty filter.\<close>

theorem topic_filter_validate_spec:
  "flowie_mqtt_topic_filter_validate un f \<longleftrightarrow>
     (\<exists>bs e. f = Span bs \<and> bs \<noteq> [] \<and> length bs \<le> FLOWIE_MQTT_MAX_UTF8_SIZE \<and> utf8_loop un bs \<and>
             effective_filter bs e \<and> filter_levels_ok (split_levels e))"
  by (cases f) (auto simp: topic_filter_validate_Span)

text \<open>C3: for a decoder that always advances, text is accepted exactly when the decoder
  reads all of it and no code point is NUL or one of the noncharacters (FDD0 to FDEF and
  the last two of every plane).\<close>

theorem utf8_validate_spec:
  assumes "utf8_progress un"
  shows "flowie_mqtt_utf8_validate un (Span bs) \<longleftrightarrow>
           (\<exists>cs. utf8_decodes un bs cs \<and> (\<forall>c \<in> set cs. code_point_ok c))"
  using utf8_loop_decodes [OF assms] by (simp add: flowie_mqtt_utf8_validate_def)

theorem utf8_validate_spec_witness:
  "utf8_progress rfc3629_next \<and>
   (\<exists>cs. utf8_decodes rfc3629_next [0x66, 0xc3, 0xa9] cs \<and> (\<forall>c \<in> set cs. code_point_ok c)) \<and>
   \<not> (\<exists>cs. utf8_decodes rfc3629_next [0xef, 0xbf, 0xbf] cs \<and> (\<forall>c \<in> set cs. code_point_ok c))"
proof -
  have "flowie_mqtt_utf8_validate rfc3629_next (Span [0x66, 0xc3, 0xa9])"
    by code_simp
  moreover have "\<not> flowie_mqtt_utf8_validate rfc3629_next (Span [0xef, 0xbf, 0xbf])"
    by code_simp
  ultimately show ?thesis
    using rfc3629_progress utf8_validate_spec [OF rfc3629_progress] by simp
qed

end
