(* ===== verification/Mqtt_Wire.thy ===== *)
theory Mqtt_Wire
  imports Mqtt_Text
begin

text \<open>
  Wire primitives of \<open>protocol/src/flowie_mqtt_packet_views.c\<close>: big-endian integers,
  the variable byte integer and the length-prefixed string, each read by the parsers and
  written by the encoders. A reader takes the bytes between its cursor and its limit and
  returns what is left; a writer returns the bytes it stores at the output offset.
\<close>

section \<open>Readers\<close>

definition flowie_mqtt_read_u16 :: "bytes \<Rightarrow> u16" where
  "flowie_mqtt_read_u16 bs = push_bit 8 (ucast (bs ! 0)) OR ucast (bs ! 1)"

definition flowie_mqtt_read_u32 :: "bytes \<Rightarrow> u32" where
  "flowie_mqtt_read_u32 bs =
     push_bit 24 (ucast (bs ! 0)) OR push_bit 16 (ucast (bs ! 1)) OR push_bit 8 (ucast (bs ! 2)) OR
     ucast (bs ! 3)"

text \<open>
  The loop of the variable byte integer. The lexer has its own copy of the same loop for
  the Remaining Length, so both call this definition. It returns the value, the number
  of bytes read and the rest.
\<close>

fun vbi_loop :: "nat \<Rightarrow> u32 \<Rightarrow> u32 \<Rightarrow> bytes \<Rightarrow> (u32 \<times> nat \<times> bytes) parse" where
  "vbi_loop offset result multiplier [] = Inl FLOWIE_MQTT_PARSE_NEED_MORE"
| "vbi_loop offset result multiplier (byte # rest) =
     (if offset = 4 then Inl FLOWIE_MQTT_PARSE_MALFORMED
      else let result' = result + ucast (byte AND 0x7f) * multiplier;
               multiplier' = multiplier * 128;
               offset' = offset + 1
           in if byte AND 0x80 \<noteq> 0 then vbi_loop offset' result' multiplier' rest
              else if offset' > 1 \<and> byte = 0 then Inl FLOWIE_MQTT_PARSE_MALFORMED
              else Inr (result', offset', rest))"

definition flowie_mqtt_vbi :: "flowie_mqtt_span \<Rightarrow> (u32 \<times> nat) parse" where
  "flowie_mqtt_vbi bytes =
     (if span_null bytes \<and> span_size bytes \<noteq> 0 then Inl FLOWIE_MQTT_PARSE_INVALID_ARGUMENT
      else rbind (vbi_loop 0 0 1 (span_bytes bytes)) (\<lambda>(value, consumed, rest). Inr (value, consumed)))"

definition flowie_mqtt_length_span ::
    "utf8_next \<Rightarrow> bytes \<Rightarrow> bool \<Rightarrow> (flowie_mqtt_span \<times> bytes) parse" where
  "flowie_mqtt_length_span un cursor utf8 =
     (if length cursor < 2 then Inl FLOWIE_MQTT_PARSE_MALFORMED
      else let len = unat (flowie_mqtt_read_u16 cursor); cursor = drop 2 cursor in
      if length cursor < len then Inl FLOWIE_MQTT_PARSE_MALFORMED
      else let out = Span (take len cursor) in
      if utf8 \<and> \<not> flowie_mqtt_utf8_validate un out then Inl FLOWIE_MQTT_PARSE_PROTOCOL_ERROR
      else Inr (out, drop len cursor))"

section \<open>Writers\<close>

lemma word_div_less: "(128::u32) \<le> v \<Longrightarrow> unat (v div 128) < unat v"
  by (simp add: unat_div word_le_nat_alt)

function vbi_size_loop :: "u32 \<Rightarrow> nat \<Rightarrow> nat" where
  "vbi_size_loop v sz = (if v \<ge> 128 then vbi_size_loop (v div 128) (sz + 1) else sz)"
  by pat_completeness auto
termination
  by (relation "measure (\<lambda>(v, sz). unat v)") (auto simp: word_div_less)

declare vbi_size_loop.simps [simp del]

definition flowie_mqtt_vbi_size :: "u32 \<Rightarrow> nat" where
  "flowie_mqtt_vbi_size v = vbi_size_loop v 1"

lemma word_div_less': "v div 128 \<noteq> (0::u32) \<Longrightarrow> unat (v div 128) < unat v"
  using unat_div [of v 128] by (cases "unat v < 128") (auto simp: word_unat_eq_iff)

function flowie_mqtt_vbi_write :: "u32 \<Rightarrow> bytes" where
  "flowie_mqtt_vbi_write v =
     (let byte = (ucast (v mod 128) :: u8); v' = v div 128 in
      if v' \<noteq> 0 then (byte OR 0x80) # flowie_mqtt_vbi_write v' else [byte])"
  by pat_completeness auto
termination
  by (relation "measure unat") (auto simp: word_div_less')

declare flowie_mqtt_vbi_write.simps [simp del]

definition write_u16 :: "nat \<Rightarrow> bytes" where
  "write_u16 n = [of_nat (n div 256), of_nat n]"

definition flowie_mqtt_length_span_write :: "flowie_mqtt_span \<Rightarrow> bytes" where
  "flowie_mqtt_length_span_write value =
     write_u16 (span_size value) @ (if span_size value \<noteq> 0 then span_bytes value else [])"

definition flowie_mqtt_property_values_write :: "flowie_mqtt_span \<Rightarrow> bytes" where
  "flowie_mqtt_property_values_write values =
     flowie_mqtt_vbi_write (of_nat (span_size values)) @
     (if span_size values \<noteq> 0 then span_bytes values else [])"

section \<open>Big-endian integers\<close>

lemma u8_low7: "unat (b AND 0x7f :: u8) = unat b mod 128"
proof -
  have "(0x7f::u8) = mask 7" by (simp add: mask_eq_exp_minus_1)
  then have "b AND 0x7f = take_bit 7 b" by (simp add: take_bit_eq_mask)
  then show ?thesis by (simp add: take_bit_eq_mod unat_mod)
qed

lemma u8_high: "b AND 0x80 \<noteq> (0::u8) \<longleftrightarrow> 128 \<le> unat b"
proof -
  have "(0x80::u8) = push_bit 7 1" by (simp add: push_bit_eq_mult)
  then have "b AND 0x80 \<noteq> 0 \<longleftrightarrow> bit b 7"
    by (metis and_exp_eq_0_iff_not_bit push_bit_of_1)
  also have "\<dots> \<longleftrightarrow> odd (unat b div 128)"
    using bit_unsigned_iff [where 'a = nat, of b 7] by (simp add: bit_iff_odd)
  also have "\<dots> \<longleftrightarrow> 128 \<le> unat b"
  proof -
    have "unat b < 256" using unsigned_less [where 'a = nat, of b] by simp
    then have "unat b div 128 < 2" by (simp add: div_less_iff_less_mult)
    then have "odd (unat b div 128) \<longleftrightarrow> unat b div 128 \<noteq> 0"
      by (cases "unat b div 128 = 0") (auto simp: less_2_cases_iff)
    then show ?thesis by (simp add: div_eq_0_iff not_less)
  qed
  finally show ?thesis .
qed

lemma not_bit_u8: "8 \<le> n \<Longrightarrow> \<not> bit (b::u8) n"
  using bit_imp_le_length [of b n] by fastforce

lemma push_bit_or_add:
  fixes x y :: "'a::len word"
  assumes "\<And>k. n \<le> k \<Longrightarrow> \<not> bit y k"
  shows "push_bit n x OR y = push_bit n x + y"
  using assms by (subst disjunctive_add) (auto simp: bit_push_bit_iff)

lemma unat_read_u16:
  "unat (flowie_mqtt_read_u16 (a # b # bs)) = unat a * 256 + unat b"
proof -
  have "push_bit 8 (ucast a) OR ucast b = (push_bit 8 (ucast a) + ucast b :: u16)"
    by (rule push_bit_or_add) (simp add: bit_simps not_bit_u8)
  then have "flowie_mqtt_read_u16 (a # b # bs) = of_nat (unat a * 256 + unat b)"
    by (simp add: flowie_mqtt_read_u16_def push_bit_eq_mult ac_simps)
  moreover have "unat a * 256 + unat b < 65536"
    using u8_less_256 [of a] u8_less_256 [of b] by simp
  ultimately show ?thesis by (simp only: unat_of_nat_u16)
qed

lemma unat_read_u32:
  "unat (flowie_mqtt_read_u32 (a # b # c # d # bs)) =
     ((unat a * 256 + unat b) * 256 + unat c) * 256 + unat d"
proof -
  let ?c = "push_bit 8 (ucast c) OR ucast d :: u32" and ?b = "push_bit 16 (ucast b) :: u32"
  have c: "?c = push_bit 8 (ucast c) + ucast d"
    by (rule push_bit_or_add) (simp add: bit_simps not_bit_u8)
  have b: "?b OR ?c = ?b + ?c"
    by (rule push_bit_or_add) (simp add: bit_simps not_bit_u8)
  have "flowie_mqtt_read_u32 (a # b # c # d # bs) = push_bit 24 (ucast a) OR (?b OR ?c)"
    by (simp add: flowie_mqtt_read_u32_def numeral_eq_Suc)
  also have "\<dots> = push_bit 24 (ucast a) + (?b OR ?c)"
    by (rule push_bit_or_add) (simp add: bit_simps not_bit_u8)
  also have "\<dots> = push_bit 24 (ucast a) + (?b + (push_bit 8 (ucast c) + ucast d))"
    unfolding b unfolding c ..
  also have "\<dots> = of_nat (((unat a * 256 + unat b) * 256 + unat c) * 256 + unat d)"
    by (simp add: push_bit_eq_mult algebra_simps)
  finally have "flowie_mqtt_read_u32 (a # b # c # d # bs) =
      of_nat (((unat a * 256 + unat b) * 256 + unat c) * 256 + unat d)" .
  moreover have "((unat a * 256 + unat b) * 256 + unat c) * 256 + unat d < 4294967296"
    using u8_less_256 [of a] u8_less_256 [of b] u8_less_256 [of c] u8_less_256 [of d] by simp
  ultimately show ?thesis by (simp only: unat_of_nat_u32)
qed

lemma read_write_u16: "n < 65536 \<Longrightarrow> unat (flowie_mqtt_read_u16 (write_u16 n @ bs)) = n"
  by (simp add: write_u16_def unat_read_u16 unat_of_nat take_bit_eq_mod div_less_iff_less_mult
      div_mult_mod_eq)

lemma length_write_u16 [simp]: "length (write_u16 n) = 2"
  by (simp add: write_u16_def)

lemma write_read_u16: "write_u16 (unat (flowie_mqtt_read_u16 (a # b # bs))) = [a, b]"
  using u8_less_256 [of a] u8_less_256 [of b]
  by (simp add: write_u16_def unat_read_u16 of_nat_eq_u8 del: of_nat_add of_nat_mult)

section \<open>Variable byte integers\<close>

text \<open>The encoding as a function on natural numbers, without machine words.\<close>

fun vbi_nat :: "nat \<Rightarrow> bytes" where
  "vbi_nat n = (if n < 128 then [of_nat n] else of_nat (n mod 128 + 128) # vbi_nat (n div 128))"

declare vbi_nat.simps [simp del]

lemma or_0x80: "n < 128 \<Longrightarrow> (of_nat n :: u8) OR 0x80 = of_nat (n + 128)"
proof -
  assume n: "n < 128"
  then have "unat (of_nat n :: u8) = n" by (simp add: unat_of_nat take_bit_eq_mod)
  with n have "(of_nat n :: u8) AND 0x80 = 0" using u8_high [of "of_nat n"] by auto
  then have "(of_nat n :: u8) OR 0x80 = of_nat n + 0x80"
    by (subst disjunctive_add [symmetric]) (auto simp: bit_eq_iff bit_and_iff)
  then show ?thesis by simp
qed

lemma vbi_write_nat: "flowie_mqtt_vbi_write v = vbi_nat (unat v)"
proof (induction v rule: flowie_mqtt_vbi_write.induct)
  case (1 v)
  have "ucast (v mod 128) = (of_nat (unat v mod 128) :: u8)"
    by (simp add: ucast_eq_of_nat unat_mod del: of_nat_unat)
  moreover have "v div 128 \<noteq> 0 \<longleftrightarrow> 128 \<le> unat v"
    by (simp add: word_unat_eq_iff unat_div div_eq_0_iff not_less)
  ultimately show ?case
    using 1 by (subst flowie_mqtt_vbi_write.simps, subst vbi_nat.simps)
      (auto simp: Let_def or_0x80 unat_div)
qed

lemma length_vbi_nat_pos [simp]: "vbi_nat n \<noteq> []"
  by (subst vbi_nat.simps) simp

lemma vbi_size_length: "vbi_size_loop v sz = sz + length (flowie_mqtt_vbi_write v) - 1"
proof (induction v sz rule: vbi_size_loop.induct)
  case (1 v sz)
  show ?case
    using 1 unfolding vbi_write_nat
    by (subst vbi_size_loop.simps, subst vbi_nat.simps)
      (auto simp: unat_div word_le_nat_alt Suc_leI)
qed

lemma length_vbi_write: "length (flowie_mqtt_vbi_write v) = flowie_mqtt_vbi_size v"
  by (simp add: flowie_mqtt_vbi_size_def vbi_size_length)

lemma length_vbi_nat: "0 < k \<Longrightarrow> length (vbi_nat n) \<le> k \<longleftrightarrow> n < 128 ^ k"
proof (induction n arbitrary: k rule: vbi_nat.induct)
  case (1 n)
  obtain j where k: "k = Suc j" using "1.prems" by (cases k) auto
  show ?case
  proof (cases "n < 128")
    case True
    moreover have "(128::nat) ^ 1 \<le> 128 ^ k" using "1.prems" by (intro power_increasing) auto
    ultimately show ?thesis using "1.prems" by (subst vbi_nat.simps) auto
  next
    case False
    then have "length (vbi_nat n) = Suc (length (vbi_nat (n div 128)))"
      by (subst vbi_nat.simps) simp
    moreover have "n < 128 ^ k \<longleftrightarrow> n div 128 < 128 ^ j"
      by (simp add: k div_less_iff_less_mult mult.commute)
    ultimately show ?thesis
      using "1.IH" [OF False, of j] k False by (cases "j = 0") (auto simp: div_eq_0_iff)
  qed
qed

lemma vbi_loop_Cons:
  assumes "offset \<noteq> 4"
  shows "vbi_loop offset (of_nat r) (of_nat m) (byte # rest) =
    (if 128 \<le> unat byte
     then vbi_loop (Suc offset) (of_nat (r + m * (unat byte mod 128))) (of_nat (m * 128)) rest
     else if 0 < offset \<and> byte = 0 then Inl FLOWIE_MQTT_PARSE_MALFORMED
     else Inr (of_nat (r + m * unat byte), Suc offset, rest))"
proof -
  have "(ucast (byte AND 0x7f) :: u32) = of_nat (unat byte mod 128)"
    unfolding ucast_eq_of_nat u8_low7 ..
  then show ?thesis
    using assms u8_high [of byte] by (simp add: Let_def mult.commute)
qed

lemma vbi_loop_encode:
  "offset + k = 4 \<Longrightarrow> w < 128 ^ k \<Longrightarrow> (0 < offset \<longrightarrow> 0 < w) \<Longrightarrow> 0 < k \<Longrightarrow>
   vbi_loop offset (of_nat r) (of_nat m) (vbi_nat w @ rest) =
     Inr (of_nat (r + m * w), offset + length (vbi_nat w), rest)"
proof (induction w arbitrary: offset k r m rule: vbi_nat.induct)
  case (1 w)
  then have offset: "offset \<noteq> 4" by simp
  show ?case
  proof (cases "w < 128")
    case True
    then have "vbi_nat w = [of_nat w]" "unat (of_nat w :: u8) = w" "(of_nat w :: u8) = 0 \<longleftrightarrow> w = 0"
      by (auto simp: vbi_nat.simps unat_of_nat_u8 of_nat_eq_u8)
    then show ?thesis
      using True "1.prems" by (auto simp: vbi_loop_Cons [OF offset] simp del: vbi_loop.simps)
  next
    case False
    let ?b = "of_nat (w mod 128 + 128) :: u8"
    have b: "unat ?b = w mod 128 + 128"
      by (rule unat_of_nat_u8) (use mod_less_divisor [of 128 w] in linarith)
    obtain j where k: "k = Suc j" using "1.prems" by (cases k) auto
    have div: "w div 128 < 128 ^ j"
      using "1.prems"(2) by (simp add: k div_less_iff_less_mult mult.commute)
    have pos: "0 < w div 128" using False by (simp add: div_greater_zero_iff)
    then have j: "0 < j" using div by (cases j) auto
    have rec: "vbi_loop (Suc offset) (of_nat (r + m * (w mod 128))) (of_nat (m * 128))
          (vbi_nat (w div 128) @ rest) =
        Inr (of_nat (r + m * (w mod 128) + m * 128 * (w div 128)),
             Suc offset + length (vbi_nat (w div 128)), rest)"
      by (rule "1.IH" [OF False _ div _ j]) (use pos "1.prems" k in simp_all)
    have w: "vbi_nat w = ?b # vbi_nat (w div 128)"
      using False by (subst vbi_nat.simps) simp
    have "m * w = m * (w mod 128) + m * 128 * (w div 128)"
      by (metis mod_mult_div_eq distrib_left mult.assoc)
    moreover have "(w mod 128 + 128) mod 128 = w mod 128" by simp
    ultimately show ?thesis
      unfolding w append_Cons vbi_loop_Cons [OF offset] b
      by (simp only: rec le_add2 if_True add.assoc) simp
  qed
qed

lemma vbi_loop_decode:
  "offset + k = 4 \<Longrightarrow>
   vbi_loop offset (of_nat r) (of_nat m) bs = Inr (v, n, rest) \<Longrightarrow>
   \<exists>w. bs = vbi_nat w @ rest \<and> v = of_nat (r + m * w) \<and> w < 128 ^ k \<and>
       n = offset + length (vbi_nat w) \<and> (0 < offset \<longrightarrow> 0 < w)"
proof (induction bs arbitrary: offset k r m)
  case Nil
  then show ?case by simp
next
  case (Cons byte bs)
  then have offset: "offset \<noteq> 4" by auto
  then obtain j where k: "k = Suc j" using Cons.prems(1) by (cases k) auto
  note run = Cons.prems(2) [unfolded vbi_loop_Cons [OF offset]]
  show ?case
  proof (cases "128 \<le> unat byte")
    case True
    let ?low = "unat byte mod 128"
    have "Suc offset + j = 4" using Cons.prems(1) k by simp
    from Cons.IH [OF this] run True
    obtain w where w: "bs = vbi_nat w @ rest" "w < 128 ^ j" "0 < w"
        "v = of_nat (r + m * ?low + m * 128 * w)" "n = Suc offset + length (vbi_nat w)"
      by (auto simp del: of_nat_add of_nat_mult)
    let ?w = "?low + 128 * w"
    have low: "?low < 128" by simp
    have "byte = of_nat (?low + 128)"
      using True u8_less_256 [of byte] le_mod_geq [of 128 "unat byte"]
      by (simp add: word_unat_eq_iff unat_of_nat_u8)
    then have "vbi_nat ?w = byte # vbi_nat w"
      using w(3) low by (subst vbi_nat.simps) simp
    moreover have "?w < 128 ^ k"
    proof -
      have "?w < 128 + 128 * w" using low by simp
      also have "\<dots> \<le> 128 ^ k" using w(2) by (simp add: k)
      finally show ?thesis .
    qed
    moreover have "v = of_nat (r + m * ?w)"
      unfolding w(4) by (simp add: algebra_simps)
    ultimately show ?thesis
      using w(1,3,5) by (intro exI [of _ ?w]) simp
  next
    case False
    then have "vbi_nat (unat byte) = [byte]" by (subst vbi_nat.simps) simp
    moreover have "unat byte < 128 ^ k"
      using False one_le_power [of "128::nat" j] unfolding k power_Suc by linarith
    moreover have "0 < unat byte \<longleftrightarrow> byte \<noteq> 0" by (simp add: word_unat_eq_iff)
    ultimately show ?thesis
      using False run by (intro exI [of _ "unat byte"]) (auto split: if_splits)
  qed
qed

lemma vbi_loop_iff:
  "vbi_loop 0 0 1 bs = Inr (v, n, rest) \<longleftrightarrow>
     bs = flowie_mqtt_vbi_write v @ rest \<and> unat v \<le> FLOWIE_MQTT_MAX_REMAINING_LENGTH \<and>
     n = flowie_mqtt_vbi_size v" (is "?L \<longleftrightarrow> ?R")
proof
  assume ?L
  then obtain w where w: "bs = vbi_nat w @ rest" "v = of_nat w" "w < 128 ^ 4" "n = length (vbi_nat w)"
    using vbi_loop_decode [of 0 4 0 1 bs v n rest] by auto
  then have "unat v = w" by (simp add: unat_of_nat_u32)
  then show ?R using w by (simp add: vbi_write_nat flip: length_vbi_write)
next
  assume ?R
  then show ?L
    using vbi_loop_encode [of 0 4 "unat v" 0 1 rest]
    by (simp add: vbi_write_nat flip: length_vbi_write)
qed

lemma vbi_loop_total:
  "(\<exists>v n rest. vbi_loop off r m bs = Inr (v, n, rest)) \<or>
   vbi_loop off r m bs \<in> {Inl FLOWIE_MQTT_PARSE_NEED_MORE, Inl FLOWIE_MQTT_PARSE_MALFORMED}"
  by (induction bs arbitrary: off r m) (auto simp: Let_def)

lemma vbi_iff:
  "flowie_mqtt_vbi (Span bs) = Inr (v, n) \<longleftrightarrow>
     (\<exists>rest. bs = flowie_mqtt_vbi_write v @ rest) \<and> unat v \<le> FLOWIE_MQTT_MAX_REMAINING_LENGTH \<and>
     n = flowie_mqtt_vbi_size v"
  by (auto simp: flowie_mqtt_vbi_def rbind_Inr_iff vbi_loop_iff split: prod.splits)

lemma vbi_size_bounds:
  "unat v \<le> FLOWIE_MQTT_MAX_REMAINING_LENGTH \<Longrightarrow>
     1 \<le> flowie_mqtt_vbi_size v \<and> flowie_mqtt_vbi_size v \<le> 4"
  using length_vbi_nat [of 4 "unat v"]
  by (simp add: vbi_write_nat Suc_leI flip: length_vbi_write)

lemma vbi_append:
  "unat v \<le> FLOWIE_MQTT_MAX_REMAINING_LENGTH \<Longrightarrow>
     flowie_mqtt_vbi (Span (flowie_mqtt_vbi_write v @ rest)) = Inr (v, flowie_mqtt_vbi_size v)"
  by (simp add: vbi_iff)

lemma vbi_drop:
  "(\<exists>n. flowie_mqtt_vbi (Span bs) = Inr (v, n) \<and> rest = drop n bs) \<longleftrightarrow>
     unat v \<le> FLOWIE_MQTT_MAX_REMAINING_LENGTH \<and> bs = flowie_mqtt_vbi_write v @ rest"
  by (auto simp: vbi_iff simp flip: length_vbi_write)

section \<open>Length-prefixed spans\<close>

lemma length_span_write_Span [simp]:
  "flowie_mqtt_length_span_write (Span v) = write_u16 (length v) @ v"
  by (simp add: flowie_mqtt_length_span_write_def)

lemma length_span_write_Null [simp]:
  "flowie_mqtt_length_span_write (NullSpan n) = write_u16 n"
  by (simp add: flowie_mqtt_length_span_write_def)

lemma length_span_iff:
  "flowie_mqtt_length_span un bs utf8 = Inr (s, rest) \<longleftrightarrow>
     (\<exists>v. s = Span v \<and> length v \<le> FLOWIE_MQTT_MAX_UTF8_SIZE \<and>
          bs = flowie_mqtt_length_span_write s @ rest \<and>
          (utf8 \<longrightarrow> flowie_mqtt_utf8_validate un s))"
proof (cases bs rule: list.exhaust)
  case Nil
  then show ?thesis by (auto simp: flowie_mqtt_length_span_def write_u16_def)
next
  case (Cons a bs')
  show ?thesis
  proof (cases bs')
    case Nil
    with Cons show ?thesis by (auto simp: flowie_mqtt_length_span_def write_u16_def)
  next
    case (Cons b tail)
    let ?n = "unat (flowie_mqtt_read_u16 (a # b # tail))"
    have bs: "bs = [a, b] @ tail" using Cons \<open>bs = a # bs'\<close> by simp
    have n: "?n < 65536" by (rule u16_less)
    have "flowie_mqtt_length_span un bs utf8 = Inr (s, rest) \<longleftrightarrow>
        ?n \<le> length tail \<and> s = Span (take ?n tail) \<and> rest = drop ?n tail \<and>
        (utf8 \<longrightarrow> flowie_mqtt_utf8_validate un s)"
      by (auto simp: flowie_mqtt_length_span_def bs Let_def)
    also have "\<dots> \<longleftrightarrow> (\<exists>v. s = Span v \<and> length v = ?n \<and> tail = v @ rest \<and>
        (utf8 \<longrightarrow> flowie_mqtt_utf8_validate un s))"
      by auto
    also have "\<dots> \<longleftrightarrow> (\<exists>v. s = Span v \<and> length v \<le> FLOWIE_MQTT_MAX_UTF8_SIZE \<and>
        bs = flowie_mqtt_length_span_write s @ rest \<and> (utf8 \<longrightarrow> flowie_mqtt_utf8_validate un s))"
    proof -
      have "length v = ?n \<and> tail = v @ rest \<longleftrightarrow>
          length v \<le> FLOWIE_MQTT_MAX_UTF8_SIZE \<and> bs = (write_u16 (length v) @ v) @ rest" for v
        using n read_write_u16 [of "length v" "v @ rest"] write_read_u16 [of a b tail]
        by (auto simp: bs write_u16_def simp del: of_nat_eq_u8)
      then show ?thesis by (metis length_span_write_Span)
    qed
    finally show ?thesis .
  qed
qed

section \<open>Properties\<close>

text \<open>C5: the variable byte integer is read exactly from its canonical encoding. Reading
  succeeds with value \<open>v\<close> and \<open>n\<close> bytes consumed if and only if the input starts
  with the bytes \<open>flowie_mqtt_vbi_write v\<close>, \<open>v\<close> is at most 268435455 and \<open>n\<close>
  is the size \<open>flowie_mqtt_vbi_size v\<close> computed in advance. So what the encoder writes
  is read back, overlong forms are rejected, and the 32-bit arithmetic never wraps.\<close>

theorem vbi_canonical:
  "flowie_mqtt_vbi (Span bs) = Inr (v, n) \<longleftrightarrow>
     (\<exists>rest. bs = flowie_mqtt_vbi_write v @ rest) \<and> unat v \<le> FLOWIE_MQTT_MAX_REMAINING_LENGTH \<and>
     n = flowie_mqtt_vbi_size v \<and> n = length (flowie_mqtt_vbi_write v) \<and> n \<in> {1..4}"
  using vbi_size_bounds [of v] by (auto simp: vbi_iff length_vbi_write)

text \<open>A length-prefixed string is read exactly from its encoding. Reading yields the
  span \<open>s\<close> and the rest if and only if the input is the written form of \<open>s\<close>
  followed by that rest, \<open>s\<close> has at most 65535 bytes and, for text, is valid UTF-8.\<close>

theorem length_span_roundtrip:
  "flowie_mqtt_length_span un bs utf8 = Inr (s, rest) \<longleftrightarrow>
     \<not> span_null s \<and> span_size s \<le> FLOWIE_MQTT_MAX_UTF8_SIZE \<and>
     bs = flowie_mqtt_length_span_write s @ rest \<and>
     (\<not> utf8 \<or> flowie_mqtt_utf8_validate un s)"
  by (cases s) (auto simp: length_span_iff)

theorem length_span_roundtrip_witness:
  "flowie_mqtt_length_span rfc3629_next [0, 2, 0xc3, 0xa9, 7] True = Inr (Span [0xc3, 0xa9], [7])"
proof -
  have "flowie_mqtt_utf8_validate rfc3629_next (Span [0xc3, 0xa9])" by code_simp
  then show ?thesis by (simp add: length_span_roundtrip write_u16_def)
qed

end
