(* ===== verification/Mqtt_Property.thy ===== *)
theory Mqtt_Property
  imports Mqtt_Wire
begin

text \<open>
  MQTT 5 properties, from \<open>protocol/src/flowie_mqtt_packet_views.c\<close>: the masks of
  allowed and repeatable identifiers, the property block, the property iterator and the
  validation of a block against a pair of masks.
\<close>

section \<open>Masks\<close>

definition FLOWIE_MQTT_PROPERTY_BIT :: "u32 \<Rightarrow> u64" where
  "FLOWIE_MQTT_PROPERTY_BIT i = push_bit (unat i) 1"

definition flowie_mqtt_user_property_repeatable :: u64 where
  "flowie_mqtt_user_property_repeatable = FLOWIE_MQTT_PROPERTY_BIT FLOWIE_MQTT_PROPERTY_USER_PROPERTY"

definition flowie_mqtt_connect_properties_allowed :: u64 where
  "flowie_mqtt_connect_properties_allowed =
     FLOWIE_MQTT_PROPERTY_BIT FLOWIE_MQTT_PROPERTY_SESSION_EXPIRY_INTERVAL OR
     FLOWIE_MQTT_PROPERTY_BIT FLOWIE_MQTT_PROPERTY_RECEIVE_MAXIMUM OR
     FLOWIE_MQTT_PROPERTY_BIT FLOWIE_MQTT_PROPERTY_MAXIMUM_PACKET_SIZE OR
     FLOWIE_MQTT_PROPERTY_BIT FLOWIE_MQTT_PROPERTY_TOPIC_ALIAS_MAXIMUM OR
     FLOWIE_MQTT_PROPERTY_BIT FLOWIE_MQTT_PROPERTY_REQUEST_RESPONSE_INFORMATION OR
     FLOWIE_MQTT_PROPERTY_BIT FLOWIE_MQTT_PROPERTY_REQUEST_PROBLEM_INFORMATION OR
     FLOWIE_MQTT_PROPERTY_BIT FLOWIE_MQTT_PROPERTY_USER_PROPERTY OR
     FLOWIE_MQTT_PROPERTY_BIT FLOWIE_MQTT_PROPERTY_AUTHENTICATION_METHOD OR
     FLOWIE_MQTT_PROPERTY_BIT FLOWIE_MQTT_PROPERTY_AUTHENTICATION_DATA"

definition flowie_mqtt_will_properties_allowed :: u64 where
  "flowie_mqtt_will_properties_allowed =
     FLOWIE_MQTT_PROPERTY_BIT FLOWIE_MQTT_PROPERTY_WILL_DELAY_INTERVAL OR
     FLOWIE_MQTT_PROPERTY_BIT FLOWIE_MQTT_PROPERTY_PAYLOAD_FORMAT_INDICATOR OR
     FLOWIE_MQTT_PROPERTY_BIT FLOWIE_MQTT_PROPERTY_MESSAGE_EXPIRY_INTERVAL OR
     FLOWIE_MQTT_PROPERTY_BIT FLOWIE_MQTT_PROPERTY_CONTENT_TYPE OR
     FLOWIE_MQTT_PROPERTY_BIT FLOWIE_MQTT_PROPERTY_RESPONSE_TOPIC OR
     FLOWIE_MQTT_PROPERTY_BIT FLOWIE_MQTT_PROPERTY_CORRELATION_DATA OR
     FLOWIE_MQTT_PROPERTY_BIT FLOWIE_MQTT_PROPERTY_USER_PROPERTY"

definition flowie_mqtt_publish_properties_allowed :: u64 where
  "flowie_mqtt_publish_properties_allowed =
     FLOWIE_MQTT_PROPERTY_BIT FLOWIE_MQTT_PROPERTY_PAYLOAD_FORMAT_INDICATOR OR
     FLOWIE_MQTT_PROPERTY_BIT FLOWIE_MQTT_PROPERTY_MESSAGE_EXPIRY_INTERVAL OR
     FLOWIE_MQTT_PROPERTY_BIT FLOWIE_MQTT_PROPERTY_TOPIC_ALIAS OR
     FLOWIE_MQTT_PROPERTY_BIT FLOWIE_MQTT_PROPERTY_RESPONSE_TOPIC OR
     FLOWIE_MQTT_PROPERTY_BIT FLOWIE_MQTT_PROPERTY_CORRELATION_DATA OR
     FLOWIE_MQTT_PROPERTY_BIT FLOWIE_MQTT_PROPERTY_USER_PROPERTY OR
     FLOWIE_MQTT_PROPERTY_BIT FLOWIE_MQTT_PROPERTY_SUBSCRIPTION_IDENTIFIER OR
     FLOWIE_MQTT_PROPERTY_BIT FLOWIE_MQTT_PROPERTY_CONTENT_TYPE"

definition flowie_mqtt_publish_properties_repeatable :: u64 where
  "flowie_mqtt_publish_properties_repeatable =
     FLOWIE_MQTT_PROPERTY_BIT FLOWIE_MQTT_PROPERTY_USER_PROPERTY OR
     FLOWIE_MQTT_PROPERTY_BIT FLOWIE_MQTT_PROPERTY_SUBSCRIPTION_IDENTIFIER"

definition flowie_mqtt_subscribe_properties_allowed :: u64 where
  "flowie_mqtt_subscribe_properties_allowed =
     FLOWIE_MQTT_PROPERTY_BIT FLOWIE_MQTT_PROPERTY_SUBSCRIPTION_IDENTIFIER OR
     FLOWIE_MQTT_PROPERTY_BIT FLOWIE_MQTT_PROPERTY_USER_PROPERTY"

section \<open>Blocks and the iterator\<close>

text \<open>The block view together with the number of bytes consumed.\<close>

definition flowie_mqtt_property_block_parse ::
    "flowie_mqtt_span \<Rightarrow> (flowie_mqtt_property_block_view \<times> nat) parse" where
  "flowie_mqtt_property_block_parse bytes =
     (if span_null bytes \<and> span_size bytes \<noteq> 0 then Inl FLOWIE_MQTT_PARSE_INVALID_ARGUMENT
      else rbind (flowie_mqtt_vbi bytes) (\<lambda>(value_size, prefix_size).
        if unat value_size > span_size bytes - prefix_size then Inl FLOWIE_MQTT_PARSE_NEED_MORE
        else Inr (\<lparr>pb_encoded = Span (take (prefix_size + unat value_size) (span_bytes bytes)),
                   pb_values = Span (take (unat value_size) (drop prefix_size (span_bytes bytes)))\<rparr>,
                  prefix_size + unat value_size)))"

text \<open>An iterator is the bytes left, or \<open>None\<close> while its cursor is NULL.\<close>

type_synonym flowie_mqtt_property_iterator = "bytes option"

definition flowie_mqtt_property_iterator_init ::
    "flowie_mqtt_property_block_view \<Rightarrow> flowie_mqtt_property_iterator parse" where
  "flowie_mqtt_property_iterator_init block =
     (if span_null (pb_values block) \<and> span_size (pb_values block) \<noteq> 0
      then Inl FLOWIE_MQTT_PARSE_INVALID_ARGUMENT
      else Inr (if span_null (pb_values block) then None else Some (span_bytes (pb_values block))))"

definition flowie_mqtt_property_type :: "u32 \<Rightarrow> flowie_mqtt_property_type option" where
  "flowie_mqtt_property_type identifier =
     (if identifier \<in> {FLOWIE_MQTT_PROPERTY_PAYLOAD_FORMAT_INDICATOR,
          FLOWIE_MQTT_PROPERTY_REQUEST_PROBLEM_INFORMATION,
          FLOWIE_MQTT_PROPERTY_REQUEST_RESPONSE_INFORMATION, FLOWIE_MQTT_PROPERTY_MAXIMUM_QOS,
          FLOWIE_MQTT_PROPERTY_RETAIN_AVAILABLE, FLOWIE_MQTT_PROPERTY_WILDCARD_SUBSCRIPTION_AVAILABLE,
          FLOWIE_MQTT_PROPERTY_SUBSCRIPTION_IDENTIFIER_AVAILABLE,
          FLOWIE_MQTT_PROPERTY_SHARED_SUBSCRIPTION_AVAILABLE}
      then Some FLOWIE_MQTT_PROPERTY_BYTE
      else if identifier \<in> {FLOWIE_MQTT_PROPERTY_SERVER_KEEP_ALIVE, FLOWIE_MQTT_PROPERTY_RECEIVE_MAXIMUM,
          FLOWIE_MQTT_PROPERTY_TOPIC_ALIAS_MAXIMUM, FLOWIE_MQTT_PROPERTY_TOPIC_ALIAS}
      then Some FLOWIE_MQTT_PROPERTY_UINT16
      else if identifier \<in> {FLOWIE_MQTT_PROPERTY_MESSAGE_EXPIRY_INTERVAL,
          FLOWIE_MQTT_PROPERTY_SESSION_EXPIRY_INTERVAL, FLOWIE_MQTT_PROPERTY_WILL_DELAY_INTERVAL,
          FLOWIE_MQTT_PROPERTY_MAXIMUM_PACKET_SIZE}
      then Some FLOWIE_MQTT_PROPERTY_UINT32
      else if identifier = FLOWIE_MQTT_PROPERTY_SUBSCRIPTION_IDENTIFIER
      then Some FLOWIE_MQTT_PROPERTY_VARIABLE_INTEGER
      else if identifier \<in> {FLOWIE_MQTT_PROPERTY_CONTENT_TYPE, FLOWIE_MQTT_PROPERTY_RESPONSE_TOPIC,
          FLOWIE_MQTT_PROPERTY_ASSIGNED_CLIENT_IDENTIFIER, FLOWIE_MQTT_PROPERTY_AUTHENTICATION_METHOD,
          FLOWIE_MQTT_PROPERTY_RESPONSE_INFORMATION, FLOWIE_MQTT_PROPERTY_SERVER_REFERENCE,
          FLOWIE_MQTT_PROPERTY_REASON_STRING}
      then Some FLOWIE_MQTT_PROPERTY_UTF8
      else if identifier \<in> {FLOWIE_MQTT_PROPERTY_CORRELATION_DATA,
          FLOWIE_MQTT_PROPERTY_AUTHENTICATION_DATA}
      then Some FLOWIE_MQTT_PROPERTY_BINARY
      else if identifier = FLOWIE_MQTT_PROPERTY_USER_PROPERTY
      then Some FLOWIE_MQTT_PROPERTY_UTF8_PAIR
      else None)"

definition flowie_mqtt_property_scalar_valid :: "flowie_mqtt_property_view \<Rightarrow> bool" where
  "flowie_mqtt_property_scalar_valid property =
     (if pr_identifier property \<in> {FLOWIE_MQTT_PROPERTY_PAYLOAD_FORMAT_INDICATOR,
          FLOWIE_MQTT_PROPERTY_REQUEST_PROBLEM_INFORMATION,
          FLOWIE_MQTT_PROPERTY_REQUEST_RESPONSE_INFORMATION,
          FLOWIE_MQTT_PROPERTY_RETAIN_AVAILABLE, FLOWIE_MQTT_PROPERTY_WILDCARD_SUBSCRIPTION_AVAILABLE,
          FLOWIE_MQTT_PROPERTY_SUBSCRIPTION_IDENTIFIER_AVAILABLE,
          FLOWIE_MQTT_PROPERTY_SHARED_SUBSCRIPTION_AVAILABLE}
      then pr_integer property \<le> 1
      else if pr_identifier property = FLOWIE_MQTT_PROPERTY_MAXIMUM_QOS
      then pr_integer property \<le> 1
      else if pr_identifier property \<in> {FLOWIE_MQTT_PROPERTY_RECEIVE_MAXIMUM,
          FLOWIE_MQTT_PROPERTY_TOPIC_ALIAS, FLOWIE_MQTT_PROPERTY_MAXIMUM_PACKET_SIZE,
          FLOWIE_MQTT_PROPERTY_SUBSCRIPTION_IDENTIFIER}
      then pr_integer property \<noteq> 0
      else True)"

text \<open>The value of one property, read behind its identifier.\<close>

definition property_value_read ::
    "utf8_next \<Rightarrow> flowie_mqtt_property_type \<Rightarrow> bytes \<Rightarrow>
       (u32 \<times> flowie_mqtt_span \<times> flowie_mqtt_span \<times> bytes) parse" where
  "property_value_read un type cursor =
     (case type of
        FLOWIE_MQTT_PROPERTY_BYTE \<Rightarrow>
          if cursor = [] then Inl FLOWIE_MQTT_PARSE_MALFORMED
          else Inr (ucast (hd cursor), NullSpan 0, NullSpan 0, tl cursor)
      | FLOWIE_MQTT_PROPERTY_UINT16 \<Rightarrow>
          if length cursor < 2 then Inl FLOWIE_MQTT_PARSE_MALFORMED
          else Inr (ucast (flowie_mqtt_read_u16 cursor), NullSpan 0, NullSpan 0, drop 2 cursor)
      | FLOWIE_MQTT_PROPERTY_UINT32 \<Rightarrow>
          if length cursor < 4 then Inl FLOWIE_MQTT_PARSE_MALFORMED
          else Inr (flowie_mqtt_read_u32 cursor, NullSpan 0, NullSpan 0, drop 4 cursor)
      | FLOWIE_MQTT_PROPERTY_VARIABLE_INTEGER \<Rightarrow>
          (case flowie_mqtt_vbi (Span cursor) of
             Inl e \<Rightarrow> Inl FLOWIE_MQTT_PARSE_MALFORMED
           | Inr (integer, integer_size) \<Rightarrow>
               Inr (integer, NullSpan 0, NullSpan 0, drop integer_size cursor))
      | FLOWIE_MQTT_PROPERTY_UTF8 \<Rightarrow>
          rbind (flowie_mqtt_length_span un cursor True) (\<lambda>(value, cursor).
            Inr (0, value, NullSpan 0, cursor))
      | FLOWIE_MQTT_PROPERTY_BINARY \<Rightarrow>
          rbind (flowie_mqtt_length_span un cursor False) (\<lambda>(value, cursor).
            Inr (0, value, NullSpan 0, cursor))
      | FLOWIE_MQTT_PROPERTY_UTF8_PAIR \<Rightarrow>
          rbind (flowie_mqtt_length_span un cursor True) (\<lambda>(value, cursor).
          rbind (flowie_mqtt_length_span un cursor True) (\<lambda>(pair_value, cursor).
            Inr (0, value, pair_value, cursor))))"

definition flowie_mqtt_property_iterator_next ::
    "utf8_next \<Rightarrow> flowie_mqtt_property_iterator \<Rightarrow>
       (flowie_mqtt_property_view \<times> flowie_mqtt_property_iterator) parse" where
  "flowie_mqtt_property_iterator_next un iterator =
     (case iterator of
        None \<Rightarrow> Inl FLOWIE_MQTT_PARSE_INVALID_ARGUMENT
      | Some cursor \<Rightarrow>
          if cursor = [] then Inl FLOWIE_MQTT_PARSE_NEED_MORE
          else case flowie_mqtt_vbi (Span cursor) of
            Inl e \<Rightarrow> Inl FLOWIE_MQTT_PARSE_MALFORMED
          | Inr (identifier, id_size) \<Rightarrow>
              (case flowie_mqtt_property_type identifier of
                 None \<Rightarrow> Inl FLOWIE_MQTT_PARSE_PROTOCOL_ERROR
               | Some type \<Rightarrow>
                   rbind (property_value_read un type (drop id_size cursor))
                     (\<lambda>(integer, value, pair_value, rest).
                        let parsed = \<lparr>pr_identifier = identifier, pr_type = type, pr_integer = integer,
                                      pr_value = value, pr_pair_value = pair_value\<rparr> in
                        if identifier = FLOWIE_MQTT_PROPERTY_RESPONSE_TOPIC \<and>
                           \<not> flowie_mqtt_topic_name_validate un value
                        then Inl FLOWIE_MQTT_PARSE_PROTOCOL_ERROR
                        else if \<not> flowie_mqtt_property_scalar_valid parsed
                        then Inl FLOWIE_MQTT_PARSE_PROTOCOL_ERROR
                        else Inr (parsed, Some rest))))"

section \<open>The wire form of a property\<close>

text \<open>
  The iterator inverts this encoding: an identifier, then a value whose form depends on
  the type of the property.
\<close>

definition write_u32 :: "u32 \<Rightarrow> bytes" where
  "write_u32 v = write_u16 (unat v div 65536) @ write_u16 (unat v mod 65536)"

fun value_wire :: "flowie_mqtt_property_type \<Rightarrow> u32 \<Rightarrow> flowie_mqtt_span \<Rightarrow> flowie_mqtt_span \<Rightarrow> bytes" where
  "value_wire FLOWIE_MQTT_PROPERTY_BYTE i v w = [ucast i]"
| "value_wire FLOWIE_MQTT_PROPERTY_UINT16 i v w = write_u16 (unat i)"
| "value_wire FLOWIE_MQTT_PROPERTY_UINT32 i v w = write_u32 i"
| "value_wire FLOWIE_MQTT_PROPERTY_VARIABLE_INTEGER i v w = flowie_mqtt_vbi_write i"
| "value_wire FLOWIE_MQTT_PROPERTY_UTF8 i v w = flowie_mqtt_length_span_write v"
| "value_wire FLOWIE_MQTT_PROPERTY_BINARY i v w = flowie_mqtt_length_span_write v"
| "value_wire FLOWIE_MQTT_PROPERTY_UTF8_PAIR i v w =
     flowie_mqtt_length_span_write v @ flowie_mqtt_length_span_write w"

definition string_ok :: "utf8_next \<Rightarrow> bool \<Rightarrow> flowie_mqtt_span \<Rightarrow> bool" where
  "string_ok un utf8 v \<longleftrightarrow>
     \<not> span_null v \<and> span_size v \<le> FLOWIE_MQTT_MAX_UTF8_SIZE \<and>
     (utf8 \<longrightarrow> flowie_mqtt_utf8_validate un v)"

fun value_ok :: "utf8_next \<Rightarrow> flowie_mqtt_property_type \<Rightarrow> u32 \<Rightarrow> flowie_mqtt_span \<Rightarrow> flowie_mqtt_span \<Rightarrow> bool" where
  "value_ok un FLOWIE_MQTT_PROPERTY_BYTE i v w \<longleftrightarrow> unat i < 256 \<and> v = NullSpan 0 \<and> w = NullSpan 0"
| "value_ok un FLOWIE_MQTT_PROPERTY_UINT16 i v w \<longleftrightarrow> unat i < 65536 \<and> v = NullSpan 0 \<and> w = NullSpan 0"
| "value_ok un FLOWIE_MQTT_PROPERTY_UINT32 i v w \<longleftrightarrow> v = NullSpan 0 \<and> w = NullSpan 0"
| "value_ok un FLOWIE_MQTT_PROPERTY_VARIABLE_INTEGER i v w \<longleftrightarrow>
     unat i \<le> FLOWIE_MQTT_MAX_REMAINING_LENGTH \<and> v = NullSpan 0 \<and> w = NullSpan 0"
| "value_ok un FLOWIE_MQTT_PROPERTY_UTF8 i v w \<longleftrightarrow> i = 0 \<and> string_ok un True v \<and> w = NullSpan 0"
| "value_ok un FLOWIE_MQTT_PROPERTY_BINARY i v w \<longleftrightarrow> i = 0 \<and> string_ok un False v \<and> w = NullSpan 0"
| "value_ok un FLOWIE_MQTT_PROPERTY_UTF8_PAIR i v w \<longleftrightarrow>
     i = 0 \<and> string_ok un True v \<and> string_ok un True w"

definition property_wire :: "flowie_mqtt_property_view \<Rightarrow> bytes" where
  "property_wire p =
     flowie_mqtt_vbi_write (pr_identifier p) @
     value_wire (pr_type p) (pr_integer p) (pr_value p) (pr_pair_value p)"

definition property_ok :: "utf8_next \<Rightarrow> flowie_mqtt_property_view \<Rightarrow> bool" where
  "property_ok un p \<longleftrightarrow>
     flowie_mqtt_property_type (pr_identifier p) = Some (pr_type p) \<and>
     value_ok un (pr_type p) (pr_integer p) (pr_value p) (pr_pair_value p) \<and>
     flowie_mqtt_property_scalar_valid p \<and>
     (pr_identifier p = FLOWIE_MQTT_PROPERTY_RESPONSE_TOPIC \<longrightarrow>
        flowie_mqtt_topic_name_validate un (pr_value p))"

lemma length_span_ok:
  "flowie_mqtt_length_span un bs utf8 = Inr (s, rest) \<longleftrightarrow>
     string_ok un utf8 s \<and> bs = flowie_mqtt_length_span_write s @ rest"
  by (cases s) (auto simp: length_span_iff string_ok_def)

lemma unat_ucast_u8_u32 [simp]: "unat (ucast (b::u8) :: u32) = unat b"
  unfolding ucast_eq_of_nat using u8_less_256 [of b] by (intro unat_of_nat_u32) simp

lemma unat_ucast_u16_u32 [simp]: "unat (ucast (b::u16) :: u32) = unat b"
  unfolding ucast_eq_of_nat using u16_less [of b] by (intro unat_of_nat_u32) simp

lemma read_byte_wire:
  fixes cursor :: bytes
  shows "cursor \<noteq> [] \<and> ucast (hd cursor) = (i::u32) \<and> rest = tl cursor \<longleftrightarrow>
     unat i < 256 \<and> cursor = ucast i # rest"
proof -
  have eq: "ucast b = i \<longleftrightarrow> unat i < 256 \<and> b = ucast i" for b :: u8
    using u8_less_256 [of b]
    by (auto simp: word_unat_eq_iff [where 'a = 32] word_unat_eq_iff [where 'a = 8] unat_of_nat_u8
        ucast_eq_of_nat [where 'b = 32] simp del: of_nat_unat)
  show ?thesis
  proof (cases cursor)
    case (Cons b bs)
    show ?thesis using eq [of b] unfolding Cons list.sel list.inject by blast
  qed simp
qed

lemma read_u16_wire:
  "\<not> length cursor < 2 \<and> ucast (flowie_mqtt_read_u16 cursor) = (i::u32) \<and> rest = drop 2 cursor \<longleftrightarrow>
     unat i < 65536 \<and> cursor = write_u16 (unat i) @ rest" (is "?L \<longleftrightarrow> ?R")
proof
  assume ?L
  then obtain a b where "cursor = a # b # rest"
    by (cases cursor; cases "tl cursor") auto
  with \<open>?L\<close> show ?R
    using write_read_u16 [of a b rest] u16_less [of "flowie_mqtt_read_u16 cursor"]
    by (auto simp: word_unat_eq_iff [where 'a = 32])
next
  assume ?R
  then show ?L using read_write_u16 [of "unat i" rest] by (auto simp: word_unat_eq_iff [where 'a = 32])
qed

lemma read_u32_wire:
  "\<not> length cursor < 4 \<and> flowie_mqtt_read_u32 cursor = i \<and> rest = drop 4 cursor \<longleftrightarrow>
     cursor = write_u32 i @ rest" (is "?L \<longleftrightarrow> ?R")
proof
  assume ?L
  then obtain a b c d where c: "cursor = a # b # c # d # rest"
    by (cases cursor; cases "tl cursor"; cases "tl (tl cursor)"; cases "tl (tl (tl cursor))") auto
  have u: "unat i = (unat a * 256 + unat b) * 65536 + (unat c * 256 + unat d)"
    using \<open>?L\<close> unat_read_u32 [of a b c d rest] by (simp add: c algebra_simps)
  have "unat c * 256 + unat d < 65536" using u8_less_256 [of c] u8_less_256 [of d] by simp
  then have "unat i div 65536 = unat a * 256 + unat b" "unat i mod 65536 = unat c * 256 + unat d"
    unfolding u by (simp_all del: distrib_right_numeral)
  then show ?R
    using write_read_u16 [of a b "[]"] write_read_u16 [of c d "[]"]
    by (simp add: c write_u32_def unat_read_u16)
next
  assume ?R
  have "unat i div 65536 < 65536" using u32_less [of i] by (simp add: div_less_iff_less_mult)
  moreover have "unat (flowie_mqtt_read_u32 cursor) =
      unat (flowie_mqtt_read_u16 (write_u16 (unat i div 65536) @ [])) * 65536 +
      unat (flowie_mqtt_read_u16 (write_u16 (unat i mod 65536) @ []))"
    by (simp add: \<open>?R\<close> write_u32_def write_u16_def unat_read_u32 unat_read_u16)
  ultimately have "unat (flowie_mqtt_read_u32 cursor) = unat i"
    by (simp only: read_write_u16 mod_less_divisor zero_less_numeral div_mult_mod_eq)
  then show ?L
    by (simp add: \<open>?R\<close> write_u32_def word_unat_eq_iff)
qed

lemma property_value_read_iff:
  "property_value_read un t bs = Inr (i, v, w, rest) \<longleftrightarrow>
     value_ok un t i v w \<and> bs = value_wire t i v w @ rest"
proof (cases t)
  case FLOWIE_MQTT_PROPERTY_BYTE
  then show ?thesis using read_byte_wire [of bs i rest] by (auto simp: property_value_read_def)
next
  case FLOWIE_MQTT_PROPERTY_UINT16
  then show ?thesis using read_u16_wire [of bs i rest] by (auto simp: property_value_read_def)
next
  case FLOWIE_MQTT_PROPERTY_UINT32
  then show ?thesis using read_u32_wire [of bs i rest] by (auto simp: property_value_read_def)
next
  case FLOWIE_MQTT_PROPERTY_VARIABLE_INTEGER
  have "property_value_read un t bs = Inr (i, v, w, rest) \<longleftrightarrow>
      v = NullSpan 0 \<and> w = NullSpan 0 \<and> (\<exists>n. flowie_mqtt_vbi (Span bs) = Inr (i, n) \<and> rest = drop n bs)"
    by (auto simp: FLOWIE_MQTT_PROPERTY_VARIABLE_INTEGER property_value_read_def split: sum.splits)
  then show ?thesis
    by (auto simp: FLOWIE_MQTT_PROPERTY_VARIABLE_INTEGER vbi_drop)
qed (auto simp: property_value_read_def rbind_Inr_iff length_span_ok)

lemma property_type_bound:
  "flowie_mqtt_property_type i = Some t \<Longrightarrow> unat i \<le> 42"
  by (auto simp: flowie_mqtt_property_type_def split: if_splits)

lemma property_iterator_next_iff:
  "flowie_mqtt_property_iterator_next un it = Inr (p, it') \<longleftrightarrow>
     (\<exists>rest. it = Some (property_wire p @ rest) \<and> it' = Some rest \<and> property_ok un p)"
  (is "?L \<longleftrightarrow> ?R")
proof
  assume ?L
  then obtain bs i n t rest where step: "it = Some bs" "flowie_mqtt_vbi (Span bs) = Inr (i, n)"
      "flowie_mqtt_property_type i = Some t" "it' = Some rest" "pr_identifier p = i" "pr_type p = t"
      "property_value_read un t (drop n bs) = Inr (pr_integer p, pr_value p, pr_pair_value p, rest)"
      "flowie_mqtt_property_scalar_valid p"
      "i = FLOWIE_MQTT_PROPERTY_RESPONSE_TOPIC \<longrightarrow> flowie_mqtt_topic_name_validate un (pr_value p)"
    by (auto simp: flowie_mqtt_property_iterator_next_def rbind_Inr_iff Let_def
        split: option.splits if_splits sum.splits)
  then have "bs = flowie_mqtt_vbi_write i @ drop n bs"
    using vbi_drop [of bs i "drop n bs"] by auto
  then show ?R
    using step unfolding property_value_read_iff
    by (auto simp: property_wire_def property_ok_def)
next
  assume ?R
  then obtain rest where R: "it = Some (property_wire p @ rest)" "it' = Some rest" "property_ok un p"
    by blast
  let ?v = "value_wire (pr_type p) (pr_integer p) (pr_value p) (pr_pair_value p)"
  have "unat (pr_identifier p) \<le> FLOWIE_MQTT_MAX_REMAINING_LENGTH"
    using R(3) property_type_bound by (fastforce simp: property_ok_def)
  then have vbi: "flowie_mqtt_vbi (Span (property_wire p @ rest)) =
      Inr (pr_identifier p, flowie_mqtt_vbi_size (pr_identifier p))"
    by (simp add: property_wire_def vbi_append)
  have "drop (flowie_mqtt_vbi_size (pr_identifier p)) (property_wire p @ rest) = ?v @ rest"
    by (simp add: property_wire_def flip: length_vbi_write)
  moreover have "property_value_read un (pr_type p) (?v @ rest) =
      Inr (pr_integer p, pr_value p, pr_pair_value p, rest)"
    using R(3) by (simp add: property_value_read_iff property_ok_def)
  moreover have "property_wire p \<noteq> []"
    by (simp add: property_wire_def vbi_write_nat)
  ultimately show ?L
    using R vbi
    by (cases p) (simp add: flowie_mqtt_property_iterator_next_def property_ok_def Let_def)
qed

lemma property_wire_nonempty: "property_wire p \<noteq> []"
  by (simp add: property_wire_def vbi_write_nat)

lemma property_iterator_next_shorter:
  "flowie_mqtt_property_iterator_next un it = Inr (p, it') \<Longrightarrow>
     \<exists>bs bs'. it = Some bs \<and> it' = Some bs' \<and> length bs' < length bs"
  using property_wire_nonempty [of p] by (auto simp: property_iterator_next_iff)

section \<open>Validation against the masks\<close>

fun iterator_left :: "flowie_mqtt_property_iterator \<Rightarrow> nat" where
  "iterator_left None = 0"
| "iterator_left (Some bs) = length bs"

function properties_validate_loop ::
    "utf8_next \<Rightarrow> u64 \<Rightarrow> u64 \<Rightarrow> flowie_mqtt_property_iterator \<Rightarrow> u64 \<Rightarrow> u64 parse" where
  "properties_validate_loop un allowed repeatable iterator present =
     (case flowie_mqtt_property_iterator_next un iterator of
        Inr (property, iterator') \<Rightarrow>
          let b = FLOWIE_MQTT_PROPERTY_BIT (pr_identifier property) in
          if allowed AND b = 0 \<or> (present AND b \<noteq> 0 \<and> repeatable AND b = 0)
          then Inl FLOWIE_MQTT_PARSE_PROTOCOL_ERROR
          else properties_validate_loop un allowed repeatable iterator' (present OR b)
      | Inl rc \<Rightarrow> if rc \<noteq> FLOWIE_MQTT_PARSE_NEED_MORE then Inl rc else Inr present)"
  by pat_completeness auto
termination
  by (relation "measure (\<lambda>(un, allowed, repeatable, iterator, present). iterator_left iterator)")
     (auto dest!: property_iterator_next_shorter)

declare properties_validate_loop.simps [simp del]

definition flowie_mqtt_properties_validate ::
    "utf8_next \<Rightarrow> flowie_mqtt_property_block_view \<Rightarrow> u64 \<Rightarrow> u64 \<Rightarrow> u64 parse" where
  "flowie_mqtt_properties_validate un block allowed repeatable =
     rbind (flowie_mqtt_property_iterator_init block) (\<lambda>iterator.
       properties_validate_loop un allowed repeatable iterator 0)"

definition flowie_mqtt_empty_properties :: "flowie_mqtt_property_block_view" where
  "flowie_mqtt_empty_properties = \<lparr>pb_encoded = Span [], pb_values = Span []\<rparr>"

definition flowie_mqtt_typed_property_block ::
    "flowie_mqtt_span \<Rightarrow> (flowie_mqtt_property_block_view \<times> nat) parse" where
  "flowie_mqtt_typed_property_block bytes =
     map_error (\<lambda>rc. if rc = FLOWIE_MQTT_PARSE_NEED_MORE then FLOWIE_MQTT_PARSE_MALFORMED else rc)
       (flowie_mqtt_property_block_parse bytes)"

lemma property_iterator_next_nil [simp]:
  "flowie_mqtt_property_iterator_next un (Some []) = Inl FLOWIE_MQTT_PARSE_NEED_MORE"
  by (simp add: flowie_mqtt_property_iterator_next_def)

lemma length_span_not_need_more: "flowie_mqtt_length_span un bs utf8 \<noteq> Inl FLOWIE_MQTT_PARSE_NEED_MORE"
  by (auto simp: flowie_mqtt_length_span_def Let_def)

lemma property_value_read_not_need_more:
  "property_value_read un t bs \<noteq> Inl FLOWIE_MQTT_PARSE_NEED_MORE"
  by (cases t) (auto simp: property_value_read_def rbind_Inl_iff length_span_not_need_more split: sum.splits)

lemma property_iterator_next_need_more:
  "flowie_mqtt_property_iterator_next un it = Inl FLOWIE_MQTT_PARSE_NEED_MORE \<longleftrightarrow> it = Some []"
  by (auto simp: flowie_mqtt_property_iterator_next_def rbind_Inl_iff Let_def
      property_value_read_not_need_more split: option.splits sum.splits if_splits)

lemma and_property_bit: "(m AND FLOWIE_MQTT_PROPERTY_BIT i = 0) \<longleftrightarrow> \<not> bit m (unat i)"
  unfolding FLOWIE_MQTT_PROPERTY_BIT_def push_bit_of_1 by (rule and_exp_eq_0_iff_not_bit)

lemma bit_or_property_bit:
  "unat i \<le> 42 \<Longrightarrow> bit (present OR FLOWIE_MQTT_PROPERTY_BIT i) n \<longleftrightarrow> bit present n \<or> n = unat i"
  by (auto simp: FLOWIE_MQTT_PROPERTY_BIT_def bit_simps)

definition property_index :: "flowie_mqtt_property_view \<Rightarrow> nat" where
  "property_index p = unat (pr_identifier p)"

fun properties_admissible :: "u64 \<Rightarrow> u64 \<Rightarrow> u64 \<Rightarrow> flowie_mqtt_property_view list \<Rightarrow> bool" where
  "properties_admissible allowed repeatable present [] \<longleftrightarrow> True"
| "properties_admissible allowed repeatable present (p # ps) \<longleftrightarrow>
     bit allowed (property_index p) \<and> (bit present (property_index p) \<longrightarrow> bit repeatable (property_index p)) \<and>
     properties_admissible allowed repeatable (present OR FLOWIE_MQTT_PROPERTY_BIT (pr_identifier p)) ps"

abbreviation properties_wire :: "flowie_mqtt_property_view list \<Rightarrow> bytes" where
  "properties_wire ps \<equiv> concat (map property_wire ps)"

fun properties_present :: "u64 \<Rightarrow> flowie_mqtt_property_view list \<Rightarrow> u64" where
  "properties_present present [] = present"
| "properties_present present (p # ps) =
     properties_present (present OR FLOWIE_MQTT_PROPERTY_BIT (pr_identifier p)) ps"

lemma properties_validate_loop_step:
  assumes "property_ok un p"
  shows "properties_validate_loop un allowed repeatable (Some (property_wire p @ rest)) present =
    (if bit allowed (property_index p) \<and>
        (bit present (property_index p) \<longrightarrow> bit repeatable (property_index p))
     then properties_validate_loop un allowed repeatable (Some rest)
            (present OR FLOWIE_MQTT_PROPERTY_BIT (pr_identifier p))
     else Inl FLOWIE_MQTT_PARSE_PROTOCOL_ERROR)"
proof -
  have "flowie_mqtt_property_iterator_next un (Some (property_wire p @ rest)) = Inr (p, Some rest)"
    using assms by (simp add: property_iterator_next_iff)
  then show ?thesis
    by (subst properties_validate_loop.simps) (simp add: Let_def and_property_bit property_index_def)
qed

lemma properties_validate_loop_complete:
  "(\<forall>p \<in> set ps. property_ok un p) \<Longrightarrow> properties_admissible allowed repeatable present ps \<Longrightarrow>
   properties_validate_loop un allowed repeatable (Some (properties_wire ps)) present =
     Inr (properties_present present ps)"
proof (induction ps arbitrary: present)
  case Nil
  then show ?case by (subst properties_validate_loop.simps) simp
next
  case (Cons p ps)
  then show ?case by (simp add: properties_validate_loop_step)
qed

lemma properties_validate_loop_sound:
  assumes "properties_validate_loop un allowed repeatable (Some bs) present = Inr out"
  shows "\<exists>ps. bs = properties_wire ps \<and> (\<forall>p \<in> set ps. property_ok un p) \<and>
    properties_admissible allowed repeatable present ps \<and> out = properties_present present ps"
  using assms
proof (induction "length bs" arbitrary: bs present rule: less_induct)
  case less
  show ?case
  proof (cases "flowie_mqtt_property_iterator_next un (Some bs)")
    case (Inl rc)
    then have "bs = []" "out = present"
      using less.prems property_iterator_next_need_more [of un "Some bs"]
      by (subst (asm) properties_validate_loop.simps; simp split: if_splits)+
    then show ?thesis by (intro exI [of _ "[]"]) simp
  next
    case (Inr x)
    then obtain p rest where p: "bs = property_wire p @ rest" "property_ok un p"
      by (cases x) (auto simp: property_iterator_next_iff)
    then have "length rest < length bs" using property_wire_nonempty [of p] by simp
    from less.hyps [OF this] less.prems [unfolded p(1) properties_validate_loop_step [OF p(2)]]
    obtain ps where "rest = properties_wire ps" "\<forall>p \<in> set ps. property_ok un p"
        "properties_admissible allowed repeatable present (p # ps)"
        "out = properties_present present (p # ps)"
      by (auto split: if_splits)
    with p show ?thesis by (intro exI [of _ "p # ps"]) simp
  qed
qed

text \<open>The mask bookkeeping, freed of the masks: no identifier that is not repeatable occurs
  twice.\<close>

lemma properties_admissible_iff:
  assumes "\<forall>p \<in> set ps. property_ok un p"
  shows "properties_admissible allowed repeatable present ps \<longleftrightarrow>
    (\<forall>p \<in> set ps. bit allowed (property_index p)) \<and>
    (\<forall>i. \<not> bit repeatable i \<longrightarrow>
       count_list (map property_index ps) i + (if bit present i then 1 else 0) \<le> 1 \<or>
       i \<notin> property_index ` set ps)"
  using assms
proof (induction ps arbitrary: present)
  case Nil
  then show ?case by simp
next
  case (Cons p ps)
  then have "property_index p \<le> 42"
    using property_type_bound by (auto simp: property_ok_def property_index_def)
  then have bit: "bit (present OR FLOWIE_MQTT_PROPERTY_BIT (pr_identifier p)) i \<longleftrightarrow>
      bit present i \<or> i = property_index p" for i
    by (simp add: property_index_def bit_or_property_bit)
  show ?case
    using Cons by (auto simp: bit count_list_0_iff image_iff)
qed

lemma bit_properties_present:
  "(\<forall>p \<in> set ps. property_ok un p) \<Longrightarrow>
     bit (properties_present present ps) i \<longleftrightarrow> bit present i \<or> i \<in> property_index ` set ps"
proof (induction ps arbitrary: present)
  case Nil
  then show ?case by simp
next
  case (Cons p ps)
  then have "unat (pr_identifier p) \<le> 42"
    using property_type_bound by (auto simp: property_ok_def)
  then show ?case
    using Cons by (auto simp: bit_or_property_bit property_index_def)
qed

lemma properties_validate_iff:
  "flowie_mqtt_properties_validate un block allowed repeatable = Inr present \<longleftrightarrow>
     (\<exists>ps. pb_values block = Span (properties_wire ps) \<and> (\<forall>p \<in> set ps. property_ok un p) \<and>
           properties_admissible allowed repeatable 0 ps \<and> present = properties_present 0 ps)"
proof (cases "pb_values block")
  case (NullSpan n)
  have "properties_validate_loop un allowed repeatable None 0 = Inl FLOWIE_MQTT_PARSE_INVALID_ARGUMENT"
    by (subst properties_validate_loop.simps) (simp add: flowie_mqtt_property_iterator_next_def)
  then show ?thesis
    using NullSpan
    by (simp add: flowie_mqtt_properties_validate_def flowie_mqtt_property_iterator_init_def rbind_Inr_iff)
next
  case (Span bs)
  then show ?thesis
    using properties_validate_loop_sound [of un allowed repeatable bs 0 present]
      properties_validate_loop_complete [of _ un allowed repeatable 0]
    by (auto simp: flowie_mqtt_properties_validate_def flowie_mqtt_property_iterator_init_def)
qed

lemma property_block_parse_iff:
  "flowie_mqtt_property_block_parse (Span bs) = Inr (block, n) \<longleftrightarrow>
     (\<exists>vs rest. bs = flowie_mqtt_property_values_write (Span vs) @ rest \<and>
        length vs \<le> FLOWIE_MQTT_MAX_REMAINING_LENGTH \<and>
        block = \<lparr>pb_encoded = Span (flowie_mqtt_property_values_write (Span vs)), pb_values = Span vs\<rparr> \<and>
        n = length (flowie_mqtt_property_values_write (Span vs)))" (is "?L \<longleftrightarrow> ?R")
proof
  assume ?L
  then obtain len k where len: "flowie_mqtt_vbi (Span bs) = Inr (len, k)"
      "unat len \<le> length bs - k" "n = k + unat len"
      "block = \<lparr>pb_encoded = Span (take (k + unat len) bs), pb_values = Span (take (unat len) (drop k bs))\<rparr>"
    by (auto simp: flowie_mqtt_property_block_parse_def rbind_Inr_iff split: if_splits)
  then obtain tail where bs: "bs = flowie_mqtt_vbi_write len @ tail"
      and max: "unat len \<le> FLOWIE_MQTT_MAX_REMAINING_LENGTH" and k: "k = length (flowie_mqtt_vbi_write len)"
    by (auto simp: vbi_iff length_vbi_write)
  let ?vs = "take (unat len) tail"
  have "length ?vs = unat len" using len(2) bs k by simp
  moreover then have "(of_nat (length ?vs) :: u32) = len" by simp
  ultimately show ?R
    using len bs max k
    by (intro exI [of _ ?vs] exI [of _ "drop (unat len) tail"])
       (simp add: flowie_mqtt_property_values_write_def)
next
  assume ?R
  then obtain vs rest where R: "bs = flowie_mqtt_property_values_write (Span vs) @ rest"
      "length vs \<le> FLOWIE_MQTT_MAX_REMAINING_LENGTH"
      "block = \<lparr>pb_encoded = Span (flowie_mqtt_property_values_write (Span vs)), pb_values = Span vs\<rparr>"
      "n = length (flowie_mqtt_property_values_write (Span vs))" by blast
  let ?len = "of_nat (length vs) :: u32"
  have "unat ?len = length vs" using R(2) by (intro unat_of_nat_u32) simp
  moreover have "flowie_mqtt_vbi (Span (flowie_mqtt_vbi_write ?len @ vs @ rest)) =
      Inr (?len, length (flowie_mqtt_vbi_write ?len))"
    using R(2) \<open>unat ?len = length vs\<close> by (simp add: vbi_append length_vbi_write)
  moreover have "flowie_mqtt_property_values_write (Span vs) = flowie_mqtt_vbi_write ?len @ vs"
    by (simp add: flowie_mqtt_property_values_write_def)
  ultimately show ?L
    using R by (simp add: flowie_mqtt_property_block_parse_def)
qed

lemma typed_property_block_iff:
  "flowie_mqtt_typed_property_block (Span bs) = Inr (block, n) \<longleftrightarrow>
     flowie_mqtt_property_block_parse (Span bs) = Inr (block, n)"
  by (simp add: flowie_mqtt_typed_property_block_def)

section \<open>Properties\<close>

text \<open>C8: validation of a property block. A block passes with the set \<open>present\<close> if and
  only if its bytes are exactly the wire forms of a list of well-formed properties, each
  identifier is allowed, no identifier outside the repeatable ones occurs twice, and
  \<open>present\<close> holds exactly the identifiers that occur.\<close>

theorem properties_validate_spec:
  "flowie_mqtt_properties_validate un block allowed repeatable = Inr present \<longleftrightarrow>
     (\<exists>ps. pb_values block = Span (properties_wire ps) \<and>
           (\<forall>p \<in> set ps. property_ok un p \<and> bit allowed (property_index p)) \<and>
           (\<forall>i. \<not> bit repeatable i \<longrightarrow> count_list (map property_index ps) i \<le> 1) \<and>
           (\<forall>i. bit present i \<longleftrightarrow> i \<in> property_index ` set ps))"
proof -
  have present: "present = properties_present 0 ps \<longleftrightarrow>
      (\<forall>i. bit present i \<longleftrightarrow> i \<in> property_index ` set ps)"
    if "\<forall>p \<in> set ps. property_ok un p" for ps
    using bit_properties_present [OF that, of 0] by (auto intro: bit_eqI)
  have count: "count_list (map property_index ps) i \<le> 1 \<or> i \<notin> property_index ` set ps \<longleftrightarrow>
      count_list (map property_index ps) i \<le> 1" for ps i
    by (auto simp: count_list_0_iff)
  have "(\<forall>p \<in> set ps. property_ok un p) \<and> properties_admissible allowed repeatable 0 ps \<and>
        present = properties_present 0 ps \<longleftrightarrow>
      (\<forall>p \<in> set ps. property_ok un p \<and> bit allowed (property_index p)) \<and>
      (\<forall>i. \<not> bit repeatable i \<longrightarrow> count_list (map property_index ps) i \<le> 1) \<and>
      (\<forall>i. bit present i \<longleftrightarrow> i \<in> property_index ` set ps)" for ps
    using properties_admissible_iff [of ps un allowed repeatable 0] present [of ps] count [of ps]
    by (cases "\<forall>p \<in> set ps. property_ok un p") auto
  then show ?thesis
    unfolding properties_validate_iff by simp
qed

theorem properties_validate_spec_witness:
  "flowie_mqtt_properties_validate rfc3629_next
     \<lparr>pb_encoded = NullSpan 0, pb_values = Span [0x02, 0, 0, 0, 5]\<rparr>
     flowie_mqtt_publish_properties_allowed flowie_mqtt_publish_properties_repeatable = Inr 4"
proof -
  let ?p = "\<lparr>pr_identifier = 2, pr_type = FLOWIE_MQTT_PROPERTY_UINT32, pr_integer = 5,
    pr_value = NullSpan 0, pr_pair_value = NullSpan 0\<rparr>"
  have "flowie_mqtt_vbi_write 2 = [2]" by code_simp
  then have "property_wire ?p = [0x02, 0, 0, 0, 5]"
    by (simp add: property_wire_def write_u32_def write_u16_def)
  moreover have "property_ok rfc3629_next ?p"
    by (simp add: property_ok_def flowie_mqtt_property_type_def flowie_mqtt_property_scalar_valid_def)
  moreover have "bit flowie_mqtt_publish_properties_allowed 2"
    by (simp add: flowie_mqtt_publish_properties_allowed_def FLOWIE_MQTT_PROPERTY_BIT_def bit_simps)
  moreover have "bit (4::u64) i \<longleftrightarrow> i = 2" for i
    using bit_push_bit_iff [of 2 "1::u64" i] by (auto simp: push_bit_eq_mult bit_1_iff)
  ultimately show ?thesis
    unfolding properties_validate_spec
    by (intro exI [of _ "[?p]"]) (simp add: property_index_def)
qed

end
