(* ===== verification/Mqtt_Parse.thy ===== *)
theory Mqtt_Parse
  imports Mqtt_Property
begin

text \<open>
  Typed views of framed packets, from \<open>protocol/src/flowie_mqtt_packet_views.c\<close>:
  CONNECT, PUBLISH, SUBSCRIBE, UNSUBSCRIBE and the acknowledgement and control packets.
  Each parser takes the packet view that framing produced and walks its body; the cursor
  is the list of bytes left before the limit.
\<close>

section \<open>Arguments and shared steps\<close>

definition flowie_mqtt_typed_args :: "flowie_mqtt_packet_view \<Rightarrow> flowie_mqtt_packet_type \<Rightarrow> unit parse" where
  "flowie_mqtt_typed_args packet type =
     fail_if (pv_type packet \<noteq> type \<or> span_null (pv_body packet) \<or>
              span_size (pv_body packet) \<noteq> unat (pv_remaining_length packet))
       FLOWIE_MQTT_PARSE_INVALID_ARGUMENT"

text \<open>Reading a packet identifier: two bytes, big endian, and not zero.\<close>

definition read_u16_step :: "bytes \<Rightarrow> (u16 \<times> bytes) parse" where
  "read_u16_step cursor =
     (if length cursor < 2 then Inl FLOWIE_MQTT_PARSE_MALFORMED
      else Inr (flowie_mqtt_read_u16 cursor, drop 2 cursor))"

definition nonzero_packet_id :: "bytes \<Rightarrow> (u16 \<times> bytes) parse" where
  "nonzero_packet_id cursor =
     rbind (read_u16_step cursor) (\<lambda>(packet_id, cursor).
       if packet_id = 0 then Inl FLOWIE_MQTT_PARSE_PROTOCOL_ERROR else Inr (packet_id, cursor))"

section \<open>CONNECT\<close>

definition protocol_name_v3 :: bytes where
  "protocol_name_v3 = [0x4d, 0x51, 0x49, 0x73, 0x64, 0x70]"

definition protocol_name_v4_v5 :: bytes where
  "protocol_name_v4_v5 = [0x4d, 0x51, 0x54, 0x54]"

definition connect_protocol_ok :: "flowie_mqtt_version \<Rightarrow> flowie_mqtt_span \<Rightarrow> bool" where
  "connect_protocol_ok version protocol_name \<longleftrightarrow>
     \<not> ((version = FLOWIE_MQTT_VERSION_3_1 \<and> span_bytes protocol_name \<noteq> protocol_name_v3) \<or>
        (version \<noteq> FLOWIE_MQTT_VERSION_3_1 \<and> span_bytes protocol_name \<noteq> protocol_name_v4_v5))"

definition auth_data_without_method :: "u64 \<Rightarrow> bool" where
  "auth_data_without_method present \<longleftrightarrow>
     present AND FLOWIE_MQTT_PROPERTY_BIT FLOWIE_MQTT_PROPERTY_AUTHENTICATION_DATA \<noteq> 0 \<and>
     present AND FLOWIE_MQTT_PROPERTY_BIT FLOWIE_MQTT_PROPERTY_AUTHENTICATION_METHOD = 0"

text \<open>
  The CONNECT properties: any validation error becomes a protocol error. Below MQTT 5 the
  block is empty.
\<close>

definition connect_properties_parse ::
    "utf8_next \<Rightarrow> flowie_mqtt_version \<Rightarrow> bytes \<Rightarrow> (flowie_mqtt_property_block_view \<times> bytes) parse" where
  "connect_properties_parse un version cursor =
     (if version = FLOWIE_MQTT_VERSION_5
      then rbind (flowie_mqtt_typed_property_block (Span cursor)) (\<lambda>(properties, property_size).
        case flowie_mqtt_properties_validate un properties flowie_mqtt_connect_properties_allowed
               flowie_mqtt_user_property_repeatable of
          Inl rc \<Rightarrow> Inl FLOWIE_MQTT_PARSE_PROTOCOL_ERROR
        | Inr present \<Rightarrow>
            if auth_data_without_method present then Inl FLOWIE_MQTT_PARSE_PROTOCOL_ERROR
            else Inr (properties, drop property_size cursor))
      else Inr (flowie_mqtt_empty_properties, cursor))"

definition block_parse ::
    "utf8_next \<Rightarrow> flowie_mqtt_version \<Rightarrow> u64 \<Rightarrow> u64 \<Rightarrow> bytes \<Rightarrow>
       (flowie_mqtt_property_block_view \<times> u64 \<times> bytes) parse" where
  "block_parse un version allowed repeatable cursor =
     (if version = FLOWIE_MQTT_VERSION_5
      then rbind (flowie_mqtt_typed_property_block (Span cursor)) (\<lambda>(properties, property_size).
        rbind (flowie_mqtt_properties_validate un properties allowed repeatable) (\<lambda>present.
          Inr (properties, present, drop property_size cursor)))
      else Inr (flowie_mqtt_empty_properties, 0, cursor))"

definition connect_will_parse ::
    "utf8_next \<Rightarrow> flowie_mqtt_version \<Rightarrow> bool \<Rightarrow> bytes \<Rightarrow>
       (flowie_mqtt_property_block_view \<times> flowie_mqtt_span \<times> flowie_mqtt_span \<times> bytes) parse" where
  "connect_will_parse un version will_flag cursor =
     (if will_flag
      then rbind (block_parse un version flowie_mqtt_will_properties_allowed
                    flowie_mqtt_user_property_repeatable cursor) (\<lambda>(will_properties, present, cursor).
        case flowie_mqtt_length_span un cursor True of
          Inl rc \<Rightarrow> Inl FLOWIE_MQTT_PARSE_PROTOCOL_ERROR
        | Inr (will_topic, cursor) \<Rightarrow>
            if \<not> flowie_mqtt_topic_name_validate un will_topic then Inl FLOWIE_MQTT_PARSE_PROTOCOL_ERROR
            else rbind (flowie_mqtt_length_span un cursor False) (\<lambda>(will_payload, cursor).
              Inr (will_properties, will_topic, will_payload, cursor)))
      else Inr (flowie_mqtt_empty_properties, NullSpan 0, NullSpan 0, cursor))"

definition optional_span ::
    "utf8_next \<Rightarrow> bool \<Rightarrow> bool \<Rightarrow> bytes \<Rightarrow> (flowie_mqtt_span \<times> bytes) parse" where
  "optional_span un flag utf8 cursor =
     (if flag then flowie_mqtt_length_span un cursor utf8 else Inr (NullSpan 0, cursor))"

definition flowie_mqtt_connect_parse ::
    "utf8_next \<Rightarrow> flowie_mqtt_packet_view \<Rightarrow> flowie_mqtt_connect_view parse" where
  "flowie_mqtt_connect_parse un packet =
     rbind (flowie_mqtt_typed_args packet FLOWIE_MQTT_PACKET_CONNECT) (\<lambda>_.
     rbind (flowie_mqtt_length_span un (span_bytes (pv_body packet)) True) (\<lambda>(protocol_name, cursor).
     if length cursor < 4 then Inl FLOWIE_MQTT_PARSE_MALFORMED
     else let version = ucast (cursor ! 0) in
     if \<not> flowie_mqtt_version_is_supported version \<or>
        (pv_version packet \<noteq> FLOWIE_MQTT_VERSION_UNSPECIFIED \<and> pv_version packet \<noteq> version)
     then Inl FLOWIE_MQTT_PARSE_PROTOCOL_ERROR
     else if \<not> connect_protocol_ok version protocol_name then Inl FLOWIE_MQTT_PARSE_PROTOCOL_ERROR
     else let flags = cursor ! 1;
              keep_alive = flowie_mqtt_read_u16 (drop 2 cursor);
              will_flag = drop_bit 2 flags AND 1;
              clean_start = drop_bit 1 flags AND 1;
              will_qos = drop_bit 3 flags AND 3;
              will_retain = drop_bit 5 flags AND 1;
              password_flag = drop_bit 6 flags AND 1;
              username_flag = drop_bit 7 flags AND 1
          in
     if flags AND 1 \<noteq> 0 \<or> will_qos = 3 \<or> (will_flag = 0 \<and> (will_qos \<noteq> 0 \<or> will_retain \<noteq> 0)) \<or>
        (password_flag \<noteq> 0 \<and> username_flag = 0)
     then Inl FLOWIE_MQTT_PARSE_PROTOCOL_ERROR
     else rbind (connect_properties_parse un version (drop 4 cursor)) (\<lambda>(properties, cursor).
     rbind (flowie_mqtt_length_span un cursor True) (\<lambda>(client_id, cursor).
     if version = FLOWIE_MQTT_VERSION_3_1 \<and> (span_size client_id = 0 \<or> span_size client_id > 23)
     then Inl FLOWIE_MQTT_PARSE_PROTOCOL_ERROR
     else rbind (connect_will_parse un version (will_flag \<noteq> 0) cursor)
            (\<lambda>(will_properties, will_topic, will_payload, cursor).
     rbind (optional_span un (username_flag \<noteq> 0) True cursor) (\<lambda>(username, cursor).
     rbind (optional_span un (password_flag \<noteq> 0) False cursor) (\<lambda>(password, cursor).
     if cursor \<noteq> [] then Inl FLOWIE_MQTT_PARSE_PROTOCOL_ERROR
     else Inr \<lparr>cv_version = version, cv_clean_start = clean_start, cv_will_qos = will_qos,
               cv_will_retain = will_retain, cv_keep_alive = keep_alive, cv_properties = properties,
               cv_client_id = client_id, cv_will_properties = will_properties,
               cv_will_topic = will_topic, cv_will_payload = will_payload,
               cv_username = username, cv_password = password\<rparr>)))))))"

section \<open>PUBLISH\<close>

definition flowie_mqtt_publish_parse ::
    "utf8_next \<Rightarrow> flowie_mqtt_packet_view \<Rightarrow> flowie_mqtt_publish_view parse" where
  "flowie_mqtt_publish_parse un packet =
     rbind (flowie_mqtt_typed_args packet FLOWIE_MQTT_PACKET_PUBLISH) (\<lambda>_.
     rbind (fail_if (\<not> flowie_mqtt_version_is_supported (pv_version packet))
              FLOWIE_MQTT_PARSE_INVALID_ARGUMENT) (\<lambda>_.
     let qos = drop_bit 1 (pv_flags packet) AND 3;
         retain = pv_flags packet AND 1;
         duplicate = drop_bit 3 (pv_flags packet) AND 1
     in
     rbind (flowie_mqtt_length_span un (span_bytes (pv_body packet)) True) (\<lambda>(topic, cursor).
     rbind (if qos \<noteq> 0 then nonzero_packet_id cursor else Inr (0, cursor)) (\<lambda>(packet_id, cursor).
     rbind (block_parse un (pv_version packet) flowie_mqtt_publish_properties_allowed
              flowie_mqtt_publish_properties_repeatable cursor) (\<lambda>(properties, present, cursor).
     if span_size topic = 0 \<and>
        (pv_version packet \<noteq> FLOWIE_MQTT_VERSION_5 \<or>
         present AND FLOWIE_MQTT_PROPERTY_BIT FLOWIE_MQTT_PROPERTY_TOPIC_ALIAS = 0)
     then Inl FLOWIE_MQTT_PARSE_PROTOCOL_ERROR
     else if span_size topic \<noteq> 0 \<and> \<not> flowie_mqtt_topic_name_validate un topic
     then Inl FLOWIE_MQTT_PARSE_PROTOCOL_ERROR
     else Inr \<lparr>pu_qos = qos, pu_retain = retain, pu_duplicate = duplicate, pu_packet_id = packet_id,
               pu_topic = topic, pu_properties = properties, pu_payload = Span cursor\<rparr>)))))"

section \<open>SUBSCRIBE\<close>

text \<open>An iterator is the protocol version with the bytes left, \<open>None\<close> while its cursor
  is NULL.\<close>

type_synonym flowie_mqtt_subscription_iterator = "flowie_mqtt_version \<times> bytes option"

definition flowie_mqtt_subscription_iterator_init ::
    "flowie_mqtt_packet_view \<Rightarrow> flowie_mqtt_subscribe_view \<Rightarrow> flowie_mqtt_subscription_iterator parse" where
  "flowie_mqtt_subscription_iterator_init packet subscribe =
     (if \<not> flowie_mqtt_version_is_supported (pv_version packet) \<or> span_null (sb_entries subscribe)
      then Inl FLOWIE_MQTT_PARSE_INVALID_ARGUMENT
      else Inr (pv_version packet, Some (span_bytes (sb_entries subscribe))))"

definition starts_with_share :: "flowie_mqtt_span \<Rightarrow> bool" where
  "starts_with_share flt \<longleftrightarrow> span_size flt \<ge> 7 \<and> take 7 (span_bytes flt) = share_prefix"

definition flowie_mqtt_subscription_iterator_next ::
    "utf8_next \<Rightarrow> flowie_mqtt_subscription_iterator \<Rightarrow>
       (flowie_mqtt_subscription_view \<times> flowie_mqtt_subscription_iterator) parse" where
  "flowie_mqtt_subscription_iterator_next un iterator =
     (case iterator of
        (version, None) \<Rightarrow> Inl FLOWIE_MQTT_PARSE_INVALID_ARGUMENT
      | (version, Some cursor) \<Rightarrow>
          if cursor = [] then Inl FLOWIE_MQTT_PARSE_NEED_MORE
          else case flowie_mqtt_length_span un cursor True of
            Inl rc \<Rightarrow> Inl FLOWIE_MQTT_PARSE_PROTOCOL_ERROR
          | Inr (flt, cursor) \<Rightarrow>
              if \<not> flowie_mqtt_topic_filter_validate un flt then Inl FLOWIE_MQTT_PARSE_PROTOCOL_ERROR
              else if cursor = [] then Inl FLOWIE_MQTT_PARSE_MALFORMED
              else let options = hd cursor;
                       qos = options AND 3;
                       no_local = drop_bit 2 options AND 1;
                       retain_as_published = drop_bit 3 options AND 1;
                       retain_handling = drop_bit 4 options AND 3
                   in
              if qos = 3 \<or> options AND 0xc0 \<noteq> 0 \<or> retain_handling = 3 \<or>
                 (flowie_mqtt_version_is_3x version \<and> options AND 0xfc \<noteq> 0) \<or>
                 (no_local \<noteq> 0 \<and> starts_with_share flt)
              then Inl FLOWIE_MQTT_PARSE_PROTOCOL_ERROR
              else Inr (\<lparr>sv_filter = flt, sv_qos = qos, sv_no_local = no_local,
                         sv_retain_as_published = retain_as_published,
                         sv_retain_handling = retain_handling\<rparr>,
                        (version, Some (tl cursor))))"

lemma length_span_shorter:
  "flowie_mqtt_length_span un bs utf8 = Inr (s, rest) \<Longrightarrow> length rest + 2 \<le> length bs"
  by (auto simp: length_span_iff)

lemma subscription_iterator_next_shorter:
  "flowie_mqtt_subscription_iterator_next un it = Inr (entry, it') \<Longrightarrow>
     \<exists>v bs bs'. it = (v, Some bs) \<and> it' = (v, Some bs') \<and> length bs' < length bs"
  by (auto simp: flowie_mqtt_subscription_iterator_next_def Let_def dest!: length_span_shorter
      split: prod.splits option.splits if_splits sum.splits)

text \<open>The counting loop of \<open>flowie_mqtt_subscribe_parse\<close>: the number of entries and the
  status that ended it.\<close>

function subscription_count_loop ::
    "utf8_next \<Rightarrow> flowie_mqtt_subscription_iterator \<Rightarrow> nat \<Rightarrow> nat \<times> flowie_mqtt_parse_result" where
  "subscription_count_loop un iterator entry_count =
     (case flowie_mqtt_subscription_iterator_next un iterator of
        Inr (entry, iterator') \<Rightarrow> subscription_count_loop un iterator' (entry_count + 1)
      | Inl rc \<Rightarrow> (entry_count, rc))"
  by pat_completeness auto
termination
  by (relation "measure (\<lambda>(un, (v, it), n). case it of None \<Rightarrow> 0 | Some bs \<Rightarrow> length bs)")
     (auto dest!: subscription_iterator_next_shorter)

declare subscription_count_loop.simps [simp del]

definition flowie_mqtt_subscribe_parse ::
    "utf8_next \<Rightarrow> flowie_mqtt_packet_view \<Rightarrow> flowie_mqtt_subscribe_view parse" where
  "flowie_mqtt_subscribe_parse un packet =
     rbind (flowie_mqtt_typed_args packet FLOWIE_MQTT_PACKET_SUBSCRIBE) (\<lambda>_.
     rbind (fail_if (\<not> flowie_mqtt_version_is_supported (pv_version packet))
              FLOWIE_MQTT_PARSE_INVALID_ARGUMENT) (\<lambda>_.
     rbind (nonzero_packet_id (span_bytes (pv_body packet))) (\<lambda>(packet_id, cursor).
     rbind (block_parse un (pv_version packet) flowie_mqtt_subscribe_properties_allowed
              flowie_mqtt_user_property_repeatable cursor) (\<lambda>(properties, present, cursor).
     if cursor = [] then Inl FLOWIE_MQTT_PARSE_PROTOCOL_ERROR
     else let parsed = \<lparr>sb_packet_id = packet_id, sb_properties = properties,
                        sb_entries = Span cursor, sb_entry_count = 0\<rparr> in
     rbind (flowie_mqtt_subscription_iterator_init packet parsed) (\<lambda>iterator.
     case subscription_count_loop un iterator 0 of (entry_count, rc) \<Rightarrow>
       if rc \<noteq> FLOWIE_MQTT_PARSE_NEED_MORE \<or> entry_count = 0 then Inl rc
       else Inr (parsed\<lparr>sb_entry_count := entry_count\<rparr>))))))"

section \<open>UNSUBSCRIBE\<close>

type_synonym flowie_mqtt_topic_filter_iterator = "bytes option"

definition flowie_mqtt_topic_filter_iterator_init ::
    "flowie_mqtt_unsubscribe_view \<Rightarrow> flowie_mqtt_topic_filter_iterator parse" where
  "flowie_mqtt_topic_filter_iterator_init unsubscribe =
     (if span_null (us_filters unsubscribe) \<or> span_size (us_filters unsubscribe) = 0
      then Inl FLOWIE_MQTT_PARSE_INVALID_ARGUMENT
      else Inr (Some (span_bytes (us_filters unsubscribe))))"

definition flowie_mqtt_topic_filter_iterator_next ::
    "utf8_next \<Rightarrow> flowie_mqtt_topic_filter_iterator \<Rightarrow>
       (flowie_mqtt_span \<times> flowie_mqtt_topic_filter_iterator) parse" where
  "flowie_mqtt_topic_filter_iterator_next un iterator =
     (case iterator of
        None \<Rightarrow> Inl FLOWIE_MQTT_PARSE_INVALID_ARGUMENT
      | Some cursor \<Rightarrow>
          if cursor = [] then Inl FLOWIE_MQTT_PARSE_NEED_MORE
          else rbind (flowie_mqtt_length_span un cursor True) (\<lambda>(flt, cursor).
            if \<not> flowie_mqtt_topic_filter_validate un flt then Inl FLOWIE_MQTT_PARSE_PROTOCOL_ERROR
            else Inr (flt, Some cursor)))"

lemma topic_filter_iterator_next_shorter:
  "flowie_mqtt_topic_filter_iterator_next un it = Inr (flt, it') \<Longrightarrow>
     \<exists>bs bs'. it = Some bs \<and> it' = Some bs' \<and> length bs' < length bs"
  by (auto simp: flowie_mqtt_topic_filter_iterator_next_def rbind_Inr_iff dest!: length_span_shorter
      split: option.splits if_splits)

function topic_filter_count_loop ::
    "utf8_next \<Rightarrow> flowie_mqtt_topic_filter_iterator \<Rightarrow> nat \<Rightarrow> nat \<times> flowie_mqtt_parse_result" where
  "topic_filter_count_loop un iterator filter_count =
     (case flowie_mqtt_topic_filter_iterator_next un iterator of
        Inr (flt, iterator') \<Rightarrow> topic_filter_count_loop un iterator' (filter_count + 1)
      | Inl rc \<Rightarrow> (filter_count, rc))"
  by pat_completeness auto
termination
  by (relation "measure (\<lambda>(un, it, n). iterator_left it)")
     (auto dest!: topic_filter_iterator_next_shorter)

declare topic_filter_count_loop.simps [simp del]

definition flowie_mqtt_unsubscribe_parse ::
    "utf8_next \<Rightarrow> flowie_mqtt_packet_view \<Rightarrow> flowie_mqtt_unsubscribe_view parse" where
  "flowie_mqtt_unsubscribe_parse un packet =
     rbind (flowie_mqtt_typed_args packet FLOWIE_MQTT_PACKET_UNSUBSCRIBE) (\<lambda>_.
     rbind (fail_if (\<not> flowie_mqtt_version_is_supported (pv_version packet))
              FLOWIE_MQTT_PARSE_INVALID_ARGUMENT) (\<lambda>_.
     rbind (nonzero_packet_id (span_bytes (pv_body packet))) (\<lambda>(packet_id, cursor).
     rbind (block_parse un (pv_version packet) flowie_mqtt_user_property_repeatable
              flowie_mqtt_user_property_repeatable cursor) (\<lambda>(properties, present, cursor).
     if cursor = [] then Inl FLOWIE_MQTT_PARSE_PROTOCOL_ERROR
     else let parsed = \<lparr>us_packet_id = packet_id, us_properties = properties,
                        us_filters = Span cursor, us_filter_count = 0\<rparr> in
     rbind (flowie_mqtt_topic_filter_iterator_init parsed) (\<lambda>iterator.
     case topic_filter_count_loop un iterator 0 of (filter_count, rc) \<Rightarrow>
       if rc \<noteq> FLOWIE_MQTT_PARSE_NEED_MORE \<or> filter_count = 0
       then Inl (if rc = FLOWIE_MQTT_PARSE_NEED_MORE then FLOWIE_MQTT_PARSE_PROTOCOL_ERROR else rc)
       else Inr (parsed\<lparr>us_filter_count := filter_count\<rparr>))))))"

end
