(* ===== verification/Mqtt_Framing.thy ===== *)
theory Mqtt_Framing
  imports Mqtt_Wire
begin

text \<open>
  Framing of MQTT packets: the lexer of \<open>protocol/parser/flowie_mqtt_lexer.re\<close>, the
  grammar of \<open>protocol/parser/flowie_mqtt_parser.y\<close> and the driver
  \<open>flowie_mqtt_packet_parse\<close> of \<open>protocol/src/flowie_mqtt_protocol.c\<close>. The
  lexer hands out at most three tokens (first byte, Remaining Length, body); the grammar
  checks their order and builds the packet view.
\<close>

section \<open>Lexer\<close>

datatype flowie_mqtt_lexer_state =
    FLOWIE_MQTT_LEX_FIXED_HEADER
  | FLOWIE_MQTT_LEX_REMAINING_LENGTH
  | FLOWIE_MQTT_LEX_BODY
  | FLOWIE_MQTT_LEX_DONE

record flowie_mqtt_token =
  tk_integer :: u32
  tk_span :: flowie_mqtt_span
  tk_offset :: nat

text \<open>
  The three pointers of the lexer become the offset of the cursor from the input and the
  bytes from the cursor to the limit. A NULL input has no bytes, and the lexer treats both
  alike: it asks for more.
\<close>

record flowie_mqtt_lexer =
  lx_offset :: nat
  lx_rest :: bytes
  lx_state :: flowie_mqtt_lexer_state
  lx_remaining_length :: u32
  lx_remaining_length_bytes :: nat

datatype flowie_mqtt_token_id =
    FLOWIE_MQTT_TOKEN_FIXED_HEADER
  | FLOWIE_MQTT_TOKEN_REMAINING_LENGTH
  | FLOWIE_MQTT_TOKEN_BODY

datatype flowie_mqtt_lexed =
    LexerDone
  | LexerNeedMore
  | LexerError flowie_mqtt_parse_result nat
  | LexerToken flowie_mqtt_token_id flowie_mqtt_token flowie_mqtt_lexer

definition required_flags :: "u8 list" where
  "required_flags =
     [0xff, 0x00, 0x00, 0xff, 0x00, 0x00, 0x02, 0x00, 0x02, 0x00, 0x02, 0x00, 0x00, 0x00, 0x00, 0x00]"

definition flowie_mqtt_fixed_header_valid :: "u8 \<Rightarrow> flowie_mqtt_version \<Rightarrow> bool" where
  "flowie_mqtt_fixed_header_valid first version =
     (let type = drop_bit 4 first; flags = first AND 0x0f in
      if type = 0 \<or> (ucast type :: u32) > FLOWIE_MQTT_PACKET_AUTH then False
      else if ucast type = FLOWIE_MQTT_PACKET_AUTH \<and> version \<noteq> FLOWIE_MQTT_VERSION_5 then False
      else if ucast type = FLOWIE_MQTT_PACKET_PUBLISH then
        (let qos = drop_bit 1 flags AND 0x03; duplicate = drop_bit 3 flags AND 0x01 in
         qos \<noteq> 0x03 \<and> \<not> (qos = 0 \<and> duplicate \<noteq> 0))
      else flags = required_flags ! unat type)"

definition flowie_mqtt_lexer_init :: "bytes \<Rightarrow> flowie_mqtt_lexer" where
  "flowie_mqtt_lexer_init bytes =
     \<lparr>lx_offset = 0, lx_rest = bytes, lx_state = FLOWIE_MQTT_LEX_FIXED_HEADER,
      lx_remaining_length = 0, lx_remaining_length_bytes = 0\<rparr>"

definition flowie_mqtt_lexer_next ::
    "flowie_mqtt_lexer \<Rightarrow> flowie_mqtt_version \<Rightarrow> flowie_mqtt_lexed" where
  "flowie_mqtt_lexer_next lexer version =
     (let token = \<lparr>tk_integer = 0, tk_span = NullSpan 0, tk_offset = lx_offset lexer\<rparr>;
          rest = lx_rest lexer
      in if lx_state lexer = FLOWIE_MQTT_LEX_DONE then LexerDone
      else if rest = [] then LexerNeedMore
      else case lx_state lexer of
        FLOWIE_MQTT_LEX_FIXED_HEADER \<Rightarrow>
          (if hd rest \<ge> 0x10 then
             (if \<not> flowie_mqtt_fixed_header_valid (hd rest) version
              then LexerError FLOWIE_MQTT_PARSE_PROTOCOL_ERROR (lx_offset lexer)
              else LexerToken FLOWIE_MQTT_TOKEN_FIXED_HEADER (token\<lparr>tk_integer := ucast (hd rest)\<rparr>)
                     (lexer\<lparr>lx_offset := lx_offset lexer + 1, lx_rest := tl rest,
                            lx_state := FLOWIE_MQTT_LEX_REMAINING_LENGTH\<rparr>))
           else LexerError FLOWIE_MQTT_PARSE_PROTOCOL_ERROR (lx_offset lexer))
      | FLOWIE_MQTT_LEX_REMAINING_LENGTH \<Rightarrow>
          (case vbi_loop 0 0 1 rest of
             Inl e \<Rightarrow> if e = FLOWIE_MQTT_PARSE_NEED_MORE then LexerNeedMore
                      else LexerError e (lx_offset lexer)
           | Inr (value, count, rest') \<Rightarrow>
               LexerToken FLOWIE_MQTT_TOKEN_REMAINING_LENGTH
                 (token\<lparr>tk_integer := value, tk_span := Span (take count rest)\<rparr>)
                 (lexer\<lparr>lx_offset := lx_offset lexer + count, lx_rest := rest',
                        lx_remaining_length := value, lx_remaining_length_bytes := count,
                        lx_state := (if value = 0 then FLOWIE_MQTT_LEX_DONE else FLOWIE_MQTT_LEX_BODY)\<rparr>))
      | FLOWIE_MQTT_LEX_BODY \<Rightarrow>
          (let size = unat (lx_remaining_length lexer) in
           if length rest < size then LexerNeedMore
           else LexerToken FLOWIE_MQTT_TOKEN_BODY (token\<lparr>tk_span := Span (take size rest)\<rparr>)
                  (lexer\<lparr>lx_offset := lx_offset lexer + size, lx_rest := drop size rest,
                         lx_state := FLOWIE_MQTT_LEX_DONE\<rparr>))
      | FLOWIE_MQTT_LEX_DONE \<Rightarrow> LexerDone)"

section \<open>Grammar\<close>

text \<open>
  The context that the grammar actions update: \<open>cx_code = None\<close> stands for
  \<open>FLOWIE_MQTT_PARSE_OK\<close> and \<open>cx_packet\<close> is present once the packet is accepted.
\<close>

record flowie_mqtt_parse_ctx =
  cx_input :: bytes
  cx_version :: flowie_mqtt_version
  cx_packet :: "flowie_mqtt_packet_view option"
  cx_code :: "flowie_mqtt_parse_result option"
  cx_error_offset :: nat
  cx_message :: "string option"

definition flowie_mqtt_parser_accept ::
    "flowie_mqtt_parse_ctx \<Rightarrow> flowie_mqtt_token \<Rightarrow> flowie_mqtt_token \<Rightarrow> flowie_mqtt_token \<Rightarrow>
       flowie_mqtt_parse_ctx" where
  "flowie_mqtt_parser_accept ctx header remaining body =
     (if cx_code ctx \<noteq> None then ctx
      else let fixed_header_size = 1 + span_size (tk_span remaining) in
      if (tk_integer remaining = 0 \<and> span_size (tk_span body) \<noteq> 0) \<or>
         unat (tk_integer remaining) \<noteq> span_size (tk_span body)
      then ctx\<lparr>cx_code := Some FLOWIE_MQTT_PARSE_MALFORMED, cx_error_offset := tk_offset body,
               cx_message := Some ''packet body length does not match Remaining Length''\<rparr>
      else let packet_type = drop_bit 4 (tk_integer header) in
      if (packet_type = FLOWIE_MQTT_PACKET_PINGREQ \<or> packet_type = FLOWIE_MQTT_PACKET_PINGRESP) \<and>
         tk_integer remaining \<noteq> 0
      then ctx\<lparr>cx_code := Some FLOWIE_MQTT_PARSE_PROTOCOL_ERROR, cx_error_offset := tk_offset remaining,
               cx_message := Some ''PING packet must have zero Remaining Length''\<rparr>
      else ctx\<lparr>cx_packet := Some
             \<lparr>pv_version = cx_version ctx,
              pv_type = drop_bit 4 (tk_integer header),
              pv_flags = ucast (tk_integer header AND 0x0f),
              pv_remaining_length = tk_integer remaining,
              pv_fixed_header_size = fixed_header_size,
              pv_packet = Span (take (fixed_header_size + span_size (tk_span body)) (cx_input ctx)),
              pv_body = (if tk_integer remaining = 0 then Span [] else tk_span body)\<rparr>\<rparr>)"

definition flowie_mqtt_parser_fail ::
    "flowie_mqtt_parse_ctx \<Rightarrow> flowie_mqtt_token \<Rightarrow> flowie_mqtt_parse_ctx" where
  "flowie_mqtt_parser_fail ctx token =
     (if cx_code ctx \<noteq> None then ctx
      else ctx\<lparr>cx_code := Some FLOWIE_MQTT_PARSE_MALFORMED, cx_error_offset := tk_offset token,
               cx_message := Some ''invalid MQTT packet token sequence''\<rparr>)"

text \<open>
  The parser generated from \<open>packet ::= FIXED_HEADER REMAINING_LENGTH optional_body\<close>:
  its stack holds the shifted tokens; a token that the grammar does not allow next is a
  syntax error; the end of the input reduces \<open>optional_body\<close> and \<open>packet\<close>.
\<close>

definition zero_token :: flowie_mqtt_token where
  "zero_token = \<lparr>tk_integer = 0, tk_span = NullSpan 0, tk_offset = 0\<rparr>"

fun FlowieMqttParse ::
    "flowie_mqtt_token list \<Rightarrow> flowie_mqtt_token_id option \<Rightarrow> flowie_mqtt_token \<Rightarrow>
       flowie_mqtt_parse_ctx \<Rightarrow> flowie_mqtt_token list \<times> flowie_mqtt_parse_ctx" where
  "FlowieMqttParse [] (Some FLOWIE_MQTT_TOKEN_FIXED_HEADER) token ctx = ([token], ctx)"
| "FlowieMqttParse [h] (Some FLOWIE_MQTT_TOKEN_REMAINING_LENGTH) token ctx = ([h, token], ctx)"
| "FlowieMqttParse [h, r] (Some FLOWIE_MQTT_TOKEN_BODY) token ctx = ([h, r, token], ctx)"
| "FlowieMqttParse [h, r] None token ctx = ([], flowie_mqtt_parser_accept ctx h r zero_token)"
| "FlowieMqttParse [h, r, b] None token ctx = ([], flowie_mqtt_parser_accept ctx h r b)"
| "FlowieMqttParse stack token_id token ctx = (stack, flowie_mqtt_parser_fail ctx token)"

section \<open>Driver\<close>

fun lexer_rank :: "flowie_mqtt_lexer_state \<Rightarrow> nat" where
  "lexer_rank FLOWIE_MQTT_LEX_FIXED_HEADER = 3"
| "lexer_rank FLOWIE_MQTT_LEX_REMAINING_LENGTH = 2"
| "lexer_rank FLOWIE_MQTT_LEX_BODY = 1"
| "lexer_rank FLOWIE_MQTT_LEX_DONE = 0"

lemma lexer_next_rank:
  "flowie_mqtt_lexer_next lexer version = LexerToken token_id token lexer' \<Longrightarrow>
     lexer_rank (lx_state lexer') < lexer_rank (lx_state lexer)"
  by (auto simp: flowie_mqtt_lexer_next_def Let_def
      split: if_splits flowie_mqtt_lexer_state.splits sum.splits)

definition parse_failure :: "flowie_mqtt_parse_result \<Rightarrow> nat \<Rightarrow> string \<Rightarrow> flowie_mqtt_parse_error + 'a" where
  "parse_failure code offset message =
     Inl \<lparr>pe_code = code, pe_offset = offset, pe_message = message\<rparr>"

text \<open>
  The token loop. It ends with an error, or with the context in which either the input
  is used up or a grammar action has set an error code.
\<close>

function packet_parse_loop ::
    "nat \<Rightarrow> nat \<Rightarrow> flowie_mqtt_version \<Rightarrow> flowie_mqtt_lexer \<Rightarrow> flowie_mqtt_token list \<Rightarrow>
       flowie_mqtt_parse_ctx \<Rightarrow>
       flowie_mqtt_parse_error + flowie_mqtt_token list \<times> flowie_mqtt_parse_ctx" where
  "packet_parse_loop byte_count max_packet_size version lexer stack ctx =
     (case flowie_mqtt_lexer_next lexer version of
        LexerNeedMore \<Rightarrow>
          parse_failure FLOWIE_MQTT_PARSE_NEED_MORE byte_count ''incomplete MQTT packet''
      | LexerError code offset \<Rightarrow>
          parse_failure code offset
            (if code = FLOWIE_MQTT_PARSE_PROTOCOL_ERROR then ''invalid MQTT fixed header''
             else ''malformed MQTT Remaining Length'')
      | LexerDone \<Rightarrow> Inr (stack, ctx)
      | LexerToken token_id token lexer' \<Rightarrow>
          if token_id = FLOWIE_MQTT_TOKEN_REMAINING_LENGTH \<and>
             1 + span_size (tk_span token) + unat (tk_integer token) > max_packet_size
          then parse_failure FLOWIE_MQTT_PARSE_TOO_LARGE (tk_offset token)
                 ''MQTT packet exceeds configured limit''
          else (case FlowieMqttParse stack (Some token_id) token ctx of (stack', ctx') \<Rightarrow>
                  if cx_code ctx' \<noteq> None then Inr (stack', ctx')
                  else packet_parse_loop byte_count max_packet_size version lexer' stack' ctx'))"
  by pat_completeness auto
termination
  by (relation "measure (\<lambda>(n, m, v, lexer, stack, ctx). lexer_rank (lx_state lexer))")
     (auto dest: lexer_next_rank)

declare packet_parse_loop.simps [simp del]

definition flowie_mqtt_parse_options_init :: flowie_mqtt_parse_options where
  "flowie_mqtt_parse_options_init =
     \<lparr>po_version = FLOWIE_MQTT_VERSION_UNSPECIFIED, po_max_packet_size = FLOWIE_MQTT_MAX_WIRE_PACKET_SIZE\<rparr>"

text \<open>
  \<open>allocated\<close> says whether \<open>FlowieMqttParseAlloc\<close> gets memory. The result is the
  error description, whose code is what the function returns, or the view together with
  the number of bytes consumed.
\<close>

definition flowie_mqtt_packet_parse ::
    "bool \<Rightarrow> flowie_mqtt_span \<Rightarrow> flowie_mqtt_parse_options option \<Rightarrow>
       flowie_mqtt_parse_error + flowie_mqtt_packet_view \<times> nat" where
  "flowie_mqtt_packet_parse allocated bytes options_arg =
     (if span_null bytes \<and> span_size bytes \<noteq> 0
      then parse_failure FLOWIE_MQTT_PARSE_INVALID_ARGUMENT 0 ''invalid parser ABI''
      else let options = (case options_arg of None \<Rightarrow> flowie_mqtt_parse_options_init | Some o' \<Rightarrow> o') in
      if po_version options \<noteq> FLOWIE_MQTT_VERSION_UNSPECIFIED \<and>
         \<not> flowie_mqtt_version_is_supported (po_version options)
      then parse_failure FLOWIE_MQTT_PARSE_INVALID_ARGUMENT 0 ''unsupported MQTT version''
      else let max_packet_size = (if po_max_packet_size options \<noteq> 0 then po_max_packet_size options
                                  else FLOWIE_MQTT_MAX_WIRE_PACKET_SIZE) in
      if max_packet_size > FLOWIE_MQTT_MAX_WIRE_PACKET_SIZE
      then parse_failure FLOWIE_MQTT_PARSE_INVALID_ARGUMENT 0 ''packet limit exceeds MQTT maximum''
      else if \<not> allocated
      then parse_failure FLOWIE_MQTT_PARSE_NO_MEMORY 0 ''parser allocation failed''
      else rbind (packet_parse_loop (span_size bytes) max_packet_size (po_version options)
                    (flowie_mqtt_lexer_init (span_bytes bytes)) []
                    \<lparr>cx_input = span_bytes bytes, cx_version = po_version options, cx_packet = None,
                     cx_code = None, cx_error_offset = 0, cx_message = None\<rparr>)
        (\<lambda>(stack, ctx).
           let ctx' = (if cx_code ctx = None then snd (FlowieMqttParse stack None zero_token ctx) else ctx) in
           case (cx_code ctx', cx_packet ctx') of
             (None, Some packet) \<Rightarrow> Inr (packet, span_size (pv_packet packet))
           | (code, _) \<Rightarrow>
               parse_failure (case code of None \<Rightarrow> FLOWIE_MQTT_PARSE_MALFORMED | Some c \<Rightarrow> c)
                 (cx_error_offset ctx')
                 (case cx_message ctx' of None \<Rightarrow> ''MQTT packet was not accepted'' | Some m \<Rightarrow> m)))"

section \<open>The frame\<close>

text \<open>
  What one call does on a byte sequence, without lexer states and token stacks: the first
  byte must be a valid fixed header, the Remaining Length must be read and fit the limit,
  and the body must be there.
\<close>

definition frame_view :: "flowie_mqtt_version \<Rightarrow> u8 \<Rightarrow> u32 \<Rightarrow> bytes \<Rightarrow> flowie_mqtt_packet_view" where
  "frame_view version first rl body =
     \<lparr>pv_version = version, pv_type = drop_bit 4 (ucast first), pv_flags = first AND 0x0f,
      pv_remaining_length = rl, pv_fixed_header_size = 1 + flowie_mqtt_vbi_size rl,
      pv_packet = Span (first # flowie_mqtt_vbi_write rl @ body), pv_body = Span body\<rparr>"

definition ping_type :: "u8 \<Rightarrow> bool" where
  "ping_type first \<longleftrightarrow> drop_bit 4 first = 12 \<or> drop_bit 4 first = 13"

definition frame_parse ::
    "flowie_mqtt_version \<Rightarrow> nat \<Rightarrow> bytes \<Rightarrow> (flowie_mqtt_packet_view \<times> nat) parse" where
  "frame_parse version limit bs =
     (case bs of
        [] \<Rightarrow> Inl FLOWIE_MQTT_PARSE_NEED_MORE
      | first # after \<Rightarrow>
          if first < 0x10 \<or> \<not> flowie_mqtt_fixed_header_valid first version
          then Inl FLOWIE_MQTT_PARSE_PROTOCOL_ERROR
          else rbind (vbi_loop 0 0 1 after) (\<lambda>(rl, n, rest).
            if 1 + n + unat rl > limit then Inl FLOWIE_MQTT_PARSE_TOO_LARGE
            else if length rest < unat rl then Inl FLOWIE_MQTT_PARSE_NEED_MORE
            else if ping_type first \<and> rl \<noteq> 0 then Inl FLOWIE_MQTT_PARSE_PROTOCOL_ERROR
            else Inr (frame_view version first rl (take (unat rl) rest), 1 + n + unat rl)))"

lemma ucast_high_nibble: "drop_bit 4 (ucast (b::u8)) = (ucast (drop_bit 4 b) :: u32)"
  by (rule bit_word_eqI) (auto simp: bit_simps dest: bit_imp_le_length)

lemma ucast_low_nibble: "ucast (ucast (b::u8) AND 0x0f :: u32) = b AND 0x0f"
proof -
  have "(0x0f::u32) = mask 4" "(0x0f::u8) = mask 4" by (simp_all add: mask_eq_exp_minus_1)
  then show ?thesis by (intro bit_word_eqI) (auto simp: bit_simps)
qed

lemma ucast_eq_iff_u8: "(ucast (b::u8) :: u32) = of_nat n \<longleftrightarrow> b = of_nat n" if "n < 256"
proof -
  have "unat (ucast b :: u32) = unat b"
    unfolding ucast_eq_of_nat using u8_less_256 [of b] by (intro unat_of_nat_u32) simp
  then show ?thesis
    using that by (simp add: word_unat_eq_iff [where 'a = 32] word_unat_eq_iff [where 'a = 8]
        unat_of_nat_u8 unat_of_nat_u32)
qed

lemma ping_type_u32:
  "drop_bit 4 (ucast b) = FLOWIE_MQTT_PACKET_PINGREQ \<or>
   drop_bit 4 (ucast b) = FLOWIE_MQTT_PACKET_PINGRESP \<longleftrightarrow> ping_type b"
  using ucast_eq_iff_u8 [of 12 "drop_bit 4 b"] ucast_eq_iff_u8 [of 13 "drop_bit 4 b"]
  by (simp add: ping_type_def ucast_high_nibble)

lemma lexer_next_simps [simp]:
  "flowie_mqtt_lexer_next (flowie_mqtt_lexer_init []) version = LexerNeedMore"
  "flowie_mqtt_lexer_next (flowie_mqtt_lexer_init (b # bs)) version =
     (if b < 0x10 \<or> \<not> flowie_mqtt_fixed_header_valid b version
      then LexerError FLOWIE_MQTT_PARSE_PROTOCOL_ERROR 0
      else LexerToken FLOWIE_MQTT_TOKEN_FIXED_HEADER
             \<lparr>tk_integer = ucast b, tk_span = NullSpan 0, tk_offset = 0\<rparr>
             \<lparr>lx_offset = 1, lx_rest = bs, lx_state = FLOWIE_MQTT_LEX_REMAINING_LENGTH,
              lx_remaining_length = 0, lx_remaining_length_bytes = 0\<rparr>)"
  "flowie_mqtt_lexer_next
     \<lparr>lx_offset = o', lx_rest = bs, lx_state = FLOWIE_MQTT_LEX_REMAINING_LENGTH,
      lx_remaining_length = l, lx_remaining_length_bytes = k\<rparr> version =
     (case vbi_loop 0 0 1 bs of
        Inl e \<Rightarrow> if e = FLOWIE_MQTT_PARSE_NEED_MORE then LexerNeedMore else LexerError e o'
      | Inr (rl, n, rest) \<Rightarrow>
          LexerToken FLOWIE_MQTT_TOKEN_REMAINING_LENGTH
            \<lparr>tk_integer = rl, tk_span = Span (take n bs), tk_offset = o'\<rparr>
            \<lparr>lx_offset = o' + n, lx_rest = rest,
             lx_state = (if rl = 0 then FLOWIE_MQTT_LEX_DONE else FLOWIE_MQTT_LEX_BODY),
             lx_remaining_length = rl, lx_remaining_length_bytes = n\<rparr>)"
  "flowie_mqtt_lexer_next
     \<lparr>lx_offset = o', lx_rest = bs, lx_state = FLOWIE_MQTT_LEX_DONE,
      lx_remaining_length = l, lx_remaining_length_bytes = k\<rparr> version = LexerDone"
  by (auto simp: flowie_mqtt_lexer_next_def flowie_mqtt_lexer_init_def Let_def not_le
      split: sum.splits)

lemma lexer_next_body [simp]:
  "rl \<noteq> 0 \<Longrightarrow> flowie_mqtt_lexer_next
     \<lparr>lx_offset = o', lx_rest = bs, lx_state = FLOWIE_MQTT_LEX_BODY,
      lx_remaining_length = rl, lx_remaining_length_bytes = k\<rparr> version =
     (if length bs < unat rl then LexerNeedMore
      else LexerToken FLOWIE_MQTT_TOKEN_BODY
             \<lparr>tk_integer = 0, tk_span = Span (take (unat rl) bs), tk_offset = o'\<rparr>
             \<lparr>lx_offset = o' + unat rl, lx_rest = drop (unat rl) bs, lx_state = FLOWIE_MQTT_LEX_DONE,
              lx_remaining_length = rl, lx_remaining_length_bytes = k\<rparr>)"
  using unat_eq_0 [of rl] by (cases bs) (auto simp: flowie_mqtt_lexer_next_def Let_def)

definition options_ok :: "flowie_mqtt_parse_options \<Rightarrow> bool" where
  "options_ok opts \<longleftrightarrow>
     (po_version opts = FLOWIE_MQTT_VERSION_UNSPECIFIED \<or> flowie_mqtt_version_is_supported (po_version opts)) \<and>
     po_max_packet_size opts \<le> FLOWIE_MQTT_MAX_WIRE_PACKET_SIZE"

definition packet_limit :: "flowie_mqtt_parse_options \<Rightarrow> nat" where
  "packet_limit opts =
     (if po_max_packet_size opts \<noteq> 0 then po_max_packet_size opts else FLOWIE_MQTT_MAX_WIRE_PACKET_SIZE)"

lemma packet_parse_frame:
  assumes "options_ok opts"
  shows "map_error pe_code (flowie_mqtt_packet_parse True (Span bs) (Some opts)) =
           frame_parse (po_version opts) (packet_limit opts) bs"
proof -
  note run = flowie_mqtt_packet_parse_def frame_parse_def parse_failure_def Let_def
    packet_parse_loop.simps packet_limit_def
  show ?thesis
  proof (cases bs)
    case Nil
    then show ?thesis using assms by (auto simp: run options_ok_def)
  next
    case (Cons b after)
    show ?thesis
    proof (cases "vbi_loop 0 0 1 after")
      case (Inl e)
      then show ?thesis using assms Cons by (auto simp: run options_ok_def)
    next
      case (Inr x)
      then obtain rl n rest where x: "vbi_loop 0 0 1 after = Inr (rl, n, rest)" by (cases x) auto
      then have after: "after = flowie_mqtt_vbi_write rl @ rest" and n: "n = flowie_mqtt_vbi_size rl"
        by (auto simp: vbi_loop_iff)
      show ?thesis
        using assms Cons x after n ping_type_u32 [of b]
        by (auto simp: run options_ok_def length_vbi_write flowie_mqtt_parser_accept_def zero_token_def
            frame_view_def ucast_low_nibble)
    qed
  qed
qed

lemma frame_parse_iff:
  "frame_parse version limit bs = Inr (pv, n) \<longleftrightarrow>
     (\<exists>first rl body rest.
        bs = first # flowie_mqtt_vbi_write rl @ body @ rest \<and> length body = unat rl \<and>
        unat rl \<le> FLOWIE_MQTT_MAX_REMAINING_LENGTH \<and>
        0x10 \<le> first \<and> flowie_mqtt_fixed_header_valid first version \<and> \<not> (ping_type first \<and> rl \<noteq> 0) \<and>
        n = 1 + flowie_mqtt_vbi_size rl + unat rl \<and> n \<le> limit \<and> pv = frame_view version first rl body)"
  (is "?L \<longleftrightarrow> ?R")
proof
  assume ?L
  then obtain first rl k rest where "bs = first # flowie_mqtt_vbi_write rl @ rest"
      "unat rl \<le> FLOWIE_MQTT_MAX_REMAINING_LENGTH" "\<not> length rest < unat rl"
      "0x10 \<le> first" "flowie_mqtt_fixed_header_valid first version" "\<not> (ping_type first \<and> rl \<noteq> 0)"
      "n = 1 + flowie_mqtt_vbi_size rl + unat rl" "n \<le> limit"
      "pv = frame_view version first rl (take (unat rl) rest)"
    by (auto simp: frame_parse_def rbind_Inr_iff vbi_loop_iff not_less
        split: list.splits if_splits prod.splits)
  then show ?R
    by (intro exI [of _ first] exI [of _ rl] exI [of _ "take (unat rl) rest"]
        exI [of _ "drop (unat rl) rest"]) simp
next
  assume ?R
  then obtain first rl body rest where R: "bs = first # flowie_mqtt_vbi_write rl @ body @ rest"
      "length body = unat rl" "unat rl \<le> FLOWIE_MQTT_MAX_REMAINING_LENGTH" "0x10 \<le> first"
      "flowie_mqtt_fixed_header_valid first version" "\<not> (ping_type first \<and> rl \<noteq> 0)"
      "n = 1 + flowie_mqtt_vbi_size rl + unat rl" "n \<le> limit" "pv = frame_view version first rl body"
    by blast
  then have "vbi_loop 0 0 1 (flowie_mqtt_vbi_write rl @ body @ rest) =
      Inr (rl, flowie_mqtt_vbi_size rl, body @ rest)"
    by (simp add: vbi_loop_iff)
  with R show ?L by (auto simp: frame_parse_def not_le [symmetric])
qed

lemma vbi_loop_append:
  "vbi_loop off r m bs = Inr (v, n, rest) \<Longrightarrow> vbi_loop off r m (bs @ more') = Inr (v, n, rest @ more')"
  "vbi_loop off r m bs = Inl e \<Longrightarrow> e \<noteq> FLOWIE_MQTT_PARSE_NEED_MORE \<Longrightarrow>
     vbi_loop off r m (bs @ more') = Inl e"
  by (induction bs arbitrary: off r m) (auto simp: Let_def split: if_splits)

lemma frame_parse_append_ok:
  assumes "frame_parse version limit bs = Inr (pv, n)"
  shows "frame_parse version limit (bs @ more') = Inr (pv, n)"
proof -
  obtain first rl body rest where "bs = first # flowie_mqtt_vbi_write rl @ body @ rest \<and>
        length body = unat rl \<and> unat rl \<le> FLOWIE_MQTT_MAX_REMAINING_LENGTH \<and>
        0x10 \<le> first \<and> flowie_mqtt_fixed_header_valid first version \<and> \<not> (ping_type first \<and> rl \<noteq> 0) \<and>
        n = 1 + flowie_mqtt_vbi_size rl + unat rl \<and> n \<le> limit \<and> pv = frame_view version first rl body"
    using assms unfolding frame_parse_iff by blast
  then show ?thesis
    unfolding frame_parse_iff
    by (intro exI [of _ first] exI [of _ rl] exI [of _ body] exI [of _ "rest @ more'"]) simp
qed

lemma frame_parse_append_error:
  assumes "frame_parse version limit bs = Inl e" "e \<noteq> FLOWIE_MQTT_PARSE_NEED_MORE"
  shows "frame_parse version limit (bs @ more') = Inl e"
proof (cases bs)
  case Nil
  then show ?thesis using assms by (simp add: frame_parse_def)
next
  case (Cons b after)
  show ?thesis
  proof (cases "vbi_loop 0 0 1 after")
    case (Inl e')
    then show ?thesis
      using assms Cons vbi_loop_append(2) [OF Inl, of more']
      by (auto simp: frame_parse_def split: if_splits)
  next
    case (Inr x)
    then obtain rl n rest where x: "vbi_loop 0 0 1 after = Inr (rl, n, rest)" by (cases x) auto
    show ?thesis
      using assms Cons x vbi_loop_append(1) [OF x, of more']
      by (simp add: frame_parse_def split: if_splits)
  qed
qed

lemma frame_parse_prefix:
  assumes "frame_parse version limit bs = Inr (pv, n)" "k < n"
  shows "frame_parse version limit (take k bs) = Inl FLOWIE_MQTT_PARSE_NEED_MORE"
proof (cases "frame_parse version limit (take k bs)")
  case (Inl e)
  then show ?thesis
    using frame_parse_append_error [OF Inl, of "drop k bs"] assms by auto
next
  case (Inr x)
  then obtain pv' n' where x: "frame_parse version limit (take k bs) = Inr (pv', n')"
    by (cases x) auto
  then have "n' = n" using frame_parse_append_ok [OF x, of "drop k bs"] assms by simp
  moreover have "n' \<le> length (take k bs)"
    using x unfolding frame_parse_iff by (auto simp: length_vbi_write simp del: length_take)
  ultimately show ?thesis using assms by simp
qed

definition packet_parse_code ::
    "flowie_mqtt_parse_options \<Rightarrow> bytes \<Rightarrow> (flowie_mqtt_packet_view \<times> nat) parse" where
  "packet_parse_code opts bs =
     map_error pe_code (flowie_mqtt_packet_parse True (Span bs) (Some opts))"

section \<open>Properties\<close>

text \<open>C6: framing. With valid options the parser accepts a byte sequence if and only if
  it starts with a fixed header that is valid for the version, the canonical Remaining
  Length and a body of exactly that many bytes, within the packet limit and with an empty
  body for PINGREQ and PINGRESP; it then consumes exactly those bytes and returns their
  view, whatever follows.\<close>

theorem packet_parse_accepts:
  assumes "options_ok opts"
  shows "flowie_mqtt_packet_parse True (Span bs) (Some opts) = Inr (pv, n) \<longleftrightarrow>
     (\<exists>first rl body rest.
        bs = first # flowie_mqtt_vbi_write rl @ body @ rest \<and> length body = unat rl \<and>
        unat rl \<le> FLOWIE_MQTT_MAX_REMAINING_LENGTH \<and>
        0x10 \<le> first \<and> flowie_mqtt_fixed_header_valid first (po_version opts) \<and>
        \<not> (ping_type first \<and> rl \<noteq> 0) \<and>
        n = 1 + flowie_mqtt_vbi_size rl + unat rl \<and> n \<le> packet_limit opts \<and>
        pv = frame_view (po_version opts) first rl body)"
  unfolding frame_parse_iff [symmetric] packet_parse_frame [OF assms, symmetric] by simp

theorem packet_parse_accepts_witness:
  "options_ok flowie_mqtt_parse_options_init \<and>
   flowie_mqtt_packet_parse True (Span [0x30, 3, 0, 1, 0x61, 0xc0]) (Some flowie_mqtt_parse_options_init) =
     Inr (frame_view 0 0x30 3 [0, 1, 0x61], 5)"
proof -
  have ok: "options_ok flowie_mqtt_parse_options_init"
    by (simp add: options_ok_def flowie_mqtt_parse_options_init_def)
  have "flowie_mqtt_vbi_write 3 = [3]" "flowie_mqtt_vbi_size 3 = 1"
      "flowie_mqtt_fixed_header_valid 0x30 0" "\<not> ping_type 0x30"
    by code_simp+
  then have "\<exists>first rl body rest.
        [0x30, 3, 0, 1, 0x61, 0xc0] = first # flowie_mqtt_vbi_write rl @ body @ rest \<and>
        length body = unat rl \<and> unat rl \<le> FLOWIE_MQTT_MAX_REMAINING_LENGTH \<and>
        0x10 \<le> first \<and> flowie_mqtt_fixed_header_valid first (po_version flowie_mqtt_parse_options_init) \<and>
        \<not> (ping_type first \<and> rl \<noteq> 0) \<and>
        5 = 1 + flowie_mqtt_vbi_size rl + unat rl \<and>
        5 \<le> packet_limit flowie_mqtt_parse_options_init \<and>
        frame_view 0 0x30 3 [0, 1, 0x61] =
          frame_view (po_version flowie_mqtt_parse_options_init) first rl body"
    by (intro exI [of _ "0x30"] exI [of _ 3] exI [of _ "[0, 1, 0x61]"] exI [of _ "[0xc0]"])
       (simp add: flowie_mqtt_parse_options_init_def packet_limit_def)
  then show ?thesis
    using packet_parse_accepts [OF ok] ok by blast
qed

text \<open>C7: framing of a stream. With valid options, an accepted packet stays accepted, with
  the same view and size, when more bytes arrive; every proper prefix of it only asks for
  more; and an error other than that request is final, whatever arrives later.\<close>

theorem packet_parse_stream:
  assumes "options_ok opts"
  shows "(packet_parse_code opts bs = Inr (pv, n) \<longrightarrow> packet_parse_code opts (bs @ extra) = Inr (pv, n)) \<and>
         (packet_parse_code opts bs = Inr (pv, n) \<and> k < n \<longrightarrow>
            packet_parse_code opts (take k bs) = Inl FLOWIE_MQTT_PARSE_NEED_MORE) \<and>
         (packet_parse_code opts bs = Inl e \<and> e \<noteq> FLOWIE_MQTT_PARSE_NEED_MORE \<longrightarrow>
            packet_parse_code opts (bs @ extra) = Inl e)"
  unfolding packet_parse_code_def packet_parse_frame [OF assms]
  by (auto intro: frame_parse_append_ok frame_parse_append_error frame_parse_prefix)

theorem packet_parse_stream_witness:
  "options_ok flowie_mqtt_parse_options_init \<and>
   packet_parse_code flowie_mqtt_parse_options_init [0xc0, 0] = Inr (frame_view 0 0xc0 0 [], 2) \<and>
   packet_parse_code flowie_mqtt_parse_options_init [0xc0, 0, 0xe0] = Inr (frame_view 0 0xc0 0 [], 2) \<and>
   packet_parse_code flowie_mqtt_parse_options_init [0xc0] = Inl FLOWIE_MQTT_PARSE_NEED_MORE \<and>
   packet_parse_code flowie_mqtt_parse_options_init ([0x00] @ [7]) = Inl FLOWIE_MQTT_PARSE_PROTOCOL_ERROR"
proof -
  have ok: "options_ok flowie_mqtt_parse_options_init"
    by (simp add: options_ok_def flowie_mqtt_parse_options_init_def)
  note frame = packet_parse_code_def packet_parse_frame [OF ok]
  note run = frame_parse_def flowie_mqtt_parse_options_init_def packet_limit_def
  have "flowie_mqtt_fixed_header_valid 0xc0 0" "flowie_mqtt_vbi_write 0 = [0]" "flowie_mqtt_vbi_size 0 = 1"
    by code_simp+
  then have ping: "packet_parse_code flowie_mqtt_parse_options_init [0xc0, 0] =
      Inr (frame_view 0 0xc0 0 [], 2)"
    unfolding frame by (simp add: run)
  have bad: "packet_parse_code flowie_mqtt_parse_options_init [0x00] = Inl FLOWIE_MQTT_PARSE_PROTOCOL_ERROR"
    unfolding frame by (simp add: run)
  show ?thesis
    using ok ping bad
      packet_parse_stream [OF ok, of "[0xc0, 0]" "frame_view 0 0xc0 0 []" 2 "[0xe0]" 1]
      packet_parse_stream [OF ok, of "[0x00]" _ _ "[7]" _ FLOWIE_MQTT_PARSE_PROTOCOL_ERROR]
    by simp
qed

end
