(* ===== verification/Mqtt_Encode.thy ===== *)
theory Mqtt_Encode
  imports Mqtt_Parse Mqtt_Framing
begin

text \<open>
  The packet encoders of \<open>protocol/src/flowie_mqtt_packet_views.c\<close>. Each checks its
  description, adds up the Remaining Length in advance, and then writes header and body;
  the model returns the bytes written. The final comparison of the offset with the
  predicted total stays in the model; the lemmas show that it never fails.
\<close>

section \<open>Shared steps\<close>

definition flowie_mqtt_version_valid :: "flowie_mqtt_version \<Rightarrow> bool" where
  "flowie_mqtt_version_valid version \<longleftrightarrow> flowie_mqtt_version_is_supported version"

definition flowie_mqtt_span_input_valid :: "flowie_mqtt_span \<Rightarrow> bool" where
  "flowie_mqtt_span_input_valid value \<longleftrightarrow> \<not> span_null value \<or> span_size value = 0"

definition flowie_mqtt_length_span_input_validate ::
    "utf8_next \<Rightarrow> flowie_mqtt_span \<Rightarrow> bool \<Rightarrow> unit parse" where
  "flowie_mqtt_length_span_input_validate un value utf8 =
     (if \<not> flowie_mqtt_span_input_valid value then Inl FLOWIE_MQTT_PARSE_INVALID_ARGUMENT
      else if span_size value > FLOWIE_MQTT_MAX_UTF8_SIZE then Inl FLOWIE_MQTT_PARSE_TOO_LARGE
      else if utf8 \<and> \<not> flowie_mqtt_utf8_validate un value then Inl FLOWIE_MQTT_PARSE_PROTOCOL_ERROR
      else Inr ())"

definition flowie_mqtt_property_values_validate ::
    "utf8_next \<Rightarrow> flowie_mqtt_version \<Rightarrow> flowie_mqtt_span \<Rightarrow> u64 \<Rightarrow> u64 \<Rightarrow> u64 parse" where
  "flowie_mqtt_property_values_validate un version values allowed repeatable =
     (if \<not> flowie_mqtt_span_input_valid values then Inl FLOWIE_MQTT_PARSE_INVALID_ARGUMENT
      else if span_size values > FLOWIE_MQTT_MAX_REMAINING_LENGTH then Inl FLOWIE_MQTT_PARSE_TOO_LARGE
      else if flowie_mqtt_version_is_3x version
      then (if span_size values = 0 then Inr 0 else Inl FLOWIE_MQTT_PARSE_PROTOCOL_ERROR)
      else if span_size values = 0 then Inr 0
      else map_error (\<lambda>rc. FLOWIE_MQTT_PARSE_PROTOCOL_ERROR)
             (flowie_mqtt_properties_validate un \<lparr>pb_encoded = NullSpan 0, pb_values = values\<rparr>
                allowed repeatable))"

definition flowie_mqtt_remaining_add :: "nat \<Rightarrow> nat \<Rightarrow> nat parse" where
  "flowie_mqtt_remaining_add remaining amount =
     (if remaining > FLOWIE_MQTT_MAX_REMAINING_LENGTH \<or>
         amount > FLOWIE_MQTT_MAX_REMAINING_LENGTH - remaining
      then Inl FLOWIE_MQTT_PARSE_TOO_LARGE
      else Inr (remaining + amount))"

text \<open>The header bytes and the total size of the packet.\<close>

definition flowie_mqtt_encode_begin ::
    "flowie_mqtt_packet_type \<Rightarrow> u8 \<Rightarrow> nat \<Rightarrow> nat \<Rightarrow> (bytes \<times> nat) parse" where
  "flowie_mqtt_encode_begin type flags remaining output_capacity =
     (if remaining > FLOWIE_MQTT_MAX_REMAINING_LENGTH then Inl FLOWIE_MQTT_PARSE_TOO_LARGE
      else let header_size = 1 + flowie_mqtt_vbi_size (of_nat remaining);
               total = header_size + remaining
           in if total > output_capacity then Inl FLOWIE_MQTT_PARSE_TOO_LARGE
              else Inr ((push_bit 4 (ucast type) OR flags) # flowie_mqtt_vbi_write (of_nat remaining), total))"

definition encode_finish :: "bytes \<Rightarrow> nat \<Rightarrow> bytes parse" where
  "encode_finish output total_size =
     (if length output \<noteq> total_size then Inl FLOWIE_MQTT_PARSE_MALFORMED else Inr output)"

text \<open>The tail of every encoder: header, body, and the final size check.\<close>

definition encode_packet ::
    "flowie_mqtt_packet_type \<Rightarrow> u8 \<Rightarrow> nat \<Rightarrow> nat \<Rightarrow> bytes \<Rightarrow> bytes parse" where
  "encode_packet type flags remaining output_capacity body =
     rbind (flowie_mqtt_encode_begin type flags remaining output_capacity) (\<lambda>(header, total_size).
       encode_finish (header @ body) total_size)"

definition property_block_size :: "flowie_mqtt_span \<Rightarrow> nat" where
  "property_block_size values = flowie_mqtt_vbi_size (of_nat (span_size values)) + span_size values"

definition remaining_add_properties :: "flowie_mqtt_version \<Rightarrow> nat \<Rightarrow> flowie_mqtt_span \<Rightarrow> nat parse" where
  "remaining_add_properties version remaining values =
     (if version = FLOWIE_MQTT_VERSION_5
      then flowie_mqtt_remaining_add remaining (property_block_size values)
      else Inr remaining)"

definition write_properties :: "flowie_mqtt_version \<Rightarrow> flowie_mqtt_span \<Rightarrow> bytes" where
  "write_properties version values =
     (if version = FLOWIE_MQTT_VERSION_5 then flowie_mqtt_property_values_write values else [])"

section \<open>PUBLISH\<close>

definition publish_body :: "flowie_mqtt_publish_packet \<Rightarrow> bytes" where
  "publish_body packet =
     flowie_mqtt_length_span_write (pp_topic packet) @
     (if pp_qos packet \<noteq> 0 then write_u16 (unat (pp_packet_id packet)) else []) @
     write_properties (pp_version packet) (pp_properties packet) @
     (if span_size (pp_payload packet) \<noteq> 0 then span_bytes (pp_payload packet) else [])"

definition publish_validate :: "utf8_next \<Rightarrow> flowie_mqtt_publish_packet \<Rightarrow> unit parse" where
  "publish_validate un packet =
     rbind (fail_if (\<not> flowie_mqtt_version_valid (pp_version packet)) FLOWIE_MQTT_PARSE_INVALID_ARGUMENT) (\<lambda>_.
     rbind (fail_if (pp_qos packet > 2 \<or> pp_retain packet > 1 \<or> pp_duplicate packet > 1 \<or>
                     (pp_qos packet = 0 \<and> (pp_packet_id packet \<noteq> 0 \<or> pp_duplicate packet \<noteq> 0)) \<or>
                     (pp_qos packet \<noteq> 0 \<and> pp_packet_id packet = 0))
              FLOWIE_MQTT_PARSE_PROTOCOL_ERROR) (\<lambda>_.
     rbind (flowie_mqtt_length_span_input_validate un (pp_topic packet) True) (\<lambda>_.
     rbind (flowie_mqtt_property_values_validate un (pp_version packet) (pp_properties packet)
              flowie_mqtt_publish_properties_allowed flowie_mqtt_publish_properties_repeatable) (\<lambda>present.
     rbind (if span_size (pp_topic packet) = 0
            then fail_if (pp_version packet \<noteq> FLOWIE_MQTT_VERSION_5 \<or>
                          present AND FLOWIE_MQTT_PROPERTY_BIT FLOWIE_MQTT_PROPERTY_TOPIC_ALIAS = 0)
                   FLOWIE_MQTT_PARSE_PROTOCOL_ERROR
            else fail_if (\<not> flowie_mqtt_topic_name_validate un (pp_topic packet))
                   FLOWIE_MQTT_PARSE_PROTOCOL_ERROR) (\<lambda>_.
     fail_if (\<not> flowie_mqtt_span_input_valid (pp_payload packet)) FLOWIE_MQTT_PARSE_INVALID_ARGUMENT)))))"

definition publish_remaining :: "flowie_mqtt_publish_packet \<Rightarrow> nat parse" where
  "publish_remaining packet =
     rbind (flowie_mqtt_remaining_add 0 (2 + span_size (pp_topic packet))) (\<lambda>remaining.
     rbind (if pp_qos packet \<noteq> 0 then flowie_mqtt_remaining_add remaining 2 else Inr remaining) (\<lambda>remaining.
     rbind (remaining_add_properties (pp_version packet) remaining (pp_properties packet)) (\<lambda>remaining.
     flowie_mqtt_remaining_add remaining (span_size (pp_payload packet)))))"

definition flowie_mqtt_publish_packet_encode ::
    "utf8_next \<Rightarrow> flowie_mqtt_publish_packet \<Rightarrow> nat \<Rightarrow> bytes parse" where
  "flowie_mqtt_publish_packet_encode un packet output_capacity =
     rbind (publish_validate un packet) (\<lambda>_.
     rbind (publish_remaining packet) (\<lambda>remaining.
     let flags = push_bit 3 (pp_duplicate packet) OR push_bit 1 (pp_qos packet) OR pp_retain packet in
     encode_packet FLOWIE_MQTT_PACKET_PUBLISH flags remaining output_capacity (publish_body packet)))"

section \<open>CONNECT\<close>

definition connect_flags_ok :: "flowie_mqtt_connect_packet \<Rightarrow> bool" where
  "connect_flags_ok packet \<longleftrightarrow>
     \<not> (cp_clean_start packet > 1 \<or> cp_has_will packet > 1 \<or> cp_will_qos packet > 2 \<or>
        cp_will_retain packet > 1 \<or> cp_has_username packet > 1 \<or> cp_has_password packet > 1 \<or>
        (cp_has_password packet \<noteq> 0 \<and> cp_has_username packet = 0) \<or>
        (cp_has_will packet = 0 \<and>
         (cp_will_qos packet \<noteq> 0 \<or> cp_will_retain packet \<noteq> 0 \<or>
          span_size (cp_will_properties packet) \<noteq> 0 \<or> span_size (cp_will_topic packet) \<noteq> 0 \<or>
          span_size (cp_will_payload packet) \<noteq> 0)) \<or>
        (cp_has_username packet = 0 \<and> span_size (cp_username packet) \<noteq> 0) \<or>
        (cp_has_password packet = 0 \<and> span_size (cp_password packet) \<noteq> 0))"

definition connect_client_id_ok :: "flowie_mqtt_connect_packet \<Rightarrow> bool" where
  "connect_client_id_ok packet \<longleftrightarrow>
     \<not> (cp_version packet = FLOWIE_MQTT_VERSION_3_1 \<and>
        (span_size (cp_client_id packet) = 0 \<or> span_size (cp_client_id packet) > 23)) \<and>
     \<not> (cp_version packet = FLOWIE_MQTT_VERSION_3_1_1 \<and> span_size (cp_client_id packet) = 0 \<and>
        cp_clean_start packet = 0)"

definition connect_will_validate :: "utf8_next \<Rightarrow> flowie_mqtt_connect_packet \<Rightarrow> unit parse" where
  "connect_will_validate un packet =
     (if cp_has_will packet \<noteq> 0
      then rbind (flowie_mqtt_property_values_validate un (cp_version packet) (cp_will_properties packet)
                    flowie_mqtt_will_properties_allowed flowie_mqtt_user_property_repeatable) (\<lambda>_.
           rbind (flowie_mqtt_length_span_input_validate un (cp_will_topic packet) True) (\<lambda>_.
           rbind (fail_if (\<not> flowie_mqtt_topic_name_validate un (cp_will_topic packet))
                    FLOWIE_MQTT_PARSE_PROTOCOL_ERROR) (\<lambda>_.
           flowie_mqtt_length_span_input_validate un (cp_will_payload packet) False)))
      else fail_if (\<not> flowie_mqtt_span_input_valid (cp_will_properties packet) \<or>
                    \<not> flowie_mqtt_span_input_valid (cp_will_topic packet) \<or>
                    \<not> flowie_mqtt_span_input_valid (cp_will_payload packet))
             FLOWIE_MQTT_PARSE_INVALID_ARGUMENT)"

definition optional_span_validate :: "utf8_next \<Rightarrow> u8 \<Rightarrow> flowie_mqtt_span \<Rightarrow> bool \<Rightarrow> unit parse" where
  "optional_span_validate un has value utf8 =
     (if has \<noteq> 0 then flowie_mqtt_length_span_input_validate un value utf8
      else fail_if (\<not> flowie_mqtt_span_input_valid value) FLOWIE_MQTT_PARSE_INVALID_ARGUMENT)"

definition connect_remaining :: "flowie_mqtt_connect_packet \<Rightarrow> nat \<Rightarrow> nat parse" where
  "connect_remaining packet remaining =
     rbind (remaining_add_properties (cp_version packet) remaining (cp_properties packet)) (\<lambda>remaining.
     rbind (flowie_mqtt_remaining_add remaining (2 + span_size (cp_client_id packet))) (\<lambda>remaining.
     rbind (if cp_has_will packet \<noteq> 0
            then rbind (remaining_add_properties (cp_version packet) remaining (cp_will_properties packet))
                   (\<lambda>remaining. flowie_mqtt_remaining_add remaining
                      (4 + span_size (cp_will_topic packet) + span_size (cp_will_payload packet)))
            else Inr remaining) (\<lambda>remaining.
     rbind (if cp_has_username packet \<noteq> 0
            then flowie_mqtt_remaining_add remaining (2 + span_size (cp_username packet))
            else Inr remaining) (\<lambda>remaining.
     if cp_has_password packet \<noteq> 0
     then flowie_mqtt_remaining_add remaining (2 + span_size (cp_password packet))
     else Inr remaining))))"

definition connect_protocol_name :: "flowie_mqtt_version \<Rightarrow> bytes" where
  "connect_protocol_name version =
     (if version = FLOWIE_MQTT_VERSION_3_1 then protocol_name_v3 else protocol_name_v4_v5)"

definition connect_flags :: "flowie_mqtt_connect_packet \<Rightarrow> u8" where
  "connect_flags packet =
     push_bit 7 (cp_has_username packet) OR push_bit 6 (cp_has_password packet) OR
     push_bit 5 (cp_will_retain packet) OR push_bit 3 (cp_will_qos packet) OR
     push_bit 2 (cp_has_will packet) OR push_bit 1 (cp_clean_start packet)"

definition connect_body :: "flowie_mqtt_connect_packet \<Rightarrow> bytes" where
  "connect_body packet =
     flowie_mqtt_length_span_write (Span (connect_protocol_name (cp_version packet))) @
     [ucast (cp_version packet), connect_flags packet] @
     write_u16 (unat (cp_keep_alive packet)) @
     write_properties (cp_version packet) (cp_properties packet) @
     flowie_mqtt_length_span_write (cp_client_id packet) @
     (if cp_has_will packet \<noteq> 0
      then write_properties (cp_version packet) (cp_will_properties packet) @
           flowie_mqtt_length_span_write (cp_will_topic packet) @
           flowie_mqtt_length_span_write (cp_will_payload packet)
      else []) @
     (if cp_has_username packet \<noteq> 0 then flowie_mqtt_length_span_write (cp_username packet) else []) @
     (if cp_has_password packet \<noteq> 0 then flowie_mqtt_length_span_write (cp_password packet) else [])"

definition connect_validate :: "utf8_next \<Rightarrow> flowie_mqtt_connect_packet \<Rightarrow> unit parse" where
  "connect_validate un packet =
     rbind (fail_if (\<not> flowie_mqtt_version_valid (cp_version packet)) FLOWIE_MQTT_PARSE_INVALID_ARGUMENT) (\<lambda>_.
     rbind (fail_if (\<not> connect_flags_ok packet) FLOWIE_MQTT_PARSE_PROTOCOL_ERROR) (\<lambda>_.
     rbind (flowie_mqtt_length_span_input_validate un (cp_client_id packet) True) (\<lambda>_.
     rbind (fail_if (\<not> connect_client_id_ok packet) FLOWIE_MQTT_PARSE_PROTOCOL_ERROR) (\<lambda>_.
     rbind (flowie_mqtt_property_values_validate un (cp_version packet) (cp_properties packet)
              flowie_mqtt_connect_properties_allowed flowie_mqtt_user_property_repeatable) (\<lambda>present.
     rbind (fail_if (auth_data_without_method present) FLOWIE_MQTT_PARSE_PROTOCOL_ERROR) (\<lambda>_.
     rbind (connect_will_validate un packet) (\<lambda>_.
     rbind (optional_span_validate un (cp_has_username packet) (cp_username packet) True) (\<lambda>_.
     optional_span_validate un (cp_has_password packet) (cp_password packet) False))))))))"

definition flowie_mqtt_connect_packet_encode ::
    "utf8_next \<Rightarrow> flowie_mqtt_connect_packet \<Rightarrow> nat \<Rightarrow> bytes parse" where
  "flowie_mqtt_connect_packet_encode un packet output_capacity =
     rbind (connect_validate un packet) (\<lambda>_.
     rbind (connect_remaining packet (6 + length (connect_protocol_name (cp_version packet)))) (\<lambda>remaining.
     encode_packet FLOWIE_MQTT_PACKET_CONNECT 0 remaining output_capacity (connect_body packet)))"

section \<open>SUBSCRIBE\<close>

definition subscription_entry_ok :: "utf8_next \<Rightarrow> flowie_mqtt_version \<Rightarrow> flowie_mqtt_subscription_view \<Rightarrow> bool" where
  "subscription_entry_ok un version entry \<longleftrightarrow>
     \<not> (\<not> flowie_mqtt_topic_filter_validate un (sv_filter entry) \<or> sv_qos entry > 2 \<or>
        sv_no_local entry > 1 \<or> sv_retain_as_published entry > 1 \<or> sv_retain_handling entry > 2 \<or>
        (flowie_mqtt_version_is_3x version \<and>
         (sv_no_local entry \<noteq> 0 \<or> sv_retain_as_published entry \<noteq> 0 \<or> sv_retain_handling entry \<noteq> 0)) \<or>
        (sv_no_local entry \<noteq> 0 \<and> starts_with_share (sv_filter entry)))"

fun subscribe_entries_remaining ::
    "utf8_next \<Rightarrow> flowie_mqtt_version \<Rightarrow> flowie_mqtt_subscription_view list \<Rightarrow> nat \<Rightarrow> nat parse" where
  "subscribe_entries_remaining un version [] remaining = Inr remaining"
| "subscribe_entries_remaining un version (entry # entries) remaining =
     rbind (flowie_mqtt_length_span_input_validate un (sv_filter entry) True) (\<lambda>_.
     rbind (fail_if (\<not> subscription_entry_ok un version entry) FLOWIE_MQTT_PARSE_PROTOCOL_ERROR) (\<lambda>_.
     rbind (flowie_mqtt_remaining_add remaining (3 + span_size (sv_filter entry))) (\<lambda>remaining.
     subscribe_entries_remaining un version entries remaining)))"

definition subscription_options :: "flowie_mqtt_subscription_view \<Rightarrow> u8" where
  "subscription_options entry =
     sv_qos entry OR push_bit 2 (sv_no_local entry) OR push_bit 3 (sv_retain_as_published entry) OR
     push_bit 4 (sv_retain_handling entry)"

definition subscription_write :: "flowie_mqtt_subscription_view \<Rightarrow> bytes" where
  "subscription_write entry =
     flowie_mqtt_length_span_write (sv_filter entry) @ [subscription_options entry]"

definition subscribe_body :: "flowie_mqtt_subscribe_packet \<Rightarrow> bytes" where
  "subscribe_body packet =
     write_u16 (unat (sp_packet_id packet)) @
     write_properties (sp_version packet) (sp_properties packet) @
     concat (map subscription_write (sp_subscriptions packet))"

definition flowie_mqtt_subscribe_packet_encode ::
    "utf8_next \<Rightarrow> flowie_mqtt_subscribe_packet \<Rightarrow> nat \<Rightarrow> bytes parse" where
  "flowie_mqtt_subscribe_packet_encode un packet output_capacity =
     rbind (fail_if (\<not> flowie_mqtt_version_valid (sp_version packet)) FLOWIE_MQTT_PARSE_INVALID_ARGUMENT) (\<lambda>_.
     rbind (fail_if (sp_packet_id packet = 0 \<or> sp_subscriptions packet = [])
              FLOWIE_MQTT_PARSE_PROTOCOL_ERROR) (\<lambda>_.
     rbind (flowie_mqtt_property_values_validate un (sp_version packet) (sp_properties packet)
              flowie_mqtt_subscribe_properties_allowed flowie_mqtt_user_property_repeatable) (\<lambda>_.
     rbind (remaining_add_properties (sp_version packet) 2 (sp_properties packet)) (\<lambda>remaining.
     rbind (subscribe_entries_remaining un (sp_version packet) (sp_subscriptions packet) remaining) (\<lambda>remaining.
     encode_packet FLOWIE_MQTT_PACKET_SUBSCRIBE 0x02 remaining output_capacity (subscribe_body packet))))))"

section \<open>UNSUBSCRIBE and PINGREQ\<close>

fun unsubscribe_filters_remaining :: "utf8_next \<Rightarrow> flowie_mqtt_span list \<Rightarrow> nat \<Rightarrow> nat parse" where
  "unsubscribe_filters_remaining un [] remaining = Inr remaining"
| "unsubscribe_filters_remaining un (flt # flts) remaining =
     rbind (flowie_mqtt_length_span_input_validate un flt True) (\<lambda>_.
     rbind (fail_if (\<not> flowie_mqtt_topic_filter_validate un flt) FLOWIE_MQTT_PARSE_PROTOCOL_ERROR) (\<lambda>_.
     rbind (flowie_mqtt_remaining_add remaining (2 + span_size flt)) (\<lambda>remaining.
     unsubscribe_filters_remaining un flts remaining)))"

definition unsubscribe_body :: "flowie_mqtt_unsubscribe_packet \<Rightarrow> bytes" where
  "unsubscribe_body packet =
     write_u16 (unat (up_packet_id packet)) @
     write_properties (up_version packet) (up_properties packet) @
     concat (map flowie_mqtt_length_span_write (up_filters packet))"

definition flowie_mqtt_unsubscribe_packet_encode ::
    "utf8_next \<Rightarrow> flowie_mqtt_unsubscribe_packet \<Rightarrow> nat \<Rightarrow> bytes parse" where
  "flowie_mqtt_unsubscribe_packet_encode un packet output_capacity =
     rbind (fail_if (\<not> flowie_mqtt_version_valid (up_version packet)) FLOWIE_MQTT_PARSE_INVALID_ARGUMENT) (\<lambda>_.
     rbind (fail_if (up_packet_id packet = 0 \<or> up_filters packet = [])
              FLOWIE_MQTT_PARSE_PROTOCOL_ERROR) (\<lambda>_.
     rbind (flowie_mqtt_property_values_validate un (up_version packet) (up_properties packet)
              flowie_mqtt_user_property_repeatable flowie_mqtt_user_property_repeatable) (\<lambda>_.
     rbind (remaining_add_properties (up_version packet) 2 (up_properties packet)) (\<lambda>remaining.
     rbind (unsubscribe_filters_remaining un (up_filters packet) remaining) (\<lambda>remaining.
     encode_packet FLOWIE_MQTT_PACKET_UNSUBSCRIBE 0x02 remaining output_capacity (unsubscribe_body packet))))))"

definition flowie_mqtt_pingreq_encode :: "flowie_mqtt_version \<Rightarrow> nat \<Rightarrow> bytes parse" where
  "flowie_mqtt_pingreq_encode version output_capacity =
     (if \<not> flowie_mqtt_version_valid version then Inl FLOWIE_MQTT_PARSE_INVALID_ARGUMENT
      else if output_capacity < 2 then Inl FLOWIE_MQTT_PARSE_TOO_LARGE
      else Inr [0xc0, 0x00])"

section \<open>Sizes\<close>

lemma remaining_add_iff:
  "flowie_mqtt_remaining_add r n = Inr r' \<longleftrightarrow> r' = r + n \<and> r' \<le> FLOWIE_MQTT_MAX_REMAINING_LENGTH"
  by (auto simp: flowie_mqtt_remaining_add_def)

lemma remaining_add_eq:
  "flowie_mqtt_remaining_add r n =
     (if r + n \<le> FLOWIE_MQTT_MAX_REMAINING_LENGTH then Inr (r + n) else Inl FLOWIE_MQTT_PARSE_TOO_LARGE)"
  by (auto simp: flowie_mqtt_remaining_add_def)

lemma length_span_input_iff:
  "flowie_mqtt_length_span_input_validate un v utf8 = Inr u \<longleftrightarrow>
     (\<not> span_null v \<or> span_size v = 0) \<and> span_size v \<le> FLOWIE_MQTT_MAX_UTF8_SIZE \<and>
     (utf8 \<longrightarrow> flowie_mqtt_utf8_validate un v)"
  by (auto simp: flowie_mqtt_length_span_input_validate_def flowie_mqtt_span_input_valid_def)

text \<open>A description may give a NULL span of size zero; on the wire and in views it is the
  empty span.\<close>

definition span_norm :: "flowie_mqtt_span \<Rightarrow> flowie_mqtt_span" where
  "span_norm v = Span (span_bytes v)"

lemma span_norm_simps [simp]:
  "span_norm (Span bs) = Span bs" "span_norm (NullSpan n) = Span []" "span_null (span_norm v) = False"
  by (simp_all add: span_norm_def)

lemma length_span_write_norm:
  "\<not> span_null v \<or> span_size v = 0 \<Longrightarrow>
     flowie_mqtt_length_span_write v = flowie_mqtt_length_span_write (span_norm v)"
  by (cases v) auto

lemma span_size_norm: "\<not> span_null v \<or> span_size v = 0 \<Longrightarrow> span_size (span_norm v) = span_size v"
  by (cases v) auto

lemma values_write_norm:
  "\<not> span_null v \<or> span_size v = 0 \<Longrightarrow>
     flowie_mqtt_property_values_write v = flowie_mqtt_property_values_write (span_norm v)"
  by (cases v) (auto simp: flowie_mqtt_property_values_write_def)

lemma length_length_span_write:
  "\<not> span_null v \<or> span_size v = 0 \<Longrightarrow> length (flowie_mqtt_length_span_write v) = 2 + span_size v"
  by (cases v) auto

lemma length_property_values_write:
  "\<not> span_null v \<or> span_size v = 0 \<Longrightarrow>
     length (flowie_mqtt_property_values_write v) = property_block_size v"
  by (cases v) (auto simp: flowie_mqtt_property_values_write_def property_block_size_def length_vbi_write)

text \<open>The bytes of a complete packet: first byte, Remaining Length, body.\<close>

definition frame_bytes :: "u8 \<Rightarrow> bytes \<Rightarrow> bytes" where
  "frame_bytes first body = first # flowie_mqtt_vbi_write (of_nat (length body)) @ body"

lemma encode_packet_iff:
  "encode_packet type flags remaining cap body = Inr out \<longleftrightarrow>
   remaining \<le> FLOWIE_MQTT_MAX_REMAINING_LENGTH \<and> length body = remaining \<and>
   out = frame_bytes (push_bit 4 (ucast type) OR flags) body \<and> length out \<le> cap"
  by (auto simp: encode_packet_def flowie_mqtt_encode_begin_def encode_finish_def frame_bytes_def
      Let_def length_vbi_write)

section \<open>Reading back what was written\<close>

lemma properties_validate_values:
  "flowie_mqtt_properties_validate un \<lparr>pb_encoded = e, pb_values = v\<rparr> =
   flowie_mqtt_properties_validate un \<lparr>pb_encoded = e', pb_values = v\<rparr>"
  by (simp add: flowie_mqtt_properties_validate_def flowie_mqtt_property_iterator_init_def fun_eq_iff)

lemma properties_validate_empty:
  "flowie_mqtt_properties_validate un \<lparr>pb_encoded = e, pb_values = Span []\<rparr> allowed repeatable = Inr 0"
  by (simp add: flowie_mqtt_properties_validate_def flowie_mqtt_property_iterator_init_def
      properties_validate_loop.simps)

lemma property_values_validate_dest:
  assumes "flowie_mqtt_property_values_validate un version v allowed repeatable = Inr present"
  shows "\<not> span_null v \<or> span_size v = 0" "span_size v \<le> FLOWIE_MQTT_MAX_REMAINING_LENGTH"
    "flowie_mqtt_version_is_3x version \<Longrightarrow> present = 0"
    "\<not> flowie_mqtt_version_is_3x version \<Longrightarrow>
       flowie_mqtt_properties_validate un \<lparr>pb_encoded = e, pb_values = span_norm v\<rparr> allowed repeatable =
         Inr present"
  using assms properties_validate_empty [of un e allowed repeatable]
    properties_validate_values [of un "NullSpan 0" v e]
  by (cases v; auto simp: flowie_mqtt_property_values_validate_def flowie_mqtt_span_input_valid_def
        split: if_splits)+

definition block_view :: "flowie_mqtt_version \<Rightarrow> flowie_mqtt_span \<Rightarrow> flowie_mqtt_property_block_view" where
  "block_view version v =
     (if version = FLOWIE_MQTT_VERSION_5
      then \<lparr>pb_encoded = Span (flowie_mqtt_property_values_write v), pb_values = span_norm v\<rparr>
      else flowie_mqtt_empty_properties)"

lemma typed_block_write:
  assumes "\<not> span_null v \<or> span_size v = 0" "span_size v \<le> FLOWIE_MQTT_MAX_REMAINING_LENGTH"
  shows "flowie_mqtt_typed_property_block (Span (flowie_mqtt_property_values_write v @ rest)) =
    Inr (\<lparr>pb_encoded = Span (flowie_mqtt_property_values_write v), pb_values = span_norm v\<rparr>,
         length (flowie_mqtt_property_values_write v))"
  unfolding typed_property_block_iff property_block_parse_iff
  using assms values_write_norm [OF assms(1)] span_size_norm [OF assms(1)]
  by (intro exI [of _ "span_bytes v"] exI [of _ rest]) (simp add: span_norm_def)

lemma block_parse_write:
  assumes "flowie_mqtt_property_values_validate un version v allowed repeatable = Inr present"
    and "flowie_mqtt_version_is_supported version"
  shows "block_parse un version allowed repeatable (write_properties version v @ rest) =
    Inr (block_view version v, present, rest)"
proof (cases "version = FLOWIE_MQTT_VERSION_5")
  case True
  then have "\<not> flowie_mqtt_version_is_3x version" by (simp add: flowie_mqtt_version_is_3x_def)
  then show ?thesis
    using True property_values_validate_dest [OF assms(1)] typed_block_write [of v rest]
    by (simp add: block_parse_def write_properties_def block_view_def)
next
  case False
  then have "flowie_mqtt_version_is_3x version" using assms(2) version_3x_iff by blast
  then show ?thesis
    using False property_values_validate_dest(3) [OF assms(1)]
    by (simp add: block_parse_def write_properties_def block_view_def)
qed

lemma length_span_read_back:
  assumes "flowie_mqtt_length_span_input_validate un v utf8 = Inr u"
  shows "flowie_mqtt_length_span un (flowie_mqtt_length_span_write v @ rest) utf8 = Inr (span_norm v, rest)"
proof -
  have v: "\<not> span_null v \<or> span_size v = 0" "span_size v \<le> FLOWIE_MQTT_MAX_UTF8_SIZE"
      "utf8 \<longrightarrow> flowie_mqtt_utf8_validate un v"
    using assms by (simp_all add: length_span_input_iff)
  moreover have "flowie_mqtt_utf8_validate un (span_norm v) = flowie_mqtt_utf8_validate un v"
    using v(1) by (cases v) (auto simp: flowie_mqtt_utf8_validate_def)
  ultimately show ?thesis
    using length_span_write_norm [OF v(1)] span_size_norm [OF v(1)]
    by (simp add: length_span_ok string_ok_def)
qed

lemma nonzero_packet_id_write:
  "i \<noteq> 0 \<Longrightarrow> nonzero_packet_id (write_u16 (unat i) @ rest) = Inr (i, rest)"
  using read_write_u16 [of "unat i" rest] u16_less [of i]
  by (simp add: nonzero_packet_id_def read_u16_step_def word_unat_eq_iff)

lemma parse_frame_bytes_ping:
  assumes "options_ok opts" "0x10 \<le> first" "flowie_mqtt_fixed_header_valid first (po_version opts)"
    and "ping_type first \<longrightarrow> body = []" "length body \<le> FLOWIE_MQTT_MAX_REMAINING_LENGTH"
    and "length (frame_bytes first body) \<le> packet_limit opts"
  shows "flowie_mqtt_packet_parse True (Span (frame_bytes first body)) (Some opts) =
    Inr (frame_view (po_version opts) first (of_nat (length body)) body, length (frame_bytes first body))"
proof -
  have "unat (of_nat (length body) :: u32) = length body"
    using assms(5) by (intro unat_of_nat_u32) simp
  then have "frame_parse (po_version opts) (packet_limit opts) (frame_bytes first body) =
      Inr (frame_view (po_version opts) first (of_nat (length body)) body, length (frame_bytes first body))"
    unfolding frame_parse_iff using assms
    by (intro exI [of _ first] exI [of _ "of_nat (length body)"] exI [of _ body] exI [of _ "[]"])
       (auto simp: frame_bytes_def length_vbi_write)
  then show ?thesis
    unfolding packet_parse_frame [OF assms(1), symmetric] by simp
qed

lemma parse_frame_bytes:
  assumes "options_ok opts" "0x10 \<le> first" "flowie_mqtt_fixed_header_valid first (po_version opts)"
    and "\<not> ping_type first" "length body \<le> FLOWIE_MQTT_MAX_REMAINING_LENGTH"
    and "length (frame_bytes first body) \<le> packet_limit opts"
  shows "flowie_mqtt_packet_parse True (Span (frame_bytes first body)) (Some opts) =
    Inr (frame_view (po_version opts) first (of_nat (length body)) body, length (frame_bytes first body))"
  using assms parse_frame_bytes_ping by blast

section \<open>PUBLISH round trip\<close>

lemma u8_le_1_cases: "(b::u8) \<le> 1 \<Longrightarrow> b = 0 \<or> b = 1"
  by (auto simp: word_le_nat_alt word_unat_eq_iff)

lemma u8_le_2_cases: "(b::u8) \<le> 2 \<Longrightarrow> b = 0 \<or> b = 1 \<or> b = 2"
  by (auto simp: word_le_nat_alt word_unat_eq_iff)

definition publish_first :: "flowie_mqtt_publish_packet \<Rightarrow> u8" where
  "publish_first p =
     push_bit 4 (ucast FLOWIE_MQTT_PACKET_PUBLISH) OR
     (push_bit 3 (pp_duplicate p) OR push_bit 1 (pp_qos p) OR pp_retain p)"

definition publish_view_of :: "flowie_mqtt_publish_packet \<Rightarrow> flowie_mqtt_publish_view" where
  "publish_view_of p =
     \<lparr>pu_qos = pp_qos p, pu_retain = pp_retain p, pu_duplicate = pp_duplicate p,
      pu_packet_id = pp_packet_id p, pu_topic = span_norm (pp_topic p),
      pu_properties = block_view (pp_version p) (pp_properties p), pu_payload = span_norm (pp_payload p)\<rparr>"

lemma publish_validate_dest:
  assumes "publish_validate un p = Inr u"
  obtains present where
    "flowie_mqtt_version_is_supported (pp_version p)"
    "pp_qos p \<le> 2" "pp_retain p \<le> 1" "pp_duplicate p \<le> 1"
    "pp_qos p = 0 \<longrightarrow> pp_packet_id p = 0 \<and> pp_duplicate p = 0" "pp_qos p \<noteq> 0 \<longrightarrow> pp_packet_id p \<noteq> 0"
    "flowie_mqtt_length_span_input_validate un (pp_topic p) True = Inr ()"
    "flowie_mqtt_property_values_validate un (pp_version p) (pp_properties p)
       flowie_mqtt_publish_properties_allowed flowie_mqtt_publish_properties_repeatable = Inr present"
    "span_size (pp_topic p) = 0 \<longrightarrow> pp_version p = FLOWIE_MQTT_VERSION_5 \<and>
       present AND FLOWIE_MQTT_PROPERTY_BIT FLOWIE_MQTT_PROPERTY_TOPIC_ALIAS \<noteq> 0"
    "span_size (pp_topic p) \<noteq> 0 \<longrightarrow> flowie_mqtt_topic_name_validate un (pp_topic p)"
    "\<not> span_null (pp_payload p) \<or> span_size (pp_payload p) = 0"
  using assms unfolding publish_validate_def
  by (cases "span_size (pp_topic p) = 0")
     (auto simp: rbind_Inr_iff flowie_mqtt_version_valid_def flowie_mqtt_span_input_valid_def not_less)

lemma remaining_add_properties_iff:
  "\<not> span_null v \<or> span_size v = 0 \<Longrightarrow>
     remaining_add_properties version r v = Inr r' \<longleftrightarrow>
       r' = r + length (write_properties version v) \<and>
       (version = FLOWIE_MQTT_VERSION_5 \<longrightarrow> r' \<le> FLOWIE_MQTT_MAX_REMAINING_LENGTH)"
  by (auto simp: remaining_add_properties_def write_properties_def remaining_add_iff
      length_property_values_write split: if_splits)

lemma publish_remaining_length:
  assumes "publish_validate un p = Inr u" "publish_remaining p = Inr r"
  shows "r = length (publish_body p)"
proof -
  obtain present where
      "flowie_mqtt_length_span_input_validate un (pp_topic p) True = Inr ()"
      "flowie_mqtt_property_values_validate un (pp_version p) (pp_properties p)
         flowie_mqtt_publish_properties_allowed flowie_mqtt_publish_properties_repeatable = Inr present"
      and payload: "\<not> span_null (pp_payload p) \<or> span_size (pp_payload p) = 0"
    using publish_validate_dest [OF assms(1)] by metis
  then have "length (flowie_mqtt_length_span_write (pp_topic p)) = 2 + span_size (pp_topic p)"
      and props: "\<not> span_null (pp_properties p) \<or> span_size (pp_properties p) = 0"
    by (auto simp: length_span_input_iff length_length_span_write dest: property_values_validate_dest(1))
  moreover have "length (if span_size (pp_payload p) \<noteq> 0 then span_bytes (pp_payload p) else []) =
      span_size (pp_payload p)"
    using payload by (cases "pp_payload p") auto
  ultimately show ?thesis
    using assms(2)
    by (auto simp: publish_remaining_def publish_body_def rbind_Inr_iff remaining_add_iff
        remaining_add_properties_iff [OF props] split: if_splits)
qed

lemma publish_bits:
  fixes q r d :: u8
  assumes "q \<le> 2" "r \<le> 1" "d \<le> 1" "q = 0 \<longrightarrow> d = 0"
  defines "first \<equiv> push_bit 4 (ucast FLOWIE_MQTT_PACKET_PUBLISH) OR (push_bit 3 d OR push_bit 1 q OR r)"
  shows "0x10 \<le> first \<and> flowie_mqtt_fixed_header_valid first version \<and> \<not> ping_type first \<and>
    drop_bit 4 (ucast first) = FLOWIE_MQTT_PACKET_PUBLISH \<and>
    drop_bit 1 (first AND 0x0f) AND 3 = q \<and> (first AND 0x0f) AND 1 = r \<and>
    drop_bit 3 (first AND 0x0f) AND 1 = d"
  unfolding first_def
  using u8_le_2_cases [OF assms(1)] u8_le_1_cases [OF assms(2)] u8_le_1_cases [OF assms(3)] assms(4)
  by (elim disjE) (simp_all add: flowie_mqtt_fixed_header_valid_def ping_type_def)

lemma publish_first_facts:
  assumes "pp_qos p \<le> 2" "pp_retain p \<le> 1" "pp_duplicate p \<le> 1" "pp_qos p = 0 \<longrightarrow> pp_duplicate p = 0"
  shows "0x10 \<le> publish_first p" "flowie_mqtt_fixed_header_valid (publish_first p) version"
    "\<not> ping_type (publish_first p)" "drop_bit 4 (ucast (publish_first p)) = FLOWIE_MQTT_PACKET_PUBLISH"
    "drop_bit 1 (publish_first p AND 0x0f) AND 3 = pp_qos p"
    "(publish_first p AND 0x0f) AND 1 = pp_retain p"
    "(drop_bit 3 (publish_first p AND 0x0f)) AND 1 = pp_duplicate p"
  using publish_bits [OF assms] unfolding publish_first_def by blast+

lemma publish_parse_body:
  assumes valid: "publish_validate un p = Inr u"
    and len: "length (publish_body p) \<le> FLOWIE_MQTT_MAX_REMAINING_LENGTH"
  shows "flowie_mqtt_publish_parse un
    (frame_view (pp_version p) (publish_first p) (of_nat (length (publish_body p))) (publish_body p)) =
    Inr (publish_view_of p)"
proof -
  obtain present where P: "flowie_mqtt_version_is_supported (pp_version p)"
      "pp_qos p \<le> 2" "pp_retain p \<le> 1" "pp_duplicate p \<le> 1"
      "pp_qos p = 0 \<longrightarrow> pp_packet_id p = 0 \<and> pp_duplicate p = 0" "pp_qos p \<noteq> 0 \<longrightarrow> pp_packet_id p \<noteq> 0"
      "flowie_mqtt_length_span_input_validate un (pp_topic p) True = Inr ()"
      "flowie_mqtt_property_values_validate un (pp_version p) (pp_properties p)
         flowie_mqtt_publish_properties_allowed flowie_mqtt_publish_properties_repeatable = Inr present"
      "span_size (pp_topic p) = 0 \<longrightarrow> pp_version p = FLOWIE_MQTT_VERSION_5 \<and>
         present AND FLOWIE_MQTT_PROPERTY_BIT FLOWIE_MQTT_PROPERTY_TOPIC_ALIAS \<noteq> 0"
      "span_size (pp_topic p) \<noteq> 0 \<longrightarrow> flowie_mqtt_topic_name_validate un (pp_topic p)"
      "\<not> span_null (pp_payload p) \<or> span_size (pp_payload p) = 0"
    using publish_validate_dest [OF valid] by metis
  define body where "body = publish_body p"
  define rest2 where "rest2 = write_properties (pp_version p) (pp_properties p) @ span_bytes (pp_payload p)"
  define rest1 where "rest1 = (if pp_qos p \<noteq> 0 then write_u16 (unat (pp_packet_id p)) else []) @ rest2"
  have "(if span_size (pp_payload p) \<noteq> 0 then span_bytes (pp_payload p) else []) =
      span_bytes (pp_payload p)"
    using P(11) by (cases "pp_payload p") auto
  then have "body = flowie_mqtt_length_span_write (pp_topic p) @ rest1"
    by (simp add: body_def publish_body_def rest1_def rest2_def)
  then have topic: "flowie_mqtt_length_span un body True = Inr (span_norm (pp_topic p), rest1)"
    using length_span_read_back [OF P(7)] by simp
  have pid: "(if pp_qos p \<noteq> 0 then nonzero_packet_id rest1 else Inr (0, rest1)) = Inr (pp_packet_id p, rest2)"
    using P(5,6) by (simp add: rest1_def nonzero_packet_id_write)
  have props: "block_parse un (pp_version p) flowie_mqtt_publish_properties_allowed
      flowie_mqtt_publish_properties_repeatable rest2 =
      Inr (block_view (pp_version p) (pp_properties p), present, span_bytes (pp_payload p))"
    unfolding rest2_def by (rule block_parse_write [OF P(8,1)])
  have "unat (of_nat (length body) :: u32) = length body"
    using len by (intro unat_of_nat_u32) (simp add: body_def)
  moreover have "\<not> span_null (pp_topic p) \<or> span_size (pp_topic p) = 0"
    using P(7) by (simp add: length_span_input_iff)
  then have norm: "span_size (span_norm (pp_topic p)) = span_size (pp_topic p)"
      "span_size (pp_topic p) \<noteq> 0 \<longrightarrow> flowie_mqtt_topic_name_validate un (span_norm (pp_topic p))"
    using P(10) by (auto simp: span_size_norm) (cases "pp_topic p"; auto)
  have "pp_qos p = 0 \<longrightarrow> pp_duplicate p = 0" using P(5) by blast
  note facts = publish_first_facts [OF P(2-4) this]
  define pv where "pv = frame_view (pp_version p) (publish_first p) (of_nat (length body)) body"
  define flags where "flags = publish_first p AND 0x0f"
  have pv: "pv_version pv = pp_version p" "pv_type pv = FLOWIE_MQTT_PACKET_PUBLISH" "pv_flags pv = flags"
      "pv_remaining_length pv = of_nat (length body)" "pv_body pv = Span body"
    using facts(4) by (simp_all add: pv_def frame_view_def flags_def)
  have flags: "drop_bit 1 flags AND 3 = pp_qos p" "flags AND 1 = pp_retain p"
      "drop_bit 3 flags AND 1 = pp_duplicate p"
    unfolding flags_def by (rule facts(5), rule facts(6), rule facts(7))
  ultimately have "flowie_mqtt_publish_parse un pv = Inr (publish_view_of p)"
    unfolding flowie_mqtt_publish_parse_def Let_def pv flags
    using norm P(1,9)
    by (auto simp: flowie_mqtt_typed_args_def pv topic pid props publish_view_of_def
        span_norm_def [of "pp_payload p"])
  then show ?thesis by (simp add: pv_def body_def)
qed

lemma publish_encode_frame:
  assumes "flowie_mqtt_publish_packet_encode un p cap = Inr out"
  shows "publish_validate un p = Inr ()" "length (publish_body p) \<le> FLOWIE_MQTT_MAX_REMAINING_LENGTH"
    "out = frame_bytes (publish_first p) (publish_body p)" "length out \<le> cap"
  using assms unfolding flowie_mqtt_publish_packet_encode_def Let_def
  by (auto simp: rbind_Inr_iff encode_packet_iff publish_first_def)

text \<open>C9: PUBLISH round trip. What the PUBLISH encoder writes fits the output, is framed
  and accepted by the packet parser under every valid options that allow its size and
  version, and parses back to the same topic, properties, payload, identifier and flags.\<close>

theorem publish_roundtrip:
  assumes "flowie_mqtt_publish_packet_encode un p cap = Inr out"
    and "options_ok opts" "po_version opts = pp_version p" "length out \<le> packet_limit opts"
  shows "length out \<le> cap \<and>
    (\<exists>pv. flowie_mqtt_packet_parse True (Span out) (Some opts) = Inr (pv, length out) \<and>
          flowie_mqtt_publish_parse un pv = Inr (publish_view_of p))"
proof -
  note enc = publish_encode_frame [OF assms(1)]
  obtain present where P: "pp_qos p \<le> 2" "pp_retain p \<le> 1" "pp_duplicate p \<le> 1"
      "pp_qos p = 0 \<longrightarrow> pp_duplicate p = 0"
    using publish_validate_dest [OF enc(1)] by metis
  note facts = publish_first_facts [OF P]
  show ?thesis
    using parse_frame_bytes [OF assms(2) facts(1) facts(2) facts(3) enc(2)] publish_parse_body [OF enc(1,2)]
      assms(3,4) enc(3,4) by auto
qed

theorem publish_roundtrip_witness:
  "\<exists>pv out. flowie_mqtt_publish_packet_encode rfc3629_next
      \<lparr>pp_version = 4, pp_qos = 1, pp_retain = 0, pp_duplicate = 0, pp_packet_id = 7,
       pp_topic = Span [0x61], pp_properties = NullSpan 0, pp_payload = Span [1, 2]\<rparr> 100 = Inr out \<and>
    flowie_mqtt_packet_parse True (Span out) (Some \<lparr>po_version = 4, po_max_packet_size = 0\<rparr>) =
      Inr (pv, length out) \<and>
    flowie_mqtt_publish_parse rfc3629_next pv = Inr
      \<lparr>pu_qos = 1, pu_retain = 0, pu_duplicate = 0, pu_packet_id = 7, pu_topic = Span [0x61],
       pu_properties = flowie_mqtt_empty_properties, pu_payload = Span [1, 2]\<rparr>"
proof -
  let ?p = "\<lparr>pp_version = 4, pp_qos = 1, pp_retain = 0, pp_duplicate = 0, pp_packet_id = 7,
    pp_topic = Span [0x61], pp_properties = NullSpan 0, pp_payload = Span [1, 2]\<rparr> :: flowie_mqtt_publish_packet"
  let ?o = "\<lparr>po_version = 4, po_max_packet_size = 0\<rparr> :: flowie_mqtt_parse_options"
  have "publish_validate rfc3629_next ?p = Inr ()"
    using sample_topic_ok
    by (simp add: publish_validate_def flowie_mqtt_version_valid_def flowie_mqtt_version_is_supported_def
        flowie_mqtt_length_span_input_validate_def flowie_mqtt_span_input_valid_def
        flowie_mqtt_property_values_validate_def flowie_mqtt_version_is_3x_def)
  moreover have "publish_remaining ?p = Inr 7"
    by (simp add: publish_remaining_def flowie_mqtt_remaining_add_def remaining_add_properties_def)
  moreover have "length (publish_body ?p) = 7"
    by (simp add: publish_body_def write_properties_def)
  moreover have "length (flowie_mqtt_vbi_write 7) = 1"
    by code_simp
  ultimately obtain out where out: "flowie_mqtt_publish_packet_encode rfc3629_next ?p 100 = Inr out"
    by (simp add: flowie_mqtt_publish_packet_encode_def encode_packet_iff frame_bytes_def)
  have "length out \<le> packet_limit ?o"
    using publish_encode_frame(4) [OF out] by (simp add: packet_limit_def)
  then show ?thesis
    using publish_roundtrip [OF out, of ?o] out
    by (simp add: options_ok_def flowie_mqtt_version_is_supported_def publish_view_of_def block_view_def)
qed

end
