(* ===== verification/Mqtt_Roundtrip.thy ===== *)
theory Mqtt_Roundtrip
  imports Mqtt_Encode
begin

text \<open>
  Round trips of the CONNECT, SUBSCRIBE and UNSUBSCRIBE encoders through framing and the
  typed parsers.
\<close>

section \<open>Iterators over written entries\<close>

text \<open>
  SUBSCRIBE and UNSUBSCRIBE bodies end in a list of entries that callers walk with an
  iterator: one call per entry, and \<open>NEED_MORE\<close> at the end. \<open>iterates\<close> says that an
  iterator gives exactly a list of entries.
\<close>

fun iterates :: "('it \<Rightarrow> ('e \<times> 'it) parse) \<Rightarrow> 'it \<Rightarrow> 'e list \<Rightarrow> bool" where
  "iterates nxt it [] \<longleftrightarrow> nxt it = Inl FLOWIE_MQTT_PARSE_NEED_MORE"
| "iterates nxt it (e # es) \<longleftrightarrow>
     (case nxt it of Inr (e', it') \<Rightarrow> e' = e \<and> iterates nxt it' es | Inl rc \<Rightarrow> False)"

text \<open>
  The contract of an entry iterator: at the bytes of a written entry it returns that
  entry and moves behind it, at the end it asks for more, and \<open>count\<close> is the loop that
  calls it until it fails.
\<close>

locale wire_iterator =
  fixes nxt :: "'it \<Rightarrow> ('e \<times> 'it) parse"
    and at :: "bytes \<Rightarrow> 'it"
    and wire :: "'e \<Rightarrow> bytes"
    and ok :: "'e \<Rightarrow> bool"
    and count :: "'it \<Rightarrow> nat \<Rightarrow> nat \<times> flowie_mqtt_parse_result"
  assumes next_wire: "ok e \<Longrightarrow> nxt (at (wire e @ rest)) = Inr (e, at rest)"
    and next_end: "nxt (at []) = Inl FLOWIE_MQTT_PARSE_NEED_MORE"
    and count_unfold: "count it n =
      (case nxt it of Inr (e, it') \<Rightarrow> count it' (n + 1) | Inl rc \<Rightarrow> (n, rc))"
begin

lemma count_wire:
  "\<forall>e \<in> set es. ok e \<Longrightarrow>
     count (at (concat (map wire es))) n = (n + length es, FLOWIE_MQTT_PARSE_NEED_MORE)"
proof (induction es arbitrary: n)
  case Nil
  then show ?case by (subst count_unfold) (simp add: next_end)
next
  case (Cons e es)
  then show ?case by (subst count_unfold) (simp add: next_wire)
qed

lemma iterates_wire: "\<forall>e \<in> set es. ok e \<Longrightarrow> iterates nxt (at (concat (map wire es))) es"
  by (induction es) (simp_all add: next_end next_wire)

end

section \<open>SUBSCRIBE\<close>

lemma options_bits:
  fixes q n r h :: u8
  assumes "q \<le> 2" "n \<le> 1" "r \<le> 1" "h \<le> 2"
  defines "opts \<equiv> q OR push_bit 2 n OR push_bit 3 r OR push_bit 4 h"
  shows "opts AND 3 = q \<and> drop_bit 2 opts AND 1 = n \<and> drop_bit 3 opts AND 1 = r \<and>
    drop_bit 4 opts AND 3 = h \<and> opts AND 0xc0 = 0 \<and> (n = 0 \<and> r = 0 \<and> h = 0 \<longrightarrow> opts AND 0xfc = 0)"
  unfolding opts_def
  using u8_le_2_cases [OF assms(1)] u8_le_1_cases [OF assms(2)] u8_le_1_cases [OF assms(3)]
    u8_le_2_cases [OF assms(4)]
  by (elim disjE) simp_all

lemma topic_filter_not_null: "flowie_mqtt_topic_filter_validate un f \<Longrightarrow> span_norm f = f"
  by (cases f) auto

lemma subscription_next_write:
  assumes "flowie_mqtt_length_span_input_validate un (sv_filter e) True = Inr u"
    and "subscription_entry_ok un version e"
  shows "flowie_mqtt_subscription_iterator_next un (version, Some (subscription_write e @ rest)) =
    Inr (e, (version, Some rest))"
proof -
  have ok: "flowie_mqtt_topic_filter_validate un (sv_filter e)" "sv_qos e \<le> 2" "sv_no_local e \<le> 1"
      "sv_retain_as_published e \<le> 1" "sv_retain_handling e \<le> 2"
      "\<not> (sv_no_local e \<noteq> 0 \<and> starts_with_share (sv_filter e))"
      "flowie_mqtt_version_is_3x version \<Longrightarrow>
         sv_no_local e = 0 \<and> sv_retain_as_published e = 0 \<and> sv_retain_handling e = 0"
    using assms(2) by (auto simp: subscription_entry_ok_def not_less)
  define options where "options = subscription_options e"
  note facts = options_bits [OF ok(2-5), folded subscription_options_def, folded options_def]
  have read: "flowie_mqtt_length_span un (subscription_write e @ rest) True = Inr (sv_filter e, options # rest)"
    using length_span_read_back [OF assms(1), of "options # rest"] topic_filter_not_null [OF ok(1)]
    by (simp add: subscription_write_def options_def)
  have "subscription_write e @ rest \<noteq> []" by (simp add: subscription_write_def)
  moreover have "sv_qos e \<noteq> 3" "sv_retain_handling e \<noteq> 3"
    using u8_le_2_cases [OF ok(2)] u8_le_2_cases [OF ok(5)] by auto
  moreover have "flowie_mqtt_version_is_3x version \<Longrightarrow> options AND 0xfc = 0"
    using ok(7) facts by simp
  ultimately show ?thesis
    using ok(1,6) read facts
    by (cases e) (auto simp: flowie_mqtt_subscription_iterator_next_def Let_def)
qed

definition subscription_ok :: "utf8_next \<Rightarrow> flowie_mqtt_version \<Rightarrow> flowie_mqtt_subscription_view \<Rightarrow> bool" where
  "subscription_ok un version e \<longleftrightarrow>
     flowie_mqtt_length_span_input_validate un (sv_filter e) True = Inr () \<and>
     subscription_entry_ok un version e"

interpretation subscriptions: wire_iterator
  "flowie_mqtt_subscription_iterator_next un" "\<lambda>bs. (version, Some bs)" subscription_write
  "subscription_ok un version" "subscription_count_loop un" for un version
proof (unfold_locales, goal_cases)
  case (1 e rest)
  then show ?case by (auto simp: subscription_ok_def intro: subscription_next_write)
next
  case 2
  then show ?case by (simp add: flowie_mqtt_subscription_iterator_next_def)
next
  case (3 it n)
  then show ?case by (rule subscription_count_loop.simps)
qed

lemma subscribe_entries_remaining_iff:
  "subscribe_entries_remaining un version es r = Inr r' \<longleftrightarrow>
     (\<forall>e \<in> set es. subscription_ok un version e) \<and>
     r' = r + length (concat (map subscription_write es)) \<and>
     (es \<noteq> [] \<longrightarrow> r' \<le> FLOWIE_MQTT_MAX_REMAINING_LENGTH)"
proof (induction es arbitrary: r)
  case Nil
  then show ?case by auto
next
  case (Cons e es)
  show ?case
  proof (cases "subscription_ok un version e")
    case False
    then show ?thesis by (auto simp: rbind_Inr_iff subscription_ok_def)
  next
    case True
    then have "length (subscription_write e) = 3 + span_size (sv_filter e)"
      by (simp add: subscription_write_def length_length_span_write length_span_input_iff subscription_ok_def)
    with True show ?thesis
      by (auto simp: remaining_add_eq Cons.IH subscription_ok_def)
  qed
qed

text \<open>What an accepted SUBSCRIBE description satisfies.\<close>

lemma subscribe_encode_frame:
  assumes "flowie_mqtt_subscribe_packet_encode un p cap = Inr out"
  obtains present where
    "flowie_mqtt_version_is_supported (sp_version p)" "sp_packet_id p \<noteq> 0" "sp_subscriptions p \<noteq> []"
    "flowie_mqtt_property_values_validate un (sp_version p) (sp_properties p)
       flowie_mqtt_subscribe_properties_allowed flowie_mqtt_user_property_repeatable = Inr present"
    "\<forall>e \<in> set (sp_subscriptions p). subscription_ok un (sp_version p) e"
    "length (subscribe_body p) \<le> FLOWIE_MQTT_MAX_REMAINING_LENGTH"
    "out = frame_bytes 0x82 (subscribe_body p)" "length out \<le> cap"
  using assms unfolding flowie_mqtt_subscribe_packet_encode_def
  by (auto simp: rbind_Inr_iff subscribe_entries_remaining_iff encode_packet_iff flowie_mqtt_version_valid_def)

lemma subscribe_parse_body:
  assumes "flowie_mqtt_version_is_supported (sp_version p)" "sp_packet_id p \<noteq> 0" "sp_subscriptions p \<noteq> []"
    and props: "flowie_mqtt_property_values_validate un (sp_version p) (sp_properties p)
       flowie_mqtt_subscribe_properties_allowed flowie_mqtt_user_property_repeatable = Inr present"
    and entries: "\<forall>e \<in> set (sp_subscriptions p). subscription_ok un (sp_version p) e"
    and len: "length (subscribe_body p) \<le> FLOWIE_MQTT_MAX_REMAINING_LENGTH"
  shows "flowie_mqtt_subscribe_parse un
      (frame_view (sp_version p) 0x82 (of_nat (length (subscribe_body p))) (subscribe_body p)) =
    Inr \<lparr>sb_packet_id = sp_packet_id p, sb_properties = block_view (sp_version p) (sp_properties p),
         sb_entries = Span (concat (map subscription_write (sp_subscriptions p))),
         sb_entry_count = length (sp_subscriptions p)\<rparr>"
proof -
  define body where "body = subscribe_body p"
  define es where "es = concat (map subscription_write (sp_subscriptions p))"
  define rest where "rest = write_properties (sp_version p) (sp_properties p) @ es"
  define pv where "pv = frame_view (sp_version p) 0x82 (of_nat (length body)) body"
  have pv: "pv_version pv = sp_version p" "pv_type pv = FLOWIE_MQTT_PACKET_SUBSCRIBE"
      "pv_remaining_length pv = of_nat (length body)" "pv_body pv = Span body"
    by (simp_all add: pv_def frame_view_def)
  have pid: "nonzero_packet_id body = Inr (sp_packet_id p, rest)"
    using nonzero_packet_id_write [OF assms(2)] by (simp add: body_def subscribe_body_def rest_def es_def)
  have block: "block_parse un (sp_version p) flowie_mqtt_subscribe_properties_allowed
      flowie_mqtt_user_property_repeatable rest = Inr (block_view (sp_version p) (sp_properties p), present, es)"
    unfolding rest_def by (rule block_parse_write [OF props assms(1)])
  have count: "subscription_count_loop un (sp_version p, Some es) 0 =
      (length (sp_subscriptions p), FLOWIE_MQTT_PARSE_NEED_MORE)"
    using subscriptions.count_wire [OF entries, of 0] by (simp add: es_def)
  have "es \<noteq> []"
    using assms(3) by (cases "sp_subscriptions p") (simp_all add: es_def subscription_write_def)
  moreover have "unat (of_nat (length body) :: u32) = length body"
    using len by (intro unat_of_nat_u32) (simp add: body_def)
  ultimately have "flowie_mqtt_subscribe_parse un pv =
      Inr \<lparr>sb_packet_id = sp_packet_id p, sb_properties = block_view (sp_version p) (sp_properties p),
           sb_entries = Span es, sb_entry_count = length (sp_subscriptions p)\<rparr>"
    using assms(1,3)
    by (simp add: flowie_mqtt_subscribe_parse_def flowie_mqtt_typed_args_def pv pid block count Let_def
        flowie_mqtt_subscription_iterator_init_def)
  then show ?thesis by (simp add: pv_def body_def es_def)
qed

lemma fixed_header_0x82: "flowie_mqtt_fixed_header_valid 0x82 version" "\<not> ping_type 0x82"
  by (simp_all add: flowie_mqtt_fixed_header_valid_def required_flags_def ping_type_def)

text \<open>C10: SUBSCRIBE round trip. What the SUBSCRIBE encoder writes is framed and parsed back
  to the same identifier and properties, and the subscription iterator returns exactly the
  described subscriptions in order.\<close>

theorem subscribe_roundtrip:
  assumes "flowie_mqtt_subscribe_packet_encode un p cap = Inr out"
    and "options_ok opts" "po_version opts = sp_version p" "length out \<le> packet_limit opts"
  shows "length out \<le> cap \<and>
    (\<exists>pv sv it. flowie_mqtt_packet_parse True (Span out) (Some opts) = Inr (pv, length out) \<and>
       flowie_mqtt_subscribe_parse un pv = Inr sv \<and>
       sb_packet_id sv = sp_packet_id p \<and>
       sb_properties sv = block_view (sp_version p) (sp_properties p) \<and>
       sb_entry_count sv = length (sp_subscriptions p) \<and>
       flowie_mqtt_subscription_iterator_init pv sv = Inr it \<and>
       iterates (flowie_mqtt_subscription_iterator_next un) it (sp_subscriptions p))"
proof -
  obtain present where P: "flowie_mqtt_version_is_supported (sp_version p)" "sp_packet_id p \<noteq> 0"
      "sp_subscriptions p \<noteq> []"
      "flowie_mqtt_property_values_validate un (sp_version p) (sp_properties p)
       flowie_mqtt_subscribe_properties_allowed flowie_mqtt_user_property_repeatable = Inr present"
      "\<forall>e \<in> set (sp_subscriptions p). subscription_ok un (sp_version p) e"
      "length (subscribe_body p) \<le> FLOWIE_MQTT_MAX_REMAINING_LENGTH"
      and out: "out = frame_bytes 0x82 (subscribe_body p)" "length out \<le> cap"
    by (rule subscribe_encode_frame [OF assms(1)])
  define pv where "pv = frame_view (sp_version p) 0x82 (of_nat (length (subscribe_body p))) (subscribe_body p)"
  have "flowie_mqtt_packet_parse True (Span out) (Some opts) = Inr (pv, length out)"
    using parse_frame_bytes [OF assms(2), where first = "0x82" and body = "subscribe_body p"] fixed_header_0x82 P(6) assms(3,4)
    by (simp add: out(1) pv_def)
  moreover note subscribe_parse_body [OF P, folded pv_def]
  moreover have "pv_version pv = sp_version p" by (simp add: pv_def frame_view_def)
  ultimately show ?thesis
    using out(2) P(1) subscriptions.iterates_wire [OF P(5)]
    by (simp add: flowie_mqtt_subscription_iterator_init_def)
qed

theorem subscribe_roundtrip_witness:
  "\<exists>out pv sv it. flowie_mqtt_subscribe_packet_encode rfc3629_next
      \<lparr>sp_version = 4, sp_packet_id = 5, sp_properties = NullSpan 0,
       sp_subscriptions = [\<lparr>sv_filter = Span [0x61], sv_qos = 1, sv_no_local = 0,
         sv_retain_as_published = 0, sv_retain_handling = 0\<rparr>]\<rparr> 100 = Inr out \<and>
    flowie_mqtt_packet_parse True (Span out) (Some \<lparr>po_version = 4, po_max_packet_size = 0\<rparr>) =
      Inr (pv, length out) \<and>
    flowie_mqtt_subscribe_parse rfc3629_next pv = Inr sv \<and>
    flowie_mqtt_subscription_iterator_init pv sv = Inr it \<and>
    iterates (flowie_mqtt_subscription_iterator_next rfc3629_next) it
      [\<lparr>sv_filter = Span [0x61], sv_qos = 1, sv_no_local = 0,
        sv_retain_as_published = 0, sv_retain_handling = 0\<rparr>]"
proof -
  let ?e = "\<lparr>sv_filter = Span [0x61], sv_qos = 1, sv_no_local = 0, sv_retain_as_published = 0,
    sv_retain_handling = 0\<rparr> :: flowie_mqtt_subscription_view"
  let ?p = "\<lparr>sp_version = 4, sp_packet_id = 5, sp_properties = NullSpan 0, sp_subscriptions = [?e]\<rparr>
    :: flowie_mqtt_subscribe_packet"
  let ?o = "\<lparr>po_version = 4, po_max_packet_size = 0\<rparr> :: flowie_mqtt_parse_options"
  have "subscribe_entries_remaining rfc3629_next 4 [?e] 2 = Inr 6"
    using sample_topic_ok
    by (simp add: flowie_mqtt_length_span_input_validate_def flowie_mqtt_span_input_valid_def
        subscription_entry_ok_def flowie_mqtt_remaining_add_def)
  moreover have "length (subscribe_body ?p) = 6"
    by (simp add: subscribe_body_def write_properties_def subscription_write_def)
  moreover have "length (flowie_mqtt_vbi_write 6) = 1"
    by code_simp
  ultimately obtain out where out: "flowie_mqtt_subscribe_packet_encode rfc3629_next ?p 100 = Inr out"
    by (simp add: flowie_mqtt_subscribe_packet_encode_def encode_packet_iff frame_bytes_def
        flowie_mqtt_version_valid_def flowie_mqtt_version_is_supported_def remaining_add_properties_def
        flowie_mqtt_property_values_validate_def flowie_mqtt_span_input_valid_def flowie_mqtt_version_is_3x_def)
  have "length out \<le> 100" by (rule subscribe_encode_frame [OF out])
  then have "length out \<le> packet_limit ?o" by (simp add: packet_limit_def)
  then show ?thesis
    using subscribe_roundtrip [OF out, of ?o] out
    by (auto simp: options_ok_def flowie_mqtt_version_is_supported_def)
qed

section \<open>UNSUBSCRIBE\<close>

definition unsubscribe_filter_ok :: "utf8_next \<Rightarrow> flowie_mqtt_span \<Rightarrow> bool" where
  "unsubscribe_filter_ok un flt \<longleftrightarrow>
     flowie_mqtt_length_span_input_validate un flt True = Inr () \<and> flowie_mqtt_topic_filter_validate un flt"

lemma length_span_write_not_Nil: "flowie_mqtt_length_span_write v \<noteq> []"
  by (simp add: flowie_mqtt_length_span_write_def write_u16_def)

interpretation topic_filters: wire_iterator
  "flowie_mqtt_topic_filter_iterator_next un" Some flowie_mqtt_length_span_write
  "unsubscribe_filter_ok un" "topic_filter_count_loop un" for un
proof (unfold_locales, goal_cases)
  case (1 flt rest)
  then have "flowie_mqtt_length_span un (flowie_mqtt_length_span_write flt @ rest) True = Inr (flt, rest)"
    using length_span_read_back [of un flt True "()" rest] topic_filter_not_null [of un flt]
    by (simp add: unsubscribe_filter_ok_def)
  with 1 show ?case
    by (simp add: flowie_mqtt_topic_filter_iterator_next_def unsubscribe_filter_ok_def length_span_write_not_Nil)
next
  case 2
  then show ?case by (simp add: flowie_mqtt_topic_filter_iterator_next_def)
next
  case (3 it n)
  then show ?case by (rule topic_filter_count_loop.simps)
qed

lemma unsubscribe_filters_remaining_iff:
  "unsubscribe_filters_remaining un fs r = Inr r' \<longleftrightarrow>
     (\<forall>f \<in> set fs. unsubscribe_filter_ok un f) \<and>
     r' = r + length (concat (map flowie_mqtt_length_span_write fs)) \<and>
     (fs \<noteq> [] \<longrightarrow> r' \<le> FLOWIE_MQTT_MAX_REMAINING_LENGTH)"
proof (induction fs arbitrary: r)
  case Nil
  then show ?case by auto
next
  case (Cons f fs)
  show ?case
  proof (cases "unsubscribe_filter_ok un f")
    case False
    then show ?thesis by (auto simp: rbind_Inr_iff unsubscribe_filter_ok_def)
  next
    case True
    then have "length (flowie_mqtt_length_span_write f) = 2 + span_size f"
      by (simp add: length_length_span_write length_span_input_iff unsubscribe_filter_ok_def)
    with True show ?thesis
      by (auto simp: remaining_add_eq Cons.IH unsubscribe_filter_ok_def)
  qed
qed

lemma unsubscribe_encode_frame:
  assumes "flowie_mqtt_unsubscribe_packet_encode un p cap = Inr out"
  obtains present where
    "flowie_mqtt_version_is_supported (up_version p)" "up_packet_id p \<noteq> 0" "up_filters p \<noteq> []"
    "flowie_mqtt_property_values_validate un (up_version p) (up_properties p)
       flowie_mqtt_user_property_repeatable flowie_mqtt_user_property_repeatable = Inr present"
    "\<forall>f \<in> set (up_filters p). unsubscribe_filter_ok un f"
    "length (unsubscribe_body p) \<le> FLOWIE_MQTT_MAX_REMAINING_LENGTH"
    "out = frame_bytes 0xa2 (unsubscribe_body p)" "length out \<le> cap"
  using assms unfolding flowie_mqtt_unsubscribe_packet_encode_def
  by (auto simp: rbind_Inr_iff unsubscribe_filters_remaining_iff encode_packet_iff flowie_mqtt_version_valid_def)

lemma unsubscribe_parse_body:
  assumes "flowie_mqtt_version_is_supported (up_version p)" "up_packet_id p \<noteq> 0" "up_filters p \<noteq> []"
    and props: "flowie_mqtt_property_values_validate un (up_version p) (up_properties p)
       flowie_mqtt_user_property_repeatable flowie_mqtt_user_property_repeatable = Inr present"
    and filters: "\<forall>f \<in> set (up_filters p). unsubscribe_filter_ok un f"
    and len: "length (unsubscribe_body p) \<le> FLOWIE_MQTT_MAX_REMAINING_LENGTH"
  shows "flowie_mqtt_unsubscribe_parse un
      (frame_view (up_version p) 0xa2 (of_nat (length (unsubscribe_body p))) (unsubscribe_body p)) =
    Inr \<lparr>us_packet_id = up_packet_id p, us_properties = block_view (up_version p) (up_properties p),
         us_filters = Span (concat (map flowie_mqtt_length_span_write (up_filters p))),
         us_filter_count = length (up_filters p)\<rparr>"
proof -
  define body where "body = unsubscribe_body p"
  define fs where "fs = concat (map flowie_mqtt_length_span_write (up_filters p))"
  define rest where "rest = write_properties (up_version p) (up_properties p) @ fs"
  define pv where "pv = frame_view (up_version p) 0xa2 (of_nat (length body)) body"
  have pv: "pv_version pv = up_version p" "pv_type pv = FLOWIE_MQTT_PACKET_UNSUBSCRIBE"
      "pv_remaining_length pv = of_nat (length body)" "pv_body pv = Span body"
    by (simp_all add: pv_def frame_view_def)
  have pid: "nonzero_packet_id body = Inr (up_packet_id p, rest)"
    using nonzero_packet_id_write [OF assms(2)] by (simp add: body_def unsubscribe_body_def rest_def fs_def)
  have block: "block_parse un (up_version p) flowie_mqtt_user_property_repeatable
      flowie_mqtt_user_property_repeatable rest = Inr (block_view (up_version p) (up_properties p), present, fs)"
    unfolding rest_def by (rule block_parse_write [OF props assms(1)])
  have count: "topic_filter_count_loop un (Some fs) 0 =
      (length (up_filters p), FLOWIE_MQTT_PARSE_NEED_MORE)"
    using topic_filters.count_wire [OF filters, of 0] by (simp add: fs_def)
  have "fs \<noteq> []"
    using assms(3) by (cases "up_filters p") (simp_all add: fs_def length_span_write_not_Nil)
  moreover have "unat (of_nat (length body) :: u32) = length body"
    using len by (intro unat_of_nat_u32) (simp add: body_def)
  ultimately have "flowie_mqtt_unsubscribe_parse un pv =
      Inr \<lparr>us_packet_id = up_packet_id p, us_properties = block_view (up_version p) (up_properties p),
           us_filters = Span fs, us_filter_count = length (up_filters p)\<rparr>"
    using assms(1,3)
    by (simp add: flowie_mqtt_unsubscribe_parse_def flowie_mqtt_typed_args_def pv pid block count Let_def
        flowie_mqtt_topic_filter_iterator_init_def)
  then show ?thesis by (simp add: pv_def body_def fs_def)
qed

lemma fixed_header_0xa2: "flowie_mqtt_fixed_header_valid 0xa2 version" "\<not> ping_type 0xa2"
  by (simp_all add: flowie_mqtt_fixed_header_valid_def required_flags_def ping_type_def)

text \<open>UNSUBSCRIBE round trip. What the UNSUBSCRIBE encoder writes is framed and parsed
  back to the same identifier and properties, and the filter iterator returns exactly the
  described topic filters in order.\<close>

theorem unsubscribe_roundtrip:
  assumes "flowie_mqtt_unsubscribe_packet_encode un p cap = Inr out"
    and "options_ok opts" "po_version opts = up_version p" "length out \<le> packet_limit opts"
  shows "length out \<le> cap \<and>
    (\<exists>pv uv it. flowie_mqtt_packet_parse True (Span out) (Some opts) = Inr (pv, length out) \<and>
       flowie_mqtt_unsubscribe_parse un pv = Inr uv \<and>
       us_packet_id uv = up_packet_id p \<and>
       us_properties uv = block_view (up_version p) (up_properties p) \<and>
       us_filter_count uv = length (up_filters p) \<and>
       flowie_mqtt_topic_filter_iterator_init uv = Inr it \<and>
       iterates (flowie_mqtt_topic_filter_iterator_next un) it (up_filters p))"
proof -
  obtain present where P: "flowie_mqtt_version_is_supported (up_version p)" "up_packet_id p \<noteq> 0"
      "up_filters p \<noteq> []"
      "flowie_mqtt_property_values_validate un (up_version p) (up_properties p)
       flowie_mqtt_user_property_repeatable flowie_mqtt_user_property_repeatable = Inr present"
      "\<forall>f \<in> set (up_filters p). unsubscribe_filter_ok un f"
      "length (unsubscribe_body p) \<le> FLOWIE_MQTT_MAX_REMAINING_LENGTH"
      and out: "out = frame_bytes 0xa2 (unsubscribe_body p)" "length out \<le> cap"
    by (rule unsubscribe_encode_frame [OF assms(1)])
  define pv where "pv = frame_view (up_version p) 0xa2 (of_nat (length (unsubscribe_body p))) (unsubscribe_body p)"
  have "flowie_mqtt_packet_parse True (Span out) (Some opts) = Inr (pv, length out)"
    using parse_frame_bytes [OF assms(2), where first = "0xa2" and body = "unsubscribe_body p"]
      fixed_header_0xa2 P(6) assms(3,4)
    by (simp add: out(1) pv_def)
  moreover note unsubscribe_parse_body [OF P, folded pv_def]
  moreover have "concat (map flowie_mqtt_length_span_write (up_filters p)) \<noteq> []"
    using P(3) by (cases "up_filters p") (simp_all add: length_span_write_not_Nil)
  ultimately show ?thesis
    using out(2) topic_filters.iterates_wire [OF P(5)]
    by (simp add: flowie_mqtt_topic_filter_iterator_init_def)
qed

theorem unsubscribe_roundtrip_witness:
  "\<exists>out pv uv it. flowie_mqtt_unsubscribe_packet_encode rfc3629_next
      \<lparr>up_version = 4, up_packet_id = 5, up_properties = NullSpan 0, up_filters = [Span [0x61]]\<rparr> 100 = Inr out \<and>
    flowie_mqtt_packet_parse True (Span out) (Some \<lparr>po_version = 4, po_max_packet_size = 0\<rparr>) =
      Inr (pv, length out) \<and>
    flowie_mqtt_unsubscribe_parse rfc3629_next pv = Inr uv \<and>
    flowie_mqtt_topic_filter_iterator_init uv = Inr it \<and>
    iterates (flowie_mqtt_topic_filter_iterator_next rfc3629_next) it [Span [0x61]]"
proof -
  let ?p = "\<lparr>up_version = 4, up_packet_id = 5, up_properties = NullSpan 0, up_filters = [Span [0x61]]\<rparr>
    :: flowie_mqtt_unsubscribe_packet"
  let ?o = "\<lparr>po_version = 4, po_max_packet_size = 0\<rparr> :: flowie_mqtt_parse_options"
  have "unsubscribe_filters_remaining rfc3629_next [Span [0x61]] 2 = Inr 5"
    using sample_topic_ok
    by (simp add: flowie_mqtt_length_span_input_validate_def flowie_mqtt_span_input_valid_def
        flowie_mqtt_remaining_add_def)
  moreover have "length (unsubscribe_body ?p) = 5"
    by (simp add: unsubscribe_body_def write_properties_def)
  moreover have "length (flowie_mqtt_vbi_write 5) = 1"
    by code_simp
  ultimately obtain out where out: "flowie_mqtt_unsubscribe_packet_encode rfc3629_next ?p 100 = Inr out"
    by (simp add: flowie_mqtt_unsubscribe_packet_encode_def encode_packet_iff frame_bytes_def
        flowie_mqtt_version_valid_def flowie_mqtt_version_is_supported_def remaining_add_properties_def
        flowie_mqtt_property_values_validate_def flowie_mqtt_span_input_valid_def flowie_mqtt_version_is_3x_def)
  have "length out \<le> 100" by (rule unsubscribe_encode_frame [OF out])
  then have "length out \<le> packet_limit ?o" by (simp add: packet_limit_def)
  then show ?thesis
    using unsubscribe_roundtrip [OF out, of ?o] out
    by (auto simp: options_ok_def flowie_mqtt_version_is_supported_def)
qed

section \<open>CONNECT\<close>

lemma connect_flag_bits:
  fixes u p r q w c :: u8
  assumes "u \<le> 1" "p \<le> 1" "r \<le> 1" "q \<le> 2" "w \<le> 1" "c \<le> 1"
  defines "flags \<equiv> push_bit 7 u OR push_bit 6 p OR push_bit 5 r OR push_bit 3 q OR push_bit 2 w OR push_bit 1 c"
  shows "flags AND 1 = 0 \<and> drop_bit 2 flags AND 1 = w \<and> drop_bit 1 flags AND 1 = c \<and>
    drop_bit 3 flags AND 3 = q \<and> drop_bit 5 flags AND 1 = r \<and> drop_bit 6 flags AND 1 = p \<and>
    drop_bit 7 flags AND 1 = u"
  unfolding flags_def
  using u8_le_1_cases [OF assms(1)] u8_le_1_cases [OF assms(2)] u8_le_1_cases [OF assms(3)]
    u8_le_2_cases [OF assms(4)] u8_le_1_cases [OF assms(5)] u8_le_1_cases [OF assms(6)]
  by (elim disjE) simp_all

definition optional_view :: "u8 \<Rightarrow> flowie_mqtt_span \<Rightarrow> flowie_mqtt_span" where
  "optional_view has v = (if has \<noteq> 0 then span_norm v else NullSpan 0)"

definition connect_view_of :: "flowie_mqtt_connect_packet \<Rightarrow> flowie_mqtt_connect_view" where
  "connect_view_of p =
     \<lparr>cv_version = cp_version p, cv_clean_start = cp_clean_start p, cv_will_qos = cp_will_qos p,
      cv_will_retain = cp_will_retain p, cv_keep_alive = cp_keep_alive p,
      cv_properties = block_view (cp_version p) (cp_properties p),
      cv_client_id = span_norm (cp_client_id p),
      cv_will_properties = (if cp_has_will p \<noteq> 0 then block_view (cp_version p) (cp_will_properties p)
                            else flowie_mqtt_empty_properties),
      cv_will_topic = optional_view (cp_has_will p) (cp_will_topic p),
      cv_will_payload = optional_view (cp_has_will p) (cp_will_payload p),
      cv_username = optional_view (cp_has_username p) (cp_username p),
      cv_password = optional_view (cp_has_password p) (cp_password p)\<rparr>"

lemma connect_properties_parse_write:
  assumes "flowie_mqtt_property_values_validate un version v flowie_mqtt_connect_properties_allowed
      flowie_mqtt_user_property_repeatable = Inr present"
    and "\<not> auth_data_without_method present" "flowie_mqtt_version_is_supported version"
  shows "connect_properties_parse un version (write_properties version v @ rest) =
    Inr (block_view version v, rest)"
proof (cases "version = FLOWIE_MQTT_VERSION_5")
  case True
  then obtain n where "flowie_mqtt_typed_property_block (Span (write_properties version v @ rest)) =
        Inr (block_view version v, n)"
      "flowie_mqtt_properties_validate un (block_view version v) flowie_mqtt_connect_properties_allowed
        flowie_mqtt_user_property_repeatable = Inr present"
      "drop n (write_properties version v @ rest) = rest"
    using block_parse_write [OF assms(1,3), of rest] by (auto simp: block_parse_def rbind_Inr_iff)
  with True assms(2) show ?thesis by (simp add: connect_properties_parse_def)
next
  case False
  then show ?thesis
    using block_parse_write [OF assms(1,3), of rest] by (simp add: connect_properties_parse_def block_parse_def)
qed

lemma optional_span_write:
  assumes "optional_span_validate un has v utf8 = Inr u"
  shows "optional_span un (has \<noteq> 0) utf8
      ((if has \<noteq> 0 then flowie_mqtt_length_span_write v else []) @ rest) = Inr (optional_view has v, rest)"
  using assms length_span_read_back [of un v utf8 u rest]
  by (cases "has = 0") (simp_all add: optional_span_validate_def optional_span_def optional_view_def)

definition will_bytes :: "flowie_mqtt_connect_packet \<Rightarrow> bytes" where
  "will_bytes p =
     (if cp_has_will p \<noteq> 0
      then write_properties (cp_version p) (cp_will_properties p) @
           flowie_mqtt_length_span_write (cp_will_topic p) @
           flowie_mqtt_length_span_write (cp_will_payload p)
      else [])"

lemma connect_will_parse_write:
  assumes "connect_will_validate un p = Inr u" "flowie_mqtt_version_is_supported (cp_version p)"
  shows "connect_will_parse un (cp_version p) (cp_has_will p \<noteq> 0) (will_bytes p @ rest) =
    Inr (cv_will_properties (connect_view_of p), cv_will_topic (connect_view_of p),
         cv_will_payload (connect_view_of p), rest)"
proof (cases "cp_has_will p = 0")
  case True
  then show ?thesis
    by (simp add: connect_will_parse_def will_bytes_def connect_view_of_def optional_view_def)
next
  case False
  then obtain present where W:
      "flowie_mqtt_property_values_validate un (cp_version p) (cp_will_properties p)
         flowie_mqtt_will_properties_allowed flowie_mqtt_user_property_repeatable = Inr present"
      "flowie_mqtt_length_span_input_validate un (cp_will_topic p) True = Inr ()"
      "flowie_mqtt_topic_name_validate un (cp_will_topic p)"
      "flowie_mqtt_length_span_input_validate un (cp_will_payload p) False = Inr ()"
    using assms(1) by (auto simp: connect_will_validate_def rbind_Inr_iff)
  have "span_norm (cp_will_topic p) = cp_will_topic p"
    using W(2,3) by (cases "cp_will_topic p") (auto simp: length_span_input_iff flowie_mqtt_topic_name_validate_def)
  then show ?thesis
    using False W(3) block_parse_write [OF W(1) assms(2)] length_span_read_back [OF W(2)]
      length_span_read_back [OF W(4)]
    by (simp add: connect_will_parse_def will_bytes_def connect_view_of_def optional_view_def)
qed

text \<open>
  The parser checks the protocol name as text, so the round trip needs one documented
  fact about the decoder: an ASCII byte decodes to itself.
\<close>

definition utf8_ascii :: "utf8_next \<Rightarrow> bool" where
  "utf8_ascii un \<longleftrightarrow> (\<forall>b rest. b < 0x80 \<longrightarrow> un (b # rest) = Some (ucast b, rest))"

lemma protocol_name_text:
  assumes "utf8_ascii un"
  shows "flowie_mqtt_length_span_input_validate un (Span (connect_protocol_name version)) True = Inr ()"
proof -
  have step: "utf8_loop un (b # rest) \<longleftrightarrow> \<not> (ucast b = (0::u32) \<or> flowie_mqtt_noncharacter (ucast b)) \<and> utf8_loop un rest"
    if "b < 0x80" for b rest
    using assms that by (subst utf8_loop.simps) (simp add: utf8_ascii_def)
  have "utf8_loop un []" by (simp add: utf8_loop.simps)
  then have "utf8_loop un (connect_protocol_name version)"
    by (simp add: connect_protocol_name_def protocol_name_v3_def protocol_name_v4_v5_def step
        flowie_mqtt_noncharacter_def)
  then show ?thesis
    by (simp add: flowie_mqtt_length_span_input_validate_def flowie_mqtt_span_input_valid_def
        flowie_mqtt_utf8_validate_def connect_protocol_name_def protocol_name_v3_def protocol_name_v4_v5_def)
qed

lemma connect_validate_dest:
  assumes "connect_validate un p = Inr u"
  obtains present where
    "flowie_mqtt_version_is_supported (cp_version p)" "connect_flags_ok p"
    "flowie_mqtt_length_span_input_validate un (cp_client_id p) True = Inr ()" "connect_client_id_ok p"
    "flowie_mqtt_property_values_validate un (cp_version p) (cp_properties p)
       flowie_mqtt_connect_properties_allowed flowie_mqtt_user_property_repeatable = Inr present"
    "\<not> auth_data_without_method present" "connect_will_validate un p = Inr ()"
    "optional_span_validate un (cp_has_username p) (cp_username p) True = Inr ()"
    "optional_span_validate un (cp_has_password p) (cp_password p) False = Inr ()"
  using assms unfolding connect_validate_def
  by (auto simp: rbind_Inr_iff flowie_mqtt_version_valid_def)

lemma connect_flags_dest:
  assumes "connect_flags_ok p"
  shows "cp_clean_start p \<le> 1" "cp_has_will p \<le> 1" "cp_will_qos p \<le> 2" "cp_will_retain p \<le> 1"
    "cp_has_username p \<le> 1" "cp_has_password p \<le> 1"
    "cp_has_password p \<noteq> 0 \<Longrightarrow> cp_has_username p \<noteq> 0"
    "cp_has_will p = 0 \<Longrightarrow> cp_will_qos p = 0 \<and> cp_will_retain p = 0"
  using assms by (auto simp: connect_flags_ok_def not_less)

lemma connect_body_split:
  "connect_body p =
     flowie_mqtt_length_span_write (Span (connect_protocol_name (cp_version p))) @
     [ucast (cp_version p), connect_flags p] @ write_u16 (unat (cp_keep_alive p)) @
     write_properties (cp_version p) (cp_properties p) @ flowie_mqtt_length_span_write (cp_client_id p) @
     will_bytes p @
     (if cp_has_username p \<noteq> 0 then flowie_mqtt_length_span_write (cp_username p) else []) @
     (if cp_has_password p \<noteq> 0 then flowie_mqtt_length_span_write (cp_password p) else [])"
  by (simp add: connect_body_def will_bytes_def)

lemma connect_parse_body:
  assumes valid: "connect_validate un p = Inr u" and ascii: "utf8_ascii un"
    and len: "length (connect_body p) \<le> FLOWIE_MQTT_MAX_REMAINING_LENGTH"
    and ver: "version = cp_version p \<or> version = FLOWIE_MQTT_VERSION_UNSPECIFIED"
  shows "flowie_mqtt_connect_parse un
      (frame_view version 0x10 (of_nat (length (connect_body p))) (connect_body p)) = Inr (connect_view_of p)"
proof -
  obtain present where P: "flowie_mqtt_version_is_supported (cp_version p)" "connect_flags_ok p"
      "flowie_mqtt_length_span_input_validate un (cp_client_id p) True = Inr ()" "connect_client_id_ok p"
      "flowie_mqtt_property_values_validate un (cp_version p) (cp_properties p)
         flowie_mqtt_connect_properties_allowed flowie_mqtt_user_property_repeatable = Inr present"
      "\<not> auth_data_without_method present" "connect_will_validate un p = Inr ()"
      "optional_span_validate un (cp_has_username p) (cp_username p) True = Inr ()"
      "optional_span_validate un (cp_has_password p) (cp_password p) False = Inr ()"
    by (rule connect_validate_dest [OF valid])
  define body where "body = connect_body p"
  define r5 where "r5 = (if cp_has_password p \<noteq> 0 then flowie_mqtt_length_span_write (cp_password p) else [])"
  define r4 where "r4 = (if cp_has_username p \<noteq> 0 then flowie_mqtt_length_span_write (cp_username p) else []) @ r5"
  define r3 where "r3 = will_bytes p @ r4"
  define r2 where "r2 = flowie_mqtt_length_span_write (cp_client_id p) @ r3"
  define r1 where "r1 = write_properties (cp_version p) (cp_properties p) @ r2"
  define flags where "flags = connect_flags p"
  define r0 where "r0 = [ucast (cp_version p), flags] @ write_u16 (unat (cp_keep_alive p)) @ r1"
  have "body = flowie_mqtt_length_span_write (Span (connect_protocol_name (cp_version p))) @ r0"
    by (simp add: body_def connect_body_split r0_def r1_def r2_def r3_def r4_def r5_def flags_def)
  then have s0: "flowie_mqtt_length_span un body True = Inr (Span (connect_protocol_name (cp_version p)), r0)"
    using length_span_read_back [OF protocol_name_text [OF ascii]] by simp
  have s1: "connect_properties_parse un (cp_version p) r1 = Inr (block_view (cp_version p) (cp_properties p), r2)"
    unfolding r1_def by (rule connect_properties_parse_write [OF P(5,6,1)])
  have s2: "flowie_mqtt_length_span un r2 True = Inr (span_norm (cp_client_id p), r3)"
    unfolding r2_def by (rule length_span_read_back [OF P(3)])
  have s3: "connect_will_parse un (cp_version p) (cp_has_will p \<noteq> 0) r3 =
      Inr (cv_will_properties (connect_view_of p), cv_will_topic (connect_view_of p),
           cv_will_payload (connect_view_of p), r4)"
    unfolding r3_def by (rule connect_will_parse_write [OF P(7,1)])
  have s4: "optional_span un (cp_has_username p \<noteq> 0) True r4 = Inr (cv_username (connect_view_of p), r5)"
    unfolding r4_def using optional_span_write [OF P(8), of r5] by (simp add: connect_view_of_def)
  have s5: "optional_span un (cp_has_password p \<noteq> 0) False r5 = Inr (cv_password (connect_view_of p), [])"
    unfolding r5_def using optional_span_write [OF P(9), of "[]"] by (simp add: connect_view_of_def)
  note F = connect_flags_dest [OF P(2)]
  note bits = connect_flag_bits [OF F(5,6,4,3,2,1), folded connect_flags_def, folded flags_def]
  have cursor: "r0 ! 0 = ucast (cp_version p)" "r0 ! 1 = flags" "drop 4 r0 = r1" "4 \<le> length r0"
      "flowie_mqtt_read_u16 (drop 2 r0) = cp_keep_alive p"
    using read_write_u16 [of "unat (cp_keep_alive p)" r1] u16_less [of "cp_keep_alive p"]
    by (simp_all add: r0_def write_u16_def word_unat_eq_iff)
  have version: "ucast (ucast (cp_version p) :: u8) = cp_version p"
    using P(1) by (auto simp: flowie_mqtt_version_is_supported_def)
  have name: "connect_protocol_ok (cp_version p) (Span (connect_protocol_name (cp_version p)))"
    by (simp add: connect_protocol_ok_def connect_protocol_name_def)
  have id: "\<not> (cp_version p = FLOWIE_MQTT_VERSION_3_1 \<and>
      (span_size (span_norm (cp_client_id p)) = 0 \<or> span_size (span_norm (cp_client_id p)) > 23))"
    using P(3,4) by (auto simp: connect_client_id_ok_def length_span_input_iff span_size_norm)
  define pv where "pv = frame_view version 0x10 (of_nat (length body)) body"
  have pv: "pv_version pv = version" "pv_type pv = FLOWIE_MQTT_PACKET_CONNECT"
      "pv_remaining_length pv = of_nat (length body)" "pv_body pv = Span body"
    by (simp_all add: pv_def frame_view_def)
  have "unat (of_nat (length body) :: u32) = length body"
    using len by (intro unat_of_nat_u32) (simp add: body_def)
  then have args: "flowie_mqtt_typed_args pv FLOWIE_MQTT_PACKET_CONNECT = Inr ()"
    by (simp add: flowie_mqtt_typed_args_def pv)
  have q3: "cp_will_qos p \<noteq> 3" using u8_le_2_cases [OF F(3)] by auto
  have b: "drop_bit 2 flags AND 1 = cp_has_will p" "drop_bit 1 flags AND 1 = cp_clean_start p"
      "drop_bit 3 flags AND 3 = cp_will_qos p" "drop_bit 5 flags AND 1 = cp_will_retain p"
      "drop_bit 6 flags AND 1 = cp_has_password p" "drop_bit 7 flags AND 1 = cp_has_username p"
    using bits by blast+
  have guards: "(length r0 < 4) = False"
      "(\<not> flowie_mqtt_version_is_supported (cp_version p) \<or>
        (version \<noteq> FLOWIE_MQTT_VERSION_UNSPECIFIED \<and> version \<noteq> cp_version p)) = False"
      "(flags AND 1 \<noteq> 0 \<or> cp_will_qos p = 3 \<or>
        (cp_has_will p = 0 \<and> (cp_will_qos p \<noteq> 0 \<or> cp_will_retain p \<noteq> 0)) \<or>
        (cp_has_password p \<noteq> 0 \<and> cp_has_username p = 0)) = False"
    using cursor(4) ver P(1) bits q3 F(7,8) by auto
  have "flowie_mqtt_connect_parse un pv = Inr (connect_view_of p)"
    unfolding flowie_mqtt_connect_parse_def Let_def
    by (simp only: args pv span_bytes.simps rbind.simps s0 prod.case guards if_False cursor version name b
        not_True_eq_False s1 s2 id [THEN eq_False [THEN iffD2]] s3 s4 s5 not_False_eq_True simp_thms)
       (simp add: connect_view_of_def)
  then show ?thesis by (simp add: pv_def body_def)
qed

lemma connect_encode_frame:
  assumes "flowie_mqtt_connect_packet_encode un p cap = Inr out"
  shows "connect_validate un p = Inr ()" "length (connect_body p) \<le> FLOWIE_MQTT_MAX_REMAINING_LENGTH"
    "out = frame_bytes 0x10 (connect_body p)" "length out \<le> cap"
  using assms unfolding flowie_mqtt_connect_packet_encode_def
  by (auto simp: rbind_Inr_iff encode_packet_iff)

lemma fixed_header_0x10: "flowie_mqtt_fixed_header_valid 0x10 version" "\<not> ping_type 0x10"
  by (simp_all add: flowie_mqtt_fixed_header_valid_def required_flags_def ping_type_def)

text \<open>C11: CONNECT round trip. What the CONNECT encoder writes is framed, under the packet's
  version or before any version is known, and parses back to the same session request:
  version, clean start, keep alive, properties, client identifier, will, user name and
  password. The decoder is only required to decode ASCII bytes to themselves.\<close>

theorem connect_roundtrip:
  assumes "flowie_mqtt_connect_packet_encode un p cap = Inr out" and "utf8_ascii un"
    and "options_ok opts" "po_version opts = cp_version p \<or> po_version opts = FLOWIE_MQTT_VERSION_UNSPECIFIED"
    and "length out \<le> packet_limit opts"
  shows "length out \<le> cap \<and>
    (\<exists>pv. flowie_mqtt_packet_parse True (Span out) (Some opts) = Inr (pv, length out) \<and>
          flowie_mqtt_connect_parse un pv = Inr (connect_view_of p))"
proof -
  note enc = connect_encode_frame [OF assms(1)]
  show ?thesis
    using parse_frame_bytes [OF assms(3), where first = "0x10" and body = "connect_body p"]
      fixed_header_0x10 enc assms(5) connect_parse_body [OF enc(1) assms(2) enc(2) assms(4)]
    by auto
qed

lemma rfc3629_ascii: "utf8_ascii rfc3629_next"
  by (simp add: utf8_ascii_def rfc3629_next_def)

theorem connect_roundtrip_witness:
  "\<exists>pv out. flowie_mqtt_connect_packet_encode rfc3629_next
      \<lparr>cp_version = 4, cp_clean_start = 1, cp_has_will = 0, cp_will_qos = 0, cp_will_retain = 0,
       cp_has_username = 1, cp_has_password = 0, cp_keep_alive = 60, cp_properties = NullSpan 0,
       cp_client_id = Span [0x61], cp_will_properties = NullSpan 0, cp_will_topic = NullSpan 0,
       cp_will_payload = NullSpan 0, cp_username = Span [0x61], cp_password = NullSpan 0\<rparr> 100 = Inr out \<and>
    flowie_mqtt_packet_parse True (Span out) (Some \<lparr>po_version = 0, po_max_packet_size = 0\<rparr>) =
      Inr (pv, length out) \<and>
    flowie_mqtt_connect_parse rfc3629_next pv = Inr
      \<lparr>cv_version = 4, cv_clean_start = 1, cv_will_qos = 0, cv_will_retain = 0, cv_keep_alive = 60,
       cv_properties = flowie_mqtt_empty_properties, cv_client_id = Span [0x61],
       cv_will_properties = flowie_mqtt_empty_properties, cv_will_topic = NullSpan 0,
       cv_will_payload = NullSpan 0, cv_username = Span [0x61], cv_password = NullSpan 0\<rparr>"
proof -
  let ?p = "\<lparr>cp_version = 4, cp_clean_start = 1, cp_has_will = 0, cp_will_qos = 0, cp_will_retain = 0,
       cp_has_username = 1, cp_has_password = 0, cp_keep_alive = 60, cp_properties = NullSpan 0,
       cp_client_id = Span [0x61], cp_will_properties = NullSpan 0, cp_will_topic = NullSpan 0,
       cp_will_payload = NullSpan 0, cp_username = Span [0x61], cp_password = NullSpan 0\<rparr>
       :: flowie_mqtt_connect_packet"
  let ?o = "\<lparr>po_version = 0, po_max_packet_size = 0\<rparr> :: flowie_mqtt_parse_options"
  have "connect_validate rfc3629_next ?p = Inr ()"
    using sample_topic_ok
    by (simp add: connect_validate_def flowie_mqtt_version_valid_def flowie_mqtt_version_is_supported_def
        flowie_mqtt_length_span_input_validate_def flowie_mqtt_span_input_valid_def connect_flags_ok_def
        flowie_mqtt_property_values_validate_def flowie_mqtt_version_is_3x_def connect_client_id_ok_def
        auth_data_without_method_def connect_will_validate_def optional_span_validate_def)
  moreover have "connect_remaining ?p 10 = Inr 16"
    by (simp add: connect_remaining_def flowie_mqtt_remaining_add_def remaining_add_properties_def)
  moreover have "length (connect_body ?p) = 16" "length (connect_protocol_name 4) = 4"
    by (simp_all add: connect_body_def write_properties_def connect_protocol_name_def protocol_name_v4_v5_def)
  moreover have "length (flowie_mqtt_vbi_write 16) = 1"
    by code_simp
  ultimately obtain out where out: "flowie_mqtt_connect_packet_encode rfc3629_next ?p 100 = Inr out"
    by (simp add: flowie_mqtt_connect_packet_encode_def encode_packet_iff frame_bytes_def)
  have "length out \<le> packet_limit ?o"
    using connect_encode_frame(4) [OF out] by (simp add: packet_limit_def)
  then show ?thesis
    using connect_roundtrip [OF out rfc3629_ascii, of ?o] out
    by (auto simp: options_ok_def connect_view_of_def block_view_def optional_view_def)
qed

end
