(* ===== verification/Mqtt_Control.thy ===== *)
theory Mqtt_Control
  imports Mqtt_Encode
begin

text \<open>
  The acknowledgement and control packets of
  \<open>protocol/src/flowie_mqtt_packet_views.c\<close>: CONNACK, PUBACK, PUBREC, PUBREL, PUBCOMP,
  SUBACK, UNSUBACK, PINGRESP, DISCONNECT and AUTH. One encoder and one parser serve them
  all; the round trip shows that they agree on every kind.
\<close>

section \<open>Reason codes and properties\<close>

definition flowie_mqtt_control_type :: "flowie_mqtt_packet_type \<Rightarrow> bool" where
  "flowie_mqtt_control_type type \<longleftrightarrow>
     type = FLOWIE_MQTT_PACKET_CONNACK \<or> type = FLOWIE_MQTT_PACKET_PUBACK \<or>
     type = FLOWIE_MQTT_PACKET_PUBREC \<or> type = FLOWIE_MQTT_PACKET_PUBREL \<or>
     type = FLOWIE_MQTT_PACKET_PUBCOMP \<or> type = FLOWIE_MQTT_PACKET_SUBACK \<or>
     type = FLOWIE_MQTT_PACKET_UNSUBACK \<or> type = FLOWIE_MQTT_PACKET_PINGRESP \<or>
     type = FLOWIE_MQTT_PACKET_DISCONNECT \<or> type = FLOWIE_MQTT_PACKET_AUTH"

definition connack_v5 :: bytes where
  "connack_v5 = [0x00, 0x80, 0x81, 0x82, 0x83, 0x84, 0x85, 0x86, 0x87, 0x88, 0x89, 0x8a, 0x8c, 0x90,
                 0x95, 0x97, 0x99, 0x9a, 0x9b, 0x9c, 0x9d, 0x9f]"

definition publish_v5 :: bytes where
  "publish_v5 = [0x00, 0x10, 0x80, 0x83, 0x87, 0x90, 0x91, 0x97, 0x99]"

definition release_v5 :: bytes where
  "release_v5 = [0x00, 0x92]"

definition suback_v5 :: bytes where
  "suback_v5 = [0x00, 0x01, 0x02, 0x80, 0x83, 0x87, 0x8f, 0x91, 0x97, 0x9e, 0xa1, 0xa2]"

definition unsuback_v5 :: bytes where
  "unsuback_v5 = [0x00, 0x11, 0x80, 0x83, 0x87, 0x8f, 0x91]"

definition disconnect_v5 :: bytes where
  "disconnect_v5 = [0x00, 0x04, 0x80, 0x81, 0x82, 0x83, 0x87, 0x89, 0x8b, 0x8c, 0x8d, 0x8e, 0x8f, 0x90,
                    0x93, 0x94, 0x95, 0x96, 0x97, 0x98, 0x99, 0x9a, 0x9b, 0x9c, 0x9d, 0x9e, 0x9f, 0xa0,
                    0xa1, 0xa2]"

definition auth_v5 :: bytes where
  "auth_v5 = [0x00, 0x18, 0x19]"

definition flowie_mqtt_reason_code_valid ::
    "flowie_mqtt_packet_type \<Rightarrow> flowie_mqtt_version \<Rightarrow> u8 \<Rightarrow> bool" where
  "flowie_mqtt_reason_code_valid type version reason =
     (if flowie_mqtt_version_is_3x version then
        (if type = FLOWIE_MQTT_PACKET_CONNACK then reason \<le> 5
         else if type = FLOWIE_MQTT_PACKET_SUBACK
         then reason \<le> 2 \<or> (version = FLOWIE_MQTT_VERSION_3_1_1 \<and> reason = 0x80)
         else if type = FLOWIE_MQTT_PACKET_AUTH then False
         else reason = 0)
      else if type = FLOWIE_MQTT_PACKET_CONNACK then reason \<in> set connack_v5
      else if type = FLOWIE_MQTT_PACKET_PUBACK \<or> type = FLOWIE_MQTT_PACKET_PUBREC
      then reason \<in> set publish_v5
      else if type = FLOWIE_MQTT_PACKET_PUBREL \<or> type = FLOWIE_MQTT_PACKET_PUBCOMP
      then reason \<in> set release_v5
      else if type = FLOWIE_MQTT_PACKET_SUBACK then reason \<in> set suback_v5
      else if type = FLOWIE_MQTT_PACKET_UNSUBACK then reason \<in> set unsuback_v5
      else if type = FLOWIE_MQTT_PACKET_DISCONNECT then reason \<in> set disconnect_v5
      else if type = FLOWIE_MQTT_PACKET_AUTH then reason \<in> set auth_v5
      else reason = 0)"

definition control_properties_allowed :: "flowie_mqtt_packet_type \<Rightarrow> u64" where
  "control_properties_allowed type =
     (if type = FLOWIE_MQTT_PACKET_CONNACK then
        FLOWIE_MQTT_PROPERTY_BIT FLOWIE_MQTT_PROPERTY_SESSION_EXPIRY_INTERVAL OR
        FLOWIE_MQTT_PROPERTY_BIT FLOWIE_MQTT_PROPERTY_RECEIVE_MAXIMUM OR
        FLOWIE_MQTT_PROPERTY_BIT FLOWIE_MQTT_PROPERTY_MAXIMUM_QOS OR
        FLOWIE_MQTT_PROPERTY_BIT FLOWIE_MQTT_PROPERTY_RETAIN_AVAILABLE OR
        FLOWIE_MQTT_PROPERTY_BIT FLOWIE_MQTT_PROPERTY_MAXIMUM_PACKET_SIZE OR
        FLOWIE_MQTT_PROPERTY_BIT FLOWIE_MQTT_PROPERTY_ASSIGNED_CLIENT_IDENTIFIER OR
        FLOWIE_MQTT_PROPERTY_BIT FLOWIE_MQTT_PROPERTY_TOPIC_ALIAS_MAXIMUM OR
        FLOWIE_MQTT_PROPERTY_BIT FLOWIE_MQTT_PROPERTY_REASON_STRING OR
        flowie_mqtt_user_property_repeatable OR
        FLOWIE_MQTT_PROPERTY_BIT FLOWIE_MQTT_PROPERTY_WILDCARD_SUBSCRIPTION_AVAILABLE OR
        FLOWIE_MQTT_PROPERTY_BIT FLOWIE_MQTT_PROPERTY_SUBSCRIPTION_IDENTIFIER_AVAILABLE OR
        FLOWIE_MQTT_PROPERTY_BIT FLOWIE_MQTT_PROPERTY_SHARED_SUBSCRIPTION_AVAILABLE OR
        FLOWIE_MQTT_PROPERTY_BIT FLOWIE_MQTT_PROPERTY_SERVER_KEEP_ALIVE OR
        FLOWIE_MQTT_PROPERTY_BIT FLOWIE_MQTT_PROPERTY_RESPONSE_INFORMATION OR
        FLOWIE_MQTT_PROPERTY_BIT FLOWIE_MQTT_PROPERTY_SERVER_REFERENCE OR
        FLOWIE_MQTT_PROPERTY_BIT FLOWIE_MQTT_PROPERTY_AUTHENTICATION_METHOD OR
        FLOWIE_MQTT_PROPERTY_BIT FLOWIE_MQTT_PROPERTY_AUTHENTICATION_DATA
      else if type = FLOWIE_MQTT_PACKET_PUBACK \<or> type = FLOWIE_MQTT_PACKET_PUBREC \<or>
              type = FLOWIE_MQTT_PACKET_PUBREL \<or> type = FLOWIE_MQTT_PACKET_PUBCOMP \<or>
              type = FLOWIE_MQTT_PACKET_SUBACK \<or> type = FLOWIE_MQTT_PACKET_UNSUBACK then
        FLOWIE_MQTT_PROPERTY_BIT FLOWIE_MQTT_PROPERTY_REASON_STRING OR flowie_mqtt_user_property_repeatable
      else if type = FLOWIE_MQTT_PACKET_DISCONNECT then
        FLOWIE_MQTT_PROPERTY_BIT FLOWIE_MQTT_PROPERTY_SESSION_EXPIRY_INTERVAL OR
        FLOWIE_MQTT_PROPERTY_BIT FLOWIE_MQTT_PROPERTY_SERVER_REFERENCE OR
        FLOWIE_MQTT_PROPERTY_BIT FLOWIE_MQTT_PROPERTY_REASON_STRING OR
        flowie_mqtt_user_property_repeatable
      else if type = FLOWIE_MQTT_PACKET_AUTH then
        FLOWIE_MQTT_PROPERTY_BIT FLOWIE_MQTT_PROPERTY_AUTHENTICATION_METHOD OR
        FLOWIE_MQTT_PROPERTY_BIT FLOWIE_MQTT_PROPERTY_AUTHENTICATION_DATA OR
        FLOWIE_MQTT_PROPERTY_BIT FLOWIE_MQTT_PROPERTY_REASON_STRING OR
        flowie_mqtt_user_property_repeatable
      else 0)"

definition flowie_mqtt_control_properties_validate ::
    "utf8_next \<Rightarrow> flowie_mqtt_packet_type \<Rightarrow> flowie_mqtt_property_block_view \<Rightarrow> unit parse" where
  "flowie_mqtt_control_properties_validate un type block =
     (if span_size (pb_values block) = 0 then Inr ()
      else rbind (flowie_mqtt_properties_validate un block (control_properties_allowed type)
                    flowie_mqtt_user_property_repeatable) (\<lambda>_. Inr ()))"

section \<open>Validation of a description\<close>

text \<open>The branches of \<open>flowie_mqtt_control_validate\<close>, one per group of packet types; each
  gives the Remaining Length.\<close>

definition control_block_size :: "flowie_mqtt_control_packet \<Rightarrow> nat" where
  "control_block_size packet =
     flowie_mqtt_vbi_size (of_nat (span_size (kp_properties packet))) + span_size (kp_properties packet)"

definition disconnect_remaining :: "flowie_mqtt_control_packet \<Rightarrow> nat parse" where
  "disconnect_remaining packet =
     (if kp_session_present packet \<noteq> 0 \<or> kp_packet_id packet \<noteq> 0 \<or> span_size (kp_reason_codes packet) \<noteq> 0 \<or>
         \<not> flowie_mqtt_reason_code_valid (kp_type packet) (kp_version packet) (kp_reason_code packet)
      then Inl FLOWIE_MQTT_PARSE_PROTOCOL_ERROR
      else if flowie_mqtt_version_is_3x (kp_version packet) then
        (if kp_type packet \<noteq> FLOWIE_MQTT_PACKET_DISCONNECT \<or> kp_reason_code packet \<noteq> 0 \<or>
            span_size (kp_properties packet) \<noteq> 0
         then Inl FLOWIE_MQTT_PARSE_PROTOCOL_ERROR else Inr 0)
      else if kp_reason_code packet = 0 \<and> span_size (kp_properties packet) = 0 then Inr 0
      else if span_size (kp_properties packet) = 0 then Inr 1
      else Inr (1 + control_block_size packet))"

definition connack_remaining :: "flowie_mqtt_control_packet \<Rightarrow> nat parse" where
  "connack_remaining packet =
     (if kp_packet_id packet \<noteq> 0 \<or> span_size (kp_reason_codes packet) \<noteq> 0 \<or> kp_session_present packet > 1 \<or>
         (kp_session_present packet \<noteq> 0 \<and> kp_reason_code packet \<noteq> 0) \<or>
         \<not> flowie_mqtt_reason_code_valid (kp_type packet) (kp_version packet) (kp_reason_code packet)
      then Inl FLOWIE_MQTT_PARSE_PROTOCOL_ERROR
      else if kp_version packet = FLOWIE_MQTT_VERSION_3_1 \<and> kp_session_present packet \<noteq> 0
      then Inl FLOWIE_MQTT_PARSE_PROTOCOL_ERROR
      else if kp_version packet = FLOWIE_MQTT_VERSION_5 then Inr (2 + control_block_size packet)
      else Inr 2)"

definition suback_remaining :: "flowie_mqtt_control_packet \<Rightarrow> nat parse" where
  "suback_remaining packet =
     (if kp_session_present packet \<noteq> 0 \<or> kp_packet_id packet = 0 \<or> kp_reason_code packet \<noteq> 0 \<or>
         (kp_type packet = FLOWIE_MQTT_PACKET_SUBACK \<and> span_size (kp_reason_codes packet) = 0) \<or>
         (kp_type packet = FLOWIE_MQTT_PACKET_UNSUBACK \<and> kp_version packet = FLOWIE_MQTT_VERSION_5 \<and>
          span_size (kp_reason_codes packet) = 0)
      then Inl FLOWIE_MQTT_PARSE_PROTOCOL_ERROR
      else if flowie_mqtt_version_is_3x (kp_version packet) \<and>
              (span_size (kp_properties packet) \<noteq> 0 \<or>
               (kp_type packet = FLOWIE_MQTT_PACKET_UNSUBACK \<and> span_size (kp_reason_codes packet) \<noteq> 0))
      then Inl FLOWIE_MQTT_PARSE_PROTOCOL_ERROR
      else if \<not> (\<forall>reason \<in> set (span_bytes (kp_reason_codes packet)).
                   flowie_mqtt_reason_code_valid (kp_type packet) (kp_version packet) reason)
      then Inl FLOWIE_MQTT_PARSE_PROTOCOL_ERROR
      else let remaining = 2 + span_size (kp_reason_codes packet) in
           if kp_version packet = FLOWIE_MQTT_VERSION_5 then Inr (remaining + control_block_size packet)
           else Inr remaining)"

definition ack_remaining :: "flowie_mqtt_control_packet \<Rightarrow> nat parse" where
  "ack_remaining packet =
     (if kp_session_present packet \<noteq> 0 \<or> kp_packet_id packet = 0 \<or> span_size (kp_reason_codes packet) \<noteq> 0 \<or>
         \<not> flowie_mqtt_reason_code_valid (kp_type packet) (kp_version packet) (kp_reason_code packet)
      then Inl FLOWIE_MQTT_PARSE_PROTOCOL_ERROR
      else if flowie_mqtt_version_is_3x (kp_version packet) then
        (if span_size (kp_properties packet) \<noteq> 0 \<or> kp_reason_code packet \<noteq> 0
         then Inl FLOWIE_MQTT_PARSE_PROTOCOL_ERROR else Inr 2)
      else if kp_reason_code packet = 0 \<and> span_size (kp_properties packet) = 0 then Inr 2
      else Inr (3 + control_block_size packet))"

definition pingresp_remaining :: "flowie_mqtt_control_packet \<Rightarrow> nat parse" where
  "pingresp_remaining packet =
     (if kp_session_present packet \<noteq> 0 \<or> kp_packet_id packet \<noteq> 0 \<or> kp_reason_code packet \<noteq> 0 \<or>
         span_size (kp_properties packet) \<noteq> 0 \<or> span_size (kp_reason_codes packet) \<noteq> 0
      then Inl FLOWIE_MQTT_PARSE_PROTOCOL_ERROR else Inr 0)"

definition control_remaining :: "flowie_mqtt_control_packet \<Rightarrow> nat parse" where
  "control_remaining packet =
     (if kp_type packet = FLOWIE_MQTT_PACKET_PINGRESP then pingresp_remaining packet
      else if kp_type packet = FLOWIE_MQTT_PACKET_DISCONNECT \<or> kp_type packet = FLOWIE_MQTT_PACKET_AUTH
      then disconnect_remaining packet
      else if kp_type packet = FLOWIE_MQTT_PACKET_CONNACK then connack_remaining packet
      else if kp_type packet = FLOWIE_MQTT_PACKET_SUBACK \<or> kp_type packet = FLOWIE_MQTT_PACKET_UNSUBACK
      then suback_remaining packet
      else ack_remaining packet)"

definition flowie_mqtt_control_validate ::
    "utf8_next \<Rightarrow> flowie_mqtt_control_packet \<Rightarrow> nat parse" where
  "flowie_mqtt_control_validate un packet =
     (if \<not> flowie_mqtt_control_type (kp_type packet) \<or>
         \<not> flowie_mqtt_version_is_supported (kp_version packet) \<or>
         (span_null (kp_properties packet) \<and> span_size (kp_properties packet) \<noteq> 0) \<or>
         (span_null (kp_reason_codes packet) \<and> span_size (kp_reason_codes packet) \<noteq> 0)
      then Inl FLOWIE_MQTT_PARSE_INVALID_ARGUMENT
      else if span_size (kp_properties packet) > FLOWIE_MQTT_MAX_REMAINING_LENGTH \<or>
              span_size (kp_reason_codes packet) > FLOWIE_MQTT_MAX_REMAINING_LENGTH
      then Inl FLOWIE_MQTT_PARSE_TOO_LARGE
      else if kp_version packet = FLOWIE_MQTT_VERSION_5 \<and>
              flowie_mqtt_control_properties_validate un (kp_type packet)
                \<lparr>pb_encoded = NullSpan 0, pb_values = kp_properties packet\<rparr> \<noteq> Inr ()
      then Inl FLOWIE_MQTT_PARSE_PROTOCOL_ERROR
      else rbind (control_remaining packet) (\<lambda>remaining.
        if remaining > FLOWIE_MQTT_MAX_REMAINING_LENGTH then Inl FLOWIE_MQTT_PARSE_TOO_LARGE
        else Inr remaining))"

section \<open>Encoder\<close>

definition control_ids_write :: "flowie_mqtt_control_packet \<Rightarrow> nat \<Rightarrow> bytes" where
  "control_ids_write packet remaining =
     (if kp_type packet = FLOWIE_MQTT_PACKET_DISCONNECT \<or> kp_type packet = FLOWIE_MQTT_PACKET_AUTH
      then [kp_reason_code packet]
      else if kp_type packet = FLOWIE_MQTT_PACKET_CONNACK
      then [kp_session_present packet, kp_reason_code packet]
      else [ucast (drop_bit 8 (kp_packet_id packet)), ucast (kp_packet_id packet)] @
           (if kp_type packet \<noteq> FLOWIE_MQTT_PACKET_SUBACK \<and> kp_type packet \<noteq> FLOWIE_MQTT_PACKET_UNSUBACK \<and>
               remaining > 2
            then [kp_reason_code packet] else []))"

definition control_block_written :: "flowie_mqtt_control_packet \<Rightarrow> nat \<Rightarrow> bool" where
  "control_block_written packet remaining \<longleftrightarrow>
     kp_version packet = FLOWIE_MQTT_VERSION_5 \<and>
     (kp_type packet = FLOWIE_MQTT_PACKET_CONNACK \<or> kp_type packet = FLOWIE_MQTT_PACKET_SUBACK \<or>
      kp_type packet = FLOWIE_MQTT_PACKET_UNSUBACK \<or>
      ((kp_type packet = FLOWIE_MQTT_PACKET_DISCONNECT \<or> kp_type packet = FLOWIE_MQTT_PACKET_AUTH) \<and>
       span_size (kp_properties packet) \<noteq> 0) \<or>
      (kp_type packet \<noteq> FLOWIE_MQTT_PACKET_DISCONNECT \<and> kp_type packet \<noteq> FLOWIE_MQTT_PACKET_AUTH \<and>
       remaining > 2))"

definition control_body :: "flowie_mqtt_control_packet \<Rightarrow> nat \<Rightarrow> bytes" where
  "control_body packet remaining =
     control_ids_write packet remaining @
     (if control_block_written packet remaining
      then flowie_mqtt_vbi_write (of_nat (span_size (kp_properties packet))) @
           (if span_size (kp_properties packet) \<noteq> 0 then span_bytes (kp_properties packet) else [])
      else []) @
     (if kp_type packet = FLOWIE_MQTT_PACKET_SUBACK \<or> kp_type packet = FLOWIE_MQTT_PACKET_UNSUBACK
      then span_bytes (kp_reason_codes packet) else [])"

abbreviation (input) "SIZE_MAX \<equiv> (18446744073709551615::nat)"

definition control_first :: "flowie_mqtt_packet_type \<Rightarrow> u8" where
  "control_first type =
     push_bit 4 (ucast type) OR (if type = FLOWIE_MQTT_PACKET_PUBREL then 0x02 else 0)"

definition flowie_mqtt_control_packet_encode ::
    "utf8_next \<Rightarrow> flowie_mqtt_control_packet \<Rightarrow> nat \<Rightarrow> bytes parse" where
  "flowie_mqtt_control_packet_encode un packet output_capacity =
     rbind (flowie_mqtt_control_validate un packet) (\<lambda>remaining.
     let header_size = 1 + flowie_mqtt_vbi_size (of_nat remaining) in
     if remaining > SIZE_MAX - header_size then Inl FLOWIE_MQTT_PARSE_TOO_LARGE
     else let total_size = header_size + remaining in
     if total_size > output_capacity then Inl FLOWIE_MQTT_PARSE_TOO_LARGE
     else let header = control_first (kp_type packet) # flowie_mqtt_vbi_write (of_nat remaining) in
     if kp_type packet = FLOWIE_MQTT_PACKET_PINGRESP \<or> remaining = 0 then Inr header
     else let output = header @ control_body packet remaining in
     if length output \<noteq> total_size then Inl FLOWIE_MQTT_PARSE_MALFORMED else Inr output)"

section \<open>Parser\<close>

text \<open>The identifiers in front of the properties: session flag, packet identifier and
  reason code, with the bytes that follow.\<close>

definition control_ids_parse ::
    "flowie_mqtt_version \<Rightarrow> flowie_mqtt_packet_type \<Rightarrow> bytes \<Rightarrow> (u8 \<times> u16 \<times> u8 \<times> bytes) parse" where
  "control_ids_parse version type cursor =
     (if type = FLOWIE_MQTT_PACKET_DISCONNECT \<or> type = FLOWIE_MQTT_PACKET_AUTH
      then Inr (if cursor \<noteq> [] then (0, 0, hd cursor, tl cursor) else (0, 0, 0, cursor))
      else if type = FLOWIE_MQTT_PACKET_CONNACK then
        (if length cursor < 2 then Inl FLOWIE_MQTT_PARSE_MALFORMED
         else if cursor ! 0 AND 0xfe \<noteq> 0 then Inl FLOWIE_MQTT_PARSE_PROTOCOL_ERROR
         else let session_present = cursor ! 0; reason_code = cursor ! 1 in
         if (version = FLOWIE_MQTT_VERSION_3_1 \<and> session_present \<noteq> 0) \<or>
            (session_present \<noteq> 0 \<and> reason_code \<noteq> 0)
         then Inl FLOWIE_MQTT_PARSE_PROTOCOL_ERROR
         else Inr (session_present, 0, reason_code, drop 2 cursor))
      else rbind (nonzero_packet_id cursor) (\<lambda>(packet_id, cursor).
        if type \<noteq> FLOWIE_MQTT_PACKET_SUBACK \<and> type \<noteq> FLOWIE_MQTT_PACKET_UNSUBACK \<and> cursor \<noteq> []
        then (if version \<noteq> FLOWIE_MQTT_VERSION_5 then Inl FLOWIE_MQTT_PARSE_PROTOCOL_ERROR
              else Inr (0, packet_id, hd cursor, tl cursor))
        else Inr (0, packet_id, 0, cursor)))"

definition control_block_parse ::
    "utf8_next \<Rightarrow> flowie_mqtt_version \<Rightarrow> flowie_mqtt_packet_type \<Rightarrow> bytes \<Rightarrow>
       (flowie_mqtt_property_block_view \<times> bytes) parse" where
  "control_block_parse un version type cursor =
     (if version = FLOWIE_MQTT_VERSION_5 then
        (if type = FLOWIE_MQTT_PACKET_CONNACK \<or> type = FLOWIE_MQTT_PACKET_SUBACK \<or>
            type = FLOWIE_MQTT_PACKET_UNSUBACK \<or>
            ((type = FLOWIE_MQTT_PACKET_DISCONNECT \<or> type = FLOWIE_MQTT_PACKET_AUTH) \<and> cursor \<noteq> []) \<or>
            (type \<noteq> FLOWIE_MQTT_PACKET_DISCONNECT \<and> type \<noteq> FLOWIE_MQTT_PACKET_AUTH \<and> cursor \<noteq> [])
         then rbind (flowie_mqtt_property_block_parse (Span cursor)) (\<lambda>(properties, consumed).
           rbind (flowie_mqtt_control_properties_validate un type properties) (\<lambda>_.
             Inr (properties, drop consumed cursor)))
         else Inr (flowie_mqtt_empty_properties, cursor))
      else if type \<noteq> FLOWIE_MQTT_PACKET_SUBACK \<and> cursor \<noteq> [] then Inl FLOWIE_MQTT_PARSE_PROTOCOL_ERROR
      else Inr (flowie_mqtt_empty_properties, cursor))"

definition control_codes_parse ::
    "flowie_mqtt_version \<Rightarrow> flowie_mqtt_packet_type \<Rightarrow> bytes \<Rightarrow> (flowie_mqtt_span \<times> bytes) parse" where
  "control_codes_parse version type cursor =
     (if type = FLOWIE_MQTT_PACKET_SUBACK \<or> type = FLOWIE_MQTT_PACKET_UNSUBACK then
        (if type = FLOWIE_MQTT_PACKET_SUBACK \<and> cursor = [] then Inl FLOWIE_MQTT_PARSE_PROTOCOL_ERROR
         else if type = FLOWIE_MQTT_PACKET_UNSUBACK \<and> version = FLOWIE_MQTT_VERSION_5 \<and> cursor = []
         then Inl FLOWIE_MQTT_PARSE_PROTOCOL_ERROR
         else if \<not> (\<forall>reason \<in> set cursor. flowie_mqtt_reason_code_valid type version reason)
         then Inl FLOWIE_MQTT_PARSE_PROTOCOL_ERROR
         else Inr (Span cursor, []))
      else Inr (NullSpan 0, cursor))"

definition flowie_mqtt_control_packet_parse ::
    "utf8_next \<Rightarrow> flowie_mqtt_packet_view \<Rightarrow> flowie_mqtt_control_packet_view parse" where
  "flowie_mqtt_control_packet_parse un packet =
     (let version = pv_version packet; type = pv_type packet in
      if \<not> flowie_mqtt_control_type type \<or> \<not> flowie_mqtt_version_is_supported version \<or>
         span_null (pv_body packet) \<or> span_size (pv_body packet) \<noteq> unat (pv_remaining_length packet)
      then Inl FLOWIE_MQTT_PARSE_INVALID_ARGUMENT
      else
      let parsed = \<lparr>ct_version = version, ct_type = type, ct_session_present = 0, ct_packet_id = 0,
                    ct_reason_code = 0, ct_properties = flowie_mqtt_empty_properties,
                    ct_reason_codes = NullSpan 0\<rparr>;
          cursor = span_bytes (pv_body packet)
      in
      if type = FLOWIE_MQTT_PACKET_PINGRESP then
        (if cursor \<noteq> [] then Inl FLOWIE_MQTT_PARSE_PROTOCOL_ERROR else Inr parsed)
      else if (type = FLOWIE_MQTT_PACKET_DISCONNECT \<or> type = FLOWIE_MQTT_PACKET_AUTH) \<and>
              flowie_mqtt_version_is_3x version then
        (if type \<noteq> FLOWIE_MQTT_PACKET_DISCONNECT \<or> cursor \<noteq> [] then Inl FLOWIE_MQTT_PARSE_PROTOCOL_ERROR
         else Inr parsed)
      else
      rbind (control_ids_parse version type cursor) (\<lambda>(session_present, packet_id, reason_code, cursor).
      rbind (fail_if (\<not> flowie_mqtt_reason_code_valid type version reason_code)
               FLOWIE_MQTT_PARSE_PROTOCOL_ERROR) (\<lambda>_.
      rbind (control_block_parse un version type cursor) (\<lambda>(properties, cursor).
      rbind (control_codes_parse version type cursor) (\<lambda>(reason_codes, cursor).
      if cursor \<noteq> [] then Inl FLOWIE_MQTT_PARSE_MALFORMED
      else Inr (parsed\<lparr>ct_session_present := session_present, ct_packet_id := packet_id,
                       ct_reason_code := reason_code, ct_properties := properties,
                       ct_reason_codes := reason_codes\<rparr>))))))"

section \<open>Round trip\<close>

text \<open>Whether the property block of a description is on the wire.\<close>

definition control_block_sent :: "flowie_mqtt_control_packet \<Rightarrow> bool" where
  "control_block_sent p \<longleftrightarrow>
     kp_version p = FLOWIE_MQTT_VERSION_5 \<and> kp_type p \<noteq> FLOWIE_MQTT_PACKET_PINGRESP \<and>
     (kp_type p \<in> {FLOWIE_MQTT_PACKET_CONNACK, FLOWIE_MQTT_PACKET_SUBACK, FLOWIE_MQTT_PACKET_UNSUBACK} \<or>
      span_size (kp_properties p) \<noteq> 0 \<or>
      (kp_type p \<notin> {FLOWIE_MQTT_PACKET_DISCONNECT, FLOWIE_MQTT_PACKET_AUTH} \<and> kp_reason_code p \<noteq> 0))"

definition control_view_of :: "flowie_mqtt_control_packet \<Rightarrow> flowie_mqtt_control_packet_view" where
  "control_view_of p =
     \<lparr>ct_version = kp_version p, ct_type = kp_type p, ct_session_present = kp_session_present p,
      ct_packet_id = kp_packet_id p, ct_reason_code = kp_reason_code p,
      ct_properties = (if control_block_sent p then block_view (kp_version p) (kp_properties p)
                       else flowie_mqtt_empty_properties),
      ct_reason_codes = (if kp_type p \<in> {FLOWIE_MQTT_PACKET_SUBACK, FLOWIE_MQTT_PACKET_UNSUBACK}
                         then span_norm (kp_reason_codes p) else NullSpan 0)\<rparr>"

text \<open>The bytes of the body, without reference to the precomputed length.\<close>

definition control_block_bytes :: "flowie_mqtt_control_packet \<Rightarrow> bytes" where
  "control_block_bytes p =
     (if control_block_sent p then flowie_mqtt_property_values_write (kp_properties p) else [])"

definition control_codes_bytes :: "flowie_mqtt_control_packet \<Rightarrow> bytes" where
  "control_codes_bytes p =
     (if kp_type p \<in> {FLOWIE_MQTT_PACKET_SUBACK, FLOWIE_MQTT_PACKET_UNSUBACK}
      then span_bytes (kp_reason_codes p) else [])"

definition control_ids_bytes :: "flowie_mqtt_control_packet \<Rightarrow> bytes" where
  "control_ids_bytes p =
     (if kp_type p = FLOWIE_MQTT_PACKET_PINGRESP then []
      else if kp_type p \<in> {FLOWIE_MQTT_PACKET_DISCONNECT, FLOWIE_MQTT_PACKET_AUTH}
      then (if kp_reason_code p = 0 \<and> \<not> control_block_sent p then [] else [kp_reason_code p])
      else if kp_type p = FLOWIE_MQTT_PACKET_CONNACK then [kp_session_present p, kp_reason_code p]
      else write_u16 (unat (kp_packet_id p)) @
           (if kp_type p \<notin> {FLOWIE_MQTT_PACKET_SUBACK, FLOWIE_MQTT_PACKET_UNSUBACK} \<and> control_block_sent p
            then [kp_reason_code p] else []))"

definition control_wire :: "flowie_mqtt_control_packet \<Rightarrow> bytes" where
  "control_wire p = control_ids_bytes p @ control_block_bytes p @ control_codes_bytes p"

lemmas control_remaining_defs =
  control_remaining_def pingresp_remaining_def disconnect_remaining_def connack_remaining_def
  suback_remaining_def ack_remaining_def control_block_size_def

lemmas control_wire_defs =
  control_wire_def control_ids_bytes_def control_block_bytes_def control_codes_bytes_def

lemma write_u16_word: "write_u16 (unat i) = [ucast (drop_bit 8 i), ucast i]" for i :: u16
proof -
  have "unat (drop_bit 8 i) = unat i div 256" by (simp add: unat_div_distrib drop_bit_eq_div)
  moreover have "unat i div 256 < 256" using u16_less [of i] by simp
  ultimately show ?thesis by (simp add: write_u16_def word_unat_eq_iff unat_of_nat_u8 unsigned_ucast_eq take_bit_eq_mod)
qed

lemma control_validate_dest:
  assumes "flowie_mqtt_control_validate un p = Inr r"
  shows "flowie_mqtt_control_type (kp_type p)" "flowie_mqtt_version_is_supported (kp_version p)"
    "\<not> span_null (kp_properties p) \<or> span_size (kp_properties p) = 0"
    "\<not> span_null (kp_reason_codes p) \<or> span_size (kp_reason_codes p) = 0"
    "span_size (kp_properties p) \<le> FLOWIE_MQTT_MAX_REMAINING_LENGTH"
    "kp_version p = FLOWIE_MQTT_VERSION_5 \<Longrightarrow> flowie_mqtt_control_properties_validate un (kp_type p)
       \<lparr>pb_encoded = NullSpan 0, pb_values = kp_properties p\<rparr> = Inr ()"
    "control_remaining p = Inr r" "r \<le> FLOWIE_MQTT_MAX_REMAINING_LENGTH"
  using assms unfolding flowie_mqtt_control_validate_def
  by (auto simp: rbind_Inr_iff split: if_splits)

lemma control_remaining_body:
  assumes "control_remaining p = Inr r" "flowie_mqtt_control_type (kp_type p)"
    and v: "flowie_mqtt_version_is_supported (kp_version p)"
    and "\<not> span_null (kp_properties p) \<or> span_size (kp_properties p) = 0"
    and codes: "\<not> span_null (kp_reason_codes p) \<or> span_size (kp_reason_codes p) = 0"
    and max: "span_size (kp_properties p) \<le> FLOWIE_MQTT_MAX_REMAINING_LENGTH"
  shows "r = length (control_wire p) \<and>
    (if kp_type p = FLOWIE_MQTT_PACKET_PINGRESP \<or> r = 0 then control_wire p = []
     else control_body p r = control_wire p)"
proof -
  have block: "length (flowie_mqtt_property_values_write (kp_properties p)) = control_block_size p"
    using length_property_values_write [OF assms(4)] by (simp add: property_block_size_def control_block_size_def)
  have codes: "length (span_bytes (kp_reason_codes p)) = span_size (kp_reason_codes p)"
    using codes by (cases "kp_reason_codes p") auto
  have "unat (of_nat (span_size (kp_properties p)) :: u32) = span_size (kp_properties p)"
    using max by (intro unat_of_nat_u32) simp
  then have size: "1 \<le> flowie_mqtt_vbi_size (of_nat (span_size (kp_properties p)))"
    using vbi_size_bounds max by simp
  consider "kp_version p = FLOWIE_MQTT_VERSION_5" | "flowie_mqtt_version_is_3x (kp_version p)" "kp_version p \<noteq> 5"
    using v version_3x_iff by blast
  then show ?thesis
    using assms(1,2) block codes size
    by cases
       (auto simp: flowie_mqtt_control_type_def control_remaining_def pingresp_remaining_def
        disconnect_remaining_def connack_remaining_def suback_remaining_def ack_remaining_def Let_def
        control_wire_defs control_block_sent_def control_body_def control_ids_write_def
        control_block_written_def write_u16_word flowie_mqtt_property_values_write_def split: if_splits)
qed

lemma control_encode_frame:
  assumes "flowie_mqtt_control_packet_encode un p cap = Inr out"
  obtains r where "flowie_mqtt_control_validate un p = Inr r"
    "length (control_wire p) \<le> FLOWIE_MQTT_MAX_REMAINING_LENGTH"
    "out = frame_bytes (control_first (kp_type p)) (control_wire p)" "length out \<le> cap"
proof -
  obtain r where r: "flowie_mqtt_control_validate un p = Inr r"
    using assms by (auto simp: flowie_mqtt_control_packet_encode_def rbind_Inr_iff)
  note v = control_validate_dest [OF r]
  note body = control_remaining_body [OF v(7,1,2,3,4,5)]
  show thesis
  proof (rule that [OF r])
    show "length (control_wire p) \<le> FLOWIE_MQTT_MAX_REMAINING_LENGTH" using body v(8) by simp
    show "out = frame_bytes (control_first (kp_type p)) (control_wire p)" "length out \<le> cap"
      using assms body r
      by (auto simp: flowie_mqtt_control_packet_encode_def Let_def frame_bytes_def length_vbi_write
          split: if_splits)
  qed
qed

lemma control_ids_read_back:
  assumes "control_remaining p = Inr r" "flowie_mqtt_control_type (kp_type p)"
    and v: "flowie_mqtt_version_is_supported (kp_version p)"
    and "kp_type p \<noteq> FLOWIE_MQTT_PACKET_PINGRESP"
  shows "control_ids_parse (kp_version p) (kp_type p) (control_wire p) =
      Inr (kp_session_present p, kp_packet_id p, kp_reason_code p,
           control_block_bytes p @ control_codes_bytes p) \<and>
    flowie_mqtt_reason_code_valid (kp_type p) (kp_version p) (kp_reason_code p)"
proof -
  note id_only = nonzero_packet_id_write [where rest = "[]", simplified]
  have session: "s AND 0xfe = 0" if "s \<le> 1" for s :: u8
    using u8_le_1_cases [OF that] by auto
  consider "kp_version p = FLOWIE_MQTT_VERSION_5" | "flowie_mqtt_version_is_3x (kp_version p)" "kp_version p \<noteq> 5"
    using v version_3x_iff by blast
  then show ?thesis
  proof cases
    case 1
    then show ?thesis
      using assms(1,2,4)
      by (auto simp: flowie_mqtt_control_type_def control_remaining_defs Let_def control_wire_defs
          control_block_sent_def control_ids_parse_def nonzero_packet_id_write id_only session not_less
          flowie_mqtt_version_is_3x_def flowie_mqtt_reason_code_valid_def suback_v5_def unsuback_v5_def
          split: if_splits)
  next
    case 2
    then show ?thesis
      using assms(1,2,4)
      by (auto simp: flowie_mqtt_control_type_def control_remaining_defs Let_def control_wire_defs
          control_block_sent_def control_ids_parse_def nonzero_packet_id_write id_only session not_less
          flowie_mqtt_reason_code_valid_def split: if_splits)
  qed
qed

lemma control_block_read_back:
  assumes "flowie_mqtt_control_validate un p = Inr r" "kp_type p \<noteq> FLOWIE_MQTT_PACKET_PINGRESP"
  shows "control_block_parse un (kp_version p) (kp_type p) (control_block_bytes p @ control_codes_bytes p) =
    Inr (ct_properties (control_view_of p), control_codes_bytes p)"
proof (cases "control_block_sent p")
  case True
  note v = control_validate_dest [OF assms(1)]
  have v5: "kp_version p = FLOWIE_MQTT_VERSION_5" using True by (simp add: control_block_sent_def)
  let ?block = "\<lparr>pb_encoded = Span (flowie_mqtt_property_values_write (kp_properties p)),
      pb_values = span_norm (kp_properties p)\<rparr>"
  have "flowie_mqtt_control_properties_validate un (kp_type p) ?block = Inr ()"
    using v(6) [OF v5] v(3) properties_validate_values [of un "NullSpan 0" "kp_properties p"
        "Span (flowie_mqtt_property_values_write (kp_properties p))"]
    by (cases "kp_properties p") (auto simp: flowie_mqtt_control_properties_validate_def)
  moreover have "flowie_mqtt_property_block_parse
      (Span (flowie_mqtt_property_values_write (kp_properties p) @ control_codes_bytes p)) =
      Inr (?block, length (flowie_mqtt_property_values_write (kp_properties p)))"
    using typed_block_write [OF v(3,5)] by (simp add: typed_property_block_iff)
  moreover have "flowie_mqtt_property_values_write (kp_properties p) \<noteq> []"
    using length_property_values_write [OF v(3)] vbi_size_bounds [of "of_nat (span_size (kp_properties p))"]
      unat_of_nat_u32 [of "span_size (kp_properties p)"] v(5)
    by (auto simp: property_block_size_def)
  ultimately show ?thesis
    using True v5
    by (auto simp: control_block_parse_def control_block_bytes_def control_view_of_def block_view_def)
next
  case False
  note v = control_validate_dest [OF assms(1)]
  have "control_codes_bytes p = [] \<or> (kp_type p = FLOWIE_MQTT_PACKET_SUBACK \<and> kp_version p \<noteq> FLOWIE_MQTT_VERSION_5)"
    using v(1,2,4,7) False assms(2) version_3x_iff [OF v(2)]
    by (cases "kp_reason_codes p")
       (auto simp: control_codes_bytes_def control_block_sent_def control_remaining_defs Let_def split: if_splits)
  then show ?thesis
    using False assms(2) v(1)
    by (auto simp: control_block_parse_def control_block_bytes_def control_view_of_def control_block_sent_def)
qed

lemma control_codes_read_back:
  assumes "flowie_mqtt_control_validate un p = Inr r"
  shows "control_codes_parse (kp_version p) (kp_type p) (control_codes_bytes p) =
    Inr (ct_reason_codes (control_view_of p), [])"
proof -
  note v = control_validate_dest [OF assms(1)]
  show ?thesis
    using v(4,7)
    by (cases "kp_reason_codes p")
       (auto simp: control_codes_parse_def control_codes_bytes_def control_view_of_def control_remaining_defs
         Let_def split: if_splits)
qed

lemma control_first_facts:
  assumes "flowie_mqtt_control_type type" "type = FLOWIE_MQTT_PACKET_AUTH \<longrightarrow> version = FLOWIE_MQTT_VERSION_5"
  shows "0x10 \<le> control_first type" "flowie_mqtt_fixed_header_valid (control_first type) version"
    "ping_type (control_first type) \<Longrightarrow> type = FLOWIE_MQTT_PACKET_PINGRESP"
    "drop_bit 4 (ucast (control_first type)) = type"
  using assms
  by (auto simp: flowie_mqtt_control_type_def control_first_def flowie_mqtt_fixed_header_valid_def
      required_flags_def ping_type_def)

lemma control_parse_wire:
  assumes "flowie_mqtt_control_validate un p = Inr r"
    and len: "length (control_wire p) \<le> FLOWIE_MQTT_MAX_REMAINING_LENGTH"
    and first: "drop_bit 4 (ucast first) = kp_type p"
  shows "flowie_mqtt_control_packet_parse un
      (frame_view (kp_version p) first (of_nat (length (control_wire p))) (control_wire p)) =
    Inr (control_view_of p)"
proof -
  note v = control_validate_dest [OF assms(1)]
  define body where "body = control_wire p"
  define pv where "pv = frame_view (kp_version p) first (of_nat (length body)) body"
  have pv: "pv_version pv = kp_version p" "pv_type pv = kp_type p"
      "pv_remaining_length pv = of_nat (length body)" "pv_body pv = Span body"
    by (simp_all add: pv_def frame_view_def first)
  have "unat (of_nat (length body) :: u32) = length body"
    using len by (intro unat_of_nat_u32) (simp add: body_def)
  note args = this v(1,2)
  have "flowie_mqtt_control_packet_parse un pv = Inr (control_view_of p)"
  proof (cases "kp_type p = FLOWIE_MQTT_PACKET_PINGRESP")
    case True
    then have "kp_session_present p = 0 \<and> kp_packet_id p = 0 \<and> kp_reason_code p = 0 \<and> body = [] \<and>
        \<not> control_block_sent p"
      using v(7)
      by (auto simp: control_remaining_defs body_def control_wire_defs control_block_sent_def split: if_splits)
    then show ?thesis
      using True args
      by (simp add: flowie_mqtt_control_packet_parse_def Let_def pv control_view_of_def)
  next
    case False
    note ids = control_ids_read_back [OF v(7,1,2) False, folded body_def]
    show ?thesis
    proof (cases "(kp_type p = FLOWIE_MQTT_PACKET_DISCONNECT \<or> kp_type p = FLOWIE_MQTT_PACKET_AUTH) \<and>
        flowie_mqtt_version_is_3x (kp_version p)")
      case True
      then have "kp_type p = FLOWIE_MQTT_PACKET_DISCONNECT \<and> kp_session_present p = 0 \<and> kp_packet_id p = 0 \<and>
          kp_reason_code p = 0 \<and> body = [] \<and> \<not> control_block_sent p"
        using v(7) version_3x_iff [OF v(2)]
        by (auto simp: control_remaining_defs body_def control_wire_defs control_block_sent_def split: if_splits)
      then show ?thesis
        using True args
        by (simp add: flowie_mqtt_control_packet_parse_def Let_def pv control_view_of_def)
    next
      case third: False
      then show ?thesis
        using False args ids control_block_read_back [OF assms(1) False] control_codes_read_back [OF assms(1)]
        by (auto simp: flowie_mqtt_control_packet_parse_def Let_def pv control_view_of_def)
    qed
  qed
  then show ?thesis by (simp add: pv_def body_def)
qed

text \<open>C13: control packet round trip. For each of the ten control packet types, what the
  control encoder writes is framed and parsed back to the same session flag, packet
  identifier, reason code, properties and list of reason codes.\<close>

theorem control_roundtrip:
  assumes "flowie_mqtt_control_packet_encode un p cap = Inr out"
    and "options_ok opts" "po_version opts = kp_version p" "length out \<le> packet_limit opts"
  shows "length out \<le> cap \<and>
    (\<exists>pv. flowie_mqtt_packet_parse True (Span out) (Some opts) = Inr (pv, length out) \<and>
          flowie_mqtt_control_packet_parse un pv = Inr (control_view_of p))"
proof -
  obtain r where r: "flowie_mqtt_control_validate un p = Inr r"
      and len: "length (control_wire p) \<le> FLOWIE_MQTT_MAX_REMAINING_LENGTH"
      and out: "out = frame_bytes (control_first (kp_type p)) (control_wire p)" "length out \<le> cap"
    by (rule control_encode_frame [OF assms(1)])
  note v = control_validate_dest [OF r]
  have "kp_type p = FLOWIE_MQTT_PACKET_AUTH \<longrightarrow> kp_version p = FLOWIE_MQTT_VERSION_5"
    using v(7) version_3x_iff [OF v(2)] by (auto simp: control_remaining_defs split: if_splits)
  note first = control_first_facts [OF v(1) this]
  have "kp_type p = FLOWIE_MQTT_PACKET_PINGRESP \<longrightarrow> control_wire p = []"
    using control_remaining_body [OF v(7,1,2,3,4,5)] by auto
  then have "ping_type (control_first (kp_type p)) \<longrightarrow> control_wire p = []" using first(3) by blast
  note framed = parse_frame_bytes_ping [OF assms(2) first(1) first(2) [folded assms(3)] this len]
  show ?thesis
    using framed assms(3,4) out control_parse_wire [OF r len first(4)] by auto
qed

theorem control_roundtrip_witness:
  "\<exists>pv out. flowie_mqtt_control_packet_encode rfc3629_next
      \<lparr>kp_version = 5, kp_type = FLOWIE_MQTT_PACKET_SUBACK, kp_session_present = 0, kp_packet_id = 7,
       kp_reason_code = 0, kp_properties = NullSpan 0, kp_reason_codes = Span [1, 0x80]\<rparr> 100 = Inr out \<and>
    flowie_mqtt_packet_parse True (Span out) (Some \<lparr>po_version = 5, po_max_packet_size = 0\<rparr>) =
      Inr (pv, length out) \<and>
    flowie_mqtt_control_packet_parse rfc3629_next pv = Inr
      \<lparr>ct_version = 5, ct_type = FLOWIE_MQTT_PACKET_SUBACK, ct_session_present = 0, ct_packet_id = 7,
       ct_reason_code = 0, ct_properties = \<lparr>pb_encoded = Span [0], pb_values = Span []\<rparr>,
       ct_reason_codes = Span [1, 0x80]\<rparr>"
proof -
  let ?p = "\<lparr>kp_version = 5, kp_type = FLOWIE_MQTT_PACKET_SUBACK, kp_session_present = 0, kp_packet_id = 7,
       kp_reason_code = 0, kp_properties = NullSpan 0, kp_reason_codes = Span [1, 0x80]\<rparr>
       :: flowie_mqtt_control_packet"
  let ?o = "\<lparr>po_version = 5, po_max_packet_size = 0\<rparr> :: flowie_mqtt_parse_options"
  have sizes: "flowie_mqtt_vbi_size 0 = 1" "flowie_mqtt_vbi_size 5 = 1"
    by code_simp+
  have writes: "flowie_mqtt_vbi_write 0 = [0]" "length (flowie_mqtt_vbi_write 5) = 1"
    by code_simp+
  have "flowie_mqtt_control_validate rfc3629_next ?p = Inr 5"
    by (simp add: flowie_mqtt_control_validate_def flowie_mqtt_control_type_def sizes
        flowie_mqtt_version_is_supported_def flowie_mqtt_control_properties_validate_def control_remaining_def
        suback_remaining_def flowie_mqtt_version_is_3x_def flowie_mqtt_reason_code_valid_def suback_v5_def
        control_block_size_def)
  moreover have "length (control_body ?p 5) = 5"
    by (simp add: control_body_def control_ids_write_def control_block_written_def writes)
  ultimately obtain out where out: "flowie_mqtt_control_packet_encode rfc3629_next ?p 100 = Inr out"
    by (simp add: flowie_mqtt_control_packet_encode_def sizes writes)
  have "length out \<le> 100" by (rule control_encode_frame [OF out])
  then have "length out \<le> packet_limit ?o" by (simp add: packet_limit_def)
  moreover have "control_view_of ?p = \<lparr>ct_version = 5, ct_type = FLOWIE_MQTT_PACKET_SUBACK,
       ct_session_present = 0, ct_packet_id = 7, ct_reason_code = 0,
       ct_properties = \<lparr>pb_encoded = Span [0], pb_values = Span []\<rparr>, ct_reason_codes = Span [1, 0x80]\<rparr>"
    by (simp add: control_view_of_def control_block_sent_def block_view_def
        flowie_mqtt_property_values_write_def writes)
  ultimately show ?thesis
    using control_roundtrip [OF out, of ?o] out
    by (auto simp: options_ok_def flowie_mqtt_version_is_supported_def)
qed

end
