(* ===== verification/Mqtt_Encoders.thy ===== *)
theory Mqtt_Encoders
  imports Mqtt_Roundtrip Mqtt_Control
begin

text \<open>
  What all packet encoders of \<open>protocol/src/flowie_mqtt_packet_views.c\<close> have in common: the Remaining
  Length that they add up in advance is the length of what they write, so that a description that
  passes the checks fails only when it is too large.
\<close>

section \<open>The encoders are complete\<close>

text \<open>The bytes an encoder produces once its description is accepted, or the only error
  that is left.\<close>

definition encoded :: "u8 \<Rightarrow> bytes \<Rightarrow> nat \<Rightarrow> bytes parse" where
  "encoded first body cap =
     (if length body \<le> FLOWIE_MQTT_MAX_REMAINING_LENGTH \<and> length (frame_bytes first body) \<le> cap
      then Inr (frame_bytes first body) else Inl FLOWIE_MQTT_PARSE_TOO_LARGE)"

lemma encode_packet_encoded:
  "r = (if length body \<le> FLOWIE_MQTT_MAX_REMAINING_LENGTH then Inr (length body)
        else Inl FLOWIE_MQTT_PARSE_TOO_LARGE) \<Longrightarrow>
   rbind r (\<lambda>remaining. encode_packet type flags remaining cap body) =
     encoded (push_bit 4 (ucast type) OR flags) body cap"
  by (auto simp: encoded_def encode_packet_def flowie_mqtt_encode_begin_def encode_finish_def frame_bytes_def
      Let_def length_vbi_write)

lemma remaining_properties_eq:
  "\<not> span_null v \<or> span_size v = 0 \<Longrightarrow> r \<le> FLOWIE_MQTT_MAX_REMAINING_LENGTH \<Longrightarrow>
   remaining_add_properties version r v =
     (if r + length (write_properties version v) \<le> FLOWIE_MQTT_MAX_REMAINING_LENGTH
      then Inr (r + length (write_properties version v)) else Inl FLOWIE_MQTT_PARSE_TOO_LARGE)"
  by (auto simp: remaining_add_properties_def write_properties_def remaining_add_eq length_property_values_write)

lemma publish_remaining_eq:
  assumes "publish_validate un p = Inr u"
  shows "publish_remaining p =
    (if length (publish_body p) \<le> FLOWIE_MQTT_MAX_REMAINING_LENGTH then Inr (length (publish_body p))
     else Inl FLOWIE_MQTT_PARSE_TOO_LARGE)"
proof -
  obtain present where
      "flowie_mqtt_length_span_input_validate un (pp_topic p) True = Inr ()"
      "flowie_mqtt_property_values_validate un (pp_version p) (pp_properties p)
         flowie_mqtt_publish_properties_allowed flowie_mqtt_publish_properties_repeatable = Inr present"
      and payload: "\<not> span_null (pp_payload p) \<or> span_size (pp_payload p) = 0"
    using publish_validate_dest [OF assms(1)] by metis
  then have topic: "length (flowie_mqtt_length_span_write (pp_topic p)) = 2 + span_size (pp_topic p)"
      and props: "\<not> span_null (pp_properties p) \<or> span_size (pp_properties p) = 0"
    by (auto simp: length_span_input_iff length_length_span_write dest: property_values_validate_dest(1))
  have "length (if span_size (pp_payload p) \<noteq> 0 then span_bytes (pp_payload p) else []) =
      span_size (pp_payload p)"
    using payload by (cases "pp_payload p") auto
  then have "length (publish_body p) = 2 + span_size (pp_topic p) + (if pp_qos p \<noteq> 0 then 2 else 0) +
      length (write_properties (pp_version p) (pp_properties p)) + span_size (pp_payload p)"
    by (simp add: publish_body_def topic)
  then show ?thesis
    by (cases "pp_qos p = 0")
       (simp_all add: publish_remaining_def remaining_add_eq remaining_properties_eq [OF props])
qed

lemma connect_remaining_eq:
  assumes "connect_validate un p = Inr u"
  shows "connect_remaining p (6 + length (connect_protocol_name (cp_version p))) =
    (if length (connect_body p) \<le> FLOWIE_MQTT_MAX_REMAINING_LENGTH then Inr (length (connect_body p))
     else Inl FLOWIE_MQTT_PARSE_TOO_LARGE)"
proof -
  obtain present where P: "flowie_mqtt_length_span_input_validate un (cp_client_id p) True = Inr ()"
      "flowie_mqtt_property_values_validate un (cp_version p) (cp_properties p)
         flowie_mqtt_connect_properties_allowed flowie_mqtt_user_property_repeatable = Inr present"
      "connect_will_validate un p = Inr ()"
      "optional_span_validate un (cp_has_username p) (cp_username p) True = Inr ()"
      "optional_span_validate un (cp_has_password p) (cp_password p) False = Inr ()"
    using connect_validate_dest [OF assms] by metis
  define N where "N = 6 + length (connect_protocol_name (cp_version p))"
  define U where "U = (if cp_has_username p \<noteq> 0 then flowie_mqtt_length_span_write (cp_username p) else [])"
  define W where "W = (if cp_has_password p \<noteq> 0 then flowie_mqtt_length_span_write (cp_password p) else [])"
  have props: "\<not> span_null (cp_properties p) \<or> span_size (cp_properties p) = 0"
    using property_values_validate_dest(1) [OF P(2)] .
  have client: "length (flowie_mqtt_length_span_write (cp_client_id p)) = 2 + span_size (cp_client_id p)"
    using P(1) by (simp add: length_span_input_iff length_length_span_write)
  have U: "length U = (if cp_has_username p \<noteq> 0 then 2 + span_size (cp_username p) else 0)"
    using P(4) by (simp add: U_def optional_span_validate_def length_span_input_iff length_length_span_write split: if_splits)
  have W: "length W = (if cp_has_password p \<noteq> 0 then 2 + span_size (cp_password p) else 0)"
    using P(5) by (simp add: W_def optional_span_validate_def length_span_input_iff length_length_span_write split: if_splits)
  have will: "cp_has_will p \<noteq> 0 \<Longrightarrow> length (will_bytes p) =
        length (write_properties (cp_version p) (cp_will_properties p)) +
        (4 + span_size (cp_will_topic p) + span_size (cp_will_payload p)) \<and>
        (\<not> span_null (cp_will_properties p) \<or> span_size (cp_will_properties p) = 0)"
      "cp_has_will p = 0 \<Longrightarrow> will_bytes p = []"
    using P(3) by (auto simp: will_bytes_def connect_will_validate_def rbind_Inr_iff length_span_input_iff
        length_length_span_write dest: property_values_validate_dest(1))
  have "length (connect_body p) = N + length (write_properties (cp_version p) (cp_properties p)) +
      (2 + span_size (cp_client_id p)) + length (will_bytes p) + length U + length W"
    by (simp add: connect_body_split N_def U_def W_def client)
  moreover have "N \<le> 12" by (simp add: N_def connect_protocol_name_def protocol_name_v3_def protocol_name_v4_v5_def)
  ultimately show ?thesis
    unfolding N_def [symmetric] using will(2) will(1) [THEN conjunct1]
      remaining_properties_eq [OF will(1) [THEN conjunct2], of _ "cp_version p"]
    by (cases "cp_has_will p = 0"; cases "cp_has_username p = 0"; cases "cp_has_password p = 0")
       (simp_all add: connect_remaining_def remaining_add_eq remaining_properties_eq [OF props] U W)
qed

text \<open>The descriptions that pass the checks of SUBSCRIBE and UNSUBSCRIBE; the encoders check an entry and
  add its size in one loop.\<close>

definition subscribe_accepted :: "utf8_next \<Rightarrow> flowie_mqtt_subscribe_packet \<Rightarrow> bool" where
  "subscribe_accepted un p \<longleftrightarrow>
     flowie_mqtt_version_valid (sp_version p) \<and> sp_packet_id p \<noteq> 0 \<and> sp_subscriptions p \<noteq> [] \<and>
     is_ok (flowie_mqtt_property_values_validate un (sp_version p) (sp_properties p)
              flowie_mqtt_subscribe_properties_allowed flowie_mqtt_user_property_repeatable) \<and>
     list_all (subscription_ok un (sp_version p)) (sp_subscriptions p)"

definition unsubscribe_accepted :: "utf8_next \<Rightarrow> flowie_mqtt_unsubscribe_packet \<Rightarrow> bool" where
  "unsubscribe_accepted un p \<longleftrightarrow>
     flowie_mqtt_version_valid (up_version p) \<and> up_packet_id p \<noteq> 0 \<and> up_filters p \<noteq> [] \<and>
     is_ok (flowie_mqtt_property_values_validate un (up_version p) (up_properties p)
              flowie_mqtt_user_property_repeatable flowie_mqtt_user_property_repeatable) \<and>
     list_all (unsubscribe_filter_ok un) (up_filters p)"

lemma subscribe_entries_eq:
  assumes "list_all (subscription_ok un version) es" "r \<le> FLOWIE_MQTT_MAX_REMAINING_LENGTH"
  shows "subscribe_entries_remaining un version es r =
    (if r + length (concat (map subscription_write es)) \<le> FLOWIE_MQTT_MAX_REMAINING_LENGTH
     then Inr (r + length (concat (map subscription_write es))) else Inl FLOWIE_MQTT_PARSE_TOO_LARGE)"
  using assms
proof (induction es arbitrary: r)
  case (Cons e es)
  then have "length (subscription_write e) = 3 + span_size (sv_filter e)"
    by (simp add: subscription_write_def length_length_span_write length_span_input_iff subscription_ok_def)
  with Cons show ?case by (simp add: remaining_add_eq subscription_ok_def)
qed simp

lemma unsubscribe_filters_eq:
  assumes "list_all (unsubscribe_filter_ok un) fs" "r \<le> FLOWIE_MQTT_MAX_REMAINING_LENGTH"
  shows "unsubscribe_filters_remaining un fs r =
    (if r + length (concat (map flowie_mqtt_length_span_write fs)) \<le> FLOWIE_MQTT_MAX_REMAINING_LENGTH
     then Inr (r + length (concat (map flowie_mqtt_length_span_write fs))) else Inl FLOWIE_MQTT_PARSE_TOO_LARGE)"
  using assms
proof (induction fs arbitrary: r)
  case (Cons f fs)
  then have "length (flowie_mqtt_length_span_write f) = 2 + span_size f"
    by (simp add: length_length_span_write length_span_input_iff unsubscribe_filter_ok_def)
  with Cons show ?case by (simp add: remaining_add_eq unsubscribe_filter_ok_def)
qed simp

text \<open>Properties and then entries, as both encoders add them.\<close>

lemma remaining_then_entries:
  assumes "\<not> span_null v \<or> span_size v = 0"
    and "\<And>r. r \<le> FLOWIE_MQTT_MAX_REMAINING_LENGTH \<Longrightarrow> rest r =
      (if r + n \<le> FLOWIE_MQTT_MAX_REMAINING_LENGTH then Inr (r + n) else Inl FLOWIE_MQTT_PARSE_TOO_LARGE)"
  shows "rbind (remaining_add_properties version 2 v) rest =
    (if 2 + length (write_properties version v) + n \<le> FLOWIE_MQTT_MAX_REMAINING_LENGTH
     then Inr (2 + length (write_properties version v) + n) else Inl FLOWIE_MQTT_PARSE_TOO_LARGE)"
  using assms by (simp add: remaining_properties_eq)

lemma rbind_assoc: "rbind (rbind m f) g = rbind m (\<lambda>x. rbind (f x) g)"
  by (cases m) simp_all

lemma subscribe_encode_encoded:
  assumes "subscribe_accepted un p"
  shows "flowie_mqtt_subscribe_packet_encode un p cap = encoded 0x82 (subscribe_body p) cap"
proof -
  let ?version = "sp_version p"
  obtain present where ok: "flowie_mqtt_version_valid ?version" "sp_packet_id p \<noteq> 0" "sp_subscriptions p \<noteq> []"
      "flowie_mqtt_property_values_validate un ?version (sp_properties p)
         flowie_mqtt_subscribe_properties_allowed flowie_mqtt_user_property_repeatable = Inr present"
      "list_all (subscription_ok un ?version) (sp_subscriptions p)"
    using assms by (auto simp: subscribe_accepted_def is_ok_iff)
  have "rbind (remaining_add_properties ?version 2 (sp_properties p))
      (subscribe_entries_remaining un ?version (sp_subscriptions p)) =
    (if length (subscribe_body p) \<le> FLOWIE_MQTT_MAX_REMAINING_LENGTH then Inr (length (subscribe_body p))
     else Inl FLOWIE_MQTT_PARSE_TOO_LARGE)"
    using remaining_then_entries [OF property_values_validate_dest(1) [OF ok(4)] subscribe_entries_eq [OF ok(5)], of ?version]
    by (simp add: subscribe_body_def)
  from encode_packet_encoded [OF this] ok show ?thesis
    by (simp add: flowie_mqtt_subscribe_packet_encode_def rbind_assoc)
qed

lemma subscribe_encode_refused:
  "\<not> subscribe_accepted un p \<Longrightarrow> \<not> is_ok (flowie_mqtt_subscribe_packet_encode un p cap)"
  using subscribe_encode_frame [of un p cap]
  by (auto simp: subscribe_accepted_def is_ok_iff list_all_iff flowie_mqtt_version_valid_def)

lemma unsubscribe_encode_encoded:
  assumes "unsubscribe_accepted un p"
  shows "flowie_mqtt_unsubscribe_packet_encode un p cap = encoded 0xa2 (unsubscribe_body p) cap"
proof -
  let ?version = "up_version p"
  obtain present where ok: "flowie_mqtt_version_valid ?version" "up_packet_id p \<noteq> 0" "up_filters p \<noteq> []"
      "flowie_mqtt_property_values_validate un ?version (up_properties p)
         flowie_mqtt_user_property_repeatable flowie_mqtt_user_property_repeatable = Inr present"
      "list_all (unsubscribe_filter_ok un) (up_filters p)"
    using assms by (auto simp: unsubscribe_accepted_def is_ok_iff)
  have "rbind (remaining_add_properties ?version 2 (up_properties p))
      (unsubscribe_filters_remaining un (up_filters p)) =
    (if length (unsubscribe_body p) \<le> FLOWIE_MQTT_MAX_REMAINING_LENGTH then Inr (length (unsubscribe_body p))
     else Inl FLOWIE_MQTT_PARSE_TOO_LARGE)"
    using remaining_then_entries [OF property_values_validate_dest(1) [OF ok(4)] unsubscribe_filters_eq [OF ok(5)], of ?version]
    by (simp add: unsubscribe_body_def)
  from encode_packet_encoded [OF this] ok show ?thesis
    by (simp add: flowie_mqtt_unsubscribe_packet_encode_def rbind_assoc)
qed

lemma unsubscribe_encode_refused:
  "\<not> unsubscribe_accepted un p \<Longrightarrow> \<not> is_ok (flowie_mqtt_unsubscribe_packet_encode un p cap)"
  using unsubscribe_encode_frame [of un p cap]
  by (auto simp: unsubscribe_accepted_def is_ok_iff list_all_iff flowie_mqtt_version_valid_def)

lemma control_encode_encoded:
  "flowie_mqtt_control_packet_encode un p cap =
     rbind (flowie_mqtt_control_validate un p) (\<lambda>_. encoded (control_first (kp_type p)) (control_wire p) cap)"
proof (cases "flowie_mqtt_control_validate un p")
  case (Inr r)
  note v = control_validate_dest [OF Inr]
  note body = control_remaining_body [OF v(7,1,2,3,4,5)]
  have "unat (of_nat r :: u32) = r" using v(8) by (intro unat_of_nat_u32) simp
  then have "flowie_mqtt_vbi_size (of_nat r) \<le> 4" using vbi_size_bounds v(8) by simp
  then show ?thesis
    using body v(8) Inr
    by (auto simp: flowie_mqtt_control_packet_encode_def encoded_def Let_def frame_bytes_def length_vbi_write
        split: if_splits)
qed (simp add: flowie_mqtt_control_packet_encode_def)

lemma pingreq_encode_encoded:
  "flowie_mqtt_pingreq_encode version cap =
     rbind (fail_if (\<not> flowie_mqtt_version_valid version) FLOWIE_MQTT_PARSE_INVALID_ARGUMENT) (\<lambda>_. encoded 0xc0 [] cap)"
  by (simp add: flowie_mqtt_pingreq_encode_def encoded_def frame_bytes_def flowie_mqtt_vbi_write.simps)

text \<open>C12: every packet encoder is complete: PUBLISH, CONNECT, SUBSCRIBE, UNSUBSCRIBE, PINGREQ and the ten
  control packets. Once a description passes the checks of its encoder, the only possible failure is
  the size limit: the lengths added up in advance are exact, so the final comparison of the written
  size with the prediction never fails, and the bytes are the first byte, the Remaining Length and the
  body. A SUBSCRIBE or UNSUBSCRIBE that does not pass the checks is refused.\<close>

theorem encoders_complete:
  "flowie_mqtt_publish_packet_encode un p cap =
     rbind (publish_validate un p) (\<lambda>_. encoded (publish_first p) (publish_body p) cap) \<and>
   flowie_mqtt_connect_packet_encode un c cap =
     rbind (connect_validate un c) (\<lambda>_. encoded 0x10 (connect_body c) cap) \<and>
   (if subscribe_accepted un s
    then flowie_mqtt_subscribe_packet_encode un s cap = encoded 0x82 (subscribe_body s) cap
    else \<not> is_ok (flowie_mqtt_subscribe_packet_encode un s cap)) \<and>
   (if unsubscribe_accepted un u
    then flowie_mqtt_unsubscribe_packet_encode un u cap = encoded 0xa2 (unsubscribe_body u) cap
    else \<not> is_ok (flowie_mqtt_unsubscribe_packet_encode un u cap)) \<and>
   flowie_mqtt_pingreq_encode version cap =
     rbind (fail_if (\<not> flowie_mqtt_version_valid version) FLOWIE_MQTT_PARSE_INVALID_ARGUMENT) (\<lambda>_. encoded 0xc0 [] cap) \<and>
   flowie_mqtt_control_packet_encode un k cap =
     rbind (flowie_mqtt_control_validate un k) (\<lambda>_. encoded (control_first (kp_type k)) (control_wire k) cap)"
proof -
  have "flowie_mqtt_publish_packet_encode un p cap =
      rbind (publish_validate un p) (\<lambda>_. encoded (publish_first p) (publish_body p) cap)"
    by (cases "publish_validate un p")
       (simp_all add: flowie_mqtt_publish_packet_encode_def Let_def encode_packet_encoded
         publish_remaining_eq publish_first_def)
  moreover have "flowie_mqtt_connect_packet_encode un c cap =
      rbind (connect_validate un c) (\<lambda>_. encoded 0x10 (connect_body c) cap)"
    by (cases "connect_validate un c")
       (simp_all add: flowie_mqtt_connect_packet_encode_def encode_packet_encoded connect_remaining_eq)
  ultimately show ?thesis
    using subscribe_encode_encoded subscribe_encode_refused unsubscribe_encode_encoded unsubscribe_encode_refused
      pingreq_encode_encoded control_encode_encoded by simp
qed

end
