(* ===== verification/Mqtt_Acl.thy ===== *)
theory Mqtt_Acl
  imports Mqtt_Text
begin

text \<open>
  The ACL rule line \<open>effect:permission:role:scope:username:client:filter\<close> parsed by
  \<open>flowie_mqtt_acl_parse_line\<close> in \<open>protocol/parser/flowie_mqtt_lexer.re\<close>. The
  main result is that a line is accepted exactly when, without surrounding blanks, it is
  the printed form of the rule that is returned.
\<close>

section \<open>Model\<close>

datatype flowie_mqtt_acl_effect = FLOWIE_MQTT_ACL_DENY | FLOWIE_MQTT_ACL_ALLOW

datatype flowie_mqtt_acl_permission =
    FLOWIE_MQTT_ACL_READ
  | FLOWIE_MQTT_ACL_WRITE
  | FLOWIE_MQTT_ACL_READ_WRITE

record flowie_mqtt_acl_rule_view =
  ar_effect :: flowie_mqtt_acl_effect
  ar_permission :: flowie_mqtt_acl_permission
  ar_role :: flowie_mqtt_span
  ar_scope :: flowie_mqtt_span
  ar_username :: flowie_mqtt_span
  ar_client_id :: flowie_mqtt_span
  ar_topic_filter :: flowie_mqtt_span

datatype flowie_mqtt_acl_parse_result =
    FLOWIE_MQTT_ACL_PARSE_SKIP
  | FLOWIE_MQTT_ACL_PARSE_INVALID_ARGUMENT
  | FLOWIE_MQTT_ACL_PARSE_INVALID_FORMAT
  | FLOWIE_MQTT_ACL_PARSE_INVALID_ACTION
  | FLOWIE_MQTT_ACL_PARSE_INVALID_PERMISSION
  | FLOWIE_MQTT_ACL_PARSE_INVALID_SUBJECT
  | FLOWIE_MQTT_ACL_PARSE_INVALID_TOPIC

definition kw_allow :: bytes where "kw_allow = [0x61, 0x6c, 0x6c, 0x6f, 0x77]"
definition kw_deny :: bytes where "kw_deny = [0x64, 0x65, 0x6e, 0x79]"
definition kw_read :: bytes where "kw_read = [0x72, 0x65, 0x61, 0x64]"
definition kw_write :: bytes where "kw_write = [0x77, 0x72, 0x69, 0x74, 0x65]"
definition kw_readwrite :: bytes where "kw_readwrite = kw_read @ kw_write"

lemmas kw_defs = kw_allow_def kw_deny_def kw_read_def kw_write_def kw_readwrite_def

text \<open>
  The re2c rules of \<open>flowie_mqtt_acl_keyword\<close> take the longest keyword and then
  insist that it ends at the end of the token, so a token is a keyword exactly when it is
  equal to one. The argument \<open>action\<close> selects the keywords of the first or of the
  second field, which return values of the two enumerations.
\<close>

definition flowie_mqtt_acl_keyword ::
    "bytes \<Rightarrow> bool \<Rightarrow> (flowie_mqtt_acl_effect + flowie_mqtt_acl_permission) option" where
  "flowie_mqtt_acl_keyword token action =
     (if token = kw_allow then (if \<not> action then None else Some (Inl FLOWIE_MQTT_ACL_ALLOW))
      else if token = kw_deny then (if \<not> action then None else Some (Inl FLOWIE_MQTT_ACL_DENY))
      else if token = kw_read then (if action then None else Some (Inr FLOWIE_MQTT_ACL_READ))
      else if token = kw_write then (if action then None else Some (Inr FLOWIE_MQTT_ACL_WRITE))
      else if token = kw_readwrite then (if action then None else Some (Inr FLOWIE_MQTT_ACL_READ_WRITE))
      else None)"

definition isalnum :: "u8 \<Rightarrow> bool" where
  "isalnum ch \<longleftrightarrow> (0x30 \<le> ch \<and> ch \<le> 0x39) \<or> (0x41 \<le> ch \<and> ch \<le> 0x5a) \<or> (0x61 \<le> ch \<and> ch \<le> 0x7a)"

definition subject_char :: "u8 \<Rightarrow> bool" where
  "subject_char ch \<longleftrightarrow> isalnum ch \<or> ch = 0x5f \<or> ch = 0x2d \<or> ch = 0x2e"

abbreviation (input) "ch_star \<equiv> (0x2a::u8)"
abbreviation (input) "ch_colon \<equiv> (0x3a::u8)"

definition flowie_mqtt_acl_subject :: "bytes \<Rightarrow> flowie_mqtt_span option" where
  "flowie_mqtt_acl_subject token =
     (if token = [ch_star] then Some (NullSpan 0)
      else if token = [] then None
      else if \<exists>ch \<in> set token. \<not> subject_char ch then None
      else Some (Span token))"

definition blank :: "u8 \<Rightarrow> bool" where
  "blank ch \<longleftrightarrow> ch = 0x20 \<or> ch = 0x09"

definition blank_or_eol :: "u8 \<Rightarrow> bool" where
  "blank_or_eol ch \<longleftrightarrow> blank ch \<or> ch = 0x0d \<or> ch = 0x0a"

definition acl_trim :: "bytes \<Rightarrow> bytes" where
  "acl_trim line = rev (dropWhile blank_or_eol (rev (dropWhile blank line)))"

text \<open>
  The field loop: at most \<open>n\<close> fields, and whether the last one reached the end of the
  line (otherwise bytes are left after it).
\<close>

fun acl_fields :: "nat \<Rightarrow> bytes \<Rightarrow> bytes list \<times> bool" where
  "acl_fields 0 rest = ([], False)"
| "acl_fields (Suc n) rest =
     (let field = takeWhile (\<lambda>c. c \<noteq> ch_colon) rest;
          after = dropWhile (\<lambda>c. c \<noteq> ch_colon) rest
      in if after = [] then ([field], True)
         else let (fields, ended) = acl_fields n (tl after) in (field # fields, ended))"

definition flowie_mqtt_acl_parse_line ::
    "utf8_next \<Rightarrow> flowie_mqtt_span \<Rightarrow>
       flowie_mqtt_acl_parse_result + flowie_mqtt_acl_rule_view" where
  "flowie_mqtt_acl_parse_line un line =
     (if span_null line \<and> span_size line \<noteq> 0 then Inl FLOWIE_MQTT_ACL_PARSE_INVALID_ARGUMENT
      else let text = acl_trim (span_bytes line) in
      if text = [] \<or> hd text = ch_hash then Inl FLOWIE_MQTT_ACL_PARSE_SKIP
      else let (fields, ended) = acl_fields 7 text in
      if length fields \<noteq> 7 \<or> \<not> ended then Inl FLOWIE_MQTT_ACL_PARSE_INVALID_FORMAT
      else case flowie_mqtt_acl_keyword (fields ! 0) True of
        Some (Inl effect) \<Rightarrow>
          (case flowie_mqtt_acl_keyword (fields ! 1) False of
             Some (Inr permission) \<Rightarrow>
               (case (flowie_mqtt_acl_subject (fields ! 2), flowie_mqtt_acl_subject (fields ! 3),
                      flowie_mqtt_acl_subject (fields ! 4), flowie_mqtt_acl_subject (fields ! 5)) of
                  (Some role, Some scope, Some username, Some client_id) \<Rightarrow>
                    if \<not> flowie_mqtt_topic_filter_validate un (Span (fields ! 6))
                    then Inl FLOWIE_MQTT_ACL_PARSE_INVALID_TOPIC
                    else Inr \<lparr>ar_effect = effect, ar_permission = permission, ar_role = role,
                              ar_scope = scope, ar_username = username, ar_client_id = client_id,
                              ar_topic_filter = Span (fields ! 6)\<rparr>
                | _ \<Rightarrow> Inl FLOWIE_MQTT_ACL_PARSE_INVALID_SUBJECT)
           | _ \<Rightarrow> Inl FLOWIE_MQTT_ACL_PARSE_INVALID_PERMISSION)
      | _ \<Rightarrow> Inl FLOWIE_MQTT_ACL_PARSE_INVALID_ACTION)"

section \<open>The printed form of a rule\<close>

fun print_effect :: "flowie_mqtt_acl_effect \<Rightarrow> bytes" where
  "print_effect FLOWIE_MQTT_ACL_ALLOW = kw_allow"
| "print_effect FLOWIE_MQTT_ACL_DENY = kw_deny"

fun print_permission :: "flowie_mqtt_acl_permission \<Rightarrow> bytes" where
  "print_permission FLOWIE_MQTT_ACL_READ = kw_read"
| "print_permission FLOWIE_MQTT_ACL_WRITE = kw_write"
| "print_permission FLOWIE_MQTT_ACL_READ_WRITE = kw_readwrite"

fun print_subject :: "flowie_mqtt_span \<Rightarrow> bytes" where
  "print_subject (NullSpan n) = [ch_star]"
| "print_subject (Span bs) = bs"

fun join_fields :: "bytes list \<Rightarrow> bytes" where
  "join_fields [] = []"
| "join_fields [f] = f"
| "join_fields (f # fs) = f @ ch_colon # join_fields fs"

definition rule_fields :: "flowie_mqtt_acl_rule_view \<Rightarrow> bytes list" where
  "rule_fields r =
     [print_effect (ar_effect r), print_permission (ar_permission r), print_subject (ar_role r),
      print_subject (ar_scope r), print_subject (ar_username r), print_subject (ar_client_id r),
      span_bytes (ar_topic_filter r)]"

fun subject_ok :: "flowie_mqtt_span \<Rightarrow> bool" where
  "subject_ok (NullSpan n) \<longleftrightarrow> n = 0"
| "subject_ok (Span bs) \<longleftrightarrow> bs \<noteq> [] \<and> (\<forall>ch \<in> set bs. subject_char ch)"

definition acl_rule_ok :: "utf8_next \<Rightarrow> flowie_mqtt_acl_rule_view \<Rightarrow> bool" where
  "acl_rule_ok un r \<longleftrightarrow>
     (\<forall>s \<in> {ar_role r, ar_scope r, ar_username r, ar_client_id r}. subject_ok s) \<and>
     flowie_mqtt_topic_filter_validate un (ar_topic_filter r) \<and>
     ch_colon \<notin> set (span_bytes (ar_topic_filter r))"

lemma acl_fields_join:
  "acl_fields n rest = (fs, True) \<longleftrightarrow>
     fs \<noteq> [] \<and> length fs \<le> n \<and> rest = join_fields fs \<and> (\<forall>f \<in> set fs. ch_colon \<notin> set f)"
proof (induction n arbitrary: rest fs)
  case 0
  then show ?case by auto
next
  case (Suc n)
  show ?case
  proof (cases "ch_colon \<in> set rest")
    case False
    then have "acl_fields (Suc n) rest = ([rest], True)"
      by (auto simp: Let_def takeWhile_eq_all_conv)
    with False show ?thesis
      by (cases fs rule: join_fields.cases) (auto simp del: acl_fields.simps)
  next
    case True
    then obtain f r where rest: "rest = f @ ch_colon # r" and f: "ch_colon \<notin> set f"
      by (auto dest: split_list_first)
    have cut: "takeWhile (\<lambda>c. c \<noteq> ch_colon) rest = f" "dropWhile (\<lambda>c. c \<noteq> ch_colon) rest = ch_colon # r"
      using f unfolding rest by simp_all
    have "acl_fields (Suc n) rest = (fs, True) \<longleftrightarrow>
        (\<exists>fs'. fs = f # fs' \<and> acl_fields n r = (fs', True))"
      by (auto simp: cut Let_def split: prod.splits)
    also have "\<dots> \<longleftrightarrow> (\<exists>fs'. fs = f # fs' \<and> fs' \<noteq> [] \<and> length fs' \<le> n \<and> r = join_fields fs' \<and>
        (\<forall>f \<in> set fs'. ch_colon \<notin> set f))"
      using Suc.IH by blast
    also have "\<dots> \<longleftrightarrow> fs \<noteq> [] \<and> length fs \<le> Suc n \<and> rest = join_fields fs \<and>
        (\<forall>f \<in> set fs. ch_colon \<notin> set f)" (is "?L \<longleftrightarrow> ?R")
    proof
      assume ?L
      then show ?R using f by (auto simp: rest neq_Nil_conv)
    next
      assume ?R
      then obtain g gs where fs: "fs = g # gs" "ch_colon \<notin> set g" and gs: "gs \<noteq> []"
        using True by (cases fs rule: join_fields.cases) auto
      then have "f @ ch_colon # r = g @ ch_colon # join_fields gs"
        using \<open>?R\<close> rest by (auto simp: neq_Nil_conv)
      then have "f = g \<and> r = join_fields gs"
        using f fs(2) by (simp add: append_sep_eq_iff)
      then show ?L using \<open>?R\<close> fs gs by auto
    qed
    finally show ?thesis .
  qed
qed

lemma keyword_effect:
  "flowie_mqtt_acl_keyword token True = Some k \<longleftrightarrow> (\<exists>e. k = Inl e \<and> token = print_effect e)"
proof -
  have "(\<exists>e. P e) \<longleftrightarrow> P FLOWIE_MQTT_ACL_ALLOW \<or> P FLOWIE_MQTT_ACL_DENY" for P
    by (metis flowie_mqtt_acl_effect.exhaust)
  then show ?thesis
    by (auto simp: flowie_mqtt_acl_keyword_def kw_defs)
qed

lemma keyword_permission:
  "flowie_mqtt_acl_keyword token False = Some k \<longleftrightarrow> (\<exists>p. k = Inr p \<and> token = print_permission p)"
proof -
  have "(\<exists>p. P p) \<longleftrightarrow>
      P FLOWIE_MQTT_ACL_READ \<or> P FLOWIE_MQTT_ACL_WRITE \<or> P FLOWIE_MQTT_ACL_READ_WRITE" for P
    by (metis flowie_mqtt_acl_permission.exhaust)
  then show ?thesis
    by (auto simp: flowie_mqtt_acl_keyword_def kw_defs)
qed

lemma acl_subject_print:
  "flowie_mqtt_acl_subject token = Some s \<longleftrightarrow> token = print_subject s \<and> subject_ok s"
  by (cases s) (auto simp: flowie_mqtt_acl_subject_def subject_char_def isalnum_def)

lemma no_colon_subject: "subject_ok s \<Longrightarrow> ch_colon \<notin> set (print_subject s)"
  by (cases s) (auto simp: subject_char_def isalnum_def)

lemma no_colon_effect: "ch_colon \<notin> set (print_effect e)"
  by (cases e) (simp_all add: kw_defs)

lemma no_colon_permission: "ch_colon \<notin> set (print_permission p)"
  by (cases p) (simp_all add: kw_defs)

lemmas no_colon = no_colon_subject no_colon_effect no_colon_permission

lemma length_7_conv:
  "length xs = 7 \<longleftrightarrow> (\<exists>a b c d e f g. xs = [a, b, c, d, e, f, g])"
  by (auto simp: length_Suc_conv eval_nat_numeral)

lemma acl_parse_fields:
  assumes "acl_trim line \<noteq> []" "hd (acl_trim line) \<noteq> ch_hash"
  shows "flowie_mqtt_acl_parse_line un (Span line) = Inr r \<longleftrightarrow>
    (\<exists>fs. acl_fields 7 (acl_trim line) = (fs, True) \<and> length fs = 7 \<and> fs = rule_fields r \<and>
      (\<forall>s \<in> {ar_role r, ar_scope r, ar_username r, ar_client_id r}. subject_ok s) \<and>
      flowie_mqtt_topic_filter_validate un (ar_topic_filter r))" (is "_ \<longleftrightarrow> (\<exists>fs. ?P fs)")
proof (cases "\<exists>fs. acl_fields 7 (acl_trim line) = (fs, True) \<and> length fs = 7")
  case False
  then show ?thesis
    using assms by (cases "acl_fields 7 (acl_trim line)") (auto simp: flowie_mqtt_acl_parse_line_def Let_def)
next
  case True
  then obtain a b c d e f g where fs: "acl_fields 7 (acl_trim line) = ([a, b, c, d, e, f, g], True)"
    by (auto simp: length_7_conv)
  note run = flowie_mqtt_acl_parse_line_def fs Let_def rule_fields_def
  have "?P [a, b, c, d, e, f, g]" if "flowie_mqtt_acl_parse_line un (Span line) = Inr r"
    using that assms
    by (simp add: run fs split: option.splits sum.splits if_splits)
       (auto simp: keyword_effect keyword_permission acl_subject_print)
  moreover have "flowie_mqtt_acl_parse_line un (Span line) = Inr r" if P: "?P [a, b, c, d, e, f, g]"
  proof -
    obtain h where "ar_topic_filter r = Span h"
      using P by (cases "ar_topic_filter r") auto
    moreover have "flowie_mqtt_acl_keyword (print_effect e) True = Some (Inl e)"
        "flowie_mqtt_acl_keyword (print_permission p) False = Some (Inr p)" for e p
      by (simp_all add: keyword_effect keyword_permission)
    moreover have "subject_ok s \<Longrightarrow> flowie_mqtt_acl_subject (print_subject s) = Some s" for s
      by (simp add: acl_subject_print)
    ultimately show ?thesis
      using P assms by (simp add: run)
  qed
  ultimately have "flowie_mqtt_acl_parse_line un (Span line) = Inr r \<longleftrightarrow> ?P [a, b, c, d, e, f, g]"
    by blast
  with fs show ?thesis by simp
qed

section \<open>Properties\<close>

text \<open>C4: the ACL line parser accepts exactly the printed rules. A line yields the rule
  \<open>r\<close> if and only if the line without surrounding blanks is the printed form of
  \<open>r\<close> and \<open>r\<close> is well-formed: its subjects are wildcards or non-empty names, its
  filter is a valid topic filter without a colon.\<close>

theorem acl_parse_line_spec:
  "flowie_mqtt_acl_parse_line un (Span line) = Inr r \<longleftrightarrow>
     acl_trim line = join_fields (rule_fields r) \<and> acl_rule_ok un r"
proof (cases "acl_trim line = [] \<or> hd (acl_trim line) = ch_hash")
  case True
  then have "acl_trim line \<noteq> join_fields (rule_fields r)"
    by (cases "ar_effect r") (auto simp: rule_fields_def kw_defs)
  then show ?thesis using True by (auto simp: flowie_mqtt_acl_parse_line_def Let_def)
next
  case False
  have "length (rule_fields r) = 7" "rule_fields r \<noteq> []"
    by (simp_all add: rule_fields_def)
  moreover have "(\<forall>f \<in> set (rule_fields r). ch_colon \<notin> set f) \<longleftrightarrow>
      ch_colon \<notin> set (span_bytes (ar_topic_filter r))"
    if "\<forall>s \<in> {ar_role r, ar_scope r, ar_username r, ar_client_id r}. subject_ok s"
    using that by (simp add: rule_fields_def no_colon)
  ultimately show ?thesis
    using False by (auto simp: acl_parse_fields acl_fields_join acl_rule_ok_def)
qed

end
