(* ===== verification/Salts_Support.thy ===== *)
theory Salts_Support
  imports Flowie_Prelude "HOL-Library.Multiset"
begin

text \<open>
  The status codes and the few library services that the broker core takes from the Salts
  libraries. Containers are represented by what they hold: a \<open>vec\<close> is a list and a
  \<open>hash_map\<close> an association list. Whether an allocating call succeeds is not in the
  hands of the code, so the outcomes of the coming calls are part of the state: a list of
  STL statuses, consumed from the front, after whose end every call succeeds.
\<close>

section \<open>Status codes\<close>

datatype salts_error =
    SALTS_EINVAL | SALTS_EPROTO | SALTS_ENOMEM | SALTS_ERANGE | SALTS_EBUSY | SALTS_EMSGSIZE
  | SALTS_ENOSPC | SALTS_ENOENT | SALTS_ENOTSUP | SALTS_EIO | SALTS_EALREADY | SALTS_ENOTCONN
  | SALTS_EPERM | SALTS_ESHUTDOWN

datatype stl_status =
    STL_OK | STL_INVALID_ARGUMENT | STL_OUT_OF_MEMORY | STL_CAPACITY_EXCEEDED | STL_EMPTY
  | STL_NOT_FOUND | STL_TYPE_MISMATCH | STL_TRAIT_MISSING

definition flowie_stl_error :: "stl_status \<Rightarrow> salts_error + unit" where
  "flowie_stl_error status =
     (case status of
        STL_OK \<Rightarrow> Inr ()
      | STL_INVALID_ARGUMENT \<Rightarrow> Inl SALTS_EINVAL
      | STL_OUT_OF_MEMORY \<Rightarrow> Inl SALTS_ENOMEM
      | STL_CAPACITY_EXCEEDED \<Rightarrow> Inl SALTS_ENOSPC
      | STL_EMPTY \<Rightarrow> Inl SALTS_ENOENT
      | STL_NOT_FOUND \<Rightarrow> Inl SALTS_ENOENT
      | STL_TYPE_MISMATCH \<Rightarrow> Inl SALTS_EPROTO
      | STL_TRAIT_MISSING \<Rightarrow> Inl SALTS_EPROTO)"

type_synonym faults = "stl_status list"

section \<open>Operations on a state\<close>

text \<open>
  An operation returns a status with its outputs and the state it leaves behind, also when
  it fails.
\<close>

type_synonym ('s, 'a) op = "'s \<Rightarrow> (salts_error + 'a) \<times> 's"

definition oret :: "'a \<Rightarrow> ('s, 'a) op" where
  "oret x s = (Inr x, s)"

definition ofail :: "salts_error \<Rightarrow> ('s, 'a) op" where
  "ofail e s = (Inl e, s)"

definition obind :: "('s, 'a) op \<Rightarrow> ('a \<Rightarrow> ('s, 'b) op) \<Rightarrow> ('s, 'b) op" where
  "obind m f s = (case m s of (Inl e, s') \<Rightarrow> (Inl e, s') | (Inr x, s') \<Rightarrow> f x s')"

named_theorems op_simps \<open>equations that run an operation\<close>

lemma oret_run [op_simps, simp]: "oret x s = (Inr x, s)"
  by (simp add: oret_def)

lemma ofail_run [op_simps, simp]: "ofail e s = (Inl e, s)"
  by (simp add: ofail_def)

lemma obind_run [op_simps]:
  "m s = (Inl e, s') \<Longrightarrow> obind m f s = (Inl e, s')"
  "m s = (Inr x, s') \<Longrightarrow> obind m f s = f x s'"
  by (simp_all add: obind_def)

lemma obind_Inr_iff:
  "obind m f s = (Inr y, s') \<longleftrightarrow> (\<exists>x s1. m s = (Inr x, s1) \<and> f x s1 = (Inr y, s'))"
  by (auto simp: obind_def split: prod.splits sum.splits)

lemma obind_Inl_iff:
  "obind m f s = (Inl e, s') \<longleftrightarrow>
     m s = (Inl e, s') \<or> (\<exists>x s1. m s = (Inr x, s1) \<and> f x s1 = (Inl e, s'))"
  by (auto simp: obind_def split: prod.splits sum.splits)

lemma obind_cong [fundef_cong]:
  "m s = m' s' \<Longrightarrow> s = s' \<Longrightarrow> (\<And>x s1. m' s' = (Inr x, s1) \<Longrightarrow> f x s1 = g x s1) \<Longrightarrow>
     obind m f s = obind m' g s'"
  by (auto simp: obind_def split: prod.splits sum.splits)

text \<open>A relation between the states before and after that every step keeps, the whole
  operation keeps, whatever its status.\<close>

lemma obind_rel:
  assumes "obind m f s = (r, s')"
    and "\<And>r1 s1. m s = (r1, s1) \<Longrightarrow> R s s1"
    and "\<And>x s1 r2 s2. m s = (Inr x, s1) \<Longrightarrow> f x s1 = (r2, s2) \<Longrightarrow> R s s1 \<Longrightarrow> R s s2"
  shows "R s s'"
  using assms by (auto simp: obind_def split: prod.splits sum.splits)

section \<open>Vectors\<close>

text \<open>\<open>vec_swap_remove\<close> fills the hole with the last element.\<close>

definition swap_remove :: "nat \<Rightarrow> 'a list \<Rightarrow> 'a list" where
  "swap_remove i xs = butlast (xs[i := last xs])"

lemma length_swap_remove [simp]: "length (swap_remove i xs) = length xs - 1"
  by (simp add: swap_remove_def)

lemma swap_remove_nth:
  assumes "i < length xs" "j < length xs - 1"
  shows "swap_remove i xs ! j = (if j = i then last xs else xs ! j)"
  using assms by (auto simp: swap_remove_def nth_butlast)

lemma swap_remove_snoc:
  "swap_remove i (ys @ [z]) = (if i < length ys then ys[i := z] else ys)"
  by (simp add: swap_remove_def list_update_append split: nat.split)

lemma mset_swap_remove:
  assumes "i < length xs"
  shows "mset (swap_remove i xs) = mset xs - {#xs ! i#}"
proof -
  obtain ys z where xs: "xs = ys @ [z]"
    using assms by (cases xs rule: rev_cases) auto
  show ?thesis
  proof (cases "i < length ys")
    case True
    then have "ys ! i \<in># mset ys" by simp
    then have "add_mset z (mset ys) - {#ys ! i#} = add_mset z (mset ys - {#ys ! i#})"
      by (metis add_mset_remove_trivial add_mset_commute insert_DiffM)
    with True show ?thesis by (simp add: xs swap_remove_snoc mset_update nth_append)
  next
    case False
    with assms have "i = length ys" by (simp add: xs)
    then show ?thesis by (simp add: xs swap_remove_snoc)
  qed
qed

lemma distinct_swap_remove: "distinct xs \<Longrightarrow> distinct (swap_remove i xs)"
  by (cases xs rule: rev_cases) (auto simp: swap_remove_snoc distinct_list_update, simp add: swap_remove_def)

lemma set_swap_remove:
  assumes "distinct xs" "i < length xs"
  shows "set (swap_remove i xs) = set xs - {xs ! i}"
proof -
  obtain ys z where xs: "xs = ys @ [z]"
    using assms(2) by (cases xs rule: rev_cases) auto
  show ?thesis
  proof (cases "i < length ys")
    case True
    then show ?thesis
      using assms(1) by (auto simp: xs swap_remove_snoc set_update_distinct nth_append)
  next
    case False
    then have "i = length ys" using assms(2) xs by simp
    then show ?thesis using assms(1) by (simp add: xs swap_remove_snoc)
  qed
qed

end
