(* ===== verification/Topic_Index.thy ===== *)
theory Topic_Index
  imports Salts_Support Mqtt_Text
begin

text \<open>
  The topic filter trie of \<open>flowie/src/flowie_topic_index.c\<close>. Nodes live in a heap and
  point to their children and to their parent; a binding points into the entry vector of
  one node. Removal follows these pointers upwards, so the model keeps the heap explicit:
  an address is a number and the allocator hands out addresses in order. The two scratch
  vectors of the matcher, which every call clears first, are local values here. A pointer
  to a node that is not in the heap is never followed by the code; where the model has to
  say something, it reports a protocol error.
\<close>

section \<open>State\<close>

type_synonym addr = nat

record flowie_topic_node =
  tn_exact_children :: "(bytes \<times> addr) list"
  tn_terminal_entries :: "nat list"
  tn_hash_entries :: "nat list"
  tn_plus_child :: "addr option"
  tn_parent :: "addr option"
  tn_token :: "bytes option"
  tn_node_slot :: nat
  tn_plus_edge :: bool

type_synonym topic_heap = "addr \<Rightarrow> flowie_topic_node option"

record flowie_topic_index =
  ti_root :: "addr option"
  ti_nodes :: "addr list"
  ti_initialized :: bool
  ti_heap :: topic_heap
  ti_next :: addr
  ti_faults :: faults

datatype flowie_topic_bucket =
  FLOWIE_TOPIC_BUCKET_NONE | FLOWIE_TOPIC_BUCKET_TERMINAL | FLOWIE_TOPIC_BUCKET_HASH

record flowie_topic_index_binding =
  tb_node :: "addr option"
  tb_position :: nat
  tb_bucket :: flowie_topic_bucket

definition FLOWIE_TOPIC_INDEX_NO_ENTRY :: nat where
  "FLOWIE_TOPIC_INDEX_NO_ENTRY = 18446744073709551615"

definition binding_none :: flowie_topic_index_binding where
  "binding_none = \<lparr>tb_node = None, tb_position = 0, tb_bucket = FLOWIE_TOPIC_BUCKET_NONE\<rparr>"

section \<open>Creation\<close>

text \<open>One allocating container call, and one allocation that reports only failure.\<close>

definition topic_attempt :: "(flowie_topic_index, unit) op" where
  "topic_attempt index =
     (case ti_faults index of
        [] \<Rightarrow> (Inr (), index)
      | status # rest \<Rightarrow> (flowie_stl_error status, index\<lparr>ti_faults := rest\<rparr>))"

definition topic_alloc :: "(flowie_topic_index, unit) op" where
  "topic_alloc index =
     (case topic_attempt index of
        (Inl e, index') \<Rightarrow> (Inl SALTS_ENOMEM, index')
      | (Inr u, index') \<Rightarrow> (Inr u, index'))"

definition topic_node_add ::
    "addr option \<Rightarrow> bytes \<Rightarrow> bool \<Rightarrow> (flowie_topic_index, addr) op" where
  "topic_node_add parent token plus_edge index =
     (let node = \<lparr>tn_exact_children = [], tn_terminal_entries = [], tn_hash_entries = [],
                  tn_plus_child = None, tn_parent = parent,
                  tn_token = (if parent \<noteq> None \<and> \<not> plus_edge then Some token else None),
                  tn_node_slot = length (ti_nodes index), tn_plus_edge = plus_edge\<rparr>;
          a = ti_next index
      in (Inr a, index\<lparr>ti_heap := (ti_heap index)(a \<mapsto> node), ti_nodes := ti_nodes index @ [a],
                       ti_next := a + 1\<rparr>))"

definition flowie_topic_node_create ::
    "addr option \<Rightarrow> bytes \<Rightarrow> bool \<Rightarrow> (flowie_topic_index, addr) op" where
  "flowie_topic_node_create parent token plus_edge index =
     (if \<not> ti_initialized index then (Inl SALTS_EINVAL, index)
      else obind topic_alloc (\<lambda>_.
        obind (if parent \<noteq> None \<and> \<not> plus_edge then topic_alloc else oret ()) (\<lambda>_.
        obind topic_attempt (\<lambda>_. obind topic_attempt (\<lambda>_. obind topic_attempt (\<lambda>_.
        obind topic_attempt (\<lambda>_. topic_node_add parent token plus_edge)))))) index)"

definition topic_index_zero :: "flowie_topic_index \<Rightarrow> flowie_topic_index" where
  "topic_index_zero index =
     index\<lparr>ti_root := None, ti_nodes := [], ti_initialized := False, ti_heap := (\<lambda>_. None)\<rparr>"

definition flowie_topic_index_destroy :: "flowie_topic_index \<Rightarrow> flowie_topic_index" where
  "flowie_topic_index_destroy index =
     (if \<not> ti_initialized index then index else topic_index_zero index)"

definition flowie_topic_index_init :: "(flowie_topic_index, unit) op" where
  "flowie_topic_index_init index =
     obind topic_attempt (\<lambda>_. obind topic_attempt (\<lambda>_. obind topic_attempt (\<lambda>_ index.
       case flowie_topic_node_create None [] False (index\<lparr>ti_initialized := True\<rparr>) of
         (Inr a, index') \<Rightarrow> (Inr (), index'\<lparr>ti_root := Some a\<rparr>)
       | (Inl e, index') \<Rightarrow> (Inl e, flowie_topic_index_destroy index')))) (topic_index_zero index)"

section \<open>Insertion\<close>

definition flowie_topic_filter_inner :: "flowie_mqtt_span \<Rightarrow> flowie_mqtt_span" where
  "flowie_topic_filter_inner flt =
     (if span_size flt \<le> 7 \<or> take 7 (span_bytes flt) \<noteq> share_prefix then flt
      else let tail = dropWhile (\<lambda>c. c \<noteq> ch_slash) (drop 7 (span_bytes flt)) in
           if tail = [] then NullSpan 0 else Span (tl tail))"

definition topic_node_update ::
    "addr \<Rightarrow> (flowie_topic_node \<Rightarrow> flowie_topic_node) \<Rightarrow> flowie_topic_index \<Rightarrow> flowie_topic_index" where
  "topic_node_update a f index =
     (case ti_heap index a of
        None \<Rightarrow> index
      | Some node \<Rightarrow> index\<lparr>ti_heap := (ti_heap index)(a \<mapsto> f node)\<rparr>)"

text \<open>Undoing the creation of a node that could not be linked. It was pushed just before, so
  it is the last of the node vector (\<open>node_create_last\<close> in \<open>Topic_Index_Ops\<close>) and is popped;
  the other branch of the code, which clears its slot, is never taken.\<close>

definition topic_node_discard :: "addr \<Rightarrow> flowie_topic_index \<Rightarrow> flowie_topic_index" where
  "topic_node_discard a index =
     index\<lparr>ti_nodes := butlast (ti_nodes index), ti_heap := (ti_heap index)(a := None)\<rparr>"

definition flowie_topic_exact_child :: "addr \<Rightarrow> bytes \<Rightarrow> (flowie_topic_index, addr) op" where
  "flowie_topic_exact_child parent token index =
     (case ti_heap index parent of
        None \<Rightarrow> (Inl SALTS_EPROTO, index)
      | Some node \<Rightarrow>
          case map_of (tn_exact_children node) token of
            Some found \<Rightarrow> (Inr found, index)
          | None \<Rightarrow>
              obind (flowie_topic_node_create (Some parent) token False) (\<lambda>created index.
                case topic_attempt index of
                  (Inl e, index) \<Rightarrow> (Inl e, topic_node_discard created index)
                | (Inr u, index) \<Rightarrow>
                    (Inr created,
                     topic_node_update parent
                       (\<lambda>n. n\<lparr>tn_exact_children := AList.update token created (tn_exact_children n)\<rparr>) index)) index)"

definition topic_plus_child :: "addr \<Rightarrow> (flowie_topic_index, addr) op" where
  "topic_plus_child node index =
     (case ti_heap index node of
        None \<Rightarrow> (Inl SALTS_EPROTO, index)
      | Some n \<Rightarrow>
          case tn_plus_child n of
            Some child \<Rightarrow> (Inr child, index)
          | None \<Rightarrow>
              obind (flowie_topic_node_create (Some node) [] True) (\<lambda>created index.
                (Inr created, topic_node_update node (\<lambda>n. n\<lparr>tn_plus_child := Some created\<rparr>) index)) index)"

definition topic_push_entry ::
    "addr \<Rightarrow> flowie_topic_bucket \<Rightarrow> nat \<Rightarrow> (flowie_topic_index, flowie_topic_index_binding) op" where
  "topic_push_entry node bucket entry_index =
     obind topic_attempt (\<lambda>_ index.
       case ti_heap index node of
         None \<Rightarrow> (Inl SALTS_EPROTO, index)
       | Some n \<Rightarrow>
           if bucket = FLOWIE_TOPIC_BUCKET_HASH
           then (Inr \<lparr>tb_node = Some node, tb_position = length (tn_hash_entries n), tb_bucket = bucket\<rparr>,
                 topic_node_update node (\<lambda>n. n\<lparr>tn_hash_entries := tn_hash_entries n @ [entry_index]\<rparr>) index)
           else (Inr \<lparr>tb_node = Some node, tb_position = length (tn_terminal_entries n), tb_bucket = bucket\<rparr>,
                 topic_node_update node
                   (\<lambda>n. n\<lparr>tn_terminal_entries := tn_terminal_entries n @ [entry_index]\<rparr>) index))"

function topic_insert_loop ::
    "nat \<Rightarrow> addr \<Rightarrow> bytes \<Rightarrow> (flowie_topic_index, flowie_topic_index_binding) op" where
  "topic_insert_loop entry_index node rest index =
     (case flowie_mqtt_next_level rest of (token, slash, rest') \<Rightarrow>
        if token = [ch_hash] then
          (if slash then (Inl SALTS_EPROTO, index)
           else topic_push_entry node FLOWIE_TOPIC_BUCKET_HASH entry_index index)
        else
          obind (if token = [ch_plus] then topic_plus_child node else flowie_topic_exact_child node token)
            (\<lambda>child index.
               if slash then topic_insert_loop entry_index child rest' index
               else topic_push_entry child FLOWIE_TOPIC_BUCKET_TERMINAL entry_index index) index)"
  by pat_completeness auto
termination
  by (relation "measure (\<lambda>(entry_index, node, rest, index). length rest)")
     (auto dest: next_level_shorter [OF sym])

declare topic_insert_loop.simps [simp del]

definition flowie_topic_index_insert_bound ::
    "flowie_mqtt_span \<Rightarrow> nat \<Rightarrow> (flowie_topic_index, flowie_topic_index_binding) op" where
  "flowie_topic_index_insert_bound flt entry_index index =
     (case ti_root index of
        None \<Rightarrow> (Inl SALTS_EINVAL, index)
      | Some root \<Rightarrow>
          if span_null flt \<or> span_size flt = 0 then (Inl SALTS_EINVAL, index)
          else let inner = flowie_topic_filter_inner flt in
               if span_null inner \<or> span_size inner = 0 then (Inl SALTS_EPROTO, index)
               else topic_insert_loop entry_index root (span_bytes inner) index)"

definition flowie_topic_index_insert :: "flowie_mqtt_span \<Rightarrow> nat \<Rightarrow> (flowie_topic_index, unit) op" where
  "flowie_topic_index_insert flt entry_index =
     obind (flowie_topic_index_insert_bound flt entry_index) (\<lambda>ignored. oret ())"

section \<open>Removal\<close>

definition flowie_topic_node_empty :: "flowie_topic_node \<Rightarrow> bool" where
  "flowie_topic_node_empty node \<longleftrightarrow>
     tn_plus_child node = None \<and> tn_exact_children node = [] \<and>
     tn_terminal_entries node = [] \<and> tn_hash_entries node = []"

text \<open>Cutting the edge from the parent: \<open>None\<close> when parent and child disagree.\<close>

definition topic_unlink :: "addr \<Rightarrow> flowie_topic_node \<Rightarrow> flowie_topic_node \<Rightarrow> flowie_topic_node option" where
  "topic_unlink a node parent =
     (if tn_plus_edge node
      then (if tn_plus_child parent \<noteq> Some a then None else Some (parent\<lparr>tn_plus_child := None\<rparr>))
      else case tn_token node of
             None \<Rightarrow> None
           | Some token \<Rightarrow>
               if map_of (tn_exact_children parent) token = None then None
               else Some (parent\<lparr>tn_exact_children := AList.delete token (tn_exact_children parent)\<rparr>))"

text \<open>Taking the node out of the node vector: the last node moves into its slot, and its
  slot number follows.\<close>

definition topic_slot_remove :: "nat \<Rightarrow> flowie_topic_index \<Rightarrow> flowie_topic_index" where
  "topic_slot_remove slot index =
     (let index = index\<lparr>ti_nodes := swap_remove slot (ti_nodes index)\<rparr> in
      if slot < length (ti_nodes index)
      then topic_node_update (ti_nodes index ! slot) (\<lambda>n. n\<lparr>tn_node_slot := slot\<rparr>) index
      else index)"

definition topic_node_free :: "addr \<Rightarrow> flowie_topic_index \<Rightarrow> flowie_topic_index" where
  "topic_node_free a index = index\<lparr>ti_heap := (ti_heap index)(a := None)\<rparr>"

function flowie_topic_index_prune :: "addr \<Rightarrow> (flowie_topic_index, unit) op" where
  "flowie_topic_index_prune a index =
     (case ti_heap index a of
        None \<Rightarrow> (Inl SALTS_EPROTO, index)
      | Some node \<Rightarrow>
          if ti_root index = Some a \<or> \<not> flowie_topic_node_empty node then (Inr (), index)
          else case tn_parent node of
            None \<Rightarrow> (Inl SALTS_EPROTO, index)
          | Some p \<Rightarrow>
              if tn_node_slot node \<ge> length (ti_nodes index) then (Inl SALTS_EPROTO, index)
              else case ti_heap index p of
                None \<Rightarrow> (Inl SALTS_EPROTO, index)
              | Some parent \<Rightarrow>
                  case topic_unlink a node parent of
                    None \<Rightarrow> (Inl SALTS_EPROTO, index)
                  | Some parent' \<Rightarrow>
                      let index = index\<lparr>ti_heap := (ti_heap index)(p \<mapsto> parent')\<rparr> in
                      if ti_nodes index ! tn_node_slot node \<noteq> a then (Inl SALTS_EPROTO, index)
                      else flowie_topic_index_prune p
                             (topic_node_free a (topic_slot_remove (tn_node_slot node) index)))"
  by pat_completeness auto
termination
proof (relation "measure (\<lambda>(a, index). length (ti_nodes index))", goal_cases)
  case 1
  then show ?case by simp
next
  case (2 a index node p parent parent' index')
  then show ?case
    by (auto simp: topic_node_free_def topic_slot_remove_def topic_node_update_def Let_def split: option.splits)
qed

declare flowie_topic_index_prune.simps [simp del]

definition bucket_entries :: "flowie_topic_bucket \<Rightarrow> flowie_topic_node \<Rightarrow> nat list option" where
  "bucket_entries bucket node =
     (case bucket of
        FLOWIE_TOPIC_BUCKET_TERMINAL \<Rightarrow> Some (tn_terminal_entries node)
      | FLOWIE_TOPIC_BUCKET_HASH \<Rightarrow> Some (tn_hash_entries node)
      | FLOWIE_TOPIC_BUCKET_NONE \<Rightarrow> None)"

definition bucket_set ::
    "flowie_topic_bucket \<Rightarrow> nat list \<Rightarrow> flowie_topic_node \<Rightarrow> flowie_topic_node" where
  "bucket_set bucket entries node =
     (if bucket = FLOWIE_TOPIC_BUCKET_HASH then node\<lparr>tn_hash_entries := entries\<rparr>
      else node\<lparr>tn_terminal_entries := entries\<rparr>)"

text \<open>The result carries the cleared binding and the entry that moved, or the reserved
  number for none.\<close>

definition flowie_topic_index_remove ::
    "flowie_topic_index_binding \<Rightarrow> nat \<Rightarrow>
       (flowie_topic_index, flowie_topic_index_binding \<times> nat) op" where
  "flowie_topic_index_remove binding entry_index index =
     (case (ti_root index, tb_node binding) of
        (Some root, Some a) \<Rightarrow>
          (case ti_heap index a of
             None \<Rightarrow> (Inl SALTS_EPROTO, index)
           | Some node \<Rightarrow>
               case bucket_entries (tb_bucket binding) node of
                 None \<Rightarrow> (Inl SALTS_EINVAL, index)
               | Some entries \<Rightarrow>
                   let position = tb_position binding in
                   if \<not> position < length entries \<or> entries ! position \<noteq> entry_index
                   then (Inl SALTS_EPROTO, index)
                   else
                   let moved = (if position + 1 \<noteq> length entries then last entries
                                else FLOWIE_TOPIC_INDEX_NO_ENTRY);
                       index = topic_node_update a
                                 (bucket_set (tb_bucket binding) (swap_remove position entries)) index
                   in obind (flowie_topic_index_prune a) (\<lambda>_. oret (binding_none, moved)) index)
      | _ \<Rightarrow> (Inl SALTS_EINVAL, index))"

section \<open>Matching\<close>

text \<open>
  The broker's own matcher walks the trie level by level with a vector of active nodes.
  Pushing to a vector can fail; the caller's vector then holds what was appended so far,
  which the model drops with the failure.
\<close>

fun flowie_topic_entries_append :: "nat list \<Rightarrow> nat list \<Rightarrow> (flowie_topic_index, nat list) op" where
  "flowie_topic_entries_append matched [] = oret matched"
| "flowie_topic_entries_append matched (entry # entries) =
     obind topic_attempt (\<lambda>_. flowie_topic_entries_append (matched @ [entry]) entries)"

definition topic_push_node ::
    "nat list \<Rightarrow> addr list \<Rightarrow> addr option \<Rightarrow> (flowie_topic_index, nat list \<times> addr list) op" where
  "topic_push_node matched nexts child =
     (case child of
        None \<Rightarrow> oret (matched, nexts)
      | Some a \<Rightarrow> obind topic_attempt (\<lambda>_. oret (matched, nexts @ [a])))"

fun topic_match_active ::
    "bool \<Rightarrow> bytes \<Rightarrow> addr list \<Rightarrow> nat list \<Rightarrow> addr list \<Rightarrow>
       (flowie_topic_index, nat list \<times> addr list) op" where
  "topic_match_active skip token [] matched nexts index = oret (matched, nexts) index"
| "topic_match_active skip token (a # active) matched nexts index =
     (case ti_heap index a of
        None \<Rightarrow> (Inl SALTS_EPROTO, index)
      | Some node \<Rightarrow>
          obind (if \<not> skip
                 then obind (flowie_topic_entries_append matched (tn_hash_entries node)) (\<lambda>matched.
                        topic_push_node matched nexts (tn_plus_child node))
                 else oret (matched, nexts)) (\<lambda>(matched, nexts).
          obind (topic_push_node matched nexts (map_of (tn_exact_children node) token)) (\<lambda>(matched, nexts).
            topic_match_active skip token active matched nexts)) index)"

function topic_match_levels ::
    "bool \<Rightarrow> bytes \<Rightarrow> bool \<Rightarrow> addr list \<Rightarrow> nat list \<Rightarrow>
       (flowie_topic_index, nat list \<times> addr list) op" where
  "topic_match_levels dollar rest first_level active matched index =
     (case flowie_mqtt_next_level rest of (token, slash, rest') \<Rightarrow>
        obind (topic_match_active (first_level \<and> dollar) token active matched [])
          (\<lambda>(matched, nexts) index.
             if \<not> slash then oret (matched, nexts) index
             else if nexts = [] then oret (matched, []) index
             else topic_match_levels dollar rest' False nexts matched index) index)"
  by pat_completeness auto
termination
  by (relation "measure (\<lambda>(dollar, rest, first_level, active, matched, index). length rest)")
     (auto dest: next_level_shorter [OF sym])

declare topic_match_levels.simps [simp del]

fun topic_match_finish :: "addr list \<Rightarrow> nat list \<Rightarrow> (flowie_topic_index, nat list) op" where
  "topic_match_finish [] matched index = oret matched index"
| "topic_match_finish (a # nexts) matched index =
     (case ti_heap index a of
        None \<Rightarrow> (Inl SALTS_EPROTO, index)
      | Some node \<Rightarrow>
          obind (flowie_topic_entries_append matched (tn_terminal_entries node)) (\<lambda>matched.
          obind (flowie_topic_entries_append matched (tn_hash_entries node)) (\<lambda>matched.
            topic_match_finish nexts matched)) index)"

definition flowie_topic_index_match ::
    "flowie_mqtt_span \<Rightarrow> nat list \<Rightarrow> (flowie_topic_index, nat list) op" where
  "flowie_topic_index_match topic matched index =
     (case ti_root index of
        None \<Rightarrow> (Inl SALTS_EINVAL, index)
      | Some root \<Rightarrow>
          if span_null topic \<or> span_size topic = 0 then (Inl SALTS_EINVAL, index)
          else obind topic_attempt (\<lambda>_.
            obind (topic_match_levels (hd (span_bytes topic) = ch_dollar) (span_bytes topic) True [root] matched)
              (\<lambda>(matched, nexts). topic_match_finish nexts matched)) index)"

text \<open>
  A visitor gets its context and one entry, and returns the new context or an error that
  ends the walk.
\<close>

type_synonym 'c topic_visitor = "'c \<Rightarrow> nat \<Rightarrow> salts_error + 'c"

fun flowie_topic_entries_visit :: "nat list \<Rightarrow> 'c topic_visitor \<Rightarrow> 'c \<Rightarrow> salts_error + 'c" where
  "flowie_topic_entries_visit [] visit ctx = Inr ctx"
| "flowie_topic_entries_visit (entry # entries) visit ctx =
     rbind (visit ctx entry) (flowie_topic_entries_visit entries visit)"

definition flowie_topic_node_visit_end ::
    "flowie_topic_node option \<Rightarrow> 'c topic_visitor \<Rightarrow> 'c \<Rightarrow> salts_error + 'c" where
  "flowie_topic_node_visit_end node visit ctx =
     (case node of
        None \<Rightarrow> Inl SALTS_EPROTO
      | Some n \<Rightarrow>
          rbind (flowie_topic_entries_visit (tn_terminal_entries n) visit ctx)
            (flowie_topic_entries_visit (tn_hash_entries n) visit))"

function flowie_topic_index_visit_topic_node ::
    "topic_heap \<Rightarrow> addr \<Rightarrow> bool \<Rightarrow> bytes \<Rightarrow> bool \<Rightarrow> 'c topic_visitor \<Rightarrow> 'c \<Rightarrow> salts_error + 'c" where
  "flowie_topic_index_visit_topic_node heap a dollar rest first_level visit ctx =
     (case heap a of
        None \<Rightarrow> Inl SALTS_EPROTO
      | Some node \<Rightarrow>
          case flowie_mqtt_next_level rest of (token, slash, rest') \<Rightarrow>
            rbind (if \<not> (first_level \<and> dollar)
                   then flowie_topic_entries_visit (tn_hash_entries node) visit ctx else Inr ctx) (\<lambda>ctx.
            rbind (case map_of (tn_exact_children node) token of
                     None \<Rightarrow> Inr ctx
                   | Some exact \<Rightarrow>
                       if \<not> slash then flowie_topic_node_visit_end (heap exact) visit ctx
                       else flowie_topic_index_visit_topic_node heap exact dollar rest' False visit ctx) (\<lambda>ctx.
            case tn_plus_child node of
              Some child \<Rightarrow>
                if first_level \<and> dollar then Inr ctx
                else if \<not> slash then flowie_topic_node_visit_end (heap child) visit ctx
                else flowie_topic_index_visit_topic_node heap child dollar rest' False visit ctx
            | None \<Rightarrow> Inr ctx)))"
  by pat_completeness auto
termination
  by (relation "measure (\<lambda>(heap, a, dollar, rest, first_level, visit, ctx). length rest)")
     (auto dest: next_level_shorter [OF sym])

declare flowie_topic_index_visit_topic_node.simps [simp del]

definition flowie_topic_index_visit_validated_topic ::
    "flowie_topic_index \<Rightarrow> flowie_mqtt_span \<Rightarrow> 'c topic_visitor \<Rightarrow> 'c \<Rightarrow> salts_error + 'c" where
  "flowie_topic_index_visit_validated_topic index topic visit ctx =
     (if \<not> ti_initialized index \<or> span_null topic \<or> span_size topic = 0 then Inl SALTS_EINVAL
      else case ti_root index of
             None \<Rightarrow> Inl SALTS_EINVAL
           | Some root \<Rightarrow>
               flowie_topic_index_visit_topic_node (ti_heap index) root
                 (hd (span_bytes topic) = ch_dollar) (span_bytes topic) True visit ctx)"

definition flowie_topic_index_visit_topic ::
    "utf8_next \<Rightarrow> flowie_topic_index \<Rightarrow> flowie_mqtt_span \<Rightarrow> 'c topic_visitor \<Rightarrow> 'c \<Rightarrow> salts_error + 'c" where
  "flowie_topic_index_visit_topic un index topic visit ctx =
     (if \<not> flowie_mqtt_topic_name_validate un topic then Inl SALTS_EINVAL
      else flowie_topic_index_visit_validated_topic index topic visit ctx)"

text \<open>The filters that contain a requested filter.\<close>

function flowie_topic_index_visit_containing_node ::
    "topic_heap \<Rightarrow> addr \<Rightarrow> bytes \<Rightarrow> bool \<Rightarrow> 'c topic_visitor \<Rightarrow> 'c \<Rightarrow> salts_error + 'c" where
  "flowie_topic_index_visit_containing_node heap a rest first_level visit ctx =
     (case heap a of
        None \<Rightarrow> Inl SALTS_EPROTO
      | Some node \<Rightarrow>
          case flowie_mqtt_next_level rest of (token, slash, rest') \<Rightarrow>
            let requested_system = first_level \<and> token \<noteq> [] \<and> hd token = ch_dollar in
            rbind (if \<not> requested_system
                   then flowie_topic_entries_visit (tn_hash_entries node) visit ctx else Inr ctx) (\<lambda>ctx.
            if token = [ch_hash] then Inr ctx
            else
            rbind (if token \<noteq> [ch_plus]
                   then case map_of (tn_exact_children node) token of
                     None \<Rightarrow> Inr ctx
                   | Some exact \<Rightarrow>
                       if \<not> slash then flowie_topic_node_visit_end (heap exact) visit ctx
                       else flowie_topic_index_visit_containing_node heap exact rest' False visit ctx
                   else Inr ctx) (\<lambda>ctx.
            case tn_plus_child node of
              Some child \<Rightarrow>
                if requested_system then Inr ctx
                else if \<not> slash then flowie_topic_node_visit_end (heap child) visit ctx
                else flowie_topic_index_visit_containing_node heap child rest' False visit ctx
            | None \<Rightarrow> Inr ctx)))"
  by pat_completeness auto
termination
  by (relation "measure (\<lambda>(heap, a, rest, first_level, visit, ctx). length rest)")
     (auto dest: next_level_shorter [OF sym])

declare flowie_topic_index_visit_containing_node.simps [simp del]

definition flowie_topic_index_visit_validated_containing_filters ::
    "flowie_topic_index \<Rightarrow> flowie_mqtt_span \<Rightarrow> 'c topic_visitor \<Rightarrow> 'c \<Rightarrow> salts_error + 'c" where
  "flowie_topic_index_visit_validated_containing_filters index requested visit ctx =
     (if \<not> ti_initialized index \<or> span_null requested \<or> span_size requested = 0 then Inl SALTS_EINVAL
      else case ti_root index of
             None \<Rightarrow> Inl SALTS_EINVAL
           | Some root \<Rightarrow>
               let inner = flowie_topic_filter_inner requested in
               if span_null inner \<or> span_size inner = 0 then Inl SALTS_EINVAL
               else flowie_topic_index_visit_containing_node (ti_heap index) root (span_bytes inner) True
                      visit ctx)"

definition flowie_topic_index_visit_containing_filters ::
    "utf8_next \<Rightarrow> flowie_topic_index \<Rightarrow> flowie_mqtt_span \<Rightarrow> 'c topic_visitor \<Rightarrow> 'c \<Rightarrow> salts_error + 'c" where
  "flowie_topic_index_visit_containing_filters un index requested visit ctx =
     (if \<not> flowie_mqtt_topic_filter_validate un requested then Inl SALTS_EINVAL
      else flowie_topic_index_visit_validated_containing_filters index requested visit ctx)"

end
