(* ===== verification/Topic_Index_Tree.thy ===== *)
theory Topic_Index_Tree
  imports Topic_Index
begin

text \<open>
  The topic index is a tree. The invariant gives every node of the heap its path, the list
  of levels that leads to it from the root; paths are unique, child pointers extend a path
  by one level and parent pointers shorten it by one. The content of the index is a bucket
  of entries for every filter. Insertion, removal and pruning are shown to keep the
  invariant and to change exactly one bucket.
\<close>

section \<open>Paths\<close>

definition node_child :: "flowie_topic_node \<Rightarrow> bytes \<Rightarrow> addr option" where
  "node_child node level =
     (if level = [ch_plus] then tn_plus_child node else map_of (tn_exact_children node) level)"

definition node_keys_ok :: "flowie_topic_node \<Rightarrow> bool" where
  "node_keys_ok node \<longleftrightarrow>
     [ch_plus] \<notin> fst ` set (tn_exact_children node) \<and> [ch_hash] \<notin> fst ` set (tn_exact_children node) \<and>
     distinct (map fst (tn_exact_children node))"

definition node_label :: "flowie_topic_node \<Rightarrow> bytes \<Rightarrow> bool" where
  "node_label node level \<longleftrightarrow>
     (if tn_plus_edge node then level = [ch_plus]
      else tn_token node = Some level \<and> level \<noteq> [ch_plus] \<and> level \<noteq> [ch_hash])"

text \<open>The node at \<open>a\<close> points to exactly the nodes one level below it, and back to the
  node one level above it; \<open>D\<close> is the set of all nodes.\<close>

definition node_links :: "addr set \<Rightarrow> (addr \<Rightarrow> bytes list) \<Rightarrow> addr \<Rightarrow> flowie_topic_node \<Rightarrow> bool" where
  "node_links D pos a node \<longleftrightarrow>
     (\<forall>level b. node_child node level = Some b \<longleftrightarrow> b \<in> D \<and> pos b = pos a @ [level])"

definition node_up ::
    "addr set \<Rightarrow> addr \<Rightarrow> (addr \<Rightarrow> bytes list) \<Rightarrow> addr \<Rightarrow> flowie_topic_node \<Rightarrow> bool" where
  "node_up D root pos a node \<longleftrightarrow>
     (if a = root then tn_parent node = None
      else \<exists>p level. tn_parent node = Some p \<and> p \<in> D \<and> pos a = pos p @ [level] \<and> node_label node level)"

definition node_ok ::
    "addr set \<Rightarrow> addr \<Rightarrow> (addr \<Rightarrow> bytes list) \<Rightarrow> addr \<Rightarrow> flowie_topic_node \<Rightarrow> bool" where
  "node_ok D root pos a node \<longleftrightarrow>
     node_keys_ok node \<and> node_links D pos a node \<and> node_up D root pos a node"

definition tree_ok :: "topic_heap \<Rightarrow> addr \<Rightarrow> (addr \<Rightarrow> bytes list) \<Rightarrow> bool" where
  "tree_ok heap root pos \<longleftrightarrow>
     root \<in> dom heap \<and> pos root = [] \<and> inj_on pos (dom heap) \<and>
     (\<forall>a node. heap a = Some node \<longrightarrow> node_ok (dom heap) root pos a node)"

lemma tree_okD:
  assumes "tree_ok heap root pos"
  shows "root \<in> dom heap" "pos root = []" "inj_on pos (dom heap)"
    "\<And>a node. heap a = Some node \<Longrightarrow> node_ok (dom heap) root pos a node"
  using assms by (auto simp: tree_ok_def)

lemma tree_child_iff:
  "tree_ok heap root pos \<Longrightarrow> heap a = Some node \<Longrightarrow>
     node_child node level = Some b \<longleftrightarrow> b \<in> dom heap \<and> pos b = pos a @ [level]"
  by (auto simp: tree_ok_def node_ok_def node_links_def)

lemma tree_pos_inj:
  "tree_ok heap root pos \<Longrightarrow> a \<in> dom heap \<Longrightarrow> b \<in> dom heap \<Longrightarrow> pos a = pos b \<longleftrightarrow> a = b"
  using tree_okD(3) [of heap root pos] inj_on_eq_iff [of pos "dom heap" a b] by blast

lemma tree_parent:
  assumes "tree_ok heap root pos" "heap a = Some node" "a \<noteq> root"
  obtains p level where "tn_parent node = Some p" "p \<in> dom heap" "pos a = pos p @ [level]"
    "node_label node level"
  using tree_okD(4) [OF assms(1,2)] assms(3) by (auto simp: node_ok_def node_up_def)

lemma tree_prefix:
  assumes "tree_ok heap root pos" "a \<in> dom heap" "pos a = xs @ ys"
  shows "\<exists>c \<in> dom heap. pos c = xs"
  using assms(2,3)
proof (induction ys arbitrary: a rule: rev_induct)
  case Nil
  then show ?case by auto
next
  case (snoc y ys)
  obtain node where node: "heap a = Some node" using snoc.prems by auto
  have "a \<noteq> root" using snoc.prems(2) tree_okD(2) [OF assms(1)] by auto
  then obtain p level where "p \<in> dom heap" "pos a = pos p @ [level]"
    using tree_parent [OF assms(1) node] by metis
  then show ?case using snoc by simp
qed

primrec walk :: "topic_heap \<Rightarrow> addr \<Rightarrow> bytes list \<Rightarrow> addr option" where
  "walk heap a [] = Some a"
| "walk heap a (level # levels) =
     (case heap a of
        None \<Rightarrow> None
      | Some node \<Rightarrow> Option.bind (node_child node level) (\<lambda>b. walk heap b levels))"

lemma walk_pos:
  assumes "tree_ok heap root pos" "a \<in> dom heap"
  shows "walk heap a levels = Some b \<longleftrightarrow> b \<in> dom heap \<and> pos b = pos a @ levels"
  using assms(2)
proof (induction levels arbitrary: a)
  case Nil
  then show ?case using tree_pos_inj [OF assms(1)] by auto
next
  case (Cons level levels)
  obtain node where node: "heap a = Some node" using Cons.prems by auto
  have "walk heap a (level # levels) = Some b \<longleftrightarrow>
      (\<exists>c. node_child node level = Some c \<and> walk heap c levels = Some b)"
    using node by (auto simp: Option.bind_eq_Some_conv)
  also have "\<dots> \<longleftrightarrow> (\<exists>c \<in> dom heap. pos c = pos a @ [level] \<and> b \<in> dom heap \<and> pos b = pos c @ levels)"
    using tree_child_iff [OF assms(1) node] Cons.IH by blast
  also have "\<dots> \<longleftrightarrow> b \<in> dom heap \<and> pos b = pos a @ level # levels"
    using tree_prefix [OF assms(1), of b "pos a @ [level]" levels] by fastforce
  finally show ?case .
qed

section \<open>Content\<close>

definition terminal_at :: "topic_heap \<Rightarrow> addr \<Rightarrow> bytes list \<Rightarrow> nat list" where
  "terminal_at heap a levels =
     (case Option.bind (walk heap a levels) heap of None \<Rightarrow> [] | Some node \<Rightarrow> tn_terminal_entries node)"

definition hash_at :: "topic_heap \<Rightarrow> addr \<Rightarrow> bytes list \<Rightarrow> nat list" where
  "hash_at heap a levels =
     (case Option.bind (walk heap a levels) heap of None \<Rightarrow> [] | Some node \<Rightarrow> tn_hash_entries node)"

definition bucket_at :: "topic_heap \<Rightarrow> addr \<Rightarrow> bytes list \<Rightarrow> nat list" where
  "bucket_at heap a levels =
     (if levels \<noteq> [] \<and> last levels = [ch_hash] then hash_at heap a (butlast levels)
      else terminal_at heap a levels)"

text \<open>The entries of the index under a filter, given by its levels.\<close>

definition topic_bucket :: "flowie_topic_index \<Rightarrow> bytes list \<Rightarrow> nat list" where
  "topic_bucket index levels =
     (case ti_root index of None \<Rightarrow> [] | Some root \<Rightarrow> bucket_at (ti_heap index) root levels)"

section \<open>The invariant\<close>

definition slots_ok :: "addr list \<Rightarrow> topic_heap \<Rightarrow> bool" where
  "slots_ok nodes heap \<longleftrightarrow>
     distinct nodes \<and> set nodes = dom heap \<and>
     (\<forall>i < length nodes. \<exists>node. heap (nodes ! i) = Some node \<and> tn_node_slot node = i)"

definition index_tree :: "flowie_topic_index \<Rightarrow> addr \<Rightarrow> (addr \<Rightarrow> bytes list) \<Rightarrow> bool" where
  "index_tree index root pos \<longleftrightarrow>
     ti_initialized index \<and> ti_root index = Some root \<and> tree_ok (ti_heap index) root pos \<and>
     slots_ok (ti_nodes index) (ti_heap index) \<and> (\<forall>a \<in> dom (ti_heap index). a < ti_next index)"

definition topic_index_ok :: "flowie_topic_index \<Rightarrow> bool" where
  "topic_index_ok index \<longleftrightarrow> (\<exists>root pos. index_tree index root pos)"

lemma walk_root:
  "tree_ok heap root pos \<Longrightarrow> walk heap root levels = Some b \<longleftrightarrow> b \<in> dom heap \<and> pos b = levels"
  using walk_pos [of heap root pos root levels b] tree_okD [of heap root pos] by auto

lemma content_at_node:
  assumes "tree_ok heap root pos" "heap a = Some node"
  shows "terminal_at heap root (pos a) = tn_terminal_entries node"
    "hash_at heap root (pos a) = tn_hash_entries node"
proof -
  have "walk heap root (pos a) = Some a" using assms by (auto simp: walk_root)
  then show "terminal_at heap root (pos a) = tn_terminal_entries node"
      "hash_at heap root (pos a) = tn_hash_entries node"
    using assms(2) by (simp_all add: terminal_at_def hash_at_def)
qed

lemma content_nowhere:
  assumes "tree_ok heap root pos" "levels \<notin> pos ` dom heap"
  shows "terminal_at heap root levels = []" "hash_at heap root levels = []"
proof -
  have "walk heap root levels = None"
  proof (cases "walk heap root levels")
    case (Some b)
    then have "b \<in> dom heap" "pos b = levels" using walk_root [OF assms(1)] by auto
    then show ?thesis using assms(2) by blast
  qed simp
  then show "terminal_at heap root levels = []" "hash_at heap root levels = []"
    by (simp_all add: terminal_at_def hash_at_def)
qed

text \<open>Two trees that agree on the paths of the nodes with entries have the same content.\<close>

lemma content_eq:
  assumes "tree_ok heap root pos" "tree_ok heap' root pos'"
    and "\<And>a node. heap a = Some node \<Longrightarrow> tn_terminal_entries node \<noteq> [] \<or> tn_hash_entries node \<noteq> [] \<Longrightarrow>
      \<exists>node'. heap' a = Some node' \<and> pos' a = pos a \<and>
        tn_terminal_entries node' = tn_terminal_entries node \<and> tn_hash_entries node' = tn_hash_entries node"
    and "\<And>a node'. heap' a = Some node' \<Longrightarrow> tn_terminal_entries node' \<noteq> [] \<or> tn_hash_entries node' \<noteq> [] \<Longrightarrow>
      \<exists>node. heap a = Some node \<and> pos' a = pos a \<and>
        tn_terminal_entries node' = tn_terminal_entries node \<and> tn_hash_entries node' = tn_hash_entries node"
  shows "terminal_at heap' root levels = terminal_at heap root levels \<and>
    hash_at heap' root levels = hash_at heap root levels"
proof -
  have half: "terminal_at h2 root levels = terminal_at h1 root levels \<and> hash_at h2 root levels = hash_at h1 root levels"
    if t: "tree_ok h1 root p1" "tree_ok h2 root p2" and a: "h1 a = Some node" "p1 a = levels"
      and e: "tn_terminal_entries node \<noteq> [] \<or> tn_hash_entries node \<noteq> []"
      and imp: "tn_terminal_entries node \<noteq> [] \<or> tn_hash_entries node \<noteq> [] \<Longrightarrow> \<exists>node'. h2 a = Some node' \<and> p2 a = p1 a \<and>
        tn_terminal_entries node' = tn_terminal_entries node \<and> tn_hash_entries node' = tn_hash_entries node"
    for h1 h2 p1 p2 a node
    using imp [OF e] content_at_node [OF t(1) a(1)] content_at_node [OF t(2), of a] a(2) by fastforce
  have empty: "(terminal_at h root levels = [] \<and> hash_at h root levels = []) \<or>
      (\<exists>a node. h a = Some node \<and> p a = levels \<and> (tn_terminal_entries node \<noteq> [] \<or> tn_hash_entries node \<noteq> []))"
    if "tree_ok h root p" for h p
  proof (cases "levels \<in> p ` dom h")
    case True
    then obtain a node where "h a = Some node" "p a = levels" by auto
    then show ?thesis using content_at_node [OF that, of a node] by auto
  next
    case False
    then show ?thesis using content_nowhere [OF that] by blast
  qed
  consider a node where "heap a = Some node" "pos a = levels"
      "tn_terminal_entries node \<noteq> [] \<or> tn_hash_entries node \<noteq> []"
    | a node where "heap' a = Some node" "pos' a = levels"
      "tn_terminal_entries node \<noteq> [] \<or> tn_hash_entries node \<noteq> []"
    | "terminal_at heap root levels = [] \<and> hash_at heap root levels = []"
      "terminal_at heap' root levels = [] \<and> hash_at heap' root levels = []"
    using empty [OF assms(1)] empty [OF assms(2)] by blast
  then show ?thesis
  proof cases
    case (1 a node)
    then show ?thesis using half [OF assms(1,2) 1] assms(3) [OF 1(1,3)] by blast
  next
    case (2 a node)
    have "\<exists>node'. heap a = Some node' \<and> pos a = pos' a \<and>
        tn_terminal_entries node' = tn_terminal_entries node \<and> tn_hash_entries node' = tn_hash_entries node"
      using assms(4) [OF 2(1,3)] by force
    then show ?thesis using half [OF assms(2,1) 2] by simp
  next
    case 3
    then show ?thesis by simp
  qed
qed

lemma bucket_eq:
  assumes "\<And>levels. terminal_at heap' root levels = terminal_at heap root levels \<and>
    hash_at heap' root levels = hash_at heap root levels"
  shows "bucket_at heap' root levels = bucket_at heap root levels"
  using assms by (simp add: bucket_at_def)

section \<open>Changes of the heap\<close>

text \<open>A change that leaves the shape of a node alone.\<close>

definition same_shape :: "flowie_topic_node \<Rightarrow> flowie_topic_node \<Rightarrow> bool" where
  "same_shape n n' \<longleftrightarrow>
     tn_exact_children n' = tn_exact_children n \<and> tn_plus_child n' = tn_plus_child n \<and>
     tn_parent n' = tn_parent n \<and> tn_token n' = tn_token n \<and> tn_plus_edge n' = tn_plus_edge n"

lemma node_ok_cong:
  "same_shape n n' \<Longrightarrow> node_ok D root pos a n' \<longleftrightarrow> node_ok D root pos a n"
  by (simp add: node_ok_def node_keys_ok_def node_links_def node_up_def node_child_def node_label_def
      same_shape_def)

lemma tree_ok_update:
  assumes "tree_ok heap root pos" "heap a = Some n" "same_shape n n'"
  shows "tree_ok (heap(a \<mapsto> n')) root pos"
proof -
  have d: "dom (heap(a \<mapsto> n')) = dom heap" using assms(2) by auto
  have "node_ok (dom heap) root pos b m" if "(heap(a \<mapsto> n')) b = Some m" for b m
    using that tree_okD(4) [OF assms(1)] assms(2) node_ok_cong [OF assms(3)] by (cases "b = a") auto
  then show ?thesis using tree_okD(1-3) [OF assms(1)] unfolding tree_ok_def d by blast
qed

lemma node_up_cong:
  "tn_parent n' = tn_parent n \<Longrightarrow> tn_token n' = tn_token n \<Longrightarrow> tn_plus_edge n' = tn_plus_edge n \<Longrightarrow>
     node_up D root pos a n' \<longleftrightarrow> node_up D root pos a n"
  by (simp add: node_up_def node_label_def)

text \<open>Linking a new node below an existing one.\<close>

lemma node_up_add:
  "b \<notin> D \<Longrightarrow> a \<in> D \<Longrightarrow> node_up D root pos a n \<Longrightarrow> node_up (insert b D) root (pos(b := x)) a n"
  by (fastforce simp: node_up_def)

lemma node_links_add:
  assumes "b \<notin> D" "a \<in> D" "pos a \<noteq> pos p" "node_links D pos a n"
  shows "node_links (insert b D) (pos(b := pos p @ [level])) a n"
  using assms by (auto simp: node_links_def)

lemma node_links_add_parent:
  assumes "b \<notin> D" "p \<in> D" "node_links D pos p n"
    and "\<And>x. node_child n' x = (if x = level then Some b else node_child n x)"
    and "\<forall>x \<in> D. pos x \<noteq> pos p @ [level]"
  shows "node_links (insert b D) (pos(b := pos p @ [level])) p n'"
  unfolding node_links_def
proof (intro allI)
  fix l x
  show "node_child n' l = Some x \<longleftrightarrow>
      x \<in> insert b D \<and> (pos(b := pos p @ [level])) x = (pos(b := pos p @ [level])) p @ [l]"
    using assms by (cases "l = level"; cases "x = b") (auto simp: node_links_def)
qed

lemma tree_ok_add:
  assumes t: "tree_ok heap root pos" and p: "heap p = Some n" and l: "node_child n level = None"
    and b: "heap b = None"
    and n': "node_keys_ok n'" "\<And>x. node_child n' x = (if x = level then Some b else node_child n x)"
      "tn_parent n' = tn_parent n" "tn_token n' = tn_token n" "tn_plus_edge n' = tn_plus_edge n"
    and m: "node_keys_ok m" "\<And>x. node_child m x = None" "tn_parent m = Some p" "node_label m level"
  shows "tree_ok (heap(b \<mapsto> m, p \<mapsto> n')) root (pos(b := pos p @ [level]))"
proof -
  let ?h = "heap(b \<mapsto> m, p \<mapsto> n')" and ?pos = "pos(b := pos p @ [level])"
  have bp: "b \<noteq> p" "b \<noteq> root" "b \<notin> dom heap" "p \<in> dom heap" using b p tree_okD(1) [OF t] by auto
  have d: "dom ?h = insert b (dom heap)" using p by auto
  have new: "\<forall>x \<in> dom heap. pos x \<noteq> pos p @ [level]"
    using tree_child_iff [OF t p, of level] l by auto
  have up: "pos x \<noteq> (pos p @ [level]) @ [y]" if x: "x \<in> dom heap" for x y
    using tree_prefix [OF t x, of "pos p @ [level]" "[y]"] new by auto
  have ok: "node_ok (insert b (dom heap)) root ?pos a node" if a: "?h a = Some node" for a node
  proof -
    consider "a = b" "node = m" | "a = p" "node = n'" | "a \<noteq> b" "a \<noteq> p" "heap a = Some node"
      using a bp by (auto split: if_splits)
    then show ?thesis
    proof cases
      case 1
      then show ?thesis
        using m bp up by (auto simp: node_ok_def node_links_def node_up_def)
    next
      case 2
      have old: "node_ok (dom heap) root pos p n" using tree_okD(4) [OF t p] .
      then have "node_up (dom heap) root pos p n'"
        using node_up_cong [OF n'(3-5)] by (simp add: node_ok_def)
      then show ?thesis
        using 2 n'(1) node_links_add_parent [OF bp(3,4) _ n'(2) new] node_up_add [OF bp(3,4)] old
        by (simp add: node_ok_def)
    next
      case 3
      have old: "node_ok (dom heap) root pos a node" using tree_okD(4) [OF t 3(3)] .
      have "pos a \<noteq> pos p" "a \<in> dom heap" using tree_pos_inj [OF t, of a p] 3 p by auto
      then show ?thesis
        using old node_links_add [OF bp(3)] node_up_add [OF bp(3)] by (simp add: node_ok_def)
    qed
  qed
  moreover have "inj_on ?pos (insert b (dom heap))"
    using tree_okD(3) [OF t] new bp(3) by (auto simp: inj_on_def)
  ultimately show ?thesis
    using tree_okD(1,2) [OF t] bp(2) unfolding tree_ok_def d by auto
qed

text \<open>Unlinking a leaf.\<close>

lemma tree_ok_remove:
  assumes t: "tree_ok heap root pos" and b: "heap b = Some m" "b \<noteq> root" "\<And>x. node_child m x = None"
    and p: "tn_parent m = Some p" "heap p = Some n" "node_label m level"
    and n': "node_keys_ok n'" "\<And>x. node_child n' x = (if x = level then None else node_child n x)"
      "tn_parent n' = tn_parent n" "tn_token n' = tn_token n" "tn_plus_edge n' = tn_plus_edge n"
  shows "tree_ok (heap(p \<mapsto> n', b := None)) root pos" "pos b = pos p @ [level]"
proof -
  let ?h = "heap(p \<mapsto> n', b := None)"
  obtain l where "pos b = pos p @ [l]" "node_label m l"
    using tree_parent [OF t b(1,2)] p(1) by (metis option.inject)
  then show pb: "pos b = pos p @ [level]"
    using p(3) by (auto simp: node_label_def split: if_splits)
  then have bp: "b \<noteq> p" by auto
  have pd: "p \<in> dom heap" using p(2) by blast
  have d: "dom ?h = dom heap - {b}" using p(2) bp by auto
  have leaf: "pos x \<noteq> pos b @ [y]" if "x \<in> dom heap" for x y
    using tree_child_iff [OF t b(1), of y x] b(3) that by auto
  have ok: "node_ok (dom heap - {b}) root pos a node" if a: "?h a = Some node" for a node
  proof -
    have ab: "a \<noteq> b" "a \<in> dom heap" using a p(2) by (auto split: if_splits)
    have up: "node_up (dom heap - {b}) root pos a x" if u: "node_up (dom heap) root pos a x" for x
    proof (cases "a = root")
      case True
      then show ?thesis using u by (simp add: node_up_def)
    next
      case False
      then obtain q l where q: "tn_parent x = Some q" "q \<in> dom heap" "pos a = pos q @ [l]" "node_label x l"
        using u by (auto simp: node_up_def)
      then have "q \<noteq> b" using leaf [OF ab(2), of l] by auto
      then show ?thesis using False q unfolding node_up_def by auto
    qed
    show ?thesis
    proof (cases "a = p")
      case True
      then have old: "node_ok (dom heap) root pos p n" "node = n'" using a ab tree_okD(4) [OF t p(2)] by auto
      then have "node_up (dom heap) root pos a n'"
        using True node_up_cong [OF n'(3-5)] by (simp add: node_ok_def)
      moreover have "node_links (dom heap - {b}) pos p n'"
        unfolding node_links_def
      proof (intro allI)
        fix l x
        have "node_child n l = Some x \<longleftrightarrow> x \<in> dom heap \<and> pos x = pos p @ [l]"
          using old(1) by (auto simp: node_ok_def node_links_def)
        then show "node_child n' l = Some x \<longleftrightarrow> x \<in> dom heap - {b} \<and> pos x = pos p @ [l]"
          using n'(2) [of l] pb tree_pos_inj [OF t, of x b] b(1) by auto
      qed
      ultimately show ?thesis using True old n'(1) up by (simp add: node_ok_def)
    next
      case False
      then have h: "heap a = Some node" using a ab by auto
      have old: "node_ok (dom heap) root pos a node" using tree_okD(4) [OF t h] .
      have "pos b \<noteq> pos a @ [y]" for y
        using pb tree_pos_inj [OF t ab(2) pd] False by auto
      then have "node_links (dom heap - {b}) pos a node"
        using old by (auto simp: node_ok_def node_links_def)
      then show ?thesis using old up by (simp add: node_ok_def)
    qed
  qed
  moreover have "inj_on pos (dom heap - {b})"
    using tree_okD(3) [OF t] by (rule inj_on_subset) auto
  ultimately show "tree_ok ?h root pos"
    using tree_okD(1,2) [OF t] b(2) unfolding tree_ok_def d by auto
qed

end
