(* ===== verification/Topic_Index_Ops.thy ===== *)
theory Topic_Index_Ops
  imports Topic_Index_Tree
begin

text \<open>
  Insertion into and removal from the topic index, also when an allocation fails half-way:
  the invariant of the tree is kept, and the content changes in exactly the bucket of the
  filter at hand, or not at all.
\<close>

section \<open>Allocations\<close>

lemma topic_attempt_frame:
  assumes "topic_attempt index = (r, index')"
  shows "\<exists>fs. index' = index\<lparr>ti_faults := fs\<rparr>" "ti_faults index = [] \<Longrightarrow> r = Inr () \<and> index' = index"
  using assms by (auto simp: topic_attempt_def split: list.splits intro: exI [of _ "ti_faults index"])

lemma topic_alloc_frame:
  assumes "topic_alloc index = (r, index')"
  shows "\<exists>fs. index' = index\<lparr>ti_faults := fs\<rparr>" "ti_faults index = [] \<Longrightarrow> r = Inr () \<and> index' = index"
  using assms by (auto simp: topic_alloc_def dest: topic_attempt_frame split: prod.splits sum.splits)

lemma index_tree_faults [simp]:
  "index_tree (index\<lparr>ti_faults := fs\<rparr>) root pos = index_tree index root pos"
  by (simp add: index_tree_def)

lemma topic_bucket_faults [simp]: "topic_bucket (index\<lparr>ti_faults := fs\<rparr>) = topic_bucket index"
  by (simp add: topic_bucket_def fun_eq_iff split: option.split)

text \<open>Operations that touch nothing but the outcomes of coming allocations.\<close>

definition faults_only :: "(flowie_topic_index, 'a) op \<Rightarrow> bool" where
  "faults_only m \<longleftrightarrow> (\<forall>i r i'. m i = (r, i') \<longrightarrow> (\<exists>fs. i' = i\<lparr>ti_faults := fs\<rparr>))"

lemma faults_same: "\<exists>fs. i = i\<lparr>ti_faults := fs\<rparr>" for i :: flowie_topic_index
  by (rule exI [of _ "ti_faults i"]) simp

lemma faults_only_oret: "faults_only (oret x)"
  by (simp add: faults_only_def faults_same)

lemma faults_only_attempt: "faults_only topic_attempt" "faults_only topic_alloc"
  by (auto simp: faults_only_def dest: topic_attempt_frame(1) topic_alloc_frame(1))

lemma faults_only_if: "faults_only m \<Longrightarrow> faults_only m' \<Longrightarrow> faults_only (if c then m else m')"
  by simp

lemma faults_only_obind:
  assumes "faults_only m" "\<And>x. faults_only (f x)"
  shows "faults_only (obind m f)"
  unfolding faults_only_def
proof (intro allI impI)
  fix i r i'
  assume run: "obind m f i = (r, i')"
  obtain r1 i1 where m: "m i = (r1, i1)" by fastforce
  then obtain fs where i1: "i1 = i\<lparr>ti_faults := fs\<rparr>" using assms(1) unfolding faults_only_def by metis
  show "\<exists>fs. i' = i\<lparr>ti_faults := fs\<rparr>"
  proof (cases r1)
    case (Inl e)
    then show ?thesis using run m i1 by (auto simp: obind_def)
  next
    case (Inr x)
    then have "f x i1 = (r, i')" using run m by (simp add: obind_def)
    then obtain fs' where "i' = i1\<lparr>ti_faults := fs'\<rparr>" using assms(2) [of x] unfolding faults_only_def by metis
    then show ?thesis using i1 by auto
  qed
qed

lemmas faults_only_intros = faults_only_obind faults_only_if faults_only_attempt faults_only_oret

text \<open>A new node is added as a whole or not at all.\<close>

definition with_node :: "addr option \<Rightarrow> bytes \<Rightarrow> bool \<Rightarrow> flowie_topic_index \<Rightarrow> flowie_topic_index" where
  "with_node parent token plus_edge index = snd (topic_node_add parent token plus_edge index)"

lemma node_create_frame:
  assumes "flowie_topic_node_create parent token plus_edge index = (r, index')" "ti_initialized index"
  shows "(\<exists>e fs. r = Inl e \<and> index' = index\<lparr>ti_faults := fs\<rparr>) \<or>
    (\<exists>fs. r = Inr (ti_next index) \<and> index' = with_node parent token plus_edge (index\<lparr>ti_faults := fs\<rparr>))"
    "ti_faults index = [] \<Longrightarrow> r = Inr (ti_next index) \<and> index' = with_node parent token plus_edge index"
proof -
  define chain :: "(flowie_topic_index, unit) op" where
    "chain = obind topic_alloc (\<lambda>_.
        obind (if parent \<noteq> None \<and> \<not> plus_edge then topic_alloc else oret ()) (\<lambda>_.
        obind topic_attempt (\<lambda>_. obind topic_attempt (\<lambda>_. obind topic_attempt (\<lambda>_. topic_attempt)))))"
  have assoc: "flowie_topic_node_create parent token plus_edge index =
      obind chain (\<lambda>_. topic_node_add parent token plus_edge) index"
    using assms(2) by (auto simp: flowie_topic_node_create_def chain_def obind_def split: prod.splits sum.splits)
  have "faults_only chain"
    unfolding chain_def by (intro faults_only_intros)
  then have chain: "\<exists>fs. i' = i\<lparr>ti_faults := fs\<rparr>" if "chain i = (x, i')" for i x i'
    using that by (simp add: faults_only_def)
  obtain x i where c: "chain index = (x, i)" by fastforce
  then obtain fs where i: "i = index\<lparr>ti_faults := fs\<rparr>" using chain by blast
  show "(\<exists>e fs. r = Inl e \<and> index' = index\<lparr>ti_faults := fs\<rparr>) \<or>
    (\<exists>fs. r = Inr (ti_next index) \<and> index' = with_node parent token plus_edge (index\<lparr>ti_faults := fs\<rparr>))"
    using assms(1) c i unfolding assoc
    by (cases x) (auto simp: obind_def with_node_def topic_node_add_def Let_def)
  show "r = Inr (ti_next index) \<and> index' = with_node parent token plus_edge index" if "ti_faults index = []"
  proof -
    have "topic_attempt index = (Inr (), index)" "topic_alloc index = (Inr (), index)"
      using that by (simp_all add: topic_attempt_def topic_alloc_def)
    then have "chain index = (Inr (), index)" by (simp add: chain_def obind_def)
    then show ?thesis
      using assms(1) unfolding assoc by (auto simp: obind_def with_node_def topic_node_add_def Let_def)
  qed
qed

section \<open>Stepping to a child\<close>

text \<open>What a step may change: the tree grows by nodes without entries.\<close>

definition tree_grows ::
    "flowie_topic_index \<Rightarrow> (addr \<Rightarrow> bytes list) \<Rightarrow> flowie_topic_index \<Rightarrow> (addr \<Rightarrow> bytes list) \<Rightarrow> bool" where
  "tree_grows index pos index' pos' \<longleftrightarrow>
     dom (ti_heap index) \<subseteq> dom (ti_heap index') \<and> (\<forall>a \<in> dom (ti_heap index). pos' a = pos a) \<and>
     topic_bucket index' = topic_bucket index"

lemma tree_grows_refl [simp]: "tree_grows index pos index pos"
  by (simp add: tree_grows_def)

lemma tree_grows_faults [simp]:
  "tree_grows index pos (index\<lparr>ti_faults := fs\<rparr>) pos"
  by (simp add: tree_grows_def)

lemma tree_grows_trans:
  "tree_grows i p i1 p1 \<Longrightarrow> tree_grows i1 p1 i2 p2 \<Longrightarrow> tree_grows i p i2 p2"
  unfolding tree_grows_def by (metis subset_iff)

lemma slots_ok_add:
  assumes "slots_ok nodes heap" "heap b = None" "tn_node_slot m = length nodes"
    and "heap p = Some n" "tn_node_slot n' = tn_node_slot n"
  shows "slots_ok (nodes @ [b]) (heap(b \<mapsto> m, p \<mapsto> n'))"
proof -
  have "b \<notin> set nodes" "p \<noteq> b" using assms(1,2,4) by (auto simp: slots_ok_def)
  then show ?thesis
    using assms by (auto simp: slots_ok_def nth_append less_Suc_eq)
qed

text \<open>The state after a new child was created below \<open>p\<close> and linked.\<close>

lemma index_tree_link:
  assumes t: "index_tree index root pos" and p: "ti_heap index p = Some n"
    and none: "node_child n level = None" and level: "level \<noteq> [ch_hash]"
    and token: "if plus_edge then level = [ch_plus] else level = token \<and> level \<noteq> [ch_plus]"
    and f: "node_keys_ok (f n)" "\<And>x. node_child (f n) x = (if x = level then Some (ti_next index) else node_child n x)"
      "tn_parent (f n) = tn_parent n" "tn_token (f n) = tn_token n" "tn_plus_edge (f n) = tn_plus_edge n"
      "tn_node_slot (f n) = tn_node_slot n" "tn_terminal_entries (f n) = tn_terminal_entries n"
      "tn_hash_entries (f n) = tn_hash_entries n"
    and index': "index' = topic_node_update p f ((with_node (Some p) token plus_edge index)\<lparr>ti_faults := fs\<rparr>)"
  shows "index_tree index' root (pos(ti_next index := pos p @ [level]))"
    "tree_grows index pos index' (pos(ti_next index := pos p @ [level]))"
    "ti_next index \<in> dom (ti_heap index')"
proof -
  let ?b = "ti_next index" and ?h = "ti_heap index" and ?pos = "pos(ti_next index := pos p @ [level])"
  define m where "m = \<lparr>tn_exact_children = [], tn_terminal_entries = [], tn_hash_entries = [],
      tn_plus_child = None, tn_parent = Some p, tn_token = (if plus_edge then None else Some token),
      tn_node_slot = length (ti_nodes index), tn_plus_edge = plus_edge\<rparr>"
  have tree: "tree_ok ?h root pos" and slots: "slots_ok (ti_nodes index) ?h"
      and fresh: "\<forall>a \<in> dom ?h. a < ?b" and init: "ti_initialized index" "ti_root index = Some root"
    using t by (auto simp: index_tree_def)
  have b: "?h ?b = None" "?b \<noteq> p" using fresh p by auto
  have heap': "ti_heap index' = ?h(?b \<mapsto> m, p \<mapsto> f n)"
    and rest': "ti_nodes index' = ti_nodes index @ [?b]" "ti_next index' = ?b + 1"
      "ti_root index' = Some root" "ti_initialized index'"
    using b p init
    by (simp_all add: index' topic_node_update_def with_node_def topic_node_add_def Let_def m_def)
  have "node_keys_ok m" "\<And>x. node_child m x = None" "tn_parent m = Some p" "node_label m level"
    using token level by (auto simp: m_def node_keys_ok_def node_child_def node_label_def split: if_splits)
  note tree' = tree_ok_add [OF tree p none b(1) f(1-5) this]
  have "slots_ok (ti_nodes index @ [?b]) (?h(?b \<mapsto> m, p \<mapsto> f n))"
    using slots_ok_add [OF slots b(1) _ p f(6)] by (simp add: m_def)
  then show "index_tree index' root ?pos"
    using tree' fresh p by (auto simp: index_tree_def heap' rest' less_Suc_eq)
  have content: "terminal_at (ti_heap index') root levels = terminal_at ?h root levels \<and>
      hash_at (ti_heap index') root levels = hash_at ?h root levels" for levels
    unfolding heap'
  proof (rule content_eq [OF tree tree'])
    fix a node assume "?h a = Some node"
    then show "\<exists>node'. (?h(?b \<mapsto> m, p \<mapsto> f n)) a = Some node' \<and> ?pos a = pos a \<and>
        tn_terminal_entries node' = tn_terminal_entries node \<and> tn_hash_entries node' = tn_hash_entries node"
      using b p f(7,8) by (cases "a = p") auto
  next
    fix a node' assume "(?h(?b \<mapsto> m, p \<mapsto> f n)) a = Some node'"
      and "tn_terminal_entries node' \<noteq> [] \<or> tn_hash_entries node' \<noteq> []"
    then show "\<exists>node. ?h a = Some node \<and> ?pos a = pos a \<and>
        tn_terminal_entries node' = tn_terminal_entries node \<and> tn_hash_entries node' = tn_hash_entries node"
      using b p f(7,8) by (cases "a = p"; cases "a = ?b") (auto simp: m_def)
  qed
  have "bucket_at (ti_heap index') root levels = bucket_at ?h root levels" for levels
    by (rule bucket_eq) (rule content)
  then have "topic_bucket index' = topic_bucket index"
    using init(2) rest'(3) by (simp add: topic_bucket_def fun_eq_iff)
  then show "tree_grows index pos index' ?pos"
    using p b by (auto simp: tree_grows_def heap')
  show "?b \<in> dom (ti_heap index')" by (simp add: heap')
qed

lemma with_node_faults: "with_node parent token plus_edge (index\<lparr>ti_faults := fs\<rparr>) =
    (with_node parent token plus_edge index)\<lparr>ti_faults := fs\<rparr>"
  by (simp add: with_node_def topic_node_add_def Let_def)

lemma faults_frame [simp]:
  "ti_faults (with_node parent token plus_edge index) = ti_faults index"
  "ti_faults (topic_node_update a f index) = ti_faults index"
  "ti_faults (topic_node_discard a index) = ti_faults index"
  by (simp_all add: with_node_def topic_node_add_def Let_def topic_node_update_def topic_node_discard_def
      split: option.split)

text \<open>A node just created is the last of the node vector, so the code always pops it when it undoes
  the creation.\<close>

lemma node_create_last:
  assumes "flowie_topic_node_create parent token plus_edge index = (Inr a, index')"
  shows "last (ti_nodes index') = a \<and>
    (\<exists>node. ti_heap index' a = Some node \<and> tn_node_slot node + 1 = length (ti_nodes index'))"
  using assms by (auto simp: flowie_topic_node_create_def obind_Inr_iff topic_node_add_def Let_def split: if_splits)

lemma with_node_undo:
  assumes "index_tree index root pos"
  shows "index_tree (topic_node_discard (ti_next index) ((with_node parent token plus_edge index)\<lparr>ti_faults := fs\<rparr>)) root pos"
    "topic_bucket (topic_node_discard (ti_next index) ((with_node parent token plus_edge index)\<lparr>ti_faults := fs\<rparr>)) =
      topic_bucket index"
    "ti_heap (topic_node_discard (ti_next index) ((with_node parent token plus_edge index)\<lparr>ti_faults := fs\<rparr>)) =
      ti_heap index"
proof -
  have fresh: "\<forall>a \<in> dom (ti_heap index). a < ti_next index" using assms by (simp add: index_tree_def)
  then have "ti_heap index (ti_next index) = None" by (metis domI less_irrefl not_None_eq)
  then have "(ti_heap index)(ti_next index := None) = ti_heap index" by auto
  then show heap: "ti_heap (topic_node_discard (ti_next index)
      ((with_node parent token plus_edge index)\<lparr>ti_faults := fs\<rparr>)) = ti_heap index"
    by (simp add: topic_node_discard_def with_node_def topic_node_add_def Let_def)
  have same: "ti_nodes (topic_node_discard (ti_next index)
      ((with_node parent token plus_edge index)\<lparr>ti_faults := fs\<rparr>)) = ti_nodes index"
      "ti_root (topic_node_discard (ti_next index)
      ((with_node parent token plus_edge index)\<lparr>ti_faults := fs\<rparr>)) = ti_root index"
      "ti_initialized (topic_node_discard (ti_next index)
      ((with_node parent token plus_edge index)\<lparr>ti_faults := fs\<rparr>)) = ti_initialized index"
      "ti_next (topic_node_discard (ti_next index)
      ((with_node parent token plus_edge index)\<lparr>ti_faults := fs\<rparr>)) = ti_next index + 1"
    by (simp_all add: topic_node_discard_def with_node_def topic_node_add_def Let_def)
  show "index_tree (topic_node_discard (ti_next index)
      ((with_node parent token plus_edge index)\<lparr>ti_faults := fs\<rparr>)) root pos"
    using assms fresh unfolding index_tree_def heap same by (simp add: less_Suc_eq)
  show "topic_bucket (topic_node_discard (ti_next index)
      ((with_node parent token plus_edge index)\<lparr>ti_faults := fs\<rparr>)) = topic_bucket index"
    by (simp add: topic_bucket_def heap same fun_eq_iff split: option.split)
qed

definition topic_child :: "addr \<Rightarrow> bytes \<Rightarrow> (flowie_topic_index, addr) op" where
  "topic_child node level =
     (if level = [ch_plus] then topic_plus_child node else flowie_topic_exact_child node level)"

text \<open>The outcome of stepping from \<open>node\<close> to its child at \<open>level\<close>.\<close>

definition child_outcome ::
    "flowie_topic_index \<Rightarrow> addr \<Rightarrow> (addr \<Rightarrow> bytes list) \<Rightarrow> addr \<Rightarrow> bytes \<Rightarrow> salts_error + addr \<Rightarrow>
       flowie_topic_index \<Rightarrow> (addr \<Rightarrow> bytes list) \<Rightarrow> bool" where
  "child_outcome index root pos node level r index' pos' \<longleftrightarrow>
     index_tree index' root pos' \<and> tree_grows index pos index' pos' \<and>
     (\<forall>b. r = Inr b \<longrightarrow> b \<in> dom (ti_heap index') \<and> pos' b = pos node @ [level]) \<and>
     (ti_faults index = [] \<longrightarrow> r \<in> range Inr \<and> ti_faults index' = [])"

lemma plus_child_step:
  assumes t: "index_tree index root pos" and node: "ti_heap index node = Some n"
    and run: "topic_plus_child node index = (r, index')"
  shows "\<exists>pos'. child_outcome index root pos node [ch_plus] r index' pos'"
proof (cases "tn_plus_child n")
  case (Some child)
  then have r: "r = Inr child" "index' = index" using run node by (auto simp: topic_plus_child_def)
  have "child \<in> dom (ti_heap index) \<and> pos child = pos node @ [[ch_plus]]"
    using tree_child_iff [of "ti_heap index" root pos node n "[ch_plus]" child] t node Some
    by (simp add: index_tree_def node_child_def)
  then show ?thesis using t r by (intro exI [of _ pos]) (simp add: child_outcome_def)
next
  case None
  obtain r1 i1 where c: "flowie_topic_node_create (Some node) [] True index = (r1, i1)" by fastforce
  have init: "ti_initialized index" using t by (simp add: index_tree_def)
  note frame = node_create_frame [OF c init]
  show ?thesis
  proof (cases r1)
    case (Inl e)
    then obtain fs where "r = Inl e" "index' = index\<lparr>ti_faults := fs\<rparr>"
      using frame(1) run node None c by (auto simp: topic_plus_child_def obind_def)
    then show ?thesis using t frame(2) Inl by (intro exI [of _ pos]) (auto simp: child_outcome_def)
  next
    case (Inr b)
    define f where "f = (\<lambda>n :: flowie_topic_node. n\<lparr>tn_plus_child := Some (ti_next index)\<rparr>)"
    obtain fs where fs: "b = ti_next index" "i1 = (with_node (Some node) [] True index)\<lparr>ti_faults := fs\<rparr>"
      using frame(1) Inr by (auto simp: with_node_faults)
    then have r: "r = Inr (ti_next index)" "index' = topic_node_update node f ((with_node (Some node) [] True index)\<lparr>ti_faults := fs\<rparr>)"
      using run node None c Inr by (auto simp: topic_plus_child_def obind_def f_def)
    have keys: "node_keys_ok n" using t node by (auto simp: index_tree_def tree_ok_def node_ok_def)
    have link: "index_tree index' root (pos(ti_next index := pos node @ [[ch_plus]]))"
      "tree_grows index pos index' (pos(ti_next index := pos node @ [[ch_plus]]))"
      "ti_next index \<in> dom (ti_heap index')"
      using index_tree_link [OF t node, of "[ch_plus]" True "[]" f index' fs] None keys r(2)
      by (auto simp: f_def node_child_def node_keys_ok_def)
    have "ti_faults index = [] \<longrightarrow> ti_faults index' = []"
      using frame(2) arg_cong [OF fs(2), of ti_faults] r(2) by auto
    then show ?thesis using link r(1) by (intro exI) (auto simp: child_outcome_def)
  qed
qed

lemma exact_child_step:
  assumes t: "index_tree index root pos" and node: "ti_heap index node = Some n"
    and level: "level \<noteq> [ch_plus]" "level \<noteq> [ch_hash]"
    and run: "flowie_topic_exact_child node level index = (r, index')"
  shows "\<exists>pos'. child_outcome index root pos node level r index' pos'"
proof (cases "map_of (tn_exact_children n) level")
  case (Some child)
  then have r: "r = Inr child" "index' = index" using run node by (auto simp: flowie_topic_exact_child_def)
  have "child \<in> dom (ti_heap index) \<and> pos child = pos node @ [level]"
    using tree_child_iff [of "ti_heap index" root pos node n level child] t node Some level
    by (simp add: index_tree_def node_child_def)
  then show ?thesis using t r by (intro exI [of _ pos]) (simp add: child_outcome_def)
next
  case None
  obtain r1 i1 where c: "flowie_topic_node_create (Some node) level False index = (r1, i1)" by fastforce
  have init: "ti_initialized index" using t by (simp add: index_tree_def)
  note frame = node_create_frame [OF c init]
  show ?thesis
  proof (cases r1)
    case (Inl e)
    then obtain fs where "r = Inl e" "index' = index\<lparr>ti_faults := fs\<rparr>"
      using frame(1) run node None c by (auto simp: flowie_topic_exact_child_def obind_def)
    then show ?thesis using t frame(2) Inl by (intro exI [of _ pos]) (auto simp: child_outcome_def)
  next
    case (Inr b)
    define new where "new = with_node (Some node) level False index"
    obtain fs where fs: "b = ti_next index" "i1 = new\<lparr>ti_faults := fs\<rparr>"
      using frame(1) Inr by (auto simp: with_node_faults new_def)
    have nofault: "ti_faults index = [] \<Longrightarrow> ti_faults i1 = []"
      using frame(2) by auto
    obtain r2 i2 where a: "topic_attempt i1 = (r2, i2)" by fastforce
    then obtain fs' where i2: "i2 = new\<lparr>ti_faults := fs'\<rparr>"
      using topic_attempt_frame(1) [OF a] fs(2) by auto
    have "ti_faults i2 = fs'" by (simp add: i2)
    then have nofault2: "ti_faults index = [] \<Longrightarrow> r2 = Inr () \<and> fs' = []"
      using topic_attempt_frame(2) [OF a] nofault by auto
    show ?thesis
    proof (cases r2)
      case (Inl e)
      then have r: "r = Inl e" "index' = topic_node_discard (ti_next index) (new\<lparr>ti_faults := fs'\<rparr>)"
        using run node None c Inr fs(1) a i2 by (auto simp: flowie_topic_exact_child_def obind_def)
      then have "child_outcome index root pos node level r index' pos"
        using with_node_undo [OF t, where parent = "Some node" and token = level and plus_edge = False and fs = fs',
          folded new_def] nofault2 Inl
        by (auto simp: child_outcome_def tree_grows_def)
      then show ?thesis by blast
    next
      case ok: (Inr u)
      define f where "f = (\<lambda>n :: flowie_topic_node.
          n\<lparr>tn_exact_children := AList.update level (ti_next index) (tn_exact_children n)\<rparr>)"
      have r: "r = Inr (ti_next index)" "index' = topic_node_update node f (new\<lparr>ti_faults := fs'\<rparr>)"
        using run node None c Inr fs(1) a i2 ok by (auto simp: flowie_topic_exact_child_def obind_def f_def)
      have keys: "node_keys_ok n" using t node by (auto simp: index_tree_def tree_ok_def node_ok_def)
      have fk: "node_keys_ok (f n)"
        using keys level by (simp add: node_keys_ok_def f_def AList.dom_update distinct_update)
      have fc: "node_child (f n) x = (if x = level then Some (ti_next index) else node_child n x)" for x
        using level(1) by (simp add: f_def node_child_def update_conv')
      have none: "node_child n level = None" using None level by (simp add: node_child_def)
      have tok: "if False then level = [ch_plus] else level = level \<and> level \<noteq> [ch_plus]" using level by simp
      have link: "index_tree index' root (pos(ti_next index := pos node @ [level]))"
        "tree_grows index pos index' (pos(ti_next index := pos node @ [level]))"
        "ti_next index \<in> dom (ti_heap index')"
        using index_tree_link [OF t node none level(2) tok fk fc _ _ _ _ _ _ r(2) [unfolded new_def]]
        by (simp_all add: f_def)
      have "ti_faults index = [] \<longrightarrow> ti_faults index' = []"
        using nofault2 r(2) by auto
      then show ?thesis using link r(1) by (intro exI) (auto simp: child_outcome_def)
    qed
  qed
qed

section \<open>Changing the entries of one node\<close>

lemma content_update:
  assumes t: "tree_ok heap root pos" and a: "heap a = Some n" and s: "same_shape n n'"
  shows "terminal_at (heap(a \<mapsto> n')) root levels =
      (if levels = pos a then tn_terminal_entries n' else terminal_at heap root levels)"
    "hash_at (heap(a \<mapsto> n')) root levels =
      (if levels = pos a then tn_hash_entries n' else hash_at heap root levels)"
proof -
  note t' = tree_ok_update [OF t a s]
  have "terminal_at (heap(a \<mapsto> n')) root levels =
      (if levels = pos a then tn_terminal_entries n' else terminal_at heap root levels) \<and>
    hash_at (heap(a \<mapsto> n')) root levels =
      (if levels = pos a then tn_hash_entries n' else hash_at heap root levels)"
  proof (cases "levels \<in> pos ` dom heap")
    case True
    then obtain b m where b: "heap b = Some m" "levels = pos b" by auto
    show ?thesis
    proof (cases "b = a")
      case True
      then show ?thesis using content_at_node [OF t', of a n'] b by simp
    next
      case False
      then have "pos b \<noteq> pos a" using tree_pos_inj [OF t, of b a] b a by blast
      then show ?thesis
        using content_at_node [OF t b(1)] content_at_node [OF t', of b m] False b by simp
    qed
  next
    case False
    then have "levels \<notin> pos ` dom (heap(a \<mapsto> n'))" "levels \<noteq> pos a" using a by auto
    then show ?thesis using content_nowhere [OF t False] content_nowhere [OF t'] by simp
  qed
  then show "terminal_at (heap(a \<mapsto> n')) root levels =
      (if levels = pos a then tn_terminal_entries n' else terminal_at heap root levels)"
    "hash_at (heap(a \<mapsto> n')) root levels =
      (if levels = pos a then tn_hash_entries n' else hash_at heap root levels)" by auto
qed

text \<open>The filter, by its levels, that a bucket of the node at path \<open>levels\<close> belongs to.\<close>

definition bucket_filter :: "flowie_topic_bucket \<Rightarrow> bytes list \<Rightarrow> bytes list" where
  "bucket_filter bucket levels =
     (if bucket = FLOWIE_TOPIC_BUCKET_HASH then levels @ [[ch_hash]] else levels)"

lemma label_not_hash: "tree_ok heap root pos \<Longrightarrow> heap a = Some n \<Longrightarrow> pos a = [] \<or> last (pos a) \<noteq> [ch_hash]"
proof (cases "a = root")
  case False
  assume t: "tree_ok heap root pos" "heap a = Some n"
  obtain p level where "pos a = pos p @ [level]" "node_label n level"
    using tree_parent [OF t False] by metis
  then show ?thesis by (auto simp: node_label_def split: if_splits)
qed (simp add: tree_okD)

lemma bucket_at_node:
  assumes t: "tree_ok heap root pos" and a: "heap a = Some n" and b: "bucket_entries bucket n = Some es"
  shows "bucket_at heap root (bucket_filter bucket (pos a)) = es"
  using content_at_node [OF t a] label_not_hash [OF t a] b
  by (cases bucket) (auto simp: bucket_at_def bucket_filter_def bucket_entries_def)

lemma same_shape_bucket_set [simp]: "same_shape n (bucket_set bucket es n)"
  by (simp add: same_shape_def bucket_set_def)

lemma bucket_at_update:
  assumes t: "tree_ok heap root pos" and a: "heap a = Some n"
    and b: "bucket \<noteq> FLOWIE_TOPIC_BUCKET_NONE"
  shows "bucket_at (heap(a \<mapsto> bucket_set bucket es n)) root fs =
    (if fs = bucket_filter bucket (pos a) then es else bucket_at heap root fs)"
proof -
  note c = content_update [OF t a same_shape_bucket_set, of bucket es]
  note at_a = content_at_node [OF t a] and not_hash = label_not_hash [OF t a]
  show ?thesis
  proof (cases "bucket = FLOWIE_TOPIC_BUCKET_HASH")
    case True
    then show ?thesis
      using c at_a by (cases fs rule: rev_cases) (auto simp: bucket_at_def bucket_filter_def bucket_set_def)
  next
    case False
    then have "hash_at (heap(a \<mapsto> bucket_set bucket es n)) root levels = hash_at heap root levels" for levels
      using c(2) at_a(2) by (simp add: bucket_set_def)
    then show ?thesis
      using False c(1) not_hash by (auto simp: bucket_at_def bucket_filter_def bucket_set_def)
  qed
qed

lemma slots_ok_update:
  assumes "slots_ok nodes heap" "heap a = Some n" "tn_node_slot n' = tn_node_slot n"
  shows "slots_ok nodes (heap(a \<mapsto> n'))"
  using assms by (fastforce simp: slots_ok_def)

lemma index_tree_bucket_set:
  fixes es
  assumes t: "index_tree index root pos" and a: "ti_heap index a = Some n"
    and b: "bucket \<noteq> FLOWIE_TOPIC_BUCKET_NONE"
  defines "index' \<equiv> topic_node_update a (bucket_set bucket es) index"
  shows "index_tree index' root pos"
    "topic_bucket index' = (topic_bucket index)(bucket_filter bucket (pos a) := es)"
proof -
  have parts: "tree_ok (ti_heap index) root pos" "slots_ok (ti_nodes index) (ti_heap index)"
      "\<forall>a \<in> dom (ti_heap index). a < ti_next index" "ti_root index = Some root" "ti_initialized index"
    using t by (auto simp: index_tree_def)
  have "slots_ok (ti_nodes index) ((ti_heap index)(a \<mapsto> bucket_set bucket es n))"
    by (rule slots_ok_update [OF parts(2) a]) (simp add: bucket_set_def)
  then show "index_tree index' root pos"
    using tree_ok_update [OF parts(1) a same_shape_bucket_set] parts a
    by (auto simp: index_tree_def index'_def topic_node_update_def)
  show "topic_bucket index' = (topic_bucket index)(bucket_filter bucket (pos a) := es)"
    using bucket_at_update [OF parts(1) a b] parts(4) a
    by (auto simp: topic_bucket_def index'_def topic_node_update_def fun_eq_iff)
qed

section \<open>Insertion\<close>

text \<open>A binding designates a filter when it points to the node and the bucket that hold the
  entries of that filter.\<close>

definition binding_at :: "flowie_topic_index \<Rightarrow> flowie_topic_index_binding \<Rightarrow> bytes list \<Rightarrow> bool" where
  "binding_at index binding fs \<longleftrightarrow>
     tb_bucket binding \<noteq> FLOWIE_TOPIC_BUCKET_NONE \<and>
     (\<exists>root a levels. ti_root index = Some root \<and> tb_node binding = Some a \<and> a \<in> dom (ti_heap index) \<and>
        walk (ti_heap index) root levels = Some a \<and> fs = bucket_filter (tb_bucket binding) levels)"

lemma binding_at_iff:
  assumes "index_tree index root pos"
  shows "binding_at index binding fs \<longleftrightarrow>
    tb_bucket binding \<noteq> FLOWIE_TOPIC_BUCKET_NONE \<and>
    (\<exists>a. tb_node binding = Some a \<and> a \<in> dom (ti_heap index) \<and> fs = bucket_filter (tb_bucket binding) (pos a))"
  using assms walk_root [of "ti_heap index" root pos] by (auto simp: binding_at_def index_tree_def)

definition insert_outcome ::
    "flowie_topic_index \<Rightarrow> bytes list \<Rightarrow> nat \<Rightarrow> salts_error + flowie_topic_index_binding \<Rightarrow>
       flowie_topic_index \<Rightarrow> bool" where
  "insert_outcome index fs e r index' \<longleftrightarrow>
     (case r of
        Inl err \<Rightarrow> topic_bucket index' = topic_bucket index
      | Inr binding \<Rightarrow>
          topic_bucket index' = (topic_bucket index)(fs := topic_bucket index fs @ [e]) \<and>
          binding_at index' binding fs \<and> tb_position binding = length (topic_bucket index fs))"

lemma push_entry_step:
  assumes t: "index_tree index root pos" and a: "a \<in> dom (ti_heap index)"
    and b: "bucket \<noteq> FLOWIE_TOPIC_BUCKET_NONE"
    and run: "topic_push_entry a bucket e index = (r, index')"
  shows "index_tree index' root pos \<and> insert_outcome index (bucket_filter bucket (pos a)) e r index' \<and>
    (ti_faults index = [] \<longrightarrow> r \<in> range Inr)"
proof -
  obtain r1 i1 where c: "topic_attempt index = (r1, i1)" by fastforce
  then obtain fs where i1: "i1 = index\<lparr>ti_faults := fs\<rparr>" using topic_attempt_frame(1) by blast
  obtain n where n: "ti_heap i1 a = Some n" using a i1 by auto
  have t1: "index_tree i1 root pos" using t i1 by simp
  show ?thesis
  proof (cases r1)
    case (Inl err)
    then have "r = Inl err" "index' = i1" using run c by (auto simp: topic_push_entry_def obind_def)
    then show ?thesis using t1 i1 topic_attempt_frame(2) [OF c] Inl by (auto simp: insert_outcome_def)
  next
    case (Inr u)
    obtain es where es: "bucket_entries bucket n = Some es" using b by (cases bucket) (auto simp: bucket_entries_def)
    have r: "r = Inr \<lparr>tb_node = Some a, tb_position = length es, tb_bucket = bucket\<rparr>"
        "index' = topic_node_update a (bucket_set bucket (es @ [e])) i1"
      using run c Inr n es b
      by (auto simp: topic_push_entry_def obind_def topic_node_update_def bucket_set_def bucket_entries_def
          split: flowie_topic_bucket.splits)
    have tree: "tree_ok (ti_heap i1) root pos" "ti_root i1 = Some root" using t1 by (auto simp: index_tree_def)
    have old: "topic_bucket i1 (bucket_filter bucket (pos a)) = es"
      using bucket_at_node [OF tree(1) n es] tree(2) by (simp add: topic_bucket_def)
    note set' = index_tree_bucket_set [OF t1 n b, of "es @ [e]", folded r(2)]
    have "a \<in> dom (ti_heap index')" using n r(2) by (simp add: topic_node_update_def)
    then have "binding_at index' \<lparr>tb_node = Some a, tb_position = length es, tb_bucket = bucket\<rparr> (bucket_filter bucket (pos a))"
      using b by (simp add: binding_at_iff [OF set'(1)])
    moreover have "topic_bucket i1 = topic_bucket index" using i1 by simp
    ultimately show ?thesis using set' r(1) old by (simp add: insert_outcome_def)
  qed
qed

lemma insert_loop_step:
  assumes "index_tree index root pos" "a \<in> dom (ti_heap index)"
    and "topic_insert_loop e a rest index = (r, index')"
  shows "\<exists>pos'. index_tree index' root pos' \<and> insert_outcome index (pos a @ split_levels rest) e r index' \<and>
    (ti_faults index = [] \<and> filter_levels_ok (split_levels rest) \<longrightarrow> r \<in> range Inr)"
  using assms
proof (induction e a rest index arbitrary: pos rule: topic_insert_loop.induct)
  case (1 e a rest index)
  obtain token slash rest' where cut: "flowie_mqtt_next_level rest = (token, slash, rest')"
    by (cases "flowie_mqtt_next_level rest")
  note levels = next_level_split [OF cut]
  obtain n where n: "ti_heap index a = Some n" using "1.prems"(2) by auto
  show ?case
  proof (cases "token = [ch_hash]")
    case True
    show ?thesis
    proof (cases slash)
      case True
      then have "r = Inl SALTS_EPROTO" "index' = index"
        using "1.prems"(3) cut \<open>token = [ch_hash]\<close> by (auto simp: topic_insert_loop.simps)
      moreover have "\<not> filter_levels_ok (split_levels rest)"
        using levels True \<open>token = [ch_hash]\<close> by (simp add: filter_levels_ok_Cons)
      ultimately show ?thesis using "1.prems"(1) by (auto simp: insert_outcome_def)
    next
      case False
      then have "topic_push_entry a FLOWIE_TOPIC_BUCKET_HASH e index = (r, index')"
        using "1.prems"(3) cut True by (simp add: topic_insert_loop.simps [of e a rest])
      from push_entry_step [OF "1.prems"(1,2) _ this] show ?thesis
        using levels False True by (auto simp: bucket_filter_def)
    qed
  next
    case False
    obtain r1 i1 where c: "topic_child a token index = (r1, i1)" by fastforce
    have run: "obind (topic_child a token) (\<lambda>child index.
        if slash then topic_insert_loop e child rest' index
        else topic_push_entry child FLOWIE_TOPIC_BUCKET_TERMINAL e index) index = (r, index')"
      using "1.prems"(3) cut False by (simp add: topic_insert_loop.simps [of e a rest] topic_child_def)
    obtain pos1 where o1: "child_outcome index root pos a token r1 i1 pos1"
      using c plus_child_step [OF "1.prems"(1) n] exact_child_step [OF "1.prems"(1) n _ False]
      by (cases "token = [ch_plus]") (auto simp: topic_child_def)
    then have t1: "index_tree i1 root pos1" "topic_bucket i1 = topic_bucket index"
      by (auto simp: child_outcome_def tree_grows_def)
    show ?thesis
    proof (cases r1)
      case (Inl err)
      then have "r = Inl err" "index' = i1" using run c by (auto simp: obind_def)
      then show ?thesis using t1 o1 Inl by (auto simp: insert_outcome_def child_outcome_def)
    next
      case (Inr child)
      then have child: "child \<in> dom (ti_heap i1)" "pos1 child = pos a @ [token]"
          "ti_faults index = [] \<longrightarrow> ti_faults i1 = []"
        using o1 by (auto simp: child_outcome_def)
      have same: "insert_outcome i1 fs e r index' \<longleftrightarrow> insert_outcome index fs e r index'" for fs
        by (cases r) (simp_all add: insert_outcome_def t1(2))
      show ?thesis
      proof (cases slash)
        case True
        then have loop: "topic_insert_loop e child rest' i1 = (r, index')"
          using run c Inr by (simp add: obind_def)
        have c': "(if token = [ch_plus] then topic_plus_child a else flowie_topic_exact_child a token) index =
            (Inr child, i1)" using c Inr by (simp add: topic_child_def)
        have "\<exists>pos'. index_tree index' root pos' \<and> insert_outcome i1 (pos1 child @ split_levels rest') e r index' \<and>
            (ti_faults i1 = [] \<and> filter_levels_ok (split_levels rest') \<longrightarrow> r \<in> range Inr)"
          by (rule "1.IH" [OF cut [symmetric] refl False c' True t1(1) child(1) loop])
        then show ?thesis using levels True child by (auto simp: same filter_levels_ok_Cons)
      next
        case nslash: False
        then have "topic_push_entry child FLOWIE_TOPIC_BUCKET_TERMINAL e i1 = (r, index')"
          using run c Inr by (simp add: obind_def)
        from push_entry_step [OF t1(1) child(1) _ this] show ?thesis
          using levels nslash child same by (auto simp: bucket_filter_def)
      qed
    qed
  qed
qed

section \<open>Pruning and removal\<close>

text \<open>Cutting an edge of a consistent tree succeeds and removes exactly that edge.\<close>

lemma topic_unlink_step:
  assumes t: "tree_ok heap root pos" and a: "heap a = Some node" "a \<noteq> root"
    and p: "tn_parent node = Some p" "heap p = Some parent"
  obtains parent' level where "topic_unlink a node parent = Some parent'" "node_label node level"
    "node_keys_ok parent'" "\<And>x. node_child parent' x = (if x = level then None else node_child parent x)"
    "tn_parent parent' = tn_parent parent" "tn_token parent' = tn_token parent"
    "tn_plus_edge parent' = tn_plus_edge parent" "tn_node_slot parent' = tn_node_slot parent"
    "tn_terminal_entries parent' = tn_terminal_entries parent"
    "tn_hash_entries parent' = tn_hash_entries parent"
proof -
  obtain level where l: "pos a = pos p @ [level]" "node_label node level"
    using tree_parent [OF t a] p(1) by (metis option.inject)
  have child: "node_child parent level = Some a"
    using tree_child_iff [OF t p(2), of level a] l(1) a(1) by blast
  have keys: "node_keys_ok parent" using tree_okD(4) [OF t p(2)] by (simp add: node_ok_def)
  show thesis
  proof (cases "tn_plus_edge node")
    case True
    then have "level = [ch_plus]" using l(2) by (simp add: node_label_def)
    then show thesis
      using that [of "parent\<lparr>tn_plus_child := None\<rparr>" level] True l(2) child keys
      by (auto simp: topic_unlink_def node_child_def node_keys_ok_def)
  next
    case False
    then have tok: "tn_token node = Some level" "level \<noteq> [ch_plus]" using l(2) by (auto simp: node_label_def)
    let ?p = "parent\<lparr>tn_exact_children := AList.delete level (tn_exact_children parent)\<rparr>"
    have "topic_unlink a node parent = Some ?p"
      using False tok child by (simp add: topic_unlink_def node_child_def)
    moreover have "node_keys_ok ?p"
      using keys by (auto simp: node_keys_ok_def AList.delete_eq distinct_map_filter)
    moreover have "\<And>x. node_child ?p x = (if x = level then None else node_child parent x)"
      using tok(2) by (simp add: node_child_def delete_conv')
    ultimately show thesis using that [of ?p level] l(2) by simp
  qed
qed

lemma slots_ok_remove:
  assumes s: "slots_ok nodes heap" and a: "heap a = Some node"
    and h: "dom heap' = dom heap - {a}"
      "\<And>b m. heap' b = Some m \<Longrightarrow> \<exists>m0. heap b = Some m0 \<and> tn_node_slot m = tn_node_slot m0"
  defines "slot \<equiv> tn_node_slot node"
  defines "nodes' \<equiv> swap_remove slot nodes"
  shows "slot < length nodes" "nodes ! slot = a"
    "slot < length nodes' \<Longrightarrow> nodes' ! slot \<noteq> a \<and> nodes' ! slot \<in> dom heap'"
    "slots_ok nodes' (if slot < length nodes'
       then (case heap' (nodes' ! slot) of None \<Rightarrow> heap'
             | Some m \<Rightarrow> heap'(nodes' ! slot \<mapsto> m\<lparr>tn_node_slot := slot\<rparr>))
       else heap')"
proof -
  have d: "distinct nodes" "set nodes = dom heap"
      "\<And>i. i < length nodes \<Longrightarrow> \<exists>node. heap (nodes ! i) = Some node \<and> tn_node_slot node = i"
    using s by (auto simp: slots_ok_def)
  obtain i where i: "i < length nodes" "nodes ! i = a"
    using a d(2) by (metis domI in_set_conv_nth)
  then have "slot = i" using d(3) [OF i(1)] a by (simp add: slot_def)
  then show slot: "slot < length nodes" "nodes ! slot = a" using i by auto
  have nodes': "distinct nodes'" "set nodes' = dom heap'" "length nodes' = length nodes - 1"
    using d distinct_swap_remove set_swap_remove [OF d(1) slot(1)] slot(2) h(1) by (auto simp: nodes'_def)
  have nth: "nodes' ! j = nodes ! j" if "j < length nodes'" "j \<noteq> slot" for j
    using that swap_remove_nth [OF slot(1), of j] by (simp add: nodes'_def)
  show moved: "nodes' ! slot \<noteq> a \<and> nodes' ! slot \<in> dom heap'" if "slot < length nodes'"
    using that nodes'(2) h(1) nth_mem [OF that] by auto
  have slots': "\<exists>m. heap' (nodes' ! j) = Some m \<and> tn_node_slot m = j" if "j < length nodes'" "j \<noteq> slot" for j
  proof -
    have "nodes' ! j \<in> dom heap'" using that(1) nodes'(2) nth_mem by blast
    then obtain m where m: "heap' (nodes' ! j) = Some m" by auto
    have "j < length nodes" using that(1) nodes'(3) by simp
    then show ?thesis using h(2) [OF m] d(3) [of j] nth [OF that] m by auto
  qed
  show "slots_ok nodes' (if slot < length nodes'
       then (case heap' (nodes' ! slot) of None \<Rightarrow> heap'
             | Some m \<Rightarrow> heap'(nodes' ! slot \<mapsto> m\<lparr>tn_node_slot := slot\<rparr>))
       else heap')"
  proof (cases "slot < length nodes'")
    case True
    then obtain m where m: "heap' (nodes' ! slot) = Some m" using moved by auto
    have "nodes' ! j \<noteq> nodes' ! slot" if "j < length nodes'" "j \<noteq> slot" for j
      using that True nodes'(1) nth_eq_iff_index_eq by blast
    then have "\<exists>x. (heap'(nodes' ! slot \<mapsto> m\<lparr>tn_node_slot := slot\<rparr>)) (nodes' ! j) = Some x \<and> tn_node_slot x = j"
      if "j < length nodes'" for j
      using slots' [OF that] that by (cases "j = slot") auto
    moreover have "dom (heap'(nodes' ! slot \<mapsto> m\<lparr>tn_node_slot := slot\<rparr>)) = dom heap'" using m by auto
    ultimately show ?thesis using True m nodes' by (simp add: slots_ok_def)
  next
    case False
    then have "\<forall>j < length nodes'. j \<noteq> slot" by auto
    then show ?thesis using False nodes' slots' by (simp add: slots_ok_def)
  qed
qed

text \<open>One turn of the pruning loop on a consistent tree.\<close>

lemma prune_turn:
  assumes t: "index_tree index root pos" and a: "ti_heap index a = Some node" "a \<noteq> root"
    and e: "flowie_topic_node_empty node"
  obtains p index' where
    "flowie_topic_index_prune a index = flowie_topic_index_prune p index'" "p \<in> dom (ti_heap index')"
    "index_tree index' root pos" "topic_bucket index' = topic_bucket index"
    "length (ti_nodes index') < length (ti_nodes index)"
proof -
  let ?h = "ti_heap index" and ?slot = "tn_node_slot node"
  have parts: "tree_ok ?h root pos" "slots_ok (ti_nodes index) ?h"
      "\<forall>a \<in> dom ?h. a < ti_next index" "ti_root index = Some root" "ti_initialized index"
    using t by (auto simp: index_tree_def)
  obtain p where p: "tn_parent node = Some p" "p \<in> dom ?h"
    using tree_parent [OF parts(1) a] by metis
  then obtain parent where parent: "?h p = Some parent" by auto
  obtain parent' level where u: "topic_unlink a node parent = Some parent'" "node_label node level"
      "node_keys_ok parent'" "\<And>x. node_child parent' x = (if x = level then None else node_child parent x)"
      "tn_parent parent' = tn_parent parent" "tn_token parent' = tn_token parent"
      "tn_plus_edge parent' = tn_plus_edge parent" "tn_node_slot parent' = tn_node_slot parent"
      "tn_terminal_entries parent' = tn_terminal_entries parent"
      "tn_hash_entries parent' = tn_hash_entries parent"
    by (rule topic_unlink_step [OF parts(1) a p(1) parent]) blast
  have "node_child node x = None" for x
    using e by (simp add: flowie_topic_node_empty_def node_child_def)
  note tree = tree_ok_remove [OF parts(1) a(1,2) this p(1) parent u(2-7)]
  have pa: "p \<noteq> a" using tree(2) by auto
  define h1 where "h1 = ?h(p \<mapsto> parent', a := None)"
  define nodes' where "nodes' = swap_remove ?slot (ti_nodes index)"
  have h1: "dom h1 = dom ?h - {a}"
      "\<And>b m. h1 b = Some m \<Longrightarrow> \<exists>m0. ?h b = Some m0 \<and> tn_node_slot m = tn_node_slot m0"
    using parent pa u(8) by (auto simp: h1_def split: if_splits)
  note slots = slots_ok_remove [OF parts(2) a(1) h1, folded nodes'_def]
  define h2 where "h2 = (if ?slot < length nodes'
       then (case h1 (nodes' ! ?slot) of None \<Rightarrow> h1
             | Some m \<Rightarrow> h1(nodes' ! ?slot \<mapsto> m\<lparr>tn_node_slot := ?slot\<rparr>))
       else h1)"
  define index' where "index' = topic_node_free a (topic_slot_remove ?slot
          (index\<lparr>ti_heap := ?h(p \<mapsto> parent')\<rparr>))"
  have index': "ti_heap index' = h2" "ti_nodes index' = nodes'" "ti_root index' = Some root"
      "ti_initialized index'" "ti_next index' = ti_next index"
    using parts(4,5) slots(3) unfolding index'_def h2_def h1_def
    by (auto simp: topic_node_free_def topic_slot_remove_def topic_node_update_def Let_def nodes'_def
        fun_upd_twist split: option.splits)
  have tree2: "tree_ok h2 root pos"
    using tree(1) by (auto simp: h2_def h1_def [symmetric] same_shape_def intro!: tree_ok_update split: option.split)
  have dom2: "dom h2 = dom h1" by (auto simp: h2_def split: option.splits)
  have entries: "\<exists>m. h2 b = Some m \<and> tn_terminal_entries m = tn_terminal_entries n \<and>
      tn_hash_entries m = tn_hash_entries n" if "?h b = Some n" "b \<noteq> a" for b n
    using that parent u(9,10) by (auto simp: h2_def h1_def split: option.split)
  have backward: "\<exists>m. ?h b = Some m \<and> tn_terminal_entries n = tn_terminal_entries m \<and>
      tn_hash_entries n = tn_hash_entries m" if hb: "h2 b = Some n" for b n
  proof -
    have "b \<in> dom h1" using hb dom2 by auto
    then have "b \<in> dom ?h" "b \<noteq> a" by (simp_all add: h1(1))
    then obtain n0 where "?h b = Some n0" by auto
    with entries [OF this \<open>b \<noteq> a\<close>] hb show ?thesis by auto
  qed
  have content: "terminal_at h2 root levels = terminal_at ?h root levels \<and>
      hash_at h2 root levels = hash_at ?h root levels" for levels
  proof (rule content_eq [OF parts(1) tree2])
    fix b n assume b: "?h b = Some n" "tn_terminal_entries n \<noteq> [] \<or> tn_hash_entries n \<noteq> []"
    then have "b \<noteq> a" using a(1) e by (auto simp: flowie_topic_node_empty_def)
    then show "\<exists>node'. h2 b = Some node' \<and> pos b = pos b \<and>
        tn_terminal_entries node' = tn_terminal_entries n \<and> tn_hash_entries node' = tn_hash_entries n"
      using entries [OF b(1)] by simp
  next
    fix b n assume "h2 b = Some n"
    then show "\<exists>node. ?h b = Some node \<and> pos b = pos b \<and>
        tn_terminal_entries n = tn_terminal_entries node \<and> tn_hash_entries n = tn_hash_entries node"
      using backward by simp
  qed
  have "bucket_at h2 root levels = bucket_at ?h root levels" for levels
    by (rule bucket_eq) (rule content)
  then have bucket: "topic_bucket index' = topic_bucket index"
    using parts(4) by (simp add: topic_bucket_def index' fun_eq_iff)
  have "index_tree index' root pos"
    using tree2 slots(4) parts(3) dom2 h1(1) by (simp add: index_tree_def index' h2_def [symmetric])
  moreover have "flowie_topic_index_prune a index = flowie_topic_index_prune p index'"
    using a e p(1) parent u(1) slots(1,2) parts(4) pa
    by (subst flowie_topic_index_prune.simps) (simp add: index'_def Let_def)
  moreover have "p \<in> dom (ti_heap index')" using dom2 h1(1) p(2) pa by (simp add: index')
  moreover have "length (ti_nodes index') < length (ti_nodes index)"
    using slots(1) by (simp add: index' nodes'_def)
  ultimately show thesis using that [of p index'] bucket by blast
qed

lemma prune_step:
  assumes "index_tree index root pos" "a \<in> dom (ti_heap index)"
  shows "\<exists>index'. flowie_topic_index_prune a index = (Inr (), index') \<and> index_tree index' root pos \<and>
    topic_bucket index' = topic_bucket index"
  using assms
proof (induction "length (ti_nodes index)" arbitrary: index a rule: less_induct)
  case less
  obtain node where node: "ti_heap index a = Some node" using less.prems by auto
  have root: "ti_root index = Some root" using less.prems by (simp add: index_tree_def)
  show ?case
  proof (cases "a = root \<or> \<not> flowie_topic_node_empty node")
    case True
    then have "flowie_topic_index_prune a index = (Inr (), index)"
      using node root by (subst flowie_topic_index_prune.simps) auto
    then show ?thesis using less.prems by blast
  next
    case False
    then have f: "a \<noteq> root" "flowie_topic_node_empty node" by auto
    obtain p index' where p: "flowie_topic_index_prune a index = flowie_topic_index_prune p index'"
        "p \<in> dom (ti_heap index')" "index_tree index' root pos" "topic_bucket index' = topic_bucket index"
        "length (ti_nodes index') < length (ti_nodes index)"
      by (rule prune_turn [OF less.prems(1) node f])
    then show ?thesis using less.hyps [OF p(5,3,2)] by simp
  qed
qed

text \<open>The entry that swap-remove moves, and the place of a binding.\<close>

lemma remove_step:
  assumes t: "index_tree index root pos" and b: "binding_at index binding fs"
    and e: "tb_position binding < length (topic_bucket index fs)"
      "topic_bucket index fs ! tb_position binding = e"
  shows "\<exists>index'. flowie_topic_index_remove binding e index =
      (Inr (binding_none, if tb_position binding + 1 = length (topic_bucket index fs)
                          then FLOWIE_TOPIC_INDEX_NO_ENTRY else last (topic_bucket index fs)), index') \<and>
    index_tree index' root pos \<and>
    topic_bucket index' = (topic_bucket index)(fs := swap_remove (tb_position binding) (topic_bucket index fs))"
proof -
  obtain a where a: "tb_bucket binding \<noteq> FLOWIE_TOPIC_BUCKET_NONE" "tb_node binding = Some a"
      "a \<in> dom (ti_heap index)" "fs = bucket_filter (tb_bucket binding) (pos a)"
    using b by (auto simp: binding_at_iff [OF t])
  obtain n where n: "ti_heap index a = Some n" using a(3) by auto
  have root: "ti_root index = Some root" and tree: "tree_ok (ti_heap index) root pos"
    using t by (auto simp: index_tree_def)
  obtain es where es: "bucket_entries (tb_bucket binding) n = Some es"
    using a(1) by (cases "tb_bucket binding") (auto simp: bucket_entries_def)
  have fs: "topic_bucket index fs = es"
    using bucket_at_node [OF tree n es] root a(4) by (simp add: topic_bucket_def)
  let ?i = "topic_node_update a (bucket_set (tb_bucket binding) (swap_remove (tb_position binding) es)) index"
  note set' = index_tree_bucket_set [OF t n a(1), of "swap_remove (tb_position binding) es"]
  have "a \<in> dom (ti_heap ?i)" using n by (simp add: topic_node_update_def)
  then obtain index' where p: "flowie_topic_index_prune a ?i = (Inr (), index')" "index_tree index' root pos"
      "topic_bucket index' = topic_bucket ?i"
    using prune_step [OF set'(1)] by blast
  have "flowie_topic_index_remove binding e index =
      (Inr (binding_none, if tb_position binding + 1 = length es
                          then FLOWIE_TOPIC_INDEX_NO_ENTRY else last es), index')"
    using root a(2) n es e fs p(1) by (simp add: flowie_topic_index_remove_def Let_def obind_def)
  then show ?thesis using p(2,3) set'(2) a(4) fs by auto
qed

end
