(* ===== verification/Topic_Index_Match.thy ===== *)
theory Topic_Index_Match
  imports Topic_Index_Ops
begin

text \<open>
  What the walks over the topic index find. The depth-first visitor and the level-by-level
  matcher see the same entries: those of the filters that match the topic by the rules of
  \<open>Mqtt_Text\<close>. The visitor for containing filters only reports filters that match every
  topic of the requested one.
\<close>

section \<open>The visited entries\<close>

definition end_list :: "topic_heap \<Rightarrow> addr \<Rightarrow> nat list" where
  "end_list heap a =
     (case heap a of None \<Rightarrow> [] | Some n \<Rightarrow> tn_terminal_entries n @ tn_hash_entries n)"

fun visit_list :: "topic_heap \<Rightarrow> addr \<Rightarrow> bool \<Rightarrow> bytes list \<Rightarrow> nat list" where
  "visit_list heap a skip [] = []"
| "visit_list heap a skip (t # ts) =
     (case heap a of
        None \<Rightarrow> []
      | Some n \<Rightarrow>
          (if skip then [] else tn_hash_entries n) @
          (case map_of (tn_exact_children n) t of
             None \<Rightarrow> []
           | Some b \<Rightarrow> if ts = [] then end_list heap b else visit_list heap b False ts) @
          (case tn_plus_child n of
             None \<Rightarrow> []
           | Some b \<Rightarrow> if skip then [] else if ts = [] then end_list heap b else visit_list heap b False ts))"

lemma entries_visit_append:
  "flowie_topic_entries_visit (xs @ ys) visit ctx =
     rbind (flowie_topic_entries_visit xs visit ctx) (flowie_topic_entries_visit ys visit)"
proof (induction xs arbitrary: ctx)
  case (Cons x xs)
  then show ?case by (cases "visit ctx x") simp_all
qed simp

lemma node_visit_end_list:
  "b \<in> dom heap \<Longrightarrow>
     flowie_topic_node_visit_end (heap b) visit ctx = flowie_topic_entries_visit (end_list heap b) visit ctx"
  by (auto simp: flowie_topic_node_visit_end_def end_list_def entries_visit_append)

lemma tree_children:
  assumes "tree_ok heap root pos" "heap a = Some n"
  shows "map_of (tn_exact_children n) t = (if t = [ch_plus] \<or> t = [ch_hash] then None else node_child n t)"
    "map_of (tn_exact_children n) t = Some b \<Longrightarrow> b \<in> dom heap"
    "tn_plus_child n = Some b \<Longrightarrow> b \<in> dom heap"
    "tn_plus_child n = node_child n [ch_plus]" "node_child n [ch_hash] = None"
proof -
  have k: "node_keys_ok n" using tree_okD(4) [OF assms] by (simp add: node_ok_def)
  then have none: "map_of (tn_exact_children n) [ch_plus] = None" "map_of (tn_exact_children n) [ch_hash] = None"
    by (simp_all add: node_keys_ok_def map_of_eq_None_iff)
  then show eq: "map_of (tn_exact_children n) t = (if t = [ch_plus] \<or> t = [ch_hash] then None else node_child n t)"
    by (auto simp: node_child_def)
  show "tn_plus_child n = node_child n [ch_plus]" "node_child n [ch_hash] = None"
    using none by (simp_all add: node_child_def)
  show "b \<in> dom heap" if "map_of (tn_exact_children n) t = Some b"
    using that eq tree_child_iff [OF assms, of t b] by (auto split: if_splits)
  show "b \<in> dom heap" if "tn_plus_child n = Some b"
    using that tree_child_iff [OF assms, of "[ch_plus]" b] by (simp add: node_child_def)
qed

lemma visit_topic_node_list:
  assumes t: "tree_ok heap root pos" and "a \<in> dom heap"
  shows "flowie_topic_index_visit_topic_node heap a dollar rest first visit ctx =
    flowie_topic_entries_visit (visit_list heap a (first \<and> dollar) (split_levels rest)) visit ctx"
  using assms(2)
proof (induction rest arbitrary: a first ctx rule: length_induct)
  case (1 rest)
  obtain token slash rest' where cut: "flowie_mqtt_next_level rest = (token, slash, rest')"
    by (cases "flowie_mqtt_next_level rest")
  obtain n where n: "heap a = Some n" using "1.prems" by auto
  define ts where "ts = (if slash then split_levels rest' else [])"
  have levels: "split_levels rest = token # ts"
    using next_level_split [OF cut] by (simp add: ts_def)
  have step: "(if \<not> slash then flowie_topic_node_visit_end (heap b) visit c
       else flowie_topic_index_visit_topic_node heap b dollar rest' False visit c) =
      flowie_topic_entries_visit (if ts = [] then end_list heap b else visit_list heap b False ts) visit c"
    if "b \<in> dom heap" for b c
    using that "1.IH" next_level_shorter [of rest token rest'] cut
    by (cases slash) (auto simp: node_visit_end_list ts_def)
  have exact: "(case map_of (tn_exact_children n) token of None \<Rightarrow> Inr c
       | Some b \<Rightarrow> if \<not> slash then flowie_topic_node_visit_end (heap b) visit c
           else flowie_topic_index_visit_topic_node heap b dollar rest' False visit c) =
      flowie_topic_entries_visit (case map_of (tn_exact_children n) token of None \<Rightarrow> []
       | Some b \<Rightarrow> if ts = [] then end_list heap b else visit_list heap b False ts) visit c" for c
  proof (cases "map_of (tn_exact_children n) token")
    case (Some b)
    then show ?thesis using step [OF tree_children(2) [OF t n Some]] by (simp only: option.case)
  qed simp
  have plus: "(case tn_plus_child n of None \<Rightarrow> Inr c
       | Some b \<Rightarrow> if first \<and> dollar then Inr c
           else if \<not> slash then flowie_topic_node_visit_end (heap b) visit c
           else flowie_topic_index_visit_topic_node heap b dollar rest' False visit c) =
      flowie_topic_entries_visit (case tn_plus_child n of None \<Rightarrow> []
       | Some b \<Rightarrow> if first \<and> dollar then [] else if ts = [] then end_list heap b
           else visit_list heap b False ts) visit c" for c
  proof (cases "tn_plus_child n")
    case (Some b)
    then show ?thesis
      using step [OF tree_children(3) [OF t n Some], of c] by (auto split: if_splits)
  qed simp
  have append: "flowie_topic_entries_visit (xs @ ys) visit =
      (\<lambda>c. rbind (flowie_topic_entries_visit xs visit c) (flowie_topic_entries_visit ys visit))" for xs ys
    by (rule ext) (rule entries_visit_append)
  show ?case
    by (subst flowie_topic_index_visit_topic_node.simps)
       (simp only: n cut levels prod.case option.case exact plus visit_list.simps append,
        simp only: if_distrib [of "\<lambda>xs. flowie_topic_entries_visit xs visit ctx"]
          flowie_topic_entries_visit.simps not_not, simp only: split: if_split, blast)
qed

section \<open>Buckets below a node\<close>

lemma bucket_at_Nil: "heap a = Some n \<Longrightarrow> bucket_at heap a [] = tn_terminal_entries n"
  by (simp add: bucket_at_def terminal_at_def)

lemma bucket_at_hash: "heap a = Some n \<Longrightarrow> bucket_at heap a [[ch_hash]] = tn_hash_entries n"
  by (simp add: bucket_at_def hash_at_def)

lemma bucket_at_Cons:
  assumes "heap a = Some n" "f \<noteq> [ch_hash] \<or> fs \<noteq> []"
  shows "bucket_at heap a (f # fs) = (case node_child n f of None \<Rightarrow> [] | Some b \<Rightarrow> bucket_at heap b fs)"
  using assms by (cases "node_child n f") (auto simp: bucket_at_def terminal_at_def hash_at_def)

lemma levels_match_Nil_iff: "levels_match fs [] \<longleftrightarrow> fs = [] \<or> fs = [[ch_hash]]"
  by (cases fs) (auto simp: levels_match_def)

definition wildcard_first :: "bytes list \<Rightarrow> bool" where
  "wildcard_first fs \<longleftrightarrow> fs \<noteq> [] \<and> (hd fs = [ch_plus] \<or> hd fs = [ch_hash])"

text \<open>The filters below a node that a walk over the levels \<open>ts\<close> reaches.\<close>

definition reached :: "bool \<Rightarrow> bytes list \<Rightarrow> bytes list \<Rightarrow> bool" where
  "reached skip ts fs \<longleftrightarrow> fs \<noteq> [] \<and> levels_match fs ts \<and> \<not> (skip \<and> wildcard_first fs)"

lemma end_list_set:
  "b \<in> dom heap \<Longrightarrow> e \<in> set (end_list heap b) \<longleftrightarrow> (\<exists>fs. levels_match fs [] \<and> e \<in> set (bucket_at heap b fs))"
  by (auto simp: end_list_def levels_match_Nil_iff bucket_at_Nil bucket_at_hash)

lemma visit_list_set:
  assumes t: "tree_ok heap root pos" and "a \<in> dom heap" "ts \<noteq> []"
  shows "e \<in> set (visit_list heap a skip ts) \<longleftrightarrow> (\<exists>fs. reached skip ts fs \<and> e \<in> set (bucket_at heap a fs))"
  using assms(2,3)
proof (induction ts arbitrary: a skip)
  case (Cons x ts)
  obtain n where n: "heap a = Some n" using Cons.prems by auto
  note ch = tree_children [OF t n]
  have below: "e \<in> set (if ts = [] then end_list heap b else visit_list heap b False ts) \<longleftrightarrow>
      (\<exists>fs. levels_match fs ts \<and> e \<in> set (bucket_at heap b fs))" if b: "b \<in> dom heap" for b
  proof (cases "ts = []")
    case True
    then show ?thesis using end_list_set [OF b] by simp
  next
    case False
    have "\<not> levels_match [] ts" using False by (simp add: levels_match_Nil)
    then show ?thesis using False Cons.IH [OF b False, of False] by (auto simp: reached_def)
  qed
  have step: "(\<exists>fs. levels_match (f # fs) (x # ts) \<and> e \<in> set (bucket_at heap a (f # fs))) \<longleftrightarrow>
      level_ok f x \<and> (\<exists>b. node_child n f = Some b \<and> (\<exists>fs. levels_match fs ts \<and> e \<in> set (bucket_at heap b fs)))"
    if "f \<noteq> [ch_hash]" for f
    using that by (cases "node_child n f") (auto simp: levels_match_Cons bucket_at_Cons [of heap a, OF n])
  have hash: "(\<exists>fs. levels_match ([ch_hash] # fs) (x # ts) \<and> e \<in> set (bucket_at heap a ([ch_hash] # fs))) \<longleftrightarrow>
      e \<in> set (tn_hash_entries n)"
  proof
    assume "e \<in> set (tn_hash_entries n)"
    then show "\<exists>fs. levels_match ([ch_hash] # fs) (x # ts) \<and> e \<in> set (bucket_at heap a ([ch_hash] # fs))"
      using bucket_at_hash [of heap a, OF n] levels_match_hash by (intro exI [of _ "[]"]) simp
  next
    assume "\<exists>fs. levels_match ([ch_hash] # fs) (x # ts) \<and> e \<in> set (bucket_at heap a ([ch_hash] # fs))"
    then obtain fs where fs: "e \<in> set (bucket_at heap a ([ch_hash] # fs))" by blast
    then have "fs = []" using bucket_at_Cons [of heap a, OF n, of "[ch_hash]" fs] ch(5) by (cases fs) auto
    then show "e \<in> set (tn_hash_entries n)" using fs bucket_at_hash [of heap a, OF n] by simp
  qed
  define Q where "Q f \<longleftrightarrow> (\<exists>fs. levels_match (f # fs) (x # ts) \<and> e \<in> set (bucket_at heap a (f # fs)))" for f
  define S where "S b = set (if ts = [] then end_list heap b else visit_list heap b False ts)" for b
  have Q: "Q f \<longleftrightarrow> level_ok f x \<and> (\<exists>b. node_child n f = Some b \<and> e \<in> S b)" if "f \<noteq> [ch_hash]" for f
    unfolding Q_def step [OF that] S_def using below tree_child_iff [OF t n, of f] by blast
  have Qh: "Q [ch_hash] \<longleftrightarrow> e \<in> set (tn_hash_entries n)" using hash by (simp add: Q_def)
  have Qp: "Q [ch_plus] \<longleftrightarrow> (\<exists>b. node_child n [ch_plus] = Some b \<and> e \<in> S b)"
    using Q [of "[ch_plus]"] by (simp add: level_ok_def)
  have Qx: "x \<noteq> [ch_hash] \<Longrightarrow> Q x \<longleftrightarrow> (\<exists>b. node_child n x = Some b \<and> e \<in> S b)"
    using Q [of x] by (simp add: level_ok_def)
  have Qf: "Q f \<Longrightarrow> f = [ch_hash] \<or> f = [ch_plus] \<or> f = x" for f
    using Q [of f] by (auto simp: level_ok_def)
  have "(\<exists>fs. reached skip (x # ts) fs \<and> e \<in> set (bucket_at heap a fs)) \<longleftrightarrow>
      (\<exists>f. \<not> (skip \<and> (f = [ch_plus] \<or> f = [ch_hash])) \<and> Q f)"
    (is "?l \<longleftrightarrow> ?r")
  proof
    assume ?l
    then obtain fs where fs: "reached skip (x # ts) fs" "e \<in> set (bucket_at heap a fs)" by blast
    then obtain f fs' where "fs = f # fs'" by (cases fs) (auto simp: reached_def)
    then show ?r using fs by (intro exI [of _ f]) (auto simp: reached_def wildcard_first_def Q_def)
  next
    assume ?r
    then obtain f fs' where "\<not> (skip \<and> (f = [ch_plus] \<or> f = [ch_hash]))" "levels_match (f # fs') (x # ts)"
        "e \<in> set (bucket_at heap a (f # fs'))"
      unfolding Q_def by blast
    then show ?l by (intro exI [of _ "f # fs'"]) (simp add: reached_def wildcard_first_def)
  qed
  also have "\<dots> \<longleftrightarrow> \<not> skip \<and> e \<in> set (tn_hash_entries n) \<or>
      \<not> skip \<and> (\<exists>b. node_child n [ch_plus] = Some b \<and> e \<in> S b) \<or>
      x \<noteq> [ch_plus] \<and> x \<noteq> [ch_hash] \<and> (\<exists>b. node_child n x = Some b \<and> e \<in> S b)"
    using Qh Qp Qx Qf by blast
  also have "\<dots> \<longleftrightarrow> e \<in> set (visit_list heap a skip (x # ts))"
    by (cases "node_child n x"; cases "node_child n [ch_plus]") (auto simp: n ch(1,4) S_def)
  finally show ?case by simp
qed simp

section \<open>Every entry once\<close>

text \<open>No entry stands in two buckets or twice in one.\<close>

definition entries_once :: "(bytes list \<Rightarrow> nat list) \<Rightarrow> bool" where
  "entries_once bucket \<longleftrightarrow>
     (\<forall>fs. distinct (bucket fs)) \<and> (\<forall>fs gs. fs \<noteq> gs \<longrightarrow> set (bucket fs) \<inter> set (bucket gs) = {})"

lemma entries_once_below:
  assumes "tree_ok heap root pos" "heap a = Some n" "node_child n f = Some b" "entries_once (bucket_at heap a)"
  shows "entries_once (bucket_at heap b)"
proof -
  have "f \<noteq> [ch_hash]" using tree_children(5) [OF assms(1,2)] assms(3) by auto
  then have "bucket_at heap b fs = bucket_at heap a (f # fs)" for fs
    using bucket_at_Cons [of heap a n f fs] assms(2,3) by simp
  then show ?thesis using assms(4) by (simp add: entries_once_def)
qed

lemma entries_once_disjoint:
  assumes "entries_once bucket" "\<And>e. e \<in> A \<Longrightarrow> \<exists>fs. P fs \<and> e \<in> set (bucket fs)"
    "\<And>e. e \<in> B \<Longrightarrow> \<exists>fs. Q fs \<and> e \<in> set (bucket fs)" "\<And>fs. P fs \<Longrightarrow> Q fs \<Longrightarrow> False"
  shows "A \<inter> B = {}"
proof (rule ccontr)
  assume "A \<inter> B \<noteq> {}"
  then obtain e where e: "e \<in> A" "e \<in> B" by blast
  obtain fs where fs: "P fs" "e \<in> set (bucket fs)" using assms(2) [OF e(1)] by blast
  obtain gs where gs: "Q gs" "e \<in> set (bucket gs)" using assms(3) [OF e(2)] by blast
  have "fs \<noteq> gs" using fs(1) gs(1) assms(4) by blast
  then have "set (bucket fs) \<inter> set (bucket gs) = {}" using assms(1) by (simp add: entries_once_def)
  then show False using fs(2) gs(2) by blast
qed

lemma end_list_distinct:
  assumes "b \<in> dom heap" "entries_once (bucket_at heap b)"
  shows "distinct (end_list heap b)"
proof -
  obtain n where n: "heap b = Some n" using assms by auto
  have d: "distinct (bucket_at heap b fs)" for fs using assms(2) by (simp add: entries_once_def)
  have i: "set (bucket_at heap b []) \<inter> set (bucket_at heap b [[ch_hash]]) = {}"
    using assms(2) unfolding entries_once_def by blast
  show ?thesis
    using d [of "[]"] d [of "[[ch_hash]]"] i
    by (simp add: end_list_def n bucket_at_Nil [of heap b, OF n] bucket_at_hash [of heap b, OF n])
qed

lemma visit_list_distinct:
  assumes t: "tree_ok heap root pos" and "a \<in> dom heap" "entries_once (bucket_at heap a)"
  shows "distinct (visit_list heap a skip ts)"
  using assms(2,3)
proof (induction ts arbitrary: a skip)
  case (Cons x ts)
  obtain n where n: "heap a = Some n" using Cons.prems by auto
  note ch = tree_children [OF t n] and once = Cons.prems(2)
  define L where "L b = (if ts = [] then end_list heap b else visit_list heap b False ts)" for b
  have L: "distinct (L b)" "\<And>e. e \<in> set (L b) \<Longrightarrow> \<exists>fs. hd fs = f \<and> fs \<noteq> [] \<and> e \<in> set (bucket_at heap a fs)"
    if c: "node_child n f = Some b" for f b
  proof -
    have b: "b \<in> dom heap" using tree_child_iff [OF t n] c by simp
    have o: "entries_once (bucket_at heap b)" by (rule entries_once_below [OF t n c once])
    show "distinct (L b)" using end_list_distinct [OF b o] Cons.IH [OF b o] by (simp add: L_def)
    fix e assume "e \<in> set (L b)"
    then have "\<exists>fs. e \<in> set (bucket_at heap b fs)"
      using end_list_set [OF b] visit_list_set [OF t b] by (auto simp: L_def split: if_splits)
    then obtain fs where fs: "e \<in> set (bucket_at heap b fs)" by blast
    have "f \<noteq> [ch_hash]" using ch(5) c by auto
    then have "e \<in> set (bucket_at heap a (f # fs))" using bucket_at_Cons [of heap a, OF n, of f fs] c fs by simp
    then show "\<exists>fs. hd fs = f \<and> fs \<noteq> [] \<and> e \<in> set (bucket_at heap a fs)" by (intro exI [of _ "f # fs"]) simp
  qed
  have exact: "x \<noteq> [ch_plus] \<and> x \<noteq> [ch_hash] \<and> node_child n x = Some b"
    if "map_of (tn_exact_children n) x = Some b" for b
    using that ch(1) [of x] by (simp split: if_splits)
  have plus: "node_child n [ch_plus] = Some b" if "tn_plus_child n = Some b" for b
    using that ch(4) by simp
  define H E P where "H = (if skip then [] else tn_hash_entries n)"
    and "E = (case map_of (tn_exact_children n) x of None \<Rightarrow> [] | Some b \<Rightarrow> L b)"
    and "P = (case tn_plus_child n of None \<Rightarrow> [] | Some b \<Rightarrow> if skip then [] else L b)"
  have split: "visit_list heap a skip (x # ts) = H @ E @ P"
    by (cases "map_of (tn_exact_children n) x"; cases "tn_plus_child n")
       (simp_all add: n H_def E_def P_def L_def)
  have inH: "\<exists>fs. fs = [[ch_hash]] \<and> e \<in> set (bucket_at heap a fs)" if "e \<in> set H" for e
    using that bucket_at_hash [of heap a, OF n] by (auto simp: H_def split: if_splits)
  have inE: "\<exists>fs. (hd fs = x \<and> fs \<noteq> [] \<and> x \<noteq> [ch_plus] \<and> x \<noteq> [ch_hash]) \<and> e \<in> set (bucket_at heap a fs)"
    if "e \<in> set E" for e
  proof (cases "map_of (tn_exact_children n) x")
    case (Some b)
    then show ?thesis using that exact [OF Some] L(2) [of x b e] by (simp add: E_def)
  qed (use that in \<open>simp add: E_def\<close>)
  have inP: "\<exists>fs. (hd fs = [ch_plus] \<and> fs \<noteq> []) \<and> e \<in> set (bucket_at heap a fs)" if "e \<in> set P" for e
  proof (cases "tn_plus_child n")
    case (Some b)
    then show ?thesis using that L(2) [OF plus [OF Some], of e] by (simp add: P_def split: if_splits)
  qed (use that in \<open>simp add: P_def\<close>)
  have "set H \<inter> set E = {}" by (rule entries_once_disjoint [OF once inH inE]) auto
  moreover have "set H \<inter> set P = {}" by (rule entries_once_disjoint [OF once inH inP]) auto
  moreover have "set E \<inter> set P = {}" by (rule entries_once_disjoint [OF once inE inP]) auto
  moreover have "distinct H"
  proof -
    have "distinct (bucket_at heap a [[ch_hash]])" using once by (simp add: entries_once_def)
    then show ?thesis using bucket_at_hash [of heap a, OF n] by (simp add: H_def)
  qed
  moreover have "distinct E" using L(1) [of x] by (auto simp: E_def split: option.split dest!: exact)
  moreover have "distinct P" using L(1) [of "[ch_plus]"] by (auto simp: P_def split: option.split dest!: plus)
  ultimately show ?case unfolding split distinct_append set_append by blast
qed simp

end
