(* ===== verification/Topic_Index_Queries.thy ===== *)
theory Topic_Index_Queries
  imports Topic_Index_Match
begin

text \<open>
  The level-by-level matcher of the topic index and the visitor for containing filters,
  against the list of entries that the depth-first visitor reports.
\<close>

section \<open>Operations that only consume allocation outcomes\<close>

text \<open>\<open>yields m index x\<close>: the operation returns \<open>x\<close> or fails, changes nothing but the
  pending allocation outcomes, and returns \<open>x\<close> when no outcome is pending.\<close>

definition yields :: "(flowie_topic_index, 'a) op \<Rightarrow> flowie_topic_index \<Rightarrow> 'a \<Rightarrow> bool" where
  "yields m index x \<longleftrightarrow>
     (\<exists>r fs. m index = (r, index\<lparr>ti_faults := fs\<rparr>) \<and> (r = Inr x \<or> (\<exists>e. r = Inl e)) \<and>
             (ti_faults index = [] \<longrightarrow> fs = [] \<and> r = Inr x))"

lemma yieldsI:
  "m index = (r, index\<lparr>ti_faults := fs\<rparr>) \<Longrightarrow> r = Inr x \<or> (\<exists>e. r = Inl e) \<Longrightarrow>
     (ti_faults index = [] \<Longrightarrow> fs = [] \<and> r = Inr x) \<Longrightarrow> yields m index x"
  unfolding yields_def by blast

lemma yieldsE:
  assumes "yields m index x"
  obtains (fails) e fs where "m index = (Inl e, index\<lparr>ti_faults := fs\<rparr>)" "ti_faults index \<noteq> []"
  | (returns) fs where "m index = (Inr x, index\<lparr>ti_faults := fs\<rparr>)" "ti_faults index = [] \<Longrightarrow> fs = []"
  using assms unfolding yields_def by blast

lemma yields_oret: "yields (oret x) index x"
  by (rule yieldsI [where fs = "ti_faults index"]) simp_all

lemma yields_attempt: "yields topic_attempt index ()"
proof (cases "ti_faults index")
  case Nil
  then show ?thesis by (intro yieldsI [where fs = "[]"]) (simp_all add: topic_attempt_def)
next
  case (Cons s fs)
  then show ?thesis
    by (intro yieldsI [where fs = fs]) (simp_all add: topic_attempt_def, cases "flowie_stl_error s", simp_all)
qed

lemma yields_obind:
  assumes "yields m index x" "\<And>fs. yields (k x) (index\<lparr>ti_faults := fs\<rparr>) y"
  shows "yields (obind m k) index y"
  using assms(1)
proof (cases rule: yieldsE)
  case (fails e fs)
  then show ?thesis by (intro yieldsI [where fs = fs]) (auto simp add: obind_def)
next
  case (returns fs)
  show ?thesis
    using assms(2) [of fs]
  proof (cases rule: yieldsE)
    case (fails e fs')
    then show ?thesis using returns by (intro yieldsI [where fs = fs']) (auto simp add: obind_def)
  next
    case (returns fs')
    then show ?thesis
      using \<open>m index = _\<close> \<open>ti_faults index = [] \<Longrightarrow> fs = []\<close>
      by (intro yieldsI [where fs = fs']) (auto simp add: obind_def)
  qed
qed

lemma yields_cong: "m index = m' index \<Longrightarrow> yields m' index x \<Longrightarrow> yields m index x"
  by (simp add: yields_def)

lemma yields_append: "yields (flowie_topic_entries_append matched es) index (matched @ es)"
proof (induction es arbitrary: matched index)
  case Nil
  show ?case by (rule yields_cong [OF _ yields_oret]) simp
next
  case (Cons e es)
  show ?case using yields_obind [OF yields_attempt Cons.IH [of "matched @ [e]"]] by simp
qed

definition child_list :: "addr option \<Rightarrow> addr list" where
  "child_list child = (case child of None \<Rightarrow> [] | Some a \<Rightarrow> [a])"

lemma yields_push:
  "yields (topic_push_node matched nexts child) index (matched, nexts @ child_list child)"
proof (cases child)
  case None
  have "yields (oret (matched, nexts)) index (matched, nexts)" by (rule yields_oret)
  then show ?thesis by (simp only: None topic_push_node_def child_list_def option.case append_Nil2)
next
  case (Some a)
  have "yields (obind topic_attempt (\<lambda>_. oret (matched, nexts @ [a]))) index (matched, nexts @ [a])"
    by (rule yields_obind [OF yields_attempt yields_oret])
  then show ?thesis by (simp only: Some topic_push_node_def child_list_def option.case)
qed

section \<open>The level-by-level matcher\<close>

definition level_hashes :: "topic_heap \<Rightarrow> bool \<Rightarrow> addr \<Rightarrow> nat list" where
  "level_hashes heap skip a =
     (case heap a of None \<Rightarrow> [] | Some n \<Rightarrow> if skip then [] else tn_hash_entries n)"

definition level_nexts :: "topic_heap \<Rightarrow> bool \<Rightarrow> bytes \<Rightarrow> addr \<Rightarrow> addr list" where
  "level_nexts heap skip token a =
     (case heap a of
        None \<Rightarrow> []
      | Some n \<Rightarrow> (if skip then [] else child_list (tn_plus_child n)) @
                  child_list (map_of (tn_exact_children n) token))"

lemma yields_active:
  assumes "set active \<subseteq> dom (ti_heap index)"
  shows "yields (topic_match_active skip token active matched nexts) index
    (matched @ concat (map (level_hashes (ti_heap index) skip) active),
     nexts @ concat (map (level_nexts (ti_heap index) skip token) active))"
  using assms
proof (induction active arbitrary: matched nexts index)
  case Nil
  show ?case by (rule yields_cong [OF _ yields_oret]) simp
next
  case (Cons a active)
  obtain n where n: "ti_heap index a = Some n" using Cons.prems by auto
  let ?first = "if \<not> skip
     then obind (flowie_topic_entries_append matched (tn_hash_entries n)) (\<lambda>matched.
            topic_push_node matched nexts (tn_plus_child n))
     else oret (matched, nexts)"
  let ?m = "matched @ level_hashes (ti_heap index) skip a"
  let ?x = "nexts @ (if skip then [] else child_list (tn_plus_child n))"
  have 1: "yields ?first index (?m, ?x)"
  proof (cases skip)
    case True
    have "yields (oret (matched, nexts)) index (matched, nexts)" by (rule yields_oret)
    then show ?thesis
      by (simp only: True level_hashes_def n option.case if_True if_False simp_thms append_Nil2)
  next
    case False
    have "yields (obind (flowie_topic_entries_append matched (tn_hash_entries n)) (\<lambda>matched.
            topic_push_node matched nexts (tn_plus_child n))) index
        (matched @ tn_hash_entries n, nexts @ child_list (tn_plus_child n))"
      by (rule yields_obind [OF yields_append yields_push])
    then show ?thesis
      by (simp only: False level_hashes_def n option.case if_True if_False simp_thms)
  qed
  have 2: "yields (topic_push_node ?m ?x (map_of (tn_exact_children n) token)) i
      (?m, nexts @ level_nexts (ti_heap index) skip token a)" for i
    using yields_push [of ?m ?x "map_of (tn_exact_children n) token" i] by (simp add: level_nexts_def n)
  have 3: "yields (topic_match_active skip token active ?m (nexts @ level_nexts (ti_heap index) skip token a))
      (index\<lparr>ti_faults := fs\<rparr>)
      (?m @ concat (map (level_hashes (ti_heap index) skip) active),
       (nexts @ level_nexts (ti_heap index) skip token a) @
         concat (map (level_nexts (ti_heap index) skip token) active))" for fs
    using Cons.IH [of "index\<lparr>ti_faults := fs\<rparr>" ?m "nexts @ level_nexts (ti_heap index) skip token a"] Cons.prems
    by simp
  have "yields (obind ?first (\<lambda>(matched, nexts).
      obind (topic_push_node matched nexts (map_of (tn_exact_children n) token)) (\<lambda>(matched, nexts).
        topic_match_active skip token active matched nexts))) index
      (?m @ concat (map (level_hashes (ti_heap index) skip) active),
       (nexts @ level_nexts (ti_heap index) skip token a) @
         concat (map (level_nexts (ti_heap index) skip token) active))"
    by (rule yields_obind [OF 1], unfold prod.case, rule yields_obind [OF 2], unfold prod.case) (use 3 in simp)
  then have "yields (topic_match_active skip token (a # active) matched nexts) index
      (?m @ concat (map (level_hashes (ti_heap index) skip) active),
       (nexts @ level_nexts (ti_heap index) skip token a) @
         concat (map (level_nexts (ti_heap index) skip token) active))"
    by (rule yields_cong [rotated]) (simp only: topic_match_active.simps n option.case)
  then show ?case by (simp only: list.map concat.simps append_assoc)
qed

lemma mset_visit_list_Cons:
  assumes "a \<in> dom heap"
  shows "mset (visit_list heap a skip (token # ts)) = mset (level_hashes heap skip a) +
    (\<Sum>b\<leftarrow>level_nexts heap skip token a.
       mset (if ts = [] then end_list heap b else visit_list heap b False ts))"
proof -
  obtain n where n: "heap a = Some n" using assms by auto
  show ?thesis
    by (cases "map_of (tn_exact_children n) token"; cases "tn_plus_child n")
       (simp_all add: n level_hashes_def level_nexts_def child_list_def)
qed

lemma sum_list_concat_map:
  "(\<Sum>a\<leftarrow>xs. mset (f a) + (\<Sum>b\<leftarrow>g a. h b)) = mset (concat (map f xs)) + (\<Sum>b\<leftarrow>concat (map g xs). h b)"
  for f :: "'a \<Rightarrow> 'b list"
  by (induction xs) (simp_all add: ac_simps)

lemma level_nexts_dom:
  assumes "tree_ok heap root pos" "set active \<subseteq> dom heap"
  shows "set (concat (map (level_nexts heap skip token) active)) \<subseteq> dom heap"
proof
  fix b assume "b \<in> set (concat (map (level_nexts heap skip token) active))"
  then obtain a where a: "a \<in> set active" "b \<in> set (level_nexts heap skip token a)" by auto
  then obtain n where n: "heap a = Some n" using assms(2) by auto
  have "tn_plus_child n = Some b \<or> map_of (tn_exact_children n) token = Some b"
    using a(2) by (auto simp: level_nexts_def n child_list_def split: if_splits option.splits)
  then show "b \<in> dom heap" using tree_children(2,3) [OF assms(1) n] by blast
qed

fun level_run :: "topic_heap \<Rightarrow> bool \<Rightarrow> bytes list \<Rightarrow> addr list \<Rightarrow> nat list \<Rightarrow> nat list \<times> addr list" where
  "level_run heap skip [] active matched = (matched, active)"
| "level_run heap skip (token # ts) active matched =
     (let matched = matched @ concat (map (level_hashes heap skip) active);
          nexts = concat (map (level_nexts heap skip token) active)
      in if ts = [] \<or> nexts = [] then (matched, nexts) else level_run heap False ts nexts matched)"

lemma yields_levels:
  assumes t: "tree_ok heap root pos" and "set active \<subseteq> dom heap" "ti_heap index = heap"
  shows "yields (topic_match_levels dollar rest first active matched) index
    (level_run heap (first \<and> dollar) (split_levels rest) active matched)"
  using assms(2,3)
proof (induction rest arbitrary: first active matched index rule: length_induct)
  case (1 rest)
  obtain token slash rest' where cut: "flowie_mqtt_next_level rest = (token, slash, rest')"
    by (cases "flowie_mqtt_next_level rest")
  let ?skip = "first \<and> dollar"
  let ?m = "matched @ concat (map (level_hashes heap ?skip) active)"
  let ?ns = "concat (map (level_nexts heap ?skip token) active)"
  let ?k = "\<lambda>(matched, nexts) index.
     if \<not> slash then oret (matched, nexts) index
     else if nexts = [] then oret (matched, []) index
     else topic_match_levels dollar rest' False nexts matched index"
  have act: "yields (topic_match_active ?skip token active matched []) index (?m, ?ns)"
    using yields_active [of active index ?skip token matched "[]"] "1.prems" by simp
  have ns: "set ?ns \<subseteq> dom heap" by (rule level_nexts_dom [OF t "1.prems"(1)])
  have rest: "yields (?k (?m, ?ns)) (index\<lparr>ti_faults := fs\<rparr>)
      (level_run heap ?skip (split_levels rest) active matched)" for fs
  proof (cases "slash \<and> ?ns \<noteq> []")
    case True
    then have levels: "split_levels rest = token # split_levels rest'" using next_level_split [OF cut] by simp
    have "length rest' < length rest" using True next_level_shorter [of rest token rest'] cut by simp
    then have "yields (topic_match_levels dollar rest' False ?ns ?m) (index\<lparr>ti_faults := fs\<rparr>)
        (level_run heap False (split_levels rest') ?ns ?m)"
      using "1.IH" [rule_format, of rest' ?ns "index\<lparr>ti_faults := fs\<rparr>" False ?m] ns "1.prems"(2) by simp
    moreover have "?k (?m, ?ns) = topic_match_levels dollar rest' False ?ns ?m"
      using True by (auto simp only: prod.case if_False simp_thms)
    moreover have "level_run heap ?skip (split_levels rest) active matched =
        level_run heap False (split_levels rest') ?ns ?m"
      using True by (simp only: levels level_run.simps Let_def split_levels_not_Nil simp_thms if_False)
    ultimately show ?thesis by simp
  next
    case False
    have "level_run heap ?skip (split_levels rest) active matched = (?m, ?ns)"
      using next_level_split [OF cut] False by (auto simp: Let_def)
    moreover have "?k (?m, ?ns) = oret (?m, ?ns)"
      using False by (intro ext) auto
    ultimately show ?thesis using yields_oret by simp
  qed
  have "yields (obind (topic_match_active ?skip token active matched []) ?k) index
      (level_run heap ?skip (split_levels rest) active matched)"
    by (rule yields_obind [of _ _ "(?m, ?ns)"]) (rule act, rule rest)
  then show ?case
    by (rule yields_cong [rotated]) (subst topic_match_levels.simps, simp only: cut prod.case)
qed

lemma level_run_visits:
  assumes t: "tree_ok heap root pos" and "set active \<subseteq> dom heap" "ts \<noteq> []"
    and run: "level_run heap skip ts active matched = (m, ns)"
  shows "set ns \<subseteq> dom heap \<and> mset m + (\<Sum>b\<leftarrow>ns. mset (end_list heap b)) =
    mset matched + (\<Sum>a\<leftarrow>active. mset (visit_list heap a skip ts))"
  using assms(2-)
proof (induction ts arbitrary: skip active matched)
  case (Cons token ts)
  define m' where "m' = matched @ concat (map (level_hashes heap skip) active)"
  define ns' where "ns' = concat (map (level_nexts heap skip token) active)"
  have ns: "set ns' \<subseteq> dom heap" unfolding ns'_def by (rule level_nexts_dom [OF t Cons.prems(1)])
  have run: "(if ts = [] \<or> ns' = [] then (m', ns') else level_run heap False ts ns' m') = (m, ns)"
    using Cons.prems(3) by (simp only: level_run.simps Let_def m'_def ns'_def)
  have visits: "(\<Sum>a\<leftarrow>active. mset (visit_list heap a skip (token # ts))) =
      mset (concat (map (level_hashes heap skip) active)) +
      (\<Sum>b\<leftarrow>ns'. mset (if ts = [] then end_list heap b else visit_list heap b False ts))"
    unfolding ns'_def sum_list_concat_map [symmetric]
    using Cons.prems(1) by (intro arg_cong [where f = sum_list] map_cong refl mset_visit_list_Cons) auto
  show ?case
  proof (cases "ts = [] \<or> ns' = []")
    case True
    then show ?thesis using run ns unfolding visits by (auto simp: m'_def)
  next
    case False
    then have "level_run heap False ts ns' m' = (m, ns)" using run by simp
    then show ?thesis
      using Cons.IH [OF ns _ , of False m'] False unfolding visits by (simp add: m'_def)
  qed
qed simp

lemma level_run_prefix:
  "level_run heap skip ts active matched = (m, ns) \<Longrightarrow> \<exists>es. m = matched @ es"
  by (induction heap skip ts active matched rule: level_run.induct) (fastforce simp: Let_def split: if_splits)+

text \<open>The last step collects the entries that end at the reached nodes.\<close>

lemma yields_finish:
  assumes "set ns \<subseteq> dom (ti_heap index)"
  shows "yields (topic_match_finish ns matched) index (matched @ concat (map (end_list (ti_heap index)) ns))"
  using assms
proof (induction ns arbitrary: matched index)
  case Nil
  show ?case by (rule yields_cong [OF _ yields_oret]) simp
next
  case (Cons a ns)
  obtain n where n: "ti_heap index a = Some n" using Cons.prems by auto
  let ?m = "(matched @ tn_terminal_entries n) @ tn_hash_entries n"
  have rest: "yields (topic_match_finish ns ?m) (index\<lparr>ti_faults := fs\<rparr>)
      (?m @ concat (map (end_list (ti_heap index)) ns))" for fs
    using Cons.IH [of "index\<lparr>ti_faults := fs\<rparr>" ?m] Cons.prems by simp
  have "yields (obind (flowie_topic_entries_append matched (tn_terminal_entries n)) (\<lambda>matched.
      obind (flowie_topic_entries_append matched (tn_hash_entries n)) (\<lambda>matched.
        topic_match_finish ns matched))) index (?m @ concat (map (end_list (ti_heap index)) ns))"
    by (rule yields_obind [OF yields_append], rule yields_obind [OF yields_append]) (use rest in simp)
  then have "yields (topic_match_finish (a # ns) matched) index (?m @ concat (map (end_list (ti_heap index)) ns))"
    by (rule yields_cong [rotated]) (simp only: topic_match_finish.simps n option.case)
  then show ?case by (simp add: end_list_def [of _ a] n del: topic_match_finish.simps)
qed

lemma match_visits:
  assumes t: "index_tree index root pos" and "topic \<noteq> []"
  shows "\<exists>es. yields (flowie_topic_index_match (Span topic) matched) index (matched @ es) \<and>
    mset es = mset (visit_list (ti_heap index) root (hd topic = ch_dollar) (split_levels topic))"
proof -
  have root: "ti_root index = Some root" and tree: "tree_ok (ti_heap index) root pos"
    using t by (simp_all add: index_tree_def)
  have dom: "set [root] \<subseteq> dom (ti_heap index)" using tree_okD(1) [OF tree] by simp
  let ?run = "level_run (ti_heap index) (hd topic = ch_dollar) (split_levels topic) [root]"
  obtain m ns where run: "?run matched = (m, ns)" by (cases "?run matched")
  have ns: "set ns \<subseteq> dom (ti_heap index)" and
    sum: "mset m + (\<Sum>b\<leftarrow>ns. mset (end_list (ti_heap index) b)) =
      mset matched + mset (visit_list (ti_heap index) root (hd topic = ch_dollar) (split_levels topic))"
    using level_run_visits [OF tree dom split_levels_not_Nil run] by simp_all
  obtain es0 where m: "m = matched @ es0" using level_run_prefix [OF run] by blast
  have levels: "yields (topic_match_levels (hd topic = ch_dollar) topic True [root] matched)
      (index\<lparr>ti_faults := fs\<rparr>) (m, ns)" for fs
    using yields_levels [OF tree dom, of "index\<lparr>ti_faults := fs\<rparr>" "hd topic = ch_dollar" topic True matched] run
    by simp
  have fin: "yields (topic_match_finish ns m) (index\<lparr>ti_faults := fs\<rparr>)
      (m @ concat (map (end_list (ti_heap index)) ns))" for fs
    using yields_finish [of ns "index\<lparr>ti_faults := fs\<rparr>" m] ns by simp
  have "yields (obind topic_attempt (\<lambda>_. obind (topic_match_levels (hd topic = ch_dollar) topic True [root] matched)
      (\<lambda>(matched, nexts). topic_match_finish nexts matched))) index
      (m @ concat (map (end_list (ti_heap index)) ns))"
    by (rule yields_obind [OF yields_attempt], rule yields_obind [OF levels], unfold prod.case)
       (use fin in simp)
  then have "yields (flowie_topic_index_match (Span topic) matched) index
      (m @ concat (map (end_list (ti_heap index)) ns))"
    by (rule yields_cong [rotated]) (simp add: flowie_topic_index_match_def root assms(2))
  then have "yields (flowie_topic_index_match (Span topic) matched) index
      (matched @ es0 @ concat (map (end_list (ti_heap index)) ns))"
    by (simp add: m)
  moreover have "mset (es0 @ concat (map (end_list (ti_heap index)) ns)) =
      mset (visit_list (ti_heap index) root (hd topic = ch_dollar) (split_levels topic))"
    using sum by (simp add: m mset_concat comp_def)
  ultimately show ?thesis by blast
qed

section \<open>Containing filters\<close>

lemma rbind_Inr_right: "rbind m Inr = m"
  by (cases m) simp_all

definition system_level :: "bytes \<Rightarrow> bool" where
  "system_level level \<longleftrightarrow> level \<noteq> [] \<and> hd level = ch_dollar"

fun contain_list :: "topic_heap \<Rightarrow> addr \<Rightarrow> bool \<Rightarrow> bytes list \<Rightarrow> nat list" where
  "contain_list heap a skip [] = []"
| "contain_list heap a skip (r # rs) =
     (case heap a of
        None \<Rightarrow> []
      | Some n \<Rightarrow>
          (if skip then [] else tn_hash_entries n) @
          (if r = [ch_hash] then []
           else (if r \<noteq> [ch_plus]
                 then case map_of (tn_exact_children n) r of
                   None \<Rightarrow> []
                 | Some b \<Rightarrow> if rs = [] then end_list heap b else contain_list heap b False rs
                 else []) @
                (case tn_plus_child n of
                   None \<Rightarrow> []
                 | Some b \<Rightarrow> if skip then [] else if rs = [] then end_list heap b
                             else contain_list heap b False rs)))"

lemma visit_containing_node_list:
  assumes t: "tree_ok heap root pos" and "a \<in> dom heap"
  shows "flowie_topic_index_visit_containing_node heap a rest first visit ctx =
    flowie_topic_entries_visit
      (contain_list heap a (first \<and> system_level (hd (split_levels rest))) (split_levels rest)) visit ctx"
  using assms(2)
proof (induction rest arbitrary: a first ctx rule: length_induct)
  case (1 rest)
  obtain token slash rest' where cut: "flowie_mqtt_next_level rest = (token, slash, rest')"
    by (cases "flowie_mqtt_next_level rest")
  obtain n where n: "heap a = Some n" using "1.prems" by auto
  define ts where "ts = (if slash then split_levels rest' else [])"
  define skip where "skip \<longleftrightarrow> first \<and> token \<noteq> [] \<and> hd token = ch_dollar"
  have levels: "split_levels rest = token # ts"
    using next_level_split [OF cut] by (simp add: ts_def)
  have step: "(if \<not> slash then flowie_topic_node_visit_end (heap b) visit c
       else flowie_topic_index_visit_containing_node heap b rest' False visit c) =
      flowie_topic_entries_visit (if ts = [] then end_list heap b else contain_list heap b False ts) visit c"
    if "b \<in> dom heap" for b c
    using that "1.IH" next_level_shorter [of rest token rest'] cut
    by (cases slash) (auto simp: node_visit_end_list ts_def)
  have exact: "(case map_of (tn_exact_children n) token of None \<Rightarrow> Inr c
       | Some b \<Rightarrow> if \<not> slash then flowie_topic_node_visit_end (heap b) visit c
           else flowie_topic_index_visit_containing_node heap b rest' False visit c) =
      flowie_topic_entries_visit (case map_of (tn_exact_children n) token of None \<Rightarrow> []
       | Some b \<Rightarrow> if ts = [] then end_list heap b else contain_list heap b False ts) visit c" for c
  proof (cases "map_of (tn_exact_children n) token")
    case (Some b)
    then show ?thesis using step [OF tree_children(2) [OF t n Some]] by (simp only: option.case)
  qed simp
  have plus: "(case tn_plus_child n of None \<Rightarrow> Inr c
       | Some b \<Rightarrow> if skip then Inr c
           else if \<not> slash then flowie_topic_node_visit_end (heap b) visit c
           else flowie_topic_index_visit_containing_node heap b rest' False visit c) =
      flowie_topic_entries_visit (case tn_plus_child n of None \<Rightarrow> []
       | Some b \<Rightarrow> if skip then [] else if ts = [] then end_list heap b
           else contain_list heap b False ts) visit c" for c
  proof (cases "tn_plus_child n")
    case (Some b)
    then show ?thesis
      using step [OF tree_children(3) [OF t n Some], of c] by (cases skip) auto
  qed simp
  have append: "flowie_topic_entries_visit (xs @ ys) visit =
      (\<lambda>c. rbind (flowie_topic_entries_visit xs visit c) (flowie_topic_entries_visit ys visit))" for xs ys
    by (rule ext) (rule entries_visit_append)
  have empty: "flowie_topic_entries_visit [] visit = Inr" by (rule ext) simp
  have system: "(first \<and> system_level (hd (token # ts))) = skip" by (simp add: skip_def system_level_def)
  have "flowie_topic_index_visit_containing_node heap a rest first visit ctx =
      rbind (if \<not> skip then flowie_topic_entries_visit (tn_hash_entries n) visit ctx else Inr ctx) (\<lambda>ctx.
        if token = [ch_hash] then Inr ctx
        else rbind (if token \<noteq> [ch_plus] then flowie_topic_entries_visit
               (case map_of (tn_exact_children n) token of None \<Rightarrow> []
                | Some b \<Rightarrow> if ts = [] then end_list heap b else contain_list heap b False ts) visit ctx
             else Inr ctx)
           (flowie_topic_entries_visit (case tn_plus_child n of None \<Rightarrow> []
             | Some b \<Rightarrow> if skip then [] else if ts = [] then end_list heap b
                 else contain_list heap b False ts) visit))"
    by (subst flowie_topic_index_visit_containing_node.simps)
       (simp only: n cut prod.case option.case Let_def skip_def [symmetric] exact plus)
  also have "\<dots> = flowie_topic_entries_visit (contain_list heap a skip (token # ts)) visit ctx"
    by (cases skip; cases "token = [ch_hash]"; cases "token = [ch_plus]"; cases "tn_plus_child n")
       (simp_all add: n append empty rbind_Inr_right)
  finally show ?case unfolding levels system .
qed

text \<open>Level by level: the filter \<open>fs\<close> covers the requested filter \<open>rs\<close>.\<close>

fun covers :: "bytes list \<Rightarrow> bytes list \<Rightarrow> bool" where
  "covers [] rs \<longleftrightarrow> rs = []"
| "covers (f # fs) rs \<longleftrightarrow>
     (if f = [ch_hash] then fs = []
      else case rs of
             [] \<Rightarrow> False
           | r # rs' \<Rightarrow> r \<noteq> [ch_hash] \<and> level_ok f r \<and> covers fs rs')"

lemma covers_Nil: "covers fs [] \<longleftrightarrow> levels_match fs []"
  by (cases fs) (auto simp: levels_match_Nil_iff)

lemma contain_list_set:
  assumes t: "tree_ok heap root pos" and "a \<in> dom heap" "rs \<noteq> []"
  shows "e \<in> set (contain_list heap a skip rs) \<longleftrightarrow>
    (\<exists>fs. fs \<noteq> [] \<and> covers fs rs \<and> \<not> (skip \<and> wildcard_first fs) \<and> e \<in> set (bucket_at heap a fs))"
  using assms(2,3)
proof (induction rs arbitrary: a skip)
  case (Cons x rs)
  obtain n where n: "heap a = Some n" using Cons.prems by auto
  note ch = tree_children [OF t n]
  define S where "S b = set (if rs = [] then end_list heap b else contain_list heap b False rs)" for b
  have below: "e \<in> S b \<longleftrightarrow> (\<exists>fs. covers fs rs \<and> e \<in> set (bucket_at heap b fs))" if b: "b \<in> dom heap" for b
  proof (cases "rs = []")
    case True
    then show ?thesis using end_list_set [OF b, of e] by (simp add: S_def covers_Nil)
  next
    case False
    then have "fs \<noteq> [] \<and> covers fs rs \<longleftrightarrow> covers fs rs" for fs by (cases fs) auto
    then show ?thesis using False Cons.IH [OF b False, of False] by (simp add: S_def) metis
  qed
  define Q where "Q f \<longleftrightarrow> (\<exists>fs. covers (f # fs) (x # rs) \<and> e \<in> set (bucket_at heap a (f # fs)))" for f
  have Q: "Q f \<longleftrightarrow> x \<noteq> [ch_hash] \<and> level_ok f x \<and> (\<exists>b. node_child n f = Some b \<and> e \<in> S b)"
    if "f \<noteq> [ch_hash]" for f
  proof -
    have "Q f \<longleftrightarrow> x \<noteq> [ch_hash] \<and> level_ok f x \<and>
        (\<exists>b. node_child n f = Some b \<and> (\<exists>fs. covers fs rs \<and> e \<in> set (bucket_at heap b fs)))"
      unfolding Q_def using that by (cases "node_child n f") (auto simp: bucket_at_Cons [of heap a, OF n])
    then show ?thesis using below tree_child_iff [OF t n, of f] by blast
  qed
  have Qh: "Q [ch_hash] \<longleftrightarrow> e \<in> set (tn_hash_entries n)"
    using bucket_at_hash [of heap a, OF n] by (simp add: Q_def)
  have Qp: "Q [ch_plus] \<longleftrightarrow> x \<noteq> [ch_hash] \<and> (\<exists>b. node_child n [ch_plus] = Some b \<and> e \<in> S b)"
    using Q [of "[ch_plus]"] by (simp add: level_ok_def)
  have Qx: "x \<noteq> [ch_hash] \<Longrightarrow> Q x \<longleftrightarrow> (\<exists>b. node_child n x = Some b \<and> e \<in> S b)"
    using Q [of x] by (simp add: level_ok_def)
  have Qf: "Q f \<Longrightarrow> f = [ch_hash] \<or> f = [ch_plus] \<or> f = x" for f
    using Q [of f] by (auto simp: level_ok_def)
  have "(\<exists>fs. fs \<noteq> [] \<and> covers fs (x # rs) \<and> \<not> (skip \<and> wildcard_first fs) \<and> e \<in> set (bucket_at heap a fs)) \<longleftrightarrow>
      (\<exists>f. \<not> (skip \<and> (f = [ch_plus] \<or> f = [ch_hash])) \<and> Q f)"
    (is "?l \<longleftrightarrow> ?r")
  proof
    assume ?l
    then obtain fs where fs: "fs \<noteq> []" "covers fs (x # rs)" "\<not> (skip \<and> wildcard_first fs)"
        "e \<in> set (bucket_at heap a fs)" by blast
    obtain f fs' where "fs = f # fs'" using fs(1) by (cases fs) auto
    then show ?r
      using fs by (intro exI [of _ f]) (auto simp: wildcard_first_def Q_def simp del: covers.simps)
  next
    assume ?r
    then obtain f fs' where "\<not> (skip \<and> (f = [ch_plus] \<or> f = [ch_hash]))" "covers (f # fs') (x # rs)"
        "e \<in> set (bucket_at heap a (f # fs'))"
      unfolding Q_def by blast
    then show ?l by (intro exI [of _ "f # fs'"]) (simp add: wildcard_first_def del: covers.simps)
  qed
  also have "\<dots> \<longleftrightarrow> \<not> skip \<and> Q [ch_hash] \<or> \<not> skip \<and> Q [ch_plus] \<or>
      x \<noteq> [ch_hash] \<and> x \<noteq> [ch_plus] \<and> Q x"
    by (metis Qf)
  also have "\<dots> \<longleftrightarrow> \<not> skip \<and> e \<in> set (tn_hash_entries n) \<or>
      x \<noteq> [ch_hash] \<and> (\<not> skip \<and> (\<exists>b. node_child n [ch_plus] = Some b \<and> e \<in> S b) \<or>
        x \<noteq> [ch_plus] \<and> (\<exists>b. node_child n x = Some b \<and> e \<in> S b))"
    unfolding Qh Qp by (cases "x = [ch_hash]"; cases skip; cases "x = [ch_plus]") (simp_all add: Qx)
  also have "\<dots> \<longleftrightarrow> e \<in> set (contain_list heap a skip (x # rs))"
    by (cases "node_child n x"; cases "node_child n [ch_plus]"; cases skip; cases "x = [ch_hash]";
        cases "x = [ch_plus]") (simp_all add: n ch(1,4) S_def disj_commute)
  finally show ?case by simp
qed simp

text \<open>A filter that covers the requested one matches all its topics.\<close>

lemma covers_match:
  assumes "covers fs rs" "filter_levels_ok rs" "levels_match rs ts"
  shows "levels_match fs ts"
  using assms
proof (induction fs rs arbitrary: ts rule: covers.induct)
  case (1 rs)
  then show ?case by simp
next
  case (2 f fs rs)
  show ?case
  proof (cases "f = [ch_hash]")
    case True
    then show ?thesis using 2 levels_match_hash by simp
  next
    case False
    then obtain r rs' where rs: "rs = r # rs'" "r \<noteq> [ch_hash]" "level_ok f r" "covers fs rs'"
      using "2.prems"(1) by (cases rs) auto
    obtain t ts' where ts: "ts = t # ts'"
      using "2.prems"(3) levels_match_Nil_right [OF rs(2), of rs'] by (cases ts) (auto simp: rs)
    show ?thesis using 2 False rs ts by (auto simp: levels_match_Cons level_ok_def filter_levels_ok_Cons)
  qed
qed

end
