(* ===== verification/Topic_Index_Store.thy ===== *)
theory Topic_Index_Store
  imports Topic_Index_Queries
begin

text \<open>
  The contract of the topic index, as its users see it: a store of entries under filters.
  A locale states the contract and proves once what a user gets who fills an empty store
  and then looks up topics or containing filters; the index is an instance of it. The
  properties of the index itself follow.
\<close>

section \<open>Filters and topics by levels\<close>

text \<open>The levels of the part of a filter that selects topics.\<close>

definition filter_levels :: "bytes \<Rightarrow> bytes list" where
  "filter_levels f = (case flowie_mqtt_shared_filter f of None \<Rightarrow> [] | Some e \<Rightarrow> split_levels e)"

definition filter_shape :: "bytes \<Rightarrow> bool" where
  "filter_shape f \<longleftrightarrow> f \<noteq> [] \<and> flowie_mqtt_shared_filter f \<noteq> None"

definition topic_selects :: "bytes list \<Rightarrow> bytes \<Rightarrow> bool" where
  "topic_selects fs t \<longleftrightarrow> levels_match fs (split_levels t) \<and> \<not> (hd t = ch_dollar \<and> wildcard_first fs)"

text \<open>A filter that the walk for a requested filter finds.\<close>

definition filter_covers :: "bytes list \<Rightarrow> bytes list \<Rightarrow> bool" where
  "filter_covers fs rs \<longleftrightarrow> fs \<noteq> [] \<and> covers fs rs \<and> \<not> (system_level (hd rs) \<and> wildcard_first fs)"

lemma reached_topic_selects: "reached (hd t = ch_dollar) (split_levels t) fs \<longleftrightarrow> topic_selects fs t"
  by (auto simp: reached_def topic_selects_def levels_match_Nil)

lemma hd_split_levels:
  "bs \<noteq> [] \<Longrightarrow> hd bs \<noteq> ch_slash \<Longrightarrow> hd (split_levels bs) \<noteq> [] \<and> hd (hd (split_levels bs)) = hd bs"
  by (cases bs) auto

lemma hd_split_levels_slash: "bs \<noteq> [] \<Longrightarrow> hd bs = ch_slash \<Longrightarrow> hd (split_levels bs) = []"
  by (cases bs) auto

lemma wildcard_first_levels:
  assumes "e \<noteq> []" "filter_levels_ok (split_levels e)"
  shows "wildcard_first (split_levels e) \<longleftrightarrow> hd e \<in> {ch_plus, ch_hash}"
proof -
  obtain c cs where e: "e = c # cs" using assms(1) by (cases e) auto
  obtain l ls where l: "split_levels cs = l # ls" by (cases "split_levels cs") auto
  show ?thesis
  proof (cases "c = ch_slash")
    case True
    then show ?thesis by (simp add: wildcard_first_def e)
  next
    case False
    then have "filter_levels_ok ((c # l) # ls)" using assms(2) by (simp add: e l)
    then have "ch_hash \<in> set (c # l) \<longrightarrow> c # l = [ch_hash]" "ch_plus \<in> set (c # l) \<longrightarrow> c # l = [ch_plus]"
      unfolding filter_levels_ok_Cons by blast+
    then have "c = ch_plus \<or> c = ch_hash \<Longrightarrow> l = []" by (metis list.inject list.set_intros(1))
    then show ?thesis using False by (auto simp: wildcard_first_def e l)
  qed
qed

lemma topic_matches_selects:
  assumes "flowie_mqtt_topic_filter_validate un (Span f)" "flowie_mqtt_topic_name_validate un (Span t)"
  shows "flowie_mqtt_topic_matches un (Span f) (Span t) = Inr (topic_selects (filter_levels f) t)"
proof -
  obtain e where e: "effective_filter f e" "filter_levels_ok (split_levels e)" "f \<noteq> []"
    using assms(1) by (auto simp: topic_filter_validate_Span)
  have some: "flowie_mqtt_shared_filter f = Some e" using e by (simp add: shared_filter_effective)
  have "e \<noteq> []" by (rule effective_filter_nonempty [OF e(3,1)])
  then show ?thesis
    using assms some topic_match_loop_levels [OF e(2), of t True] wildcard_first_levels [OF _ e(2)]
    by (auto simp: flowie_mqtt_topic_matches_def topic_selects_def filter_levels_def)
qed

lemma filter_inner_shape:
  assumes "filter_shape f"
  obtains e where "flowie_topic_filter_inner (Span f) = Span e" "e \<noteq> []" "filter_levels f = split_levels e"
proof -
  obtain e where e: "flowie_mqtt_shared_filter f = Some e" "f \<noteq> []" using assms by (auto simp: filter_shape_def)
  then have eff: "effective_filter f e" by (simp add: shared_filter_effective)
  have ne: "e \<noteq> []" by (rule effective_filter_nonempty [OF e(2) eff])
  have "flowie_topic_filter_inner (Span f) = Span e"
    using eff unfolding effective_filter_def
  proof (elim disjE exE conjE)
    fix g assume g: "f = share_prefix @ g @ ch_slash # e" "set g \<inter> {ch_slash, ch_plus, ch_hash} = {}"
    have "length share_prefix = 7" by (simp add: share_prefix_def)
    then have "take 7 f = share_prefix" "drop 7 f = g @ ch_slash # e" "length f > 7" using g by simp_all
    moreover have "dropWhile (\<lambda>c. c \<noteq> ch_slash) (g @ ch_slash # e) = ch_slash # e"
      using g(2) by (intro dropWhile_append2 [THEN trans]) auto
    ultimately show ?thesis by (simp add: flowie_topic_filter_inner_def)
  next
    assume n: "\<not> (\<exists>r. f = share_prefix @ r)" "e = f"
    then have "take 7 f \<noteq> share_prefix" by (metis append_take_drop_id)
    then show ?thesis using n(2) by (simp add: flowie_topic_filter_inner_def)
  qed
  then show thesis using that ne e by (simp add: filter_levels_def)
qed

lemma filter_validate_shape: "flowie_mqtt_topic_filter_validate un (Span f) \<Longrightarrow> filter_shape f"
  by (auto simp: topic_filter_validate_Span filter_shape_def shared_filter_effective [symmetric])

lemma filter_validate_levels:
  "flowie_mqtt_topic_filter_validate un (Span f) \<Longrightarrow> filter_levels_ok (filter_levels f)"
  by (auto simp: topic_filter_validate_Span filter_levels_def shared_filter_effective [symmetric])

section \<open>The operations on whole filters\<close>

definition topic_empty :: "bytes list \<Rightarrow> nat list" where
  "topic_empty = (\<lambda>_. [])"

lemma init_root:
  assumes "ti_initialized index" "ti_nodes index = []" "ti_heap index = (\<lambda>_. None)"
  shows "index_tree ((with_node None [] False index)\<lparr>ti_root := Some (ti_next index)\<rparr>) (ti_next index) (\<lambda>_. []) \<and>
    topic_bucket ((with_node None [] False index)\<lparr>ti_root := Some (ti_next index)\<rparr>) = topic_empty"
proof -
  define index' where "index' = (with_node None [] False index)\<lparr>ti_root := Some (ti_next index)\<rparr>"
  let ?a = "ti_next index"
  obtain n where n: "ti_heap index' = [?a \<mapsto> n]" "tn_exact_children n = []" "tn_plus_child n = None"
      "tn_parent n = None" "tn_terminal_entries n = []" "tn_hash_entries n = []" "tn_node_slot n = 0"
    and i: "ti_initialized index'" "ti_root index' = Some ?a" "ti_nodes index' = [?a]" "ti_next index' = ?a + 1"
    using assms by (auto simp: index'_def with_node_def topic_node_add_def Let_def)
  have child: "node_child n level = None" for level using n by (simp add: node_child_def)
  have tree: "tree_ok (ti_heap index') ?a (\<lambda>_. [])"
    using n child by (auto simp: tree_ok_def node_ok_def node_keys_ok_def node_links_def node_up_def)
  have "slots_ok (ti_nodes index') (ti_heap index')" using n i by (simp add: slots_ok_def)
  then have t: "index_tree index' ?a (\<lambda>_. [])" using tree i n by (simp add: index_tree_def)
  have walk: "walk (ti_heap index') ?a levels = (if levels = [] then Some ?a else None)" for levels
    by (cases levels) (simp_all add: n child)
  have "bucket_at (ti_heap index') ?a levels = []" for levels
    unfolding bucket_at_def hash_at_def terminal_at_def walk by (simp add: n)
  then show ?thesis using t i by (simp add: index'_def [symmetric] topic_bucket_def topic_empty_def fun_eq_iff)
qed

lemma init_step:
  assumes "flowie_topic_index_init index = (r, index')"
  shows "(r = Inr () \<longrightarrow> topic_index_ok index' \<and> topic_bucket index' = topic_empty) \<and>
    (r \<noteq> Inr () \<longrightarrow> \<not> ti_initialized index') \<and> (ti_faults index = [] \<longrightarrow> r = Inr () \<and> ti_faults index' = [])"
proof -
  define chain :: "(flowie_topic_index, unit) op" where
    "chain = obind topic_attempt (\<lambda>_. obind topic_attempt (\<lambda>_. topic_attempt))"
  define last :: "(flowie_topic_index, unit) op" where "last i =
     (case flowie_topic_node_create None [] False (i\<lparr>ti_initialized := True\<rparr>) of
         (Inr a, index') \<Rightarrow> (Inr (), index'\<lparr>ti_root := Some a\<rparr>)
       | (Inl e, index') \<Rightarrow> (Inl e, flowie_topic_index_destroy index'))" for i
  have run: "obind chain (\<lambda>_. last) (topic_index_zero index) = (r, index')"
    using assms
    by (auto simp: flowie_topic_index_init_def chain_def last_def obind_def split: prod.splits sum.splits)
  have "yields chain i ()" for i
    unfolding chain_def by (intro yields_obind [OF yields_attempt] yields_attempt)
  then show ?thesis
  proof (cases rule: yieldsE [of chain "topic_index_zero index" "()"])
    case (fails e fs)
    then have "r = Inl e" "index' = (topic_index_zero index)\<lparr>ti_faults := fs\<rparr>" using run by (simp_all add: obind_def)
    then show ?thesis using fails(2) by (simp add: topic_index_zero_def)
  next
    case (returns fs)
    define i where "i = (topic_index_zero index)\<lparr>ti_faults := fs, ti_initialized := True\<rparr>"
    have last: "last ((topic_index_zero index)\<lparr>ti_faults := fs\<rparr>) = (r, index')"
      using run returns(1) by (simp add: obind_def)
    have "(topic_index_zero index)\<lparr>ti_faults := fs\<rparr>\<lparr>ti_initialized := True\<rparr> = i" by (simp add: i_def)
    with last have run': "(case flowie_topic_node_create None [] False i of
         (Inr a, index') \<Rightarrow> (Inr (), index'\<lparr>ti_root := Some a\<rparr>)
       | (Inl e, index') \<Rightarrow> (Inl e, flowie_topic_index_destroy index')) = (r, index')"
      by (simp only: last_def)
    obtain x j where c: "flowie_topic_node_create None [] False i = (x, j)" by fastforce
    have z: "ti_initialized i" "ti_nodes i = []" "ti_heap i = (\<lambda>_. None)"
      by (simp_all add: i_def topic_index_zero_def)
    have faults: "ti_faults index = [] \<Longrightarrow> ti_faults i = []"
      using returns(2) by (simp add: i_def topic_index_zero_def)
    from node_create_frame(1) [OF c z(1)] show ?thesis
    proof (elim disjE exE conjE)
      fix e fs' assume "x = Inl e" "j = i\<lparr>ti_faults := fs'\<rparr>"
      then show ?thesis
        using run' c faults node_create_frame(2) [OF c z(1)]
        by (auto simp: flowie_topic_index_destroy_def topic_index_zero_def z)
    next
      fix fs' assume x: "x = Inr (ti_next i)" "j = with_node None [] False (i\<lparr>ti_faults := fs'\<rparr>)"
      have "r = Inr ()" "index' = j\<lparr>ti_root := Some (ti_next i)\<rparr>" using run' c x(1) by auto
      moreover have "ti_faults j = []" if "ti_faults index = []"
        using node_create_frame(2) [OF c z(1)] faults [OF that]
        by (simp add: with_node_def topic_node_add_def Let_def)
      ultimately show ?thesis
        using init_root [of "i\<lparr>ti_faults := fs'\<rparr>"] z x(2) by (auto simp: topic_index_ok_def)
    qed
  qed
qed

lemma insert_bound_step:
  assumes "topic_index_ok index" "filter_shape f"
    and "flowie_topic_index_insert_bound (Span f) e index = (r, index')"
  shows "topic_index_ok index' \<and> insert_outcome index (filter_levels f) e r index' \<and>
    (ti_faults index = [] \<and> filter_levels_ok (filter_levels f) \<longrightarrow> r \<in> range Inr)"
proof -
  obtain root pos where t: "index_tree index root pos" using assms(1) by (auto simp: topic_index_ok_def)
  obtain g where g: "flowie_topic_filter_inner (Span f) = Span g" "g \<noteq> []" "filter_levels f = split_levels g"
    by (rule filter_inner_shape [OF assms(2)])
  have root: "ti_root index = Some root" "pos root = []" "root \<in> dom (ti_heap index)"
    using t tree_okD(1,2) by (auto simp: index_tree_def)
  have "f \<noteq> []" using assms(2) by (simp add: filter_shape_def)
  then have "topic_insert_loop e root g index = (r, index')"
    using assms(3) g root by (simp add: flowie_topic_index_insert_bound_def)
  from insert_loop_step [OF t root(3) this] show ?thesis
    using root(2) g(3) by (auto simp: topic_index_ok_def)
qed

lemma insert_step:
  assumes "topic_index_ok index" "filter_shape f"
    and "flowie_topic_index_insert (Span f) e index = (r, index')"
  shows "topic_index_ok index' \<and> topic_bucket index' = (case r of
      Inl err \<Rightarrow> topic_bucket index
    | Inr u \<Rightarrow> (topic_bucket index)(filter_levels f := topic_bucket index (filter_levels f) @ [e]))"
proof -
  obtain r1 where r1: "flowie_topic_index_insert_bound (Span f) e index = (r1, index')"
      "r = (case r1 of Inl err \<Rightarrow> Inl err | Inr b \<Rightarrow> Inr ())"
    using assms(3)
    by (cases "flowie_topic_index_insert_bound (Span f) e index")
       (auto simp: flowie_topic_index_insert_def obind_def split: sum.splits)
  then show ?thesis
    using insert_bound_step [OF assms(1,2) r1(1)] by (cases r1) (auto simp: insert_outcome_def)
qed

section \<open>The contract\<close>

text \<open>Doing an operation for every element of a list, up to the first failure.\<close>

fun oeach :: "('x \<Rightarrow> ('s, unit) op) \<Rightarrow> 'x list \<Rightarrow> ('s, unit) op" where
  "oeach f [] = oret ()"
| "oeach f (x # xs) = obind (f x) (\<lambda>_. oeach f xs)"

locale filter_index =
  fixes inv :: "'s \<Rightarrow> bool"
    and bucket :: "'s \<Rightarrow> bytes list \<Rightarrow> nat list"
    and ins :: "bytes \<Rightarrow> nat \<Rightarrow> ('s, unit) op"
    and visit_topic :: "'s \<Rightarrow> bytes \<Rightarrow> 'c topic_visitor \<Rightarrow> 'c \<Rightarrow> salts_error + 'c"
  assumes ins_law: "inv s \<Longrightarrow> filter_shape f \<Longrightarrow> ins f e s = (r, s') \<Longrightarrow>
      inv s' \<and> bucket s' = (case r of Inl err \<Rightarrow> bucket s
        | Inr u \<Rightarrow> (bucket s)(filter_levels f := bucket s (filter_levels f) @ [e]))"
    and visit_law: "inv s \<Longrightarrow> t \<noteq> [] \<Longrightarrow>
      \<exists>es. visit_topic s t = flowie_topic_entries_visit es \<and>
           set es = {e. \<exists>fs. topic_selects fs t \<and> e \<in> set (bucket s fs)} \<and>
           (entries_once (bucket s) \<longrightarrow> distinct es)"
begin

text \<open>The rules under a filter, in the order in which they were inserted.\<close>

lemma ins_each:
  assumes "inv s" "\<forall>(f, e) \<in> set rules. filter_shape f" "oeach (\<lambda>(f, e). ins f e) rules s = (Inr u, s')"
  shows "inv s' \<and> bucket s' = (\<lambda>fs. bucket s fs @ map snd (filter (\<lambda>(f, e). filter_levels f = fs) rules))"
  using assms
proof (induction rules arbitrary: s)
  case (Cons rule rules)
  obtain f e where rule: "rule = (f, e)" by fastforce
  obtain s1 u1 where s1: "ins f e s = (Inr u1, s1)" "oeach (\<lambda>(f, e). ins f e) rules s1 = (Inr u, s')"
    using Cons.prems(3) by (auto simp: rule obind_Inr_iff)
  have "filter_shape f" using Cons.prems(2) by (simp add: rule)
  then have "inv s1" "bucket s1 = (bucket s)(filter_levels f := bucket s (filter_levels f) @ [e])"
    using ins_law [OF Cons.prems(1) _ s1(1)] by simp_all
  with Cons.IH [of s1] Cons.prems(2) s1(2) show ?case by (auto simp: rule fun_eq_iff)
qed simp

lemma ins_each_once:
  assumes "distinct (map snd rules)" "bucket s = (\<lambda>fs. map snd (filter (\<lambda>(f, e). filter_levels f = fs) rules))"
  shows "entries_once (bucket s)"
proof -
  have "distinct (bucket s fs)" for fs using assms by (simp add: distinct_map_filter)
  moreover have "set (bucket s fs) \<inter> set (bucket s gs) = {}" if "fs \<noteq> gs" for fs gs
  proof (rule ccontr)
    assume "set (bucket s fs) \<inter> set (bucket s gs) \<noteq> {}"
    then obtain e where "e \<in> set (bucket s fs)" "e \<in> set (bucket s gs)" by blast
    then obtain f g where "(f, e) \<in> set rules" "filter_levels f = fs" "(g, e) \<in> set rules" "filter_levels g = gs"
      by (auto simp: assms(2))
    then show False using assms(1) that by (metis distinct_map inj_on_contraD prod.inject snd_conv)
  qed
  ultimately show ?thesis by (simp add: entries_once_def)
qed

lemma visit_each:
  assumes "inv s" "bucket s = topic_empty" "\<forall>(f, e) \<in> set rules. filter_shape f"
    and "oeach (\<lambda>(f, e). ins f e) rules s = (Inr u, s')" "t \<noteq> []"
  shows "\<exists>es. visit_topic s' t = flowie_topic_entries_visit es \<and>
    set es = {e. \<exists>f. (f, e) \<in> set rules \<and> topic_selects (filter_levels f) t} \<and>
    (distinct (map snd rules) \<longrightarrow> distinct es)"
proof -
  have s': "inv s'" "bucket s' = (\<lambda>fs. map snd (filter (\<lambda>(f, e). filter_levels f = fs) rules))"
    using ins_each [OF assms(1,3,4)] assms(2) by (simp_all add: topic_empty_def)
  obtain es where es: "visit_topic s' t = flowie_topic_entries_visit es"
      "set es = {e. \<exists>fs. topic_selects fs t \<and> e \<in> set (bucket s' fs)}" "entries_once (bucket s') \<longrightarrow> distinct es"
    using visit_law [OF s'(1) assms(5)] by blast
  have "set es = {e. \<exists>f. (f, e) \<in> set rules \<and> topic_selects (filter_levels f) t}"
    using es(2) by (auto simp: s'(2)) force
  then show ?thesis using es(1,3) ins_each_once [OF _ s'(2)] by blast
qed

end

text \<open>The index can also be asked for the filters that cover a requested one.\<close>

locale policy_index = filter_index inv bucket ins visit_topic
  for inv :: "'s \<Rightarrow> bool" and bucket :: "'s \<Rightarrow> bytes list \<Rightarrow> nat list"
    and ins :: "bytes \<Rightarrow> nat \<Rightarrow> ('s, unit) op"
    and visit_topic :: "'s \<Rightarrow> bytes \<Rightarrow> 'c topic_visitor \<Rightarrow> 'c \<Rightarrow> salts_error + 'c" +
  fixes visit_containing :: "'s \<Rightarrow> bytes \<Rightarrow> 'c topic_visitor \<Rightarrow> 'c \<Rightarrow> salts_error + 'c"
  assumes containing_refused: "inv s \<Longrightarrow> f \<noteq> [] \<Longrightarrow>
      span_null (flowie_topic_filter_inner (Span f)) \<or> span_size (flowie_topic_filter_inner (Span f)) = 0 \<Longrightarrow>
      visit_containing s f visit ctx = Inl SALTS_EINVAL"
    and containing_law: "inv s \<Longrightarrow> f \<noteq> [] \<Longrightarrow> flowie_topic_filter_inner (Span f) = Span g \<Longrightarrow> g \<noteq> [] \<Longrightarrow>
      \<exists>es. visit_containing s f = flowie_topic_entries_visit es \<and>
           set es = {e. \<exists>fs. filter_covers fs (split_levels g) \<and> e \<in> set (bucket s fs)}"
begin

lemma containing_each:
  assumes "inv s" "bucket s = topic_empty" "\<forall>(f, e) \<in> set rules. filter_shape f"
    and "oeach (\<lambda>(f, e). ins f e) rules s = (Inr u, s')"
    and "f \<noteq> []" "flowie_topic_filter_inner (Span f) = Span g" "g \<noteq> []"
  shows "\<exists>es. visit_containing s' f = flowie_topic_entries_visit es \<and>
    set es = {e. \<exists>f. (f, e) \<in> set rules \<and> filter_covers (filter_levels f) (split_levels g)}"
proof -
  have s': "inv s'" "bucket s' = (\<lambda>fs. map snd (filter (\<lambda>(f, e). filter_levels f = fs) rules))"
    using ins_each [OF assms(1,3,4)] assms(2) by (simp_all add: topic_empty_def)
  obtain es where es: "visit_containing s' f = flowie_topic_entries_visit es"
      "set es = {e. \<exists>fs. filter_covers fs (split_levels g) \<and> e \<in> set (bucket s' fs)}"
    using containing_law [OF s'(1) assms(5-7)] by blast
  have "set es = {e. \<exists>f. (f, e) \<in> set rules \<and> filter_covers (filter_levels f) (split_levels g)}"
    using es(2) by (auto simp: s'(2)) force
  then show ?thesis using es(1) by blast
qed

end

section \<open>The index keeps the contract\<close>

lemma visit_topic_law:
  assumes "topic_index_ok index" "t \<noteq> []"
  shows "\<exists>es. flowie_topic_index_visit_validated_topic index (Span t) = flowie_topic_entries_visit es \<and>
    set es = {e. \<exists>fs. topic_selects fs t \<and> e \<in> set (topic_bucket index fs)} \<and>
    (entries_once (topic_bucket index) \<longrightarrow> distinct es)"
proof -
  obtain root pos where t: "index_tree index root pos" using assms(1) by (auto simp: topic_index_ok_def)
  have tree: "tree_ok (ti_heap index) root pos" "ti_root index = Some root" "ti_initialized index"
    using t by (simp_all add: index_tree_def)
  have root: "root \<in> dom (ti_heap index)" by (rule tree_okD(1) [OF tree(1)])
  let ?es = "visit_list (ti_heap index) root (hd t = ch_dollar) (split_levels t)"
  have bucket: "topic_bucket index = bucket_at (ti_heap index) root" using tree(2) by (simp add: topic_bucket_def fun_eq_iff)
  have "flowie_topic_index_visit_validated_topic index (Span t) = flowie_topic_entries_visit ?es"
    using assms(2) tree
    by (intro ext) (simp add: flowie_topic_index_visit_validated_topic_def visit_topic_node_list [OF tree(1) root])
  moreover have "set ?es = {e. \<exists>fs. topic_selects fs t \<and> e \<in> set (topic_bucket index fs)}"
    using visit_list_set [OF tree(1) root] by (auto simp: bucket reached_topic_selects)
  moreover have "entries_once (topic_bucket index) \<longrightarrow> distinct ?es"
    using visit_list_distinct [OF tree(1) root] by (simp add: bucket)
  ultimately show ?thesis by blast
qed

text \<open>A requested filter of any form is either refused or walked by the levels of its inner
  part.\<close>

lemma visit_containing_refused:
  assumes "topic_index_ok index" "f \<noteq> []"
    and "span_null (flowie_topic_filter_inner (Span f)) \<or> span_size (flowie_topic_filter_inner (Span f)) = 0"
  shows "flowie_topic_index_visit_validated_containing_filters index (Span f) visit ctx = Inl SALTS_EINVAL"
  using assms
  by (auto simp: flowie_topic_index_visit_validated_containing_filters_def Let_def topic_index_ok_def index_tree_def)

lemma visit_containing_inner:
  assumes "topic_index_ok index" "f \<noteq> []" "flowie_topic_filter_inner (Span f) = Span g" "g \<noteq> []"
  shows "\<exists>es. flowie_topic_index_visit_validated_containing_filters index (Span f) = flowie_topic_entries_visit es \<and>
    set es = {e. \<exists>fs. filter_covers fs (split_levels g) \<and> e \<in> set (topic_bucket index fs)}"
proof -
  obtain root pos where t: "index_tree index root pos" using assms(1) by (auto simp: topic_index_ok_def)
  have tree: "tree_ok (ti_heap index) root pos" "ti_root index = Some root" "ti_initialized index"
    using t by (simp_all add: index_tree_def)
  have root: "root \<in> dom (ti_heap index)" by (rule tree_okD(1) [OF tree(1)])
  have bucket: "topic_bucket index = bucket_at (ti_heap index) root" using tree(2) by (simp add: topic_bucket_def fun_eq_iff)
  let ?es = "contain_list (ti_heap index) root (system_level (hd (split_levels g))) (split_levels g)"
  have "flowie_topic_index_visit_validated_containing_filters index (Span f) = flowie_topic_entries_visit ?es"
    using assms(2-) tree
    by (intro ext) (simp add: flowie_topic_index_visit_validated_containing_filters_def Let_def
        visit_containing_node_list [OF tree(1) root])
  moreover have "set ?es = {e. \<exists>fs. filter_covers fs (split_levels g) \<and> e \<in> set (topic_bucket index fs)}"
    using contain_list_set [OF tree(1) root] by (auto simp: bucket filter_covers_def)
  ultimately show ?thesis by blast
qed

lemma visit_containing_law:
  assumes "topic_index_ok index" "filter_shape f"
  shows "\<exists>es. flowie_topic_index_visit_validated_containing_filters index (Span f) = flowie_topic_entries_visit es \<and>
    set es = {e. \<exists>fs. filter_covers fs (filter_levels f) \<and> e \<in> set (topic_bucket index fs)}"
proof -
  obtain g where g: "flowie_topic_filter_inner (Span f) = Span g" "g \<noteq> []" "filter_levels f = split_levels g"
    by (rule filter_inner_shape [OF assms(2)])
  have "f \<noteq> []" using assms(2) by (simp add: filter_shape_def)
  then show ?thesis unfolding g(3) by (rule visit_containing_inner [OF assms(1) _ g(1,2)])
qed

interpretation topics: policy_index topic_index_ok topic_bucket "\<lambda>f. flowie_topic_index_insert (Span f)"
  "\<lambda>index t. flowie_topic_index_visit_validated_topic index (Span t)"
  "\<lambda>index f. flowie_topic_index_visit_validated_containing_filters index (Span f)"
  by unfold_locales (rule insert_step visit_topic_law visit_containing_refused visit_containing_inner; assumption)+

section \<open>Runs of the index\<close>

text \<open>The states of an index in use: it was initialised, and every later step is an
  insertion, successful or not, or the removal of an entry through a binding that still
  designates it.\<close>

inductive index_reachable :: "flowie_topic_index \<Rightarrow> bool" where
  init: "flowie_topic_index_init index = (Inr (), index') \<Longrightarrow> index_reachable index'"
| insert: "index_reachable index \<Longrightarrow> filter_shape f \<Longrightarrow>
     flowie_topic_index_insert_bound (Span f) e index = (r, index') \<Longrightarrow> index_reachable index'"
| remove: "index_reachable index \<Longrightarrow> binding_at index binding fs \<Longrightarrow>
     tb_position binding < length (topic_bucket index fs) \<Longrightarrow>
     flowie_topic_index_remove binding (topic_bucket index fs ! tb_position binding) index = (r, index') \<Longrightarrow>
     index_reachable index'"

lemma remove_ok:
  assumes "topic_index_ok index" "binding_at index binding fs" "tb_position binding < length (topic_bucket index fs)"
  obtains index' where "flowie_topic_index_remove binding (topic_bucket index fs ! tb_position binding) index =
      (Inr (binding_none, if tb_position binding + 1 = length (topic_bucket index fs)
                          then FLOWIE_TOPIC_INDEX_NO_ENTRY else last (topic_bucket index fs)), index')"
    "topic_index_ok index'"
    "topic_bucket index' = (topic_bucket index)(fs := swap_remove (tb_position binding) (topic_bucket index fs))"
  using assms(1) remove_step [OF _ assms(2,3) refl] unfolding topic_index_ok_def by metis

definition blank_index :: flowie_topic_index where
  "blank_index = \<lparr>ti_root = None, ti_nodes = [], ti_initialized = False, ti_heap = (\<lambda>_. None), ti_next = 0,
                  ti_faults = []\<rparr>"

definition fresh_index :: flowie_topic_index where
  "fresh_index = snd (flowie_topic_index_init blank_index)"

lemma fresh_index:
  "flowie_topic_index_init blank_index = (Inr (), fresh_index)" "topic_index_ok fresh_index"
  "topic_bucket fresh_index = topic_empty" "ti_faults fresh_index = []" "index_reachable fresh_index"
proof -
  have "flowie_topic_index_init blank_index = (fst (flowie_topic_index_init blank_index), fresh_index)"
    by (simp add: fresh_index_def)
  note step = init_step [OF this]
  show run: "flowie_topic_index_init blank_index = (Inr (), fresh_index)"
    using step by (simp add: fresh_index_def blank_index_def prod_eq_iff)
  show "topic_index_ok fresh_index" "topic_bucket fresh_index = topic_empty" "ti_faults fresh_index = []"
    using init_step [OF run] by (simp_all add: blank_index_def)
  show "index_reachable fresh_index" by (rule index_reachable.init [OF run])
qed

lemma filter_shape_literals:
  "filter_shape [ch_hash]" "filter_levels [ch_hash] = [[ch_hash]]"
  "filter_shape [ch_plus, ch_slash, ch_hash]" "filter_levels [ch_plus, ch_slash, ch_hash] = [[ch_plus], [ch_hash]]"
  by (simp_all add: filter_shape_def filter_levels_def flowie_mqtt_shared_filter_def share_prefix_def)

lemma insert_fresh:
  assumes "filter_shape f" "filter_levels_ok (filter_levels f)"
  obtains b index' where "flowie_topic_index_insert_bound (Span f) e fresh_index = (Inr b, index')"
    "insert_outcome fresh_index (filter_levels f) e (Inr b) index'" "topic_index_ok index'"
proof -
  obtain r index' where run: "flowie_topic_index_insert_bound (Span f) e fresh_index = (r, index')" by fastforce
  from insert_bound_step [OF fresh_index(2) assms(1) run] show thesis
    using that run assms(2) fresh_index(4) by auto
qed

definition collect_entry :: "nat list topic_visitor" where
  "collect_entry es e = Inr (es @ [e])"

lemma collect_entries: "flowie_topic_entries_visit es collect_entry acc = Inr (acc @ es)"
  by (induction es arbitrary: acc) (simp_all add: collect_entry_def)

lemma covers_selects:
  assumes "filter_covers fs rs" "filter_levels_ok rs" "topic_selects rs t" "t \<noteq> []"
  shows "topic_selects fs t"
proof -
  have m: "levels_match fs (split_levels t)"
    using covers_match [of fs rs] assms by (simp add: filter_covers_def topic_selects_def)
  have "\<not> (hd t = ch_dollar \<and> wildcard_first fs)"
  proof
    assume d: "hd t = ch_dollar \<and> wildcard_first fs"
    then have t: "hd (split_levels t) \<noteq> []" "hd (hd (split_levels t)) = ch_dollar"
      using hd_split_levels [OF assms(4)] by auto
    have nw: "\<not> wildcard_first rs" using assms(3) d by (simp add: topic_selects_def)
    obtain x xs where x: "split_levels t = x # xs" by (cases "split_levels t") auto
    obtain r rs' where rs: "rs = r # rs'" using assms(3) x by (cases rs) (auto simp: topic_selects_def levels_match_Nil)
    have "r = x"
      using assms(3) nw levels_match_Cons [of r rs' x xs]
      by (auto simp: topic_selects_def rs x wildcard_first_def level_ok_def)
    then have "system_level (hd rs)" using t by (simp add: rs x system_level_def)
    then show False using assms(1) d by (simp add: filter_covers_def)
  qed
  with m show ?thesis by (simp add: topic_selects_def)
qed

section \<open>Properties\<close>

text \<open>C14: the tree structure of the index is an invariant. In every state that
  initialisation, insertions (also those that run out of memory half way) and removals can
  reach, paths are unique, parent and child pointers agree, every node stands at its own
  place of the node vector and the root is present.\<close>

theorem topic_index_invariant:
  assumes "index_reachable index"
  shows "topic_index_ok index"
  using assms
proof (induction rule: index_reachable.induct)
  case (init index index')
  then show ?case using init_step by blast
next
  case (insert index f e r index')
  then show ?case using insert_bound_step by blast
next
  case (remove index binding fs r index')
  then show ?case by (metis Pair_inject remove_ok)
qed

theorem topic_index_invariant_witness: "index_reachable fresh_index \<and> topic_index_ok fresh_index"
  using topic_index_invariant [OF fresh_index(5)] fresh_index(5) by blast

text \<open>C15: insertion is all or nothing. Under any pattern of allocation failures an
  insertion that reports an error leaves the entries of every filter as they were; one
  that succeeds appends the entry to its filter, changes no other filter, and returns a
  binding that designates the new entry. A valid filter is always inserted when memory is
  available.\<close>

theorem topic_insert_atomic:
  assumes "topic_index_ok index" "flowie_mqtt_topic_filter_validate un (Span f)"
    and "flowie_topic_index_insert_bound (Span f) e index = (r, index')"
  shows "topic_index_ok index' \<and>
    (case r of
       Inl err \<Rightarrow> topic_bucket index' = topic_bucket index \<and> ti_faults index \<noteq> []
     | Inr binding \<Rightarrow>
         topic_bucket index' = (topic_bucket index)(filter_levels f := topic_bucket index (filter_levels f) @ [e]) \<and>
         binding_at index' binding (filter_levels f) \<and>
         topic_bucket index' (filter_levels f) ! tb_position binding = e)"
  using insert_bound_step [OF assms(1) filter_validate_shape [OF assms(2)] assms(3)]
    filter_validate_levels [OF assms(2)]
  by (cases r) (auto simp: insert_outcome_def)

theorem topic_insert_atomic_witness:
  "\<exists>binding index'. flowie_topic_index_insert_bound (Span [0x61]) 7 fresh_index = (Inr binding, index') \<and>
     topic_index_ok index' \<and> topic_bucket index' (filter_levels [0x61]) = [7] \<and>
     binding_at index' binding (filter_levels [0x61])"
proof -
  note v = sample_topic_ok(3)
  obtain b index' where run: "flowie_topic_index_insert_bound (Span [0x61]) 7 fresh_index = (Inr b, index')"
    by (rule insert_fresh [OF filter_validate_shape [OF v] filter_validate_levels [OF v]])
  from topic_insert_atomic [OF fresh_index(2) v run] show ?thesis
    using run by (auto simp: fresh_index(3) topic_empty_def)
qed

text \<open>C16: removal through a binding that designates an entry always succeeds. It clears
  the binding, takes exactly that entry out of its filter, moves the last entry of the
  filter into its place and reports which entry moved, and pruning the empty nodes
  changes the entries of no other filter.\<close>

theorem topic_remove_spec:
  assumes "topic_index_ok index" "binding_at index binding fs"
    and "tb_position binding < length (topic_bucket index fs)"
  shows "\<exists>moved index'.
    flowie_topic_index_remove binding (topic_bucket index fs ! tb_position binding) index =
      (Inr (binding_none, moved), index') \<and>
    topic_index_ok index' \<and>
    moved = (if tb_position binding + 1 = length (topic_bucket index fs) then FLOWIE_TOPIC_INDEX_NO_ENTRY
             else topic_bucket index' fs ! tb_position binding) \<and>
    mset (topic_bucket index' fs) = mset (topic_bucket index fs) - {#topic_bucket index fs ! tb_position binding#} \<and>
    (\<forall>gs. gs = fs \<or> topic_bucket index' gs = topic_bucket index gs)"
proof -
  let ?es = "topic_bucket index fs" and ?p = "tb_position binding"
  obtain index' where run: "flowie_topic_index_remove binding (?es ! ?p) index =
      (Inr (binding_none, if ?p + 1 = length ?es then FLOWIE_TOPIC_INDEX_NO_ENTRY else last ?es), index')"
    "topic_index_ok index'" "topic_bucket index' = (topic_bucket index)(fs := swap_remove ?p ?es)"
    by (rule remove_ok [OF assms])
  have "swap_remove ?p ?es ! ?p = last ?es" if "?p + 1 \<noteq> length ?es"
    using assms(3) that by (subst swap_remove_nth) simp_all
  then show ?thesis
    using run mset_swap_remove [OF assms(3)]
    by (intro exI [of _ "if ?p + 1 = length ?es then FLOWIE_TOPIC_INDEX_NO_ENTRY else last ?es"] exI [of _ index'])
       simp
qed

theorem topic_remove_spec_witness:
  "\<exists>binding index index'. topic_index_ok index \<and> binding_at index binding (filter_levels [0x61]) \<and>
     topic_bucket index (filter_levels [0x61]) = [7] \<and>
     flowie_topic_index_remove binding 7 index = (Inr (binding_none, FLOWIE_TOPIC_INDEX_NO_ENTRY), index') \<and>
     topic_index_ok index'"
proof -
  note v = sample_topic_ok(3)
  obtain b index where run: "insert_outcome fresh_index (filter_levels [0x61]) 7 (Inr b) index" "topic_index_ok index"
    by (rule insert_fresh [OF filter_validate_shape [OF v] filter_validate_levels [OF v]])
  then have b: "binding_at index b (filter_levels [0x61])" "topic_bucket index (filter_levels [0x61]) = [7]"
      "tb_position b = 0"
    by (simp_all add: insert_outcome_def fresh_index(3) topic_empty_def)
  from topic_remove_spec [OF run(2) b(1)] show ?thesis using b run(2) by auto
qed

text \<open>An insertion followed by the removal of its binding gives back the same
  content: every filter has the entries it had before, and no other entry moves.\<close>

theorem topic_insert_remove:
  assumes "topic_index_ok index" "flowie_mqtt_topic_filter_validate un (Span f)"
    and "flowie_topic_index_insert_bound (Span f) e index = (Inr binding, index1)"
  shows "\<exists>index2. flowie_topic_index_remove binding e index1 =
      (Inr (binding_none, FLOWIE_TOPIC_INDEX_NO_ENTRY), index2) \<and>
    topic_index_ok index2 \<and> topic_bucket index2 = topic_bucket index"
proof -
  let ?fs = "filter_levels f"
  have i1: "topic_index_ok index1" "binding_at index1 binding ?fs"
      "topic_bucket index1 = (topic_bucket index)(?fs := topic_bucket index ?fs @ [e])"
      "tb_position binding = length (topic_bucket index ?fs)"
    using insert_bound_step [OF assms(1) filter_validate_shape [OF assms(2)] assms(3)]
    by (simp_all add: insert_outcome_def)
  have at: "tb_position binding < length (topic_bucket index1 ?fs)" "topic_bucket index1 ?fs ! tb_position binding = e"
    using i1(3,4) by simp_all
  obtain index2 where i2: "flowie_topic_index_remove binding e index1 =
      (Inr (binding_none, FLOWIE_TOPIC_INDEX_NO_ENTRY), index2)" "topic_index_ok index2"
      "topic_bucket index2 = (topic_bucket index1)(?fs := swap_remove (tb_position binding) (topic_bucket index1 ?fs))"
    using remove_ok [OF i1(1,2) at(1)] at(2) i1(3,4) by auto
  have "swap_remove (length xs) (xs @ [e]) = xs" for xs :: "nat list"
    by (simp add: swap_remove_def)
  then show ?thesis using i2 i1(3,4) by (auto simp: fun_eq_iff)
qed

theorem topic_insert_remove_witness:
  "\<exists>binding index1 index2. flowie_topic_index_insert_bound (Span [0x61]) 7 fresh_index = (Inr binding, index1) \<and>
     flowie_topic_index_remove binding 7 index1 = (Inr (binding_none, FLOWIE_TOPIC_INDEX_NO_ENTRY), index2) \<and>
     topic_bucket index2 = topic_bucket fresh_index"
proof -
  note v = sample_topic_ok(3)
  obtain b index1 where run: "flowie_topic_index_insert_bound (Span [0x61]) 7 fresh_index = (Inr b, index1)"
    by (rule insert_fresh [OF filter_validate_shape [OF v] filter_validate_levels [OF v]])
  from topic_insert_remove [OF fresh_index(2) v run] show ?thesis using run by blast
qed

text \<open>C17: the two matchers agree. The level-by-level matcher that the broker uses for
  delivery and the depth-first visitor report the same entries, each as often; without
  memory the matcher fails and leaves the index alone.\<close>

theorem topic_match_visit_equivalent:
  assumes "topic_index_ok index" "t \<noteq> []"
  shows "\<exists>es visited. yields (flowie_topic_index_match (Span t) matched) index (matched @ es) \<and>
    flowie_topic_index_visit_validated_topic index (Span t) collect_entry [] = Inr visited \<and>
    mset es = mset visited \<and>
    set es = {e. \<exists>fs. topic_selects fs t \<and> e \<in> set (topic_bucket index fs)}"
proof -
  obtain root pos where t: "index_tree index root pos" using assms(1) by (auto simp: topic_index_ok_def)
  have tree: "tree_ok (ti_heap index) root pos" "ti_root index = Some root" "ti_initialized index"
    using t by (simp_all add: index_tree_def)
  have root: "root \<in> dom (ti_heap index)" by (rule tree_okD(1) [OF tree(1)])
  let ?v = "visit_list (ti_heap index) root (hd t = ch_dollar) (split_levels t)"
  obtain es where es: "yields (flowie_topic_index_match (Span t) matched) index (matched @ es)" "mset es = mset ?v"
    using match_visits [OF t assms(2)] by blast
  have "flowie_topic_index_visit_validated_topic index (Span t) collect_entry [] = Inr ?v"
    using assms(2) tree
    by (simp add: flowie_topic_index_visit_validated_topic_def visit_topic_node_list [OF tree(1) root] collect_entries)
  moreover have "set ?v = {e. \<exists>fs. topic_selects fs t \<and> e \<in> set (topic_bucket index fs)}"
    using visit_list_set [OF tree(1) root] tree(2) by (auto simp: topic_bucket_def reached_topic_selects)
  moreover have "set es = set ?v" using es(2) by (metis set_mset_mset)
  ultimately show ?thesis using es by blast
qed

theorem topic_match_visit_equivalent_witness:
  "flowie_topic_index_match (Span [0x61]) [] fresh_index = (Inr [], fresh_index)"
proof -
  obtain es where "yields (flowie_topic_index_match (Span [0x61]) []) fresh_index es" "set es = {}"
    using topic_match_visit_equivalent [OF fresh_index(2), of "[0x61]" "[]"] by (auto simp: fresh_index(3) topic_empty_def)
  then show ?thesis using fresh_index(4) by (auto simp: yields_def)
qed

text \<open>C18: filling an index with rules and looking up a topic reports exactly the rules
  whose filter matches the topic by the protocol's matching function, and each rule once
  when the rules have different numbers.\<close>

theorem topic_rules_lookup:
  assumes "flowie_topic_index_init start = (Inr (), index)"
    and "\<forall>(f, e) \<in> set rules. flowie_mqtt_topic_filter_validate un (Span f)" "distinct (map snd rules)"
    and "oeach (\<lambda>(f, e). flowie_topic_index_insert (Span f) e) rules index = (Inr (), index')"
    and "flowie_mqtt_topic_name_validate un (Span t)"
  shows "\<exists>es. flowie_topic_index_visit_topic un index' (Span t) collect_entry [] = Inr es \<and> distinct es \<and>
    set es = {e. \<exists>f. (f, e) \<in> set rules \<and> flowie_mqtt_topic_matches un (Span f) (Span t) = Inr True}"
proof -
  have ok: "topic_index_ok index" "topic_bucket index = topic_empty" using init_step [OF assms(1)] by simp_all
  have shape: "\<forall>(f, e) \<in> set rules. filter_shape f" using assms(2) filter_validate_shape by blast
  have t: "t \<noteq> []" using assms(5) by (auto simp: flowie_mqtt_topic_name_validate_def)
  obtain es where es: "flowie_topic_index_visit_validated_topic index' (Span t) = (flowie_topic_entries_visit es ::
        nat list topic_visitor \<Rightarrow> nat list \<Rightarrow> salts_error + nat list)"
      "set es = {e. \<exists>f. (f, e) \<in> set rules \<and> topic_selects (filter_levels f) t}" "distinct es"
    using topics.visit_each [OF ok shape assms(4) t] assms(3) by blast
  have matches: "flowie_mqtt_topic_matches un (Span f) (Span t) = Inr True \<longleftrightarrow> topic_selects (filter_levels f) t"
    if "(f, e) \<in> set rules" for f e
  proof -
    have "flowie_mqtt_topic_filter_validate un (Span f)" using assms(2) that by blast
    then show ?thesis using topic_matches_selects [OF _ assms(5)] by simp
  qed
  have "flowie_topic_index_visit_topic un index' (Span t) collect_entry [] = Inr es"
    using assms(5) by (simp add: flowie_topic_index_visit_topic_def es(1) collect_entries)
  moreover have "set es = {e. \<exists>f. (f, e) \<in> set rules \<and> flowie_mqtt_topic_matches un (Span f) (Span t) = Inr True}"
    unfolding es(2) using matches by blast
  ultimately show ?thesis using es(3) by blast
qed

theorem topic_rules_lookup_witness:
  "\<exists>index'. oeach (\<lambda>(f, e). flowie_topic_index_insert (Span f) e) [([0x61], 3)] fresh_index = (Inr (), index') \<and>
     flowie_topic_index_visit_topic rfc3629_next index' (Span [0x61]) collect_entry [] = Inr [3]"
proof -
  note v = sample_topic_ok
  obtain b index' where "flowie_topic_index_insert_bound (Span [0x61]) 3 fresh_index = (Inr b, index')"
    by (rule insert_fresh [OF filter_validate_shape [OF v(3)] filter_validate_levels [OF v(3)]])
  then have run: "oeach (\<lambda>(f, e). flowie_topic_index_insert (Span f) e) [([0x61], 3)] fresh_index = (Inr (), index')"
    by (simp add: flowie_topic_index_insert_def obind_def)
  have m: "flowie_mqtt_topic_matches rfc3629_next (Span [0x61]) (Span [0x61]) = Inr True"
    using v(2,3) by (simp add: topic_matches_selects) (simp add: topic_selects_def filter_levels_def
      flowie_mqtt_shared_filter_def share_prefix_def levels_match_def level_ok_def)
  obtain es where es: "flowie_topic_index_visit_topic rfc3629_next index' (Span [0x61]) collect_entry [] = Inr es"
      "distinct es" "set es = {3}"
    using topic_rules_lookup [OF fresh_index(1) _ _ run v(2)] v(3) m by auto
  then have "es = [3]" by (cases es; cases "tl es") auto
  then show ?thesis using es(1) run by blast
qed

text \<open>C19: a policy filter that the containing visitor reports for a requested filter
  really contains it: every topic that the requested filter selects is selected by the
  reported filter too.\<close>

theorem containing_filters_sound:
  assumes "topic_index_ok index" "flowie_mqtt_topic_filter_validate un (Span g)"
    and "flowie_topic_index_visit_containing_filters un index (Span g) collect_entry [] = Inr es" "e \<in> set es"
  shows "\<exists>fs. e \<in> set (topic_bucket index fs) \<and>
    (\<forall>t. t = [] \<or> \<not> topic_selects (filter_levels g) t \<or> topic_selects fs t)"
proof -
  obtain es' where "\<And>visit c. flowie_topic_index_visit_validated_containing_filters index (Span g) visit c =
      flowie_topic_entries_visit es' visit (c :: nat list)"
      "set es' = {e. \<exists>fs. filter_covers fs (filter_levels g) \<and> e \<in> set (topic_bucket index fs)}"
    using visit_containing_law [OF assms(1) filter_validate_shape [OF assms(2)]] by metis
  then obtain fs where "filter_covers fs (filter_levels g)" "e \<in> set (topic_bucket index fs)"
    using assms by (auto simp: flowie_topic_index_visit_containing_filters_def collect_entries)
  then show ?thesis using covers_selects filter_validate_levels [OF assms(2)] by blast
qed

theorem containing_filters_sound_witness:
  "\<exists>index es. topic_index_ok index \<and> 7 \<in> set es \<and>
     flowie_topic_index_visit_containing_filters rfc3629_next index (Span [0x61]) collect_entry [] = Inr es \<and>
     (\<exists>fs. 7 \<in> set (topic_bucket index fs) \<and>
        (\<forall>t. t = [] \<or> \<not> topic_selects (filter_levels [0x61]) t \<or> topic_selects fs t))"
proof -
  note v = sample_topic_ok
  obtain b index where run: "insert_outcome fresh_index (filter_levels [0x61]) 7 (Inr b) index" "topic_index_ok index"
    by (rule insert_fresh [OF filter_validate_shape [OF v(3)] filter_validate_levels [OF v(3)]])
  have l: "filter_levels [0x61] = [[0x61]]" by (simp add: filter_levels_def flowie_mqtt_shared_filter_def share_prefix_def)
  have content: "7 \<in> set (topic_bucket index [[0x61]])" using run(1) by (simp add: insert_outcome_def l)
  have c: "filter_covers [[0x61]] (filter_levels [0x61])"
    by (simp add: l filter_covers_def level_ok_def system_level_def)
  obtain es where es: "\<And>visit c. flowie_topic_index_visit_validated_containing_filters index (Span [0x61]) visit c =
      flowie_topic_entries_visit es visit (c :: nat list)"
      "set es = {e. \<exists>fs. filter_covers fs (filter_levels [0x61]) \<and> e \<in> set (topic_bucket index fs)}"
    using visit_containing_law [OF run(2) filter_validate_shape [OF v(3)]] by metis
  have 1: "flowie_topic_index_visit_containing_filters rfc3629_next index (Span [0x61]) collect_entry [] = Inr es"
    using v(3) by (simp add: flowie_topic_index_visit_containing_filters_def es(1) collect_entries)
  have 2: "7 \<in> set es" using es(2) c content by blast
  from containing_filters_sound [OF run(2) v(3) 1 2] show ?thesis using run(2) 1 2 by blast
qed

text \<open>C20: the containing visitor is not complete. An index that holds the filter
  \<open>+/#\<close> reports nothing for the requested filter \<open>#\<close>, although the two filters select
  the same topics.\<close>

theorem containing_filters_incomplete:
  "\<exists>binding index. flowie_topic_index_insert_bound (Span [ch_plus, ch_slash, ch_hash]) 0 fresh_index = (Inr binding, index) \<and>
     topic_bucket index [[ch_plus], [ch_hash]] = [0] \<and>
     flowie_topic_index_visit_containing_filters rfc3629_next index (Span [ch_hash]) collect_entry [] = Inr [] \<and>
     (\<forall>t. topic_selects [[ch_plus], [ch_hash]] t \<longleftrightarrow> topic_selects [[ch_hash]] t)"
proof -
  let ?f = "[ch_plus, ch_slash, ch_hash]"
  note shape = filter_shape_literals
  have ok: "filter_levels_ok (filter_levels ?f)" by (simp add: shape filter_levels_ok_def All_less_Suc)
  obtain b index where run: "flowie_topic_index_insert_bound (Span ?f) 0 fresh_index = (Inr b, index)"
      "insert_outcome fresh_index (filter_levels ?f) 0 (Inr b) index" "topic_index_ok index"
    by (rule insert_fresh [OF shape(3) ok])
  then have content: "topic_bucket index = topic_empty([[ch_plus], [ch_hash]] := [0])"
    by (simp add: insert_outcome_def fresh_index(3) shape) (simp add: topic_empty_def)
  obtain es where es: "\<And>visit c. flowie_topic_index_visit_validated_containing_filters index (Span [ch_hash]) visit c =
      flowie_topic_entries_visit es visit (c :: nat list)"
      "set es = {e. \<exists>fs. filter_covers fs (filter_levels [ch_hash]) \<and> e \<in> set (topic_bucket index fs)}"
    using visit_containing_law [OF run(3) shape(1)] by metis
  have "\<not> filter_covers [[ch_plus], [ch_hash]] [[ch_hash]]" by (simp add: filter_covers_def)
  then have "es = []" using es(2) by (auto simp: content shape topic_empty_def split: if_splits)
  moreover have "flowie_mqtt_topic_filter_validate rfc3629_next (Span [ch_hash])"
  proof -
    have "utf8_loop rfc3629_next [ch_hash]" by code_simp
    then show ?thesis
      using shape(1,2)
      by (auto simp: topic_filter_validate_Span filter_shape_def filter_levels_def shared_filter_effective
          filter_levels_ok_def split: option.splits)
  qed
  ultimately have "flowie_topic_index_visit_containing_filters rfc3629_next index (Span [ch_hash]) collect_entry [] = Inr []"
    by (simp add: flowie_topic_index_visit_containing_filters_def es(1))
  moreover have "topic_selects [[ch_plus], [ch_hash]] t \<longleftrightarrow> topic_selects [[ch_hash]] t" for t
    by (cases "split_levels t")
       (simp_all add: topic_selects_def levels_match_Cons levels_match_hash level_ok_def wildcard_first_def)
  ultimately show ?thesis using run(1) content by auto
qed

end
