(* ===== verification/Security_Core.thy ===== *)
theory Security_Core
  imports Topic_Index_Store
begin

text \<open>
  The protocol-independent authorization core of \<open>flowie/src/flowie_security.c\<close>: principals,
  authentication through a provider, realms of rules and their evaluation. Providers and the
  matcher of a realm are function tables in the code and function arguments here. A text
  field of a fixed-size structure is its raw character array, read as a C string by \<open>cstr\<close>;
  a string behind a pointer is the list of its bytes. An enumeration variable of C can hold
  a number that is no enumerator, where the code checks for this the datatype has a
  constructor for it. Size and version fields of the structures and null pointers are
  outside the model.
\<close>

section \<open>Data\<close>

definition cstr :: "bytes \<Rightarrow> bytes" where
  "cstr raw = takeWhile (\<lambda>c. c \<noteq> 0) raw"

datatype flowie_security_scope =
    FLOWIE_SECURITY_SCOPE_SELF | FLOWIE_SECURITY_SCOPE_GROUP | FLOWIE_SECURITY_SCOPE_DOMAIN
  | FLOWIE_SECURITY_SCOPE_SYSTEM | security_scope_other int

record flowie_security_principal =
  sp_principal_id :: bytes
  sp_principal_type :: bytes
  sp_domain_id :: bytes
  sp_auth_method :: bytes
  sp_scope :: flowie_security_scope
  sp_role_count :: u32
  sp_roles :: "bytes list"
  sp_group_count :: u32
  sp_groups :: "bytes list"
  sp_expires_at :: u64
  sp_policy_version :: u64

datatype flowie_security_resource_type =
    FLOWIE_SECURITY_RESOURCE_GENERIC | FLOWIE_SECURITY_RESOURCE_MQTT_TOPIC
  | FLOWIE_SECURITY_RESOURCE_FLOW_RESOURCE | FLOWIE_SECURITY_RESOURCE_SQL_OBJECT
  | FLOWIE_SECURITY_RESOURCE_SECRET

datatype flowie_security_effect =
    FLOWIE_SECURITY_DENY | FLOWIE_SECURITY_ALLOW | security_effect_other int

datatype flowie_security_subject_kind =
    FLOWIE_SECURITY_SUBJECT_ANY | FLOWIE_SECURITY_SUBJECT_PRINCIPAL
  | FLOWIE_SECURITY_SUBJECT_ROLE | FLOWIE_SECURITY_SUBJECT_GROUP | security_subject_other int

datatype flowie_security_match_kind =
    FLOWIE_SECURITY_MATCH_EXACT | FLOWIE_SECURITY_MATCH_PREFIX | FLOWIE_SECURITY_MATCH_ADAPTER
  | security_match_other int

record flowie_security_rule =
  sr_effect :: flowie_security_effect
  sr_subject_kind :: flowie_security_subject_kind
  sr_subject :: bytes
  sr_domain_id :: bytes
  sr_action_mask :: u32
  sr_resource_type :: flowie_security_resource_type
  sr_match_kind :: flowie_security_match_kind
  sr_pattern :: bytes

text \<open>The protocol context of a request belongs to the matcher; the core never looks into it.\<close>

record 'ctx flowie_security_request =
  rq_principal :: flowie_security_principal
  rq_domain_id :: bytes
  rq_action :: u32
  rq_resource_type :: flowie_security_resource_type
  rq_resource :: bytes
  rq_protocol_context :: "'ctx option"

datatype flowie_security_decision_reason =
    FLOWIE_SECURITY_REASON_DEFAULT_DENY | FLOWIE_SECURITY_REASON_ALLOW_RULE
  | FLOWIE_SECURITY_REASON_DENY_RULE | FLOWIE_SECURITY_REASON_DOMAIN_MISMATCH
  | FLOWIE_SECURITY_REASON_PRINCIPAL_EXPIRED | FLOWIE_SECURITY_REASON_POLICY_VERSION_MISMATCH
  | security_reason_other int

record flowie_security_decision =
  sd_effect :: flowie_security_effect
  sd_reason :: flowie_security_decision_reason
  sd_matched_rule :: nat
  sd_policy_version :: u64

definition FLOWIE_SECURITY_DECISION_INIT :: flowie_security_decision where
  "FLOWIE_SECURITY_DECISION_INIT =
     \<lparr>sd_effect = FLOWIE_SECURITY_DENY, sd_reason = FLOWIE_SECURITY_REASON_DEFAULT_DENY,
      sd_matched_rule = 18446744073709551615, sd_policy_version = 0\<rparr>"

definition FLOWIE_SECURITY_MAX_RULES :: nat where
  "FLOWIE_SECURITY_MAX_RULES = 4096"

section \<open>Secrets\<close>

text \<open>A lease is the bytes that the provider lends, with a handle that it may use on release.
  The provider's release function is only called; the model records the call.\<close>

record flowie_security_secret_lease =
  ls_bytes :: flowie_mqtt_span
  ls_provider_lease :: "nat option"

definition FLOWIE_SECURITY_SECRET_LEASE_INIT :: flowie_security_secret_lease where
  "FLOWIE_SECURITY_SECRET_LEASE_INIT = \<lparr>ls_bytes = NullSpan 0, ls_provider_lease = None\<rparr>"

text \<open>The status with the lease left in the caller's variable, and whether it was given back
  to the provider.\<close>

definition flowie_security_secret_acquire ::
    "(bytes \<Rightarrow> (salts_error + unit) \<times> flowie_security_secret_lease) \<Rightarrow> bytes \<Rightarrow>
       (salts_error + unit) \<times> flowie_security_secret_lease \<times> bool" where
  "flowie_security_secret_acquire acquire reference =
     (if reference = [] then (Inl SALTS_EINVAL, FLOWIE_SECURITY_SECRET_LEASE_INIT, False)
      else case acquire reference of
        (Inl e, lease) \<Rightarrow> (Inl e, lease, False)
      | (Inr u, lease) \<Rightarrow>
          if span_null (ls_bytes lease) \<or> span_size (ls_bytes lease) = 0
          then (Inl SALTS_EINVAL, FLOWIE_SECURITY_SECRET_LEASE_INIT, True)
          else (Inr (), lease, False))"

definition flowie_security_secret_release ::
    "flowie_security_secret_lease \<Rightarrow> flowie_security_secret_lease \<times> bool" where
  "flowie_security_secret_release lease =
     (FLOWIE_SECURITY_SECRET_LEASE_INIT,
      \<not> span_null (ls_bytes lease) \<or> span_size (ls_bytes lease) \<noteq> 0 \<or> ls_provider_lease lease \<noteq> None)"

section \<open>Principals and authentication\<close>

definition flowie_security_principal_valid :: "flowie_security_principal \<Rightarrow> bool" where
  "flowie_security_principal_valid p \<longleftrightarrow>
     cstr (sp_principal_id p) \<noteq> [] \<and> cstr (sp_principal_type p) \<noteq> [] \<and> cstr (sp_auth_method p) \<noteq> [] \<and>
     (case sp_scope p of security_scope_other i \<Rightarrow> False | _ \<Rightarrow> True) \<and>
     unat (sp_role_count p) \<le> 8 \<and> unat (sp_group_count p) \<le> 16 \<and> sp_policy_version p \<noteq> 0"

definition flowie_security_authenticate ::
    "('req \<Rightarrow> salts_error + flowie_security_principal) \<Rightarrow> 'req \<Rightarrow> salts_error + flowie_security_principal" where
  "flowie_security_authenticate authenticate request =
     rbind (authenticate request) (\<lambda>pr.
       if \<not> flowie_security_principal_valid pr then Inl SALTS_EPROTO else Inr pr)"

datatype flowie_security_enhanced_auth_status =
    FLOWIE_SECURITY_ENHANCED_AUTH_CONTINUE | FLOWIE_SECURITY_ENHANCED_AUTH_SUCCESS
  | enhanced_auth_status_other int

record flowie_security_enhanced_auth_result =
  er_status :: flowie_security_enhanced_auth_status
  er_data :: flowie_mqtt_span
  er_principal :: flowie_security_principal

definition flowie_security_enhanced_result_valid :: "flowie_security_enhanced_auth_result \<Rightarrow> bool" where
  "flowie_security_enhanced_result_valid result \<longleftrightarrow>
     \<not> (span_null (er_data result) \<and> span_size (er_data result) \<noteq> 0) \<and>
     (er_status result = FLOWIE_SECURITY_ENHANCED_AUTH_CONTINUE \<or>
      er_status result = FLOWIE_SECURITY_ENHANCED_AUTH_SUCCESS \<and>
        flowie_security_principal_valid (er_principal result))"

text \<open>Beginning an exchange: the provider gives an exchange, possibly null, and a result. The
  second part of the outcome lists the exchanges that were cancelled.\<close>

definition flowie_security_enhanced_auth_begin ::
    "('req \<Rightarrow> salts_error + 'exchange option \<times> flowie_security_enhanced_auth_result) \<Rightarrow> 'req \<Rightarrow>
       (salts_error + 'exchange \<times> flowie_security_enhanced_auth_result) \<times> 'exchange list" where
  "flowie_security_enhanced_auth_begin begin_exchange request =
     (case begin_exchange request of
        Inl e \<Rightarrow> (Inl e, [])
      | Inr (None, result) \<Rightarrow> (Inl SALTS_EPROTO, [])
      | Inr (Some exchange, result) \<Rightarrow>
          if \<not> flowie_security_enhanced_result_valid result then (Inl SALTS_EPROTO, [exchange])
          else (Inr (exchange, result), []))"

definition flowie_security_enhanced_auth_continue ::
    "('exchange \<Rightarrow> 'req \<Rightarrow> salts_error + flowie_security_enhanced_auth_result) \<Rightarrow> 'exchange \<Rightarrow> 'req \<Rightarrow>
       salts_error + flowie_security_enhanced_auth_result" where
  "flowie_security_enhanced_auth_continue continue_exchange exchange request =
     rbind (continue_exchange exchange request) (\<lambda>result.
       if flowie_security_enhanced_result_valid result then Inr result else Inl SALTS_EPROTO)"

section \<open>Realms\<close>

text \<open>The matcher of a realm compiles the rules that are left to it and later emits the
  positions, among these rules, of those that match a request. The emit function of the core
  marks rules in a vector of flags.\<close>

type_synonym 'ctx evaluate_leaf = "'ctx flowie_security_request \<Rightarrow> (bool list \<Rightarrow> nat \<Rightarrow> salts_error + bool list) \<Rightarrow>
  bool list \<Rightarrow> salts_error + bool list"

record ('ctx, 'leaf, 's) flowie_security_matcher =
  mt_compile_leaf :: "(flowie_security_rule list \<Rightarrow> nat list \<Rightarrow> ('s, 'leaf) op) option"
  mt_evaluate_leaf :: "('leaf \<Rightarrow> 'ctx evaluate_leaf) option"

record flowie_security_realm_config =
  rc_policy_version :: u64
  rc_rules :: "flowie_security_rule list"
  rc_policy_source :: "bytes option"

type_synonym 'ctx authorize_fn =
  "'ctx flowie_security_request \<Rightarrow> u64 \<Rightarrow> (salts_error + unit) \<times> flowie_security_decision"

record ('ctx, 'leaf) flowie_security_realm =
  rm_policy_version :: u64
  rm_rules :: "flowie_security_rule list"
  rm_compiled_leaf :: "'leaf option"
  rm_matcher_rule_indices :: "nat list"
  rm_matcher_rule_count :: nat
  rm_authorization :: "'ctx authorize_fn option"
  rm_policy_bound :: bool
  rm_policy_source :: "bytes option"

definition adapter_rule_indices :: "flowie_security_rule list \<Rightarrow> nat list" where
  "adapter_rule_indices rules =
     filter (\<lambda>i. sr_match_kind (rules ! i) = FLOWIE_SECURITY_MATCH_ADAPTER) [0..<length rules]"

text \<open>The part of the constructor for a non-empty rule set: two buffers, then the compiled
  leaf. The index buffer is kept only when a leaf was compiled.\<close>

definition realm_compile ::
    "('s, unit) op \<Rightarrow> ('ctx, 'leaf, 's) flowie_security_matcher \<Rightarrow> flowie_security_rule list \<Rightarrow>
       ('s, 'leaf option \<times> nat list) op" where
  "realm_compile alloc matcher rules s =
     (case alloc s of (rules_buffer, s1) \<Rightarrow>
      case alloc s1 of (index_buffer, s2) \<Rightarrow>
        if \<not> is_ok rules_buffer \<or> \<not> is_ok index_buffer then (Inl SALTS_ENOMEM, s2)
        else case mt_compile_leaf matcher of
               None \<Rightarrow> (Inr (None, []), s2)
             | Some compile_leaf \<Rightarrow>
                 let indices = adapter_rule_indices rules in
                 if indices = [] then (Inr (None, []), s2)
                 else obind (compile_leaf rules indices) (\<lambda>leaf. oret (Some leaf, indices)) s2)"

definition flowie_security_realm_create ::
    "('s, unit) op \<Rightarrow> ('ctx, 'leaf, 's) flowie_security_matcher \<Rightarrow> flowie_security_realm_config \<Rightarrow>
       ('s, ('ctx, 'leaf) flowie_security_realm) op" where
  "flowie_security_realm_create alloc matcher config s =
     (if length (rc_rules config) > FLOWIE_SECURITY_MAX_RULES \<or>
         (rc_rules config \<noteq> [] \<and> rc_policy_version config = 0)
      then (Inl SALTS_EINVAL, s)
      else case alloc s of
        (Inl e, s1) \<Rightarrow> (Inl SALTS_ENOMEM, s1)
      | (Inr u, s1) \<Rightarrow>
          case (if rc_policy_source config = None then (Inr (), s1) else alloc s1) of (source_buffer, s2) \<Rightarrow>
            obind (if rc_rules config = [] then oret (None, []) else realm_compile alloc matcher (rc_rules config))
              (\<lambda>(leaf, indices) s.
                 if \<not> is_ok source_buffer then (Inl SALTS_ENOMEM, s)
                 else (Inr \<lparr>rm_policy_version = rc_policy_version config, rm_rules = rc_rules config,
                            rm_compiled_leaf = leaf, rm_matcher_rule_indices = indices,
                            rm_matcher_rule_count = length (adapter_rule_indices (rc_rules config)),
                            rm_authorization = None, rm_policy_bound = False, rm_policy_source = rc_policy_source config\<rparr>, s)) s2)"

definition flowie_security_realm_bind_authorization_provider ::
    "'ctx authorize_fn \<Rightarrow> ('ctx, 'leaf) flowie_security_realm \<Rightarrow> ('ctx, 'leaf) flowie_security_realm" where
  "flowie_security_realm_bind_authorization_provider provider realm = realm\<lparr>rm_authorization := Some provider\<rparr>"

text \<open>The policy provider is kept for its owner and never called by the core.\<close>

definition flowie_security_realm_bind_policy_provider ::
    "('ctx, 'leaf) flowie_security_realm \<Rightarrow> ('ctx, 'leaf) flowie_security_realm" where
  "flowie_security_realm_bind_policy_provider realm = realm\<lparr>rm_policy_bound := True\<rparr>"

section \<open>Evaluation\<close>

definition flowie_security_subject_matches :: "flowie_security_rule \<Rightarrow> flowie_security_principal \<Rightarrow> bool" where
  "flowie_security_subject_matches rule pr =
     (case sr_subject_kind rule of
        FLOWIE_SECURITY_SUBJECT_ANY \<Rightarrow> True
      | FLOWIE_SECURITY_SUBJECT_PRINCIPAL \<Rightarrow> sr_subject rule = cstr (sp_principal_id pr)
      | FLOWIE_SECURITY_SUBJECT_ROLE \<Rightarrow>
          list_ex (\<lambda>role. sr_subject rule = cstr role) (take (unat (sp_role_count pr)) (sp_roles pr))
      | FLOWIE_SECURITY_SUBJECT_GROUP \<Rightarrow>
          list_ex (\<lambda>grp. sr_subject rule = cstr grp) (take (unat (sp_group_count pr)) (sp_groups pr))
      | security_subject_other k \<Rightarrow> False)"

definition flowie_security_emit_match ::
    "nat \<Rightarrow> nat list \<Rightarrow> bool list \<Rightarrow> nat \<Rightarrow> salts_error + bool list" where
  "flowie_security_emit_match rule_count candidate_rule_indices matches position =
     (if position \<ge> length candidate_rule_indices then Inl SALTS_EPROTO
      else let rule_index = candidate_rule_indices ! position in
           if rule_index \<ge> rule_count then Inl SALTS_EPROTO
           else Inr (matches[rule_index := True]))"

definition rule_resource_matches ::
    "'ctx flowie_security_request \<Rightarrow> bool list option \<Rightarrow> nat \<Rightarrow> flowie_security_rule \<Rightarrow> bool" where
  "rule_resource_matches request adapter_matches i rule =
     (case sr_match_kind rule of
        FLOWIE_SECURITY_MATCH_EXACT \<Rightarrow> sr_pattern rule = rq_resource request
      | FLOWIE_SECURITY_MATCH_PREFIX \<Rightarrow> take (length (sr_pattern rule)) (rq_resource request) = sr_pattern rule
      | FLOWIE_SECURITY_MATCH_ADAPTER \<Rightarrow> (case adapter_matches of None \<Rightarrow> False | Some matches \<Rightarrow> matches ! i)
      | security_match_other k \<Rightarrow> False)"

definition rule_applies ::
    "'ctx flowie_security_request \<Rightarrow> flowie_security_rule \<Rightarrow> bool" where
  "rule_applies request rule \<longleftrightarrow>
     sr_domain_id rule = rq_domain_id request \<and> sr_action_mask rule AND rq_action request \<noteq> 0 \<and>
     sr_resource_type rule = rq_resource_type request \<and>
     flowie_security_subject_matches rule (rq_principal request)"

fun realm_rules_loop ::
    "'ctx flowie_security_request \<Rightarrow> bool list option \<Rightarrow> nat \<Rightarrow> flowie_security_rule list \<Rightarrow>
       flowie_security_decision \<Rightarrow> flowie_security_decision" where
  "realm_rules_loop request adapter_matches i [] decision = decision"
| "realm_rules_loop request adapter_matches i (rule # rules) decision =
     (if \<not> rule_applies request rule \<or> \<not> rule_resource_matches request adapter_matches i rule
      then realm_rules_loop request adapter_matches (i + 1) rules decision
      else let decision = decision\<lparr>sd_matched_rule := i, sd_effect := sr_effect rule,
                 sd_reason := if sr_effect rule = FLOWIE_SECURITY_ALLOW then FLOWIE_SECURITY_REASON_ALLOW_RULE
                              else FLOWIE_SECURITY_REASON_DENY_RULE\<rparr>
           in if sr_effect rule = FLOWIE_SECURITY_DENY then decision
              else realm_rules_loop request adapter_matches (i + 1) rules decision)"

definition flowie_security_realm_evaluate ::
    "('s, unit) op \<Rightarrow> ('ctx, 'leaf, 's) flowie_security_matcher \<Rightarrow> ('ctx, 'leaf) flowie_security_realm \<Rightarrow>
       'ctx flowie_security_request \<Rightarrow> u64 \<Rightarrow> ('s, flowie_security_decision) op" where
  "flowie_security_realm_evaluate alloc matcher realm request now s =
     (let pr = rq_principal request;
          decision = FLOWIE_SECURITY_DECISION_INIT\<lparr>sd_policy_version := rm_policy_version realm\<rparr>
      in if \<not> flowie_security_principal_valid pr then (Inl SALTS_EINVAL, s)
         else if rq_domain_id request \<noteq> cstr (sp_domain_id pr) \<and>
                 sp_scope pr \<noteq> FLOWIE_SECURITY_SCOPE_SYSTEM
         then (Inr (decision\<lparr>sd_reason := FLOWIE_SECURITY_REASON_DOMAIN_MISMATCH\<rparr>), s)
         else if sp_expires_at pr \<noteq> 0 \<and> sp_expires_at pr \<le> now
         then (Inr (decision\<lparr>sd_reason := FLOWIE_SECURITY_REASON_PRINCIPAL_EXPIRED\<rparr>), s)
         else if sp_policy_version pr \<noteq> rm_policy_version realm
         then (Inr (decision\<lparr>sd_reason := FLOWIE_SECURITY_REASON_POLICY_VERSION_MISMATCH\<rparr>), s)
         else case (rm_compiled_leaf realm, mt_evaluate_leaf matcher) of
           (Some leaf, Some evaluate_leaf) \<Rightarrow>
             (case alloc s of
                (Inl e, s1) \<Rightarrow> (Inl SALTS_ENOMEM, s1)
              | (Inr u, s1) \<Rightarrow>
                  case evaluate_leaf leaf request
                         (flowie_security_emit_match (length (rm_rules realm)) (rm_matcher_rule_indices realm))
                         (replicate (length (rm_rules realm)) False) of
                    Inl e \<Rightarrow> (Inl e, s1)
                  | Inr matches \<Rightarrow>
                      (Inr (realm_rules_loop request (Some matches) 0 (rm_rules realm) decision), s1))
         | _ \<Rightarrow> (Inr (realm_rules_loop request None 0 (rm_rules realm) decision), s))"

definition remote_decision_ok :: "flowie_security_principal \<Rightarrow> flowie_security_decision \<Rightarrow> bool" where
  "remote_decision_ok pr remote \<longleftrightarrow>
     (sd_effect remote = FLOWIE_SECURITY_ALLOW \<or> sd_effect remote = FLOWIE_SECURITY_DENY) \<and>
     sd_policy_version remote = sp_policy_version pr \<and>
     (case sd_reason remote of security_reason_other i \<Rightarrow> False | _ \<Rightarrow> True)"

text \<open>The status and the decision that the caller sees; \<open>None\<close> when it was not written.\<close>

definition flowie_security_realm_authorize ::
    "('s, unit) op \<Rightarrow> ('ctx, 'leaf, 's) flowie_security_matcher \<Rightarrow> ('ctx, 'leaf) flowie_security_realm \<Rightarrow>
       'ctx flowie_security_request \<Rightarrow> u64 \<Rightarrow> 's \<Rightarrow>
       ((salts_error + unit) \<times> flowie_security_decision option) \<times> 's" where
  "flowie_security_realm_authorize alloc matcher realm request now s =
     (if \<not> flowie_security_principal_valid (rq_principal request) then ((Inl SALTS_EINVAL, None), s)
      else case (case rm_authorization realm of
          Some authorize \<Rightarrow>
            (case authorize request now of (rc, remote) \<Rightarrow>
               let rc = (if is_ok rc \<and> \<not> remote_decision_ok (rq_principal request) remote
                         then Inl SALTS_EPROTO else rc)
               in ((rc, Some (if is_ok rc then remote else FLOWIE_SECURITY_DECISION_INIT)), s))
        | None \<Rightarrow>
            (case flowie_security_realm_evaluate alloc matcher realm request now s of
               (Inl e, s') \<Rightarrow> ((Inl e, None), s')
             | (Inr decision, s') \<Rightarrow> ((Inr (), Some decision), s'))) of
        ((rc, decision), s') \<Rightarrow>
          ((if is_ok rc \<and> map_option sd_effect decision = Some FLOWIE_SECURITY_DENY then Inl SALTS_EPERM else rc,
            decision), s'))"

section \<open>What the rules decide\<close>

definition rule_hits :: "'ctx flowie_security_request \<Rightarrow> bool list option \<Rightarrow> nat \<Rightarrow> flowie_security_rule \<Rightarrow> bool" where
  "rule_hits request flags i rule \<longleftrightarrow> rule_applies request rule \<and> rule_resource_matches request flags i rule"

definition effects_known :: "flowie_security_rule list \<Rightarrow> bool" where
  "effects_known rules \<longleftrightarrow> (\<forall>rule \<in> set rules. sr_effect rule \<in> {FLOWIE_SECURITY_ALLOW, FLOWIE_SECURITY_DENY})"

text \<open>A rule that denies wins over all rules that allow, whatever their order.\<close>

lemma realm_rules_loop_effect:
  assumes "effects_known rules"
  shows "sd_effect (realm_rules_loop request flags i rules decision) =
    (if \<exists>(k, rule) \<in> set (enumerate i rules). rule_hits request flags k rule \<and> sr_effect rule = FLOWIE_SECURITY_DENY
     then FLOWIE_SECURITY_DENY
     else if \<exists>(k, rule) \<in> set (enumerate i rules). rule_hits request flags k rule then FLOWIE_SECURITY_ALLOW
     else sd_effect decision)"
  using assms
proof (induction rules arbitrary: i decision)
  case (Cons rule rules)
  have known: "effects_known rules" "sr_effect rule = FLOWIE_SECURITY_ALLOW \<or> sr_effect rule = FLOWIE_SECURITY_DENY"
    using Cons.prems by (simp_all add: effects_known_def)
  have step: "realm_rules_loop request flags i (rule # rules) decision =
      (if \<not> rule_hits request flags i rule then realm_rules_loop request flags (Suc i) rules decision
       else let decision = decision\<lparr>sd_matched_rule := i, sd_effect := sr_effect rule,
                 sd_reason := if sr_effect rule = FLOWIE_SECURITY_ALLOW then FLOWIE_SECURITY_REASON_ALLOW_RULE
                              else FLOWIE_SECURITY_REASON_DENY_RULE\<rparr>
            in if sr_effect rule = FLOWIE_SECURITY_DENY then decision
               else realm_rules_loop request flags (Suc i) rules decision)"
    by (simp add: rule_hits_def Let_def)
  show ?case
    unfolding step using known(2) Cons.IH [OF known(1)]
    by (cases "rule_hits request flags i rule") (auto simp: Let_def)
qed simp

lemma realm_rules_loop_version [simp]:
  "sd_policy_version (realm_rules_loop request flags i rules decision) = sd_policy_version decision"
  by (induction request flags i rules decision rule: realm_rules_loop.induct) (simp_all add: Let_def)

text \<open>Emitting positions marks the rules behind them.\<close>

lemma emit_each:
  assumes "\<forall>p \<in> set es. p < length indices \<and> indices ! p < n" "length flags = n"
  shows "\<exists>flags'. flowie_topic_entries_visit es (flowie_security_emit_match n indices) flags = Inr flags' \<and>
    length flags' = n \<and> (\<forall>i < n. flags' ! i \<longleftrightarrow> flags ! i \<or> (\<exists>p \<in> set es. indices ! p = i))"
  using assms
proof (induction es arbitrary: flags)
  case (Cons p es)
  have p: "p < length indices" "indices ! p < n" using Cons.prems by simp_all
  let ?flags = "flags[indices ! p := True]"
  obtain flags' where f: "flowie_topic_entries_visit es (flowie_security_emit_match n indices) ?flags = Inr flags'"
      "length flags' = n" "\<forall>i < n. flags' ! i \<longleftrightarrow> ?flags ! i \<or> (\<exists>p \<in> set es. indices ! p = i)"
    using Cons.IH [of ?flags] Cons.prems by auto
  have "\<forall>i < n. ?flags ! i \<longleftrightarrow> flags ! i \<or> indices ! p = i"
    using Cons.prems(2) p(2) by (simp add: nth_list_update)
  then have flags': "\<forall>i < n. flags' ! i \<longleftrightarrow> flags ! i \<or> (\<exists>q \<in> set (p # es). indices ! q = i)"
    using f(3) by auto
  have "flowie_security_emit_match n indices flags p = Inr ?flags"
    using p by (simp add: flowie_security_emit_match_def)
  then show ?case using f(1,2) flags' by simp
qed simp

section \<open>The contract of a matcher\<close>

text \<open>A matcher emits exactly the rules that a request selects, unless it refuses the
  request.\<close>

locale rule_matcher =
  fixes matcher :: "('ctx, 'leaf, 's) flowie_security_matcher"
    and compile_leaf :: "flowie_security_rule list \<Rightarrow> nat list \<Rightarrow> ('s, 'leaf) op"
    and evaluate_leaf :: "'leaf \<Rightarrow> 'ctx evaluate_leaf"
    and selects :: "'ctx flowie_security_request \<Rightarrow> flowie_security_rule \<Rightarrow> bool"
    and refused :: "'ctx flowie_security_request \<Rightarrow> bool"
  assumes matcher: "mt_compile_leaf matcher = Some compile_leaf" "mt_evaluate_leaf matcher = Some evaluate_leaf"
    and evaluate_law: "compile_leaf rules indices s = (Inr leaf, s') \<Longrightarrow>
      refused request \<and> (\<exists>e. \<forall>emit flags. evaluate_leaf leaf request emit flags = Inl e) \<or>
      (\<exists>es. evaluate_leaf leaf request = flowie_topic_entries_visit es \<and>
            set es = {p. p < length indices \<and> selects request (rules ! (indices ! p))})"
begin

text \<open>A rule matches a request.\<close>

definition matches :: "'ctx flowie_security_request \<Rightarrow> flowie_security_rule \<Rightarrow> bool" where
  "matches request rule \<longleftrightarrow> rule_applies request rule \<and>
     (case sr_match_kind rule of
        FLOWIE_SECURITY_MATCH_EXACT \<Rightarrow> sr_pattern rule = rq_resource request
      | FLOWIE_SECURITY_MATCH_PREFIX \<Rightarrow> take (length (sr_pattern rule)) (rq_resource request) = sr_pattern rule
      | FLOWIE_SECURITY_MATCH_ADAPTER \<Rightarrow> selects request rule
      | security_match_other k \<Rightarrow> False)"

definition compiled :: "('ctx, 'leaf) flowie_security_realm \<Rightarrow> bool" where
  "compiled realm \<longleftrightarrow>
     (case rm_compiled_leaf realm of
        None \<Rightarrow> adapter_rule_indices (rm_rules realm) = []
      | Some leaf \<Rightarrow> rm_matcher_rule_indices realm = adapter_rule_indices (rm_rules realm) \<and>
          (\<exists>s s'. compile_leaf (rm_rules realm) (rm_matcher_rule_indices realm) s = (Inr leaf, s')))"

lemma create_compiled:
  assumes "flowie_security_realm_create alloc matcher config s = (Inr realm, s')"
  shows "compiled realm \<and> rm_rules realm = rc_rules config \<and> rm_policy_version realm = rc_policy_version config \<and>
    rm_authorization realm = None"
proof (cases "rc_rules config = []")
  case True
  then show ?thesis
    using assms
    by (auto simp: flowie_security_realm_create_def compiled_def adapter_rule_indices_def obind_def
        split: if_splits prod.splits sum.splits)
next
  case False
  obtain s2 leaf indices s3 where c: "realm_compile alloc matcher (rc_rules config) s2 = (Inr (leaf, indices), s3)"
      and r: "rm_rules realm = rc_rules config" "rm_policy_version realm = rc_policy_version config"
        "rm_compiled_leaf realm = leaf" "rm_matcher_rule_indices realm = indices" "rm_authorization realm = None"
    using assms False
    by (auto simp: flowie_security_realm_create_def obind_Inr_iff split: if_splits prod.splits sum.splits)
  have "leaf = None \<and> adapter_rule_indices (rc_rules config) = [] \<or>
      (\<exists>l s s'. leaf = Some l \<and> indices = adapter_rule_indices (rc_rules config) \<and>
         compile_leaf (rc_rules config) indices s = (Inr l, s'))"
    using c by (auto simp: realm_compile_def matcher Let_def obind_Inr_iff split: if_splits prod.splits)
  then have "compiled realm" unfolding compiled_def r by (elim disjE exE conjE) auto
  then show ?thesis using r by simp
qed

lemma hits_matches:
  assumes "i < length rules"
    and "sr_match_kind (rules ! i) = FLOWIE_SECURITY_MATCH_ADAPTER \<Longrightarrow>
      (case flags of None \<Rightarrow> False | Some m \<Rightarrow> m ! i) = selects request (rules ! i)"
  shows "rule_hits request flags i (rules ! i) \<longleftrightarrow> matches request (rules ! i)"
  using assms by (auto simp: rule_hits_def matches_def rule_resource_matches_def split: flowie_security_match_kind.split)

text \<open>Once the principal and the memory are there, only a refused request has no
  decision.\<close>

lemma evaluate_total:
  assumes c: "compiled realm" and "flowie_security_principal_valid (rq_principal request)" "\<not> refused request"
    and alloc: "alloc s = (Inr u, s1)"
  shows "\<exists>decision s'. flowie_security_realm_evaluate alloc matcher realm request now s = (Inr decision, s')"
proof (cases "rm_compiled_leaf realm")
  case None
  then show ?thesis using assms(2) by (simp add: flowie_security_realm_evaluate_def matcher Let_def)
next
  case (Some leaf)
  let ?rules = "rm_rules realm"
  let ?indices = "rm_matcher_rule_indices realm"
  have ix: "?indices = adapter_rule_indices ?rules" using c Some by (simp add: compiled_def)
  obtain t t' where t: "compile_leaf ?rules ?indices t = (Inr leaf, t')"
    using c Some unfolding compiled_def by auto
  obtain es where es: "evaluate_leaf leaf request = flowie_topic_entries_visit es" "set es \<subseteq> {p. p < length ?indices}"
    using evaluate_law [OF t, of request] assms(3) by (elim disjE exE conjE) (simp, blast)
  have "\<forall>p \<in> set es. p < length ?indices \<and> ?indices ! p < length ?rules"
  proof
    fix p assume "p \<in> set es"
    then have p: "p < length ?indices" using es(2) by blast
    then have "?indices ! p \<in> set ?indices" by (rule nth_mem)
    then show "p < length ?indices \<and> ?indices ! p < length ?rules" using p by (simp add: ix adapter_rule_indices_def)
  qed
  then obtain m where "evaluate_leaf leaf request (flowie_security_emit_match (length ?rules) ?indices)
      (replicate (length ?rules) False) = Inr m"
    using emit_each [of es ?indices "length ?rules" "replicate (length ?rules) False"] es(1) by auto
  then show ?thesis using assms(2) Some alloc by (simp add: flowie_security_realm_evaluate_def matcher Let_def)
qed

text \<open>The decision of a realm.\<close>

lemma evaluate_decision:
  assumes c: "compiled realm" and known: "effects_known (rm_rules realm)"
    and run: "flowie_security_realm_evaluate alloc matcher realm request now s = (Inr decision, s')"
  shows "sd_effect decision = FLOWIE_SECURITY_ALLOW \<longleftrightarrow>
    (rq_domain_id request = cstr (sp_domain_id (rq_principal request)) \<or>
       sp_scope (rq_principal request) = FLOWIE_SECURITY_SCOPE_SYSTEM) \<and>
    (sp_expires_at (rq_principal request) = 0 \<or> now < sp_expires_at (rq_principal request)) \<and>
    sp_policy_version (rq_principal request) = rm_policy_version realm \<and>
    (\<exists>rule \<in> set (rm_rules realm). matches request rule) \<and>
    \<not> (\<exists>rule \<in> set (rm_rules realm). matches request rule \<and> sr_effect rule = FLOWIE_SECURITY_DENY)"
    (is "_ \<longleftrightarrow> ?principal \<and> ?time \<and> ?version \<and> ?some \<and> \<not> ?deny")
proof -
  let ?rules = "rm_rules realm"
  have loop: "sd_effect (realm_rules_loop request flags 0 ?rules d) = FLOWIE_SECURITY_ALLOW \<longleftrightarrow> ?some \<and> \<not> ?deny"
    if "\<And>i. i < length ?rules \<Longrightarrow> rule_hits request flags i (?rules ! i) \<longleftrightarrow> matches request (?rules ! i)"
      "sd_effect d = FLOWIE_SECURITY_DENY" for flags d
  proof -
    have some: "(\<exists>(k, rule) \<in> set (enumerate 0 ?rules). rule_hits request flags k rule \<and> P rule) \<longleftrightarrow>
        (\<exists>rule \<in> set ?rules. matches request rule \<and> P rule)" for P
    proof -
      have "(\<exists>(k, rule) \<in> set (enumerate 0 ?rules). rule_hits request flags k rule \<and> P rule) \<longleftrightarrow>
          (\<exists>k < length ?rules. rule_hits request flags k (?rules ! k) \<and> P (?rules ! k))"
        by (auto simp: in_set_enumerate_eq)
      also have "\<dots> \<longleftrightarrow> (\<exists>k < length ?rules. matches request (?rules ! k) \<and> P (?rules ! k))"
        using that(1) by blast
      also have "\<dots> \<longleftrightarrow> (\<exists>rule \<in> set ?rules. matches request rule \<and> P rule)"
        by (metis in_set_conv_nth)
      finally show ?thesis .
    qed
    show ?thesis
      unfolding realm_rules_loop_effect [OF known] some using that(2) some [of "\<lambda>_. True"] by simp
  qed
  have flags: "sd_effect (realm_rules_loop request (Some m) 0 ?rules d) = FLOWIE_SECURITY_ALLOW \<longleftrightarrow> ?some \<and> \<not> ?deny"
    if m: "rm_compiled_leaf realm = Some leaf" "evaluate_leaf leaf request
      (flowie_security_emit_match (length ?rules) (rm_matcher_rule_indices realm)) (replicate (length ?rules) False) = Inr m"
      "sd_effect d = FLOWIE_SECURITY_DENY" for leaf m d
  proof (rule loop [OF hits_matches])
    define indices where "indices = adapter_rule_indices ?rules"
    have ix: "rm_matcher_rule_indices realm = indices" using c m(1) by (simp add: compiled_def indices_def)
    obtain t t' where t: "compile_leaf ?rules indices t = (Inr leaf, t')"
      using c m(1) unfolding compiled_def ix [symmetric] by auto
    have below: "p < length indices \<Longrightarrow> indices ! p < length ?rules" for p
    proof -
      assume "p < length indices"
      then have "indices ! p \<in> set indices" by (rule nth_mem)
      then show ?thesis by (simp add: indices_def adapter_rule_indices_def)
    qed
    obtain es where es: "evaluate_leaf leaf request = flowie_topic_entries_visit es"
        "set es = {p. p < length indices \<and> selects request (?rules ! (indices ! p))}"
      using evaluate_law [OF t, of request] m(2) by (elim disjE exE conjE) (simp, blast)
    have in_range: "\<forall>p \<in> set es. p < length indices \<and> indices ! p < length ?rules"
      using es(2) below by blast
    fix i assume i: "i < length ?rules" "sr_match_kind (?rules ! i) = FLOWIE_SECURITY_MATCH_ADAPTER"
    then have "i \<in> set indices" by (simp add: indices_def adapter_rule_indices_def)
    then obtain p where p: "p < length indices" "indices ! p = i" by (auto simp: in_set_conv_nth)
    obtain m' where m': "flowie_topic_entries_visit es (flowie_security_emit_match (length ?rules) indices)
        (replicate (length ?rules) False) = Inr m'"
        "\<forall>i < length ?rules. m' ! i \<longleftrightarrow> replicate (length ?rules) False ! i \<or> (\<exists>p \<in> set es. indices ! p = i)"
      using emit_each [OF in_range, of "replicate (length ?rules) False"] by auto
    have "m' = m" using m(2) m'(1) by (simp add: es(1) ix)
    then have "m ! i \<longleftrightarrow> (\<exists>p \<in> set es. indices ! p = i)" using m'(2) i(1) by simp
    also have "\<dots> \<longleftrightarrow> selects request (?rules ! i)" unfolding es(2) using p by auto
    finally show "(case Some m of None \<Rightarrow> False | Some m \<Rightarrow> m ! i) = selects request (?rules ! i)" by simp
  qed (use m(3) in simp_all)
  have none: "sd_effect (realm_rules_loop request None 0 ?rules d) = FLOWIE_SECURITY_ALLOW \<longleftrightarrow> ?some \<and> \<not> ?deny"
    if "rm_compiled_leaf realm = None" "sd_effect d = FLOWIE_SECURITY_DENY" for d
  proof (rule loop [OF hits_matches])
    fix i assume "i < length ?rules" "sr_match_kind (?rules ! i) = FLOWIE_SECURITY_MATCH_ADAPTER"
    then have "i \<in> set (adapter_rule_indices ?rules)" by (simp add: adapter_rule_indices_def)
    then show "(case None of None \<Rightarrow> False | Some m \<Rightarrow> m ! i) = selects request (?rules ! i)"
      using c that(1) by (simp add: compiled_def)
  qed (use that(2) in simp_all)
  show ?thesis
  proof (cases "?principal \<and> ?time \<and> ?version")
    case False
    then show ?thesis
      using run
      by (auto simp: flowie_security_realm_evaluate_def FLOWIE_SECURITY_DECISION_INIT_def Let_def split: if_splits)
  next
    case True
    let ?d = "FLOWIE_SECURITY_DECISION_INIT\<lparr>sd_policy_version := rm_policy_version realm\<rparr>"
    have d: "sd_effect ?d = FLOWIE_SECURITY_DENY" by (simp add: FLOWIE_SECURITY_DECISION_INIT_def)
    have guards: "(rq_domain_id request \<noteq> cstr (sp_domain_id (rq_principal request)) \<and>
        sp_scope (rq_principal request) \<noteq> FLOWIE_SECURITY_SCOPE_SYSTEM) = False"
      "(sp_expires_at (rq_principal request) \<noteq> 0 \<and> sp_expires_at (rq_principal request) \<le> now) = False"
      "(sp_policy_version (rq_principal request) \<noteq> rm_policy_version realm) = False"
      using True by auto
    have run': "(case rm_compiled_leaf realm of
        None \<Rightarrow> Inr (realm_rules_loop request None 0 ?rules ?d)
      | Some leaf \<Rightarrow> rbind (evaluate_leaf leaf request
           (flowie_security_emit_match (length ?rules) (rm_matcher_rule_indices realm)) (replicate (length ?rules) False))
           (\<lambda>m. Inr (realm_rules_loop request (Some m) 0 ?rules ?d))) = Inr decision"
      using run unfolding flowie_security_realm_evaluate_def Let_def guards if_False matcher(2)
      by (cases "rm_compiled_leaf realm") (auto split: if_splits prod.splits sum.splits)
    have "sd_effect decision = FLOWIE_SECURITY_ALLOW \<longleftrightarrow> ?some \<and> \<not> ?deny"
    proof (cases "rm_compiled_leaf realm")
      case None
      then show ?thesis using run' none [OF None d] by simp
    next
      case (Some leaf)
      then show ?thesis using run' flags [OF Some _ d] by (auto simp: rbind_Inr_iff)
    qed
    then show ?thesis using True by simp
  qed
qed

end

end
