(* ===== verification/Security_Matcher.thy ===== *)
theory Security_Matcher
  imports Security_Core
begin

text \<open>
  The MQTT matcher of \<open>flowie/src/flowie.c\<close>: rules whose pattern is a topic filter with
  placeholders for the identity of the client. A pattern is compiled to a plain filter by
  turning every placeholder level into a single-level wildcard, the filters go into a topic
  index, and the candidates that the index reports are checked against the identity.
\<close>

section \<open>Data\<close>

definition ch_percent :: u8 where
  "ch_percent = 0x25"

definition ch_dash :: u8 where
  "ch_dash = 0x2d"

datatype flowie_mqtt_security_resource_kind =
    FLOWIE_MQTT_SECURITY_TOPIC | FLOWIE_MQTT_SECURITY_TOPIC_FILTER | mqtt_security_kind_other int

text \<open>
  A context may be the short public structure without the identity, the public structure, or
  the internal structure that also carries a resource the protocol parser has validated.
  The pointer comparisons of the code are flags here: whether the trusted resource is the
  very string of the request, and whether the provenance mark is the right one.
\<close>

record flowie_mqtt_validated_resource =
  vr_abi_version :: u32
  vr_resource :: bytes
  vr_same_string :: bool
  vr_provenance :: bool

record flowie_mqtt_security_context =
  sc_kind :: flowie_mqtt_security_resource_kind
  sc_identity :: bool
  sc_username :: flowie_mqtt_span
  sc_client_id :: flowie_mqtt_span
  sc_validated :: "flowie_mqtt_validated_resource option"

text \<open>A candidate is a pattern and whether it uses placeholders.\<close>

record flowie_mqtt_security_candidate =
  cd_pattern :: bytes
  cd_uses_placeholders :: bool

record flowie_mqtt_security_leaf =
  lf_topics :: flowie_topic_index
  lf_candidates :: "flowie_mqtt_security_candidate list"

section \<open>Principals\<close>

text \<open>A text field is the array that holds it; only its first bytes up to the capacity are
  read.\<close>

definition flowie_security_principal_text_validate :: "bytes \<Rightarrow> nat \<Rightarrow> bool \<Rightarrow> salts_error + unit" where
  "flowie_security_principal_text_validate v capacity required =
     (if capacity = 0 then Inl SALTS_EINVAL
      else let prefix = takeWhile (\<lambda>c. c \<noteq> 0) (take capacity v) in
           if length prefix = length (take capacity v) \<or> (required \<and> prefix = []) then Inl SALTS_EPROTO
           else Inr ())"

fun principal_groups_loop :: "bytes list \<Rightarrow> bytes list \<Rightarrow> salts_error + unit" where
  "principal_groups_loop prior [] = Inr ()"
| "principal_groups_loop prior (g # gs) =
     (if \<not> is_ok (flowie_security_principal_text_validate g 256 True) then Inl SALTS_EPROTO
      else if list_ex (\<lambda>p. cstr g = cstr p) prior then Inl SALTS_EPROTO
      else principal_groups_loop (prior @ [g]) gs)"

definition flowie_security_principal_validate :: "flowie_security_principal \<Rightarrow> salts_error + unit" where
  "flowie_security_principal_validate pr =
     (if (case sp_scope pr of security_scope_other i \<Rightarrow> True | _ \<Rightarrow> False) \<or>
         unat (sp_role_count pr) > 8 \<or> unat (sp_group_count pr) > 16 \<or> sp_policy_version pr = 0 \<or>
         \<not> is_ok (flowie_security_principal_text_validate (sp_principal_id pr) 256 True) \<or>
         \<not> is_ok (flowie_security_principal_text_validate (sp_principal_type pr) 64 True) \<or>
         \<not> is_ok (flowie_security_principal_text_validate (sp_domain_id pr) 256
                   (sp_scope pr \<noteq> FLOWIE_SECURITY_SCOPE_SYSTEM)) \<or>
         \<not> is_ok (flowie_security_principal_text_validate (sp_auth_method pr) 64 True)
      then Inl SALTS_EPROTO
      else if \<not> list_all (\<lambda>role. is_ok (flowie_security_principal_text_validate role 64 True))
                (take (unat (sp_role_count pr)) (sp_roles pr)) then Inl SALTS_EPROTO
      else principal_groups_loop [] (take (unat (sp_group_count pr)) (sp_groups pr)))"

section \<open>Requests\<close>

definition flowie_mqtt_validated_security_context_init ::
    "flowie_mqtt_security_resource_kind \<Rightarrow> bytes option \<Rightarrow> salts_error + flowie_mqtt_security_context" where
  "flowie_mqtt_validated_security_context_init kind parser_validated_resource =
     (case parser_validated_resource of
        None \<Rightarrow> Inl SALTS_EINVAL
      | Some resource \<Rightarrow>
          if (kind \<noteq> FLOWIE_MQTT_SECURITY_TOPIC \<and> kind \<noteq> FLOWIE_MQTT_SECURITY_TOPIC_FILTER) \<or> resource = []
          then Inl SALTS_EINVAL
          else Inr \<lparr>sc_kind = kind, sc_identity = True, sc_username = NullSpan 0, sc_client_id = NullSpan 0,
                    sc_validated = Some \<lparr>vr_abi_version = 1, vr_resource = resource, vr_same_string = True,
                                         vr_provenance = True\<rparr>\<rparr>)"

definition flowie_mqtt_security_resource ::
    "flowie_mqtt_security_context flowie_security_request \<Rightarrow>
       salts_error + bytes \<times> flowie_mqtt_security_resource_kind \<times> bool" where
  "flowie_mqtt_security_resource request =
     (case rq_protocol_context request of
        None \<Rightarrow> Inr (rq_resource request, FLOWIE_MQTT_SECURITY_TOPIC, False)
      | Some context \<Rightarrow>
          if sc_kind context \<noteq> FLOWIE_MQTT_SECURITY_TOPIC \<and> sc_kind context \<noteq> FLOWIE_MQTT_SECURITY_TOPIC_FILTER
          then Inl SALTS_EPROTO
          else (case sc_validated context of
             None \<Rightarrow> Inr (rq_resource request, sc_kind context, False)
           | Some trusted \<Rightarrow>
               if vr_abi_version trusted \<noteq> 1 \<or> \<not> vr_provenance trusted \<or> \<not> vr_same_string trusted \<or>
                  vr_resource trusted = []
               then Inl SALTS_EPROTO
               else Inr (vr_resource trusted, sc_kind context, True)))"

section \<open>Patterns\<close>

definition placeholder_level :: "bytes \<Rightarrow> bool" where
  "placeholder_level level \<longleftrightarrow> length level > 1 \<and> hd level = ch_percent"

function filter_compile_loop :: "nat \<Rightarrow> bytes \<Rightarrow> bytes \<Rightarrow> bool \<Rightarrow> salts_error + bytes \<times> bool" where
  "filter_compile_loop capacity cursor written uses_placeholders =
     (if cursor = [] then Inr (written, uses_placeholders)
      else case flowie_mqtt_next_level cursor of (token, slash, rest) \<Rightarrow>
        let placeholder = placeholder_level token;
            segment = (if placeholder then [ch_plus] else token);
            uses_placeholders = (uses_placeholders \<or> placeholder)
        in if length segment > capacity - 1 - length written then Inl SALTS_ENOSPC
           else let written = written @ segment in
                if \<not> slash then Inr (written, uses_placeholders)
                else if length written \<ge> capacity - 1 then Inl SALTS_ENOSPC
                else filter_compile_loop capacity rest (written @ [ch_slash]) uses_placeholders)"
  by pat_completeness auto
termination
  by (relation "measure (\<lambda>(capacity, cursor, written, uses). length cursor)")
     (auto dest: next_level_shorter [OF sym])

declare filter_compile_loop.simps [simp del]

definition flowie_mqtt_security_filter_compile :: "bytes \<Rightarrow> nat \<Rightarrow> salts_error + bytes \<times> bool" where
  "flowie_mqtt_security_filter_compile pattern filter_capacity =
     (if pattern = [] \<or> filter_capacity = 0 then Inl SALTS_EINVAL
      else filter_compile_loop filter_capacity pattern [] False)"

definition flowie_mqtt_security_identity_segment_valid :: "flowie_mqtt_span \<Rightarrow> bool" where
  "flowie_mqtt_security_identity_segment_valid v \<longleftrightarrow>
     \<not> span_null v \<and> span_size v \<noteq> 0 \<and> list_all (\<lambda>c. c \<noteq> ch_slash \<and> c \<noteq> ch_plus \<and> c \<noteq> ch_hash) (span_bytes v)"

text \<open>The base of a client identifier that ends in a dash and the role.\<close>

definition flowie_mqtt_security_role_client_id :: "flowie_mqtt_span \<Rightarrow> bytes \<Rightarrow> bytes option" where
  "flowie_mqtt_security_role_client_id client_id role =
     (if role = [] \<or> span_size client_id \<le> length role + 1 \<or>
         \<not> flowie_mqtt_security_identity_segment_valid client_id \<or>
         \<not> flowie_mqtt_security_identity_segment_valid (Span role)
      then None
      else let role_offset = span_size client_id - length role in
           if span_bytes client_id ! (role_offset - 1) \<noteq> ch_dash \<or> drop role_offset (span_bytes client_id) \<noteq> role
           then None
           else let base = take (role_offset - 1) (span_bytes client_id) in
                if flowie_mqtt_security_identity_segment_valid (Span base) then Some base else None)"

definition placeholder_segment_ok :: "flowie_mqtt_security_context \<Rightarrow> bytes \<Rightarrow> bytes \<Rightarrow> bool" where
  "placeholder_segment_ok context level segment =
     (if level = [ch_percent, 0x75] \<or> level = [ch_percent, 0x63]
      then let expected = (if level = [ch_percent, 0x75] then sc_username context else sc_client_id context)
           in flowie_mqtt_security_identity_segment_valid expected \<and> segment = span_bytes expected
      else if placeholder_level level
      then case flowie_mqtt_security_role_client_id (sc_client_id context) (tl level) of
             None \<Rightarrow> False
           | Some expected \<Rightarrow> segment = expected
      else True)"

function placeholders_loop :: "flowie_mqtt_security_context \<Rightarrow> bytes \<Rightarrow> bytes \<Rightarrow> bool" where
  "placeholders_loop context pattern_cursor resource_cursor =
     (if pattern_cursor = [] then True
      else case flowie_mqtt_next_level pattern_cursor of (level, pattern_slash, pattern_rest) \<Rightarrow>
        case flowie_mqtt_next_level resource_cursor of (segment, resource_slash, resource_rest) \<Rightarrow>
          if \<not> placeholder_segment_ok context level segment then False
          else if \<not> pattern_slash then True
          else if \<not> resource_slash then False
          else placeholders_loop context pattern_rest resource_rest)"
  by pat_completeness auto
termination
  by (relation "measure (\<lambda>(context, pattern, resource). length pattern)")
     (auto dest: next_level_shorter [OF sym])

declare placeholders_loop.simps [simp del]

definition flowie_mqtt_security_placeholders_match ::
    "bytes \<Rightarrow> bytes \<Rightarrow> flowie_mqtt_security_context option \<Rightarrow> bool" where
  "flowie_mqtt_security_placeholders_match pattern resource context =
     (case context of
        None \<Rightarrow> False
      | Some context \<Rightarrow> sc_identity context \<and> placeholders_loop context pattern resource)"

section \<open>The compiled leaf\<close>

definition FLOWIE_SECURITY_PATTERN_MAX :: nat where
  "FLOWIE_SECURITY_PATTERN_MAX = 511"

fun compile_candidates ::
    "utf8_next \<Rightarrow> flowie_security_rule list \<Rightarrow> nat \<Rightarrow> nat list \<Rightarrow>
       (flowie_topic_index, flowie_mqtt_security_candidate list) op" where
  "compile_candidates un rules position [] = oret []"
| "compile_candidates un rules position (rule_index # indices) =
     (if rule_index \<ge> length rules then ofail SALTS_EPROTO
      else let rule = rules ! rule_index in
           if sr_match_kind rule \<noteq> FLOWIE_SECURITY_MATCH_ADAPTER \<or>
              sr_resource_type rule \<noteq> FLOWIE_SECURITY_RESOURCE_MQTT_TOPIC
           then ofail SALTS_EPROTO
           else case flowie_mqtt_security_filter_compile (sr_pattern rule) (FLOWIE_SECURITY_PATTERN_MAX + 1) of
                  Inl e \<Rightarrow> ofail e
                | Inr (compiled_filter, uses_placeholders) \<Rightarrow>
                    if \<not> flowie_mqtt_topic_filter_validate un (Span compiled_filter) then ofail SALTS_EPROTO
                    else obind (flowie_topic_index_insert (Span compiled_filter) position) (\<lambda>_.
                         obind (compile_candidates un rules (position + 1) indices) (\<lambda>candidates.
                           oret (\<lparr>cd_pattern = sr_pattern rule, cd_uses_placeholders = uses_placeholders\<rparr> # candidates))))"

text \<open>The constructor allocates the leaf, initialises the index, allocates the candidates and
  compiles them; any failure destroys the index.\<close>

definition flowie_mqtt_security_compile_leaf ::
    "utf8_next \<Rightarrow> flowie_security_rule list \<Rightarrow> nat list \<Rightarrow> (flowie_topic_index, flowie_mqtt_security_leaf) op" where
  "flowie_mqtt_security_compile_leaf un rules candidate_rule_indices index =
     (if rules = [] \<or> candidate_rule_indices = [] then (Inl SALTS_EINVAL, index)
      else case obind topic_alloc (\<lambda>_. obind flowie_topic_index_init (\<lambda>_. obind topic_alloc (\<lambda>_.
                  compile_candidates un rules 0 candidate_rule_indices))) index of
             (Inl e, index') \<Rightarrow> (Inl e, flowie_topic_index_destroy index')
           | (Inr candidates, index') \<Rightarrow> (Inr \<lparr>lf_topics = index', lf_candidates = candidates\<rparr>, index'))"

definition flowie_mqtt_security_emit_candidate ::
    "flowie_mqtt_security_leaf \<Rightarrow> flowie_mqtt_security_context option \<Rightarrow> bytes \<Rightarrow> 'c topic_visitor \<Rightarrow> 'c topic_visitor" where
  "flowie_mqtt_security_emit_candidate leaf security resource emit emit_ctx position =
     (if position \<ge> length (lf_candidates leaf) then Inl SALTS_EPROTO
      else let candidate = lf_candidates leaf ! position in
           if cd_uses_placeholders candidate \<and>
              \<not> flowie_mqtt_security_placeholders_match (cd_pattern candidate) resource security
           then Inr emit_ctx
           else emit emit_ctx position)"

definition flowie_mqtt_security_evaluate_leaf ::
    "utf8_next \<Rightarrow> flowie_mqtt_security_leaf \<Rightarrow> flowie_mqtt_security_context flowie_security_request \<Rightarrow>
       'c topic_visitor \<Rightarrow> 'c \<Rightarrow> salts_error + 'c" where
  "flowie_mqtt_security_evaluate_leaf un leaf request emit emit_ctx =
     (if rq_resource_type request \<noteq> FLOWIE_SECURITY_RESOURCE_MQTT_TOPIC then Inr emit_ctx
      else rbind (flowie_mqtt_security_resource request) (\<lambda>(resource, kind, validated).
        let visit = flowie_mqtt_security_emit_candidate leaf (rq_protocol_context request) resource emit in
        if kind = FLOWIE_MQTT_SECURITY_TOPIC_FILTER then
          if \<not> validated \<and> \<not> flowie_mqtt_topic_filter_validate un (Span resource) then Inl SALTS_EPROTO
          else flowie_topic_index_visit_validated_containing_filters (lf_topics leaf) (Span resource) visit emit_ctx
        else
          if \<not> validated \<and> \<not> flowie_mqtt_topic_name_validate un (Span resource) then Inl SALTS_EPROTO
          else flowie_topic_index_visit_validated_topic (lf_topics leaf) (Span resource) visit emit_ctx))"

definition flowie_mqtt_security_matcher_init ::
    "utf8_next \<Rightarrow> (flowie_mqtt_security_context, flowie_mqtt_security_leaf, flowie_topic_index) flowie_security_matcher" where
  "flowie_mqtt_security_matcher_init un =
     \<lparr>mt_compile_leaf = Some (flowie_mqtt_security_compile_leaf un),
      mt_evaluate_leaf = Some (flowie_mqtt_security_evaluate_leaf un)\<rparr>"

section \<open>Patterns by levels\<close>

fun join_levels :: "bytes list \<Rightarrow> bytes" where
  "join_levels [] = []"
| "join_levels [l] = l"
| "join_levels (l # ls) = l @ ch_slash # join_levels ls"

lemma split_levels_append:
  "ch_slash \<notin> set l \<Longrightarrow> split_levels (l @ ch_slash # rest) = l # split_levels rest"
  by (induction l) auto

lemma split_levels_single: "ch_slash \<notin> set l \<Longrightarrow> split_levels l = [l]"
  by (induction l) auto

lemma split_join: "ls \<noteq> [] \<Longrightarrow> \<forall>l \<in> set ls. ch_slash \<notin> set l \<Longrightarrow> split_levels (join_levels ls) = ls"
  by (induction ls rule: join_levels.induct) (auto simp: split_levels_append split_levels_single)

lemma join_split: "join_levels (split_levels bs) = bs"
proof (induction bs)
  case (Cons c cs)
  obtain l ls where "split_levels cs = l # ls" by (cases "split_levels cs") auto
  with Cons show ?case by (cases ls) auto
qed simp

lemma split_levels_no_slash: "l \<in> set (split_levels bs) \<Longrightarrow> ch_slash \<notin> set l"
proof (induction bs arbitrary: l)
  case (Cons c cs)
  obtain l' ls where "split_levels cs = l' # ls" by (cases "split_levels cs") auto
  with Cons show ?case by (auto split: if_splits)
qed simp

text \<open>The plain filter level of a pattern level.\<close>

definition compile_level :: "bytes \<Rightarrow> bytes" where
  "compile_level l = (if placeholder_level l then [ch_plus] else l)"

lemma compile_level_length: "length (compile_level l) \<le> length l"
  by (auto simp: compile_level_def placeholder_level_def)

lemma join_levels_Cons: "ls \<noteq> [] \<Longrightarrow> join_levels (l # ls) = l @ ch_slash # join_levels ls"
  by (cases ls) auto

lemma filter_compile_loop_result:
  assumes "0 < capacity" "length written \<le> capacity - 1"
  shows "filter_compile_loop capacity cursor written uses =
    (if length written + length (join_levels (map compile_level (split_levels cursor))) \<le> capacity - 1
     then Inr (written @ join_levels (map compile_level (split_levels cursor)),
               uses \<or> list_ex placeholder_level (split_levels cursor))
     else Inl SALTS_ENOSPC)"
  using assms(2)
proof (induction cursor arbitrary: written uses rule: length_induct)
  case (1 cursor)
  show ?case
  proof (cases "cursor = []")
    case True
    then show ?thesis
      using "1.prems" by (subst filter_compile_loop.simps) (simp add: compile_level_def placeholder_level_def)
  next
    case False
    obtain token slash rest where cut: "flowie_mqtt_next_level cursor = (token, slash, rest)"
      by (cases "flowie_mqtt_next_level cursor")
    note levels = next_level_split [OF cut]
    show ?thesis
    proof (cases slash)
      case False
      then show ?thesis
        using \<open>cursor \<noteq> []\<close> cut levels "1.prems" assms(1)
        by (subst filter_compile_loop.simps) (auto simp: compile_level_def Let_def)
    next
      case True
      let ?js = "join_levels (map compile_level (split_levels rest))"
      let ?w = "written @ compile_level token @ [ch_slash]"
      have join: "join_levels (map compile_level (split_levels cursor)) = compile_level token @ ch_slash # ?js"
        using levels True by (simp add: join_levels_Cons)
      have shorter: "length rest < length cursor" using cut True next_level_shorter by simp
      have "filter_compile_loop capacity cursor written uses =
          (if length ?w \<le> capacity - 1 then filter_compile_loop capacity rest ?w (uses \<or> placeholder_level token)
           else Inl SALTS_ENOSPC)"
        using \<open>cursor \<noteq> []\<close> cut True "1.prems" assms(1)
        by (subst filter_compile_loop.simps) (auto simp: compile_level_def Let_def)
      then show ?thesis using "1.IH" shorter levels True join by auto
    qed
  qed
qed

lemma join_levels_length: "length (join_levels (map compile_level ls)) \<le> length (join_levels ls)"
proof (induction ls rule: join_levels.induct)
  case (3 l l' ls)
  then show ?case using compile_level_length [of l] by simp
qed (simp_all add: compile_level_length)

text \<open>Compiling only fails for lack of room, and a pattern that fits a rule always has
  room.\<close>

definition pattern_filter :: "bytes \<Rightarrow> bytes" where
  "pattern_filter pattern = join_levels (map compile_level (split_levels pattern))"

lemma filter_compile_result:
  assumes "pattern \<noteq> []" "0 < capacity"
  shows "flowie_mqtt_security_filter_compile pattern capacity =
    (if length (pattern_filter pattern) < capacity
     then Inr (pattern_filter pattern, list_ex placeholder_level (split_levels pattern)) else Inl SALTS_ENOSPC)"
  using assms filter_compile_loop_result [of capacity "[]" pattern False]
  by (auto simp: flowie_mqtt_security_filter_compile_def pattern_filter_def)

lemma pattern_filter_length: "length (pattern_filter pattern) \<le> length pattern"
  using join_levels_length [of "split_levels pattern"] by (simp add: pattern_filter_def join_split)

lemma compiled_levels:
  "split_levels (pattern_filter pattern) = map compile_level (split_levels pattern)"
  unfolding pattern_filter_def by (rule split_join) (auto simp: compile_level_def dest: split_levels_no_slash)

lemma placeholders_loop_levels:
  "placeholders_loop context pattern resource \<longleftrightarrow>
     length (split_levels pattern) \<le> length (split_levels resource) \<and>
     (\<forall>i < length (split_levels pattern).
        placeholder_segment_ok context (split_levels pattern ! i) (split_levels resource ! i))"
proof (induction pattern arbitrary: resource rule: length_induct)
  case (1 pattern)
  obtain level pslash prest where cut: "flowie_mqtt_next_level pattern = (level, pslash, prest)"
    by (cases "flowie_mqtt_next_level pattern")
  obtain segment rslash rrest where rcut: "flowie_mqtt_next_level resource = (segment, rslash, rrest)"
    by (cases "flowie_mqtt_next_level resource")
  note levels = next_level_split [OF cut] next_level_split [OF rcut]
  have empty: "placeholder_segment_ok context [] segment" by (simp add: placeholder_segment_ok_def placeholder_level_def)
  show ?case
  proof (cases "pattern = []")
    case True
    then show ?thesis using empty levels(2) by (subst placeholders_loop.simps) simp
  next
    case False
    have loop: "placeholders_loop context pattern resource \<longleftrightarrow> placeholder_segment_ok context level segment \<and>
        (pslash \<longrightarrow> rslash \<and> placeholders_loop context prest rrest)"
      using False cut rcut by (subst placeholders_loop.simps) auto
    have "pslash \<Longrightarrow> length prest < length pattern" using cut next_level_shorter by simp
    then show ?thesis
      using loop levels "1.IH" by (cases pslash; cases rslash) (auto simp: All_less_Suc2)
  qed
qed

section \<open>What a compiled leaf reports\<close>

text \<open>A successful compilation has validated every filter and inserted it under the position
  of its candidate.\<close>

lemma compile_candidates_spec:
  assumes "compile_candidates un rules position indices index = (Inr candidates, index')"
  shows "candidates = map (\<lambda>i. \<lparr>cd_pattern = sr_pattern (rules ! i),
      cd_uses_placeholders = list_ex placeholder_level (split_levels (sr_pattern (rules ! i)))\<rparr>) indices \<and>
    (\<forall>i \<in> set indices. flowie_mqtt_topic_filter_validate un (Span (pattern_filter (sr_pattern (rules ! i))))) \<and>
    oeach (\<lambda>(f, e). flowie_topic_index_insert (Span f) e)
      (zip (map (\<lambda>i. pattern_filter (sr_pattern (rules ! i))) indices) [position..<position + length indices]) index =
      (Inr (), index')"
  using assms
proof (induction indices arbitrary: position candidates index)
  case (Cons i indices)
  let ?pattern = "sr_pattern (rules ! i)"
  have ne: "?pattern \<noteq> []"
    using Cons.prems by (auto simp: flowie_mqtt_security_filter_compile_def Let_def split: if_splits)
  have compiled: "flowie_mqtt_security_filter_compile ?pattern (Suc FLOWIE_SECURITY_PATTERN_MAX) =
      Inr (pattern_filter ?pattern, list_ex placeholder_level (split_levels ?pattern))"
    using Cons.prems filter_compile_result [OF ne, of "Suc FLOWIE_SECURITY_PATTERN_MAX"]
    by (auto simp: Let_def split: if_splits)
  obtain u index1 rest where run: "flowie_mqtt_topic_filter_validate un (Span (pattern_filter ?pattern))"
      "flowie_topic_index_insert (Span (pattern_filter ?pattern)) position index = (Inr u, index1)"
      "compile_candidates un rules (position + 1) indices index1 = (Inr rest, index')"
      "candidates = \<lparr>cd_pattern = ?pattern, cd_uses_placeholders = list_ex placeholder_level (split_levels ?pattern)\<rparr> # rest"
    using Cons.prems by (auto simp: compiled Let_def obind_Inr_iff split: if_splits)
  have "[position..<position + length (i # indices)] = position # [position + 1..<(position + 1) + length indices]"
    by (simp add: upt_conv_Cons del: upt_Suc)
  then show ?case using Cons.IH [OF run(3)] run(1,2,4) by (simp add: obind_Inr_iff)
qed simp

text \<open>The candidates whose placeholders hold for the identity of the request.\<close>

definition candidate_ok :: "bytes \<Rightarrow> bytes \<Rightarrow> flowie_mqtt_security_context option \<Rightarrow> bool" where
  "candidate_ok pattern resource context \<longleftrightarrow> (list_ex placeholder_level (split_levels pattern) \<longrightarrow>
     flowie_mqtt_security_placeholders_match pattern resource context)"

lemma emit_candidates:
  assumes "list_all (\<lambda>e. e < length (lf_candidates leaf)) es"
  shows "flowie_topic_entries_visit es (flowie_mqtt_security_emit_candidate leaf security resource emit) =
    flowie_topic_entries_visit (filter (\<lambda>e. cd_uses_placeholders (lf_candidates leaf ! e) \<longrightarrow>
      flowie_mqtt_security_placeholders_match (cd_pattern (lf_candidates leaf ! e)) resource security) es) emit"
  using assms
  by (induction es) (auto simp: flowie_mqtt_security_emit_candidate_def Let_def intro!: ext)

text \<open>The rules that an MQTT request selects: the filter of the pattern selects the topic, or
  covers the requested filter without its share group, and the placeholders hold.\<close>

definition filter_selected :: "bytes \<Rightarrow> bytes \<Rightarrow> flowie_mqtt_security_resource_kind \<Rightarrow> bool" where
  "filter_selected f resource kind =
     (if kind = FLOWIE_MQTT_SECURITY_TOPIC_FILTER
      then filter_covers (filter_levels f) (split_levels (span_bytes (flowie_topic_filter_inner (Span resource))))
      else topic_selects (filter_levels f) resource)"

text \<open>The resources that the matcher refuses to look up.\<close>

definition leaf_refused :: "utf8_next \<Rightarrow> bytes \<Rightarrow> flowie_mqtt_security_resource_kind \<Rightarrow> bool \<Rightarrow> bool" where
  "leaf_refused un resource kind validated =
     (if kind = FLOWIE_MQTT_SECURITY_TOPIC_FILTER
      then \<not> validated \<and> \<not> flowie_mqtt_topic_filter_validate un (Span resource) \<or>
           span_null (flowie_topic_filter_inner (Span resource)) \<or>
           span_size (flowie_topic_filter_inner (Span resource)) = 0
      else \<not> validated \<and> \<not> flowie_mqtt_topic_name_validate un (Span resource))"

definition mqtt_refused :: "utf8_next \<Rightarrow> flowie_mqtt_security_context flowie_security_request \<Rightarrow> bool" where
  "mqtt_refused un request \<longleftrightarrow> rq_resource_type request = FLOWIE_SECURITY_RESOURCE_MQTT_TOPIC \<and>
     (case flowie_mqtt_security_resource request of
        Inl e \<Rightarrow> True
      | Inr (resource, kind, validated) \<Rightarrow> leaf_refused un resource kind validated)"

definition mqtt_selects :: "flowie_mqtt_security_context flowie_security_request \<Rightarrow> flowie_security_rule \<Rightarrow> bool" where
  "mqtt_selects request rule \<longleftrightarrow> rq_resource_type request = FLOWIE_SECURITY_RESOURCE_MQTT_TOPIC \<and>
     (case flowie_mqtt_security_resource request of
        Inl e \<Rightarrow> False
      | Inr (resource, kind, validated) \<Rightarrow> filter_selected (pattern_filter (sr_pattern rule)) resource kind \<and>
          candidate_ok (sr_pattern rule) resource (rq_protocol_context request))"

lemma zip_upt_iff: "(f, e) \<in> set (zip (map g xs) [0..<length xs]) \<longleftrightarrow> e < length xs \<and> f = g (xs ! e)"
  by (auto simp: in_set_conv_nth)

definition leaf_candidates :: "flowie_security_rule list \<Rightarrow> nat list \<Rightarrow> flowie_mqtt_security_candidate list" where
  "leaf_candidates rules indices = map (\<lambda>i. \<lparr>cd_pattern = sr_pattern (rules ! i),
     cd_uses_placeholders = list_ex placeholder_level (split_levels (sr_pattern (rules ! i)))\<rparr>) indices"

definition leaf_entries :: "flowie_security_rule list \<Rightarrow> nat list \<Rightarrow> (bytes \<times> nat) list" where
  "leaf_entries rules indices =
     zip (map (\<lambda>i. pattern_filter (sr_pattern (rules ! i))) indices) [0..<length indices]"

lemma leaf_entries_iff:
  "(f, e) \<in> set (leaf_entries rules indices) \<longleftrightarrow>
     e < length indices \<and> f = pattern_filter (sr_pattern (rules ! (indices ! e)))"
  by (auto simp: leaf_entries_def zip_upt_iff)

lemma emit_reported:
  assumes "visit = flowie_topic_entries_visit es" "set es = {e. \<exists>f. (f, e) \<in> set (leaf_entries rules indices) \<and> P f}"
    and "lf_candidates leaf = leaf_candidates rules indices"
  shows "\<exists>es. (\<lambda>emit. visit (flowie_mqtt_security_emit_candidate leaf security resource emit)) =
        flowie_topic_entries_visit es \<and>
      set es = {p. p < length indices \<and> P (pattern_filter (sr_pattern (rules ! (indices ! p)))) \<and>
        candidate_ok (sr_pattern (rules ! (indices ! p))) resource security}"
proof -
  let ?ok = "\<lambda>e. cd_uses_placeholders (lf_candidates leaf ! e) \<longrightarrow>
      flowie_mqtt_security_placeholders_match (cd_pattern (lf_candidates leaf ! e)) resource security"
  have es: "set es = {e. e < length indices \<and> P (pattern_filter (sr_pattern (rules ! (indices ! e))))}"
    unfolding assms(2) leaf_entries_iff by blast
  then have "list_all (\<lambda>e. e < length (lf_candidates leaf)) es"
    by (auto simp: list_all_iff assms(3) leaf_candidates_def)
  then have "(\<lambda>emit. visit (flowie_mqtt_security_emit_candidate leaf security resource emit)) =
      flowie_topic_entries_visit (filter ?ok es)"
    unfolding assms(1) by (rule ext [OF emit_candidates])
  moreover have "set (filter ?ok es) = {p. p < length indices \<and> P (pattern_filter (sr_pattern (rules ! (indices ! p)))) \<and>
        candidate_ok (sr_pattern (rules ! (indices ! p))) resource security}"
    unfolding set_filter es assms(3) by (auto simp: leaf_candidates_def candidate_ok_def)
  ultimately show ?thesis by blast
qed

lemma compile_leaf_runs:
  assumes "flowie_mqtt_security_compile_leaf un rules indices s = (Inr leaf, s')"
  obtains index where "topic_index_ok index" "topic_bucket index = topic_empty"
    "compile_candidates un rules 0 indices index = (Inr (lf_candidates leaf), lf_topics leaf)"
proof -
  obtain index0 index1 index2 u u1 where run: "flowie_topic_index_init index0 = (Inr u, index1)"
      "topic_alloc index1 = (Inr u1, index2)"
      "compile_candidates un rules 0 indices index2 = (Inr (lf_candidates leaf), lf_topics leaf)"
    using assms
    by (auto simp: flowie_mqtt_security_compile_leaf_def obind_Inr_iff split: if_splits prod.splits sum.splits)
  have "topic_index_ok index1 \<and> topic_bucket index1 = topic_empty" using init_step [OF run(1)] by simp
  moreover have "topic_index_ok index2 = topic_index_ok index1 \<and> topic_bucket index2 = topic_bucket index1"
    using run(2)
    by (auto simp: topic_alloc_def topic_attempt_def topic_index_ok_def index_tree_def topic_bucket_def fun_eq_iff
        split: list.splits prod.splits sum.splits option.split)
  ultimately show ?thesis using that [OF _ _ run(3)] by simp
qed

definition leaf_visit ::
    "utf8_next \<Rightarrow> flowie_mqtt_security_leaf \<Rightarrow> bytes \<Rightarrow> flowie_mqtt_security_resource_kind \<Rightarrow> bool \<Rightarrow>
       'c topic_visitor \<Rightarrow> 'c \<Rightarrow> salts_error + 'c" where
  "leaf_visit un leaf resource kind validated visit ctx =
     (if kind = FLOWIE_MQTT_SECURITY_TOPIC_FILTER then
        if \<not> validated \<and> \<not> flowie_mqtt_topic_filter_validate un (Span resource) then Inl SALTS_EPROTO
        else flowie_topic_index_visit_validated_containing_filters (lf_topics leaf) (Span resource) visit ctx
      else
        if \<not> validated \<and> \<not> flowie_mqtt_topic_name_validate un (Span resource) then Inl SALTS_EPROTO
        else flowie_topic_index_visit_validated_topic (lf_topics leaf) (Span resource) visit ctx)"

lemma security_resource_validated:
  "flowie_mqtt_security_resource request = Inr (resource, kind, True) \<Longrightarrow> resource \<noteq> []"
  by (auto simp: flowie_mqtt_security_resource_def split: option.splits if_splits)

text \<open>The walk of a compiled leaf, for a topic or a filter.\<close>

lemma leaf_visit_law:
  assumes "topic_index_ok index" "topic_bucket index = topic_empty" "\<forall>(f, e) \<in> set entries. filter_shape f"
    and "oeach (\<lambda>(f, e). flowie_topic_index_insert (Span f) e) entries index = (Inr (), lf_topics leaf)"
    and "validated \<Longrightarrow> resource \<noteq> []"
  shows "leaf_refused un resource kind validated \<and>
      (\<exists>e. \<forall>(visit :: 'c topic_visitor) ctx. leaf_visit un leaf resource kind validated visit ctx = Inl e) \<or>
    (\<exists>es. leaf_visit un leaf resource kind validated =
        (flowie_topic_entries_visit es :: 'c topic_visitor \<Rightarrow> 'c \<Rightarrow> salts_error + 'c) \<and>
      set es = {e. \<exists>f. (f, e) \<in> set entries \<and> filter_selected f resource kind})"
proof -
  consider (refused) "\<not> validated" "kind = FLOWIE_MQTT_SECURITY_TOPIC_FILTER" "\<not> flowie_mqtt_topic_filter_validate un (Span resource)"
    | (no_topic) "\<not> validated" "kind \<noteq> FLOWIE_MQTT_SECURITY_TOPIC_FILTER" "\<not> flowie_mqtt_topic_name_validate un (Span resource)"
    | (walk) "validated \<or> (if kind = FLOWIE_MQTT_SECURITY_TOPIC_FILTER then flowie_mqtt_topic_filter_validate un (Span resource)
        else flowie_mqtt_topic_name_validate un (Span resource))"
    by (cases "kind = FLOWIE_MQTT_SECURITY_TOPIC_FILTER") auto
  then show ?thesis
  proof cases
    case walk
    then have ne: "resource \<noteq> []"
      using assms(5)
      by (auto simp: topic_filter_validate_Span flowie_mqtt_topic_name_validate_def split: if_splits)
    show ?thesis
    proof (cases "kind = FLOWIE_MQTT_SECURITY_TOPIC_FILTER")
      case topic: False
      then have visit: "leaf_visit un leaf resource kind validated =
          flowie_topic_index_visit_validated_topic (lf_topics leaf) (Span resource)"
        using walk by (auto simp: leaf_visit_def fun_eq_iff)
      have "\<exists>es. flowie_topic_index_visit_validated_topic (lf_topics leaf) (Span resource) =
            (flowie_topic_entries_visit es :: 'c topic_visitor \<Rightarrow> 'c \<Rightarrow> salts_error + 'c) \<and>
          set es = {e. \<exists>f. (f, e) \<in> set entries \<and> topic_selects (filter_levels f) resource}"
        using topics.visit_each [OF assms(1-4) ne] by (elim exE conjE) (intro exI conjI)
      then show ?thesis
        using topic unfolding visit filter_selected_def by (intro disjI2) simp
    next
      case flt: True
      then have visit: "leaf_visit un leaf resource kind validated =
          flowie_topic_index_visit_validated_containing_filters (lf_topics leaf) (Span resource)"
        using walk by (auto simp: leaf_visit_def fun_eq_iff)
      let ?inner = "flowie_topic_filter_inner (Span resource)"
      show ?thesis
      proof (cases "span_null ?inner \<or> span_size ?inner = 0")
        case True
        have "topic_index_ok (lf_topics leaf)" using topics.ins_each [OF assms(1,3,4)] by simp
        then have "\<forall>(v :: 'c topic_visitor) ctx. leaf_visit un leaf resource kind validated v ctx = Inl SALTS_EINVAL"
          unfolding visit by (intro allI topics.containing_refused [OF _ ne True])
        then show ?thesis using True flt unfolding leaf_refused_def by auto
      next
        case False
        then obtain g where g: "?inner = Span g" "g \<noteq> []" by (cases ?inner) auto
        show ?thesis
          using flt topics.containing_each [OF assms(1-4) ne g]
          unfolding visit filter_selected_def by (intro disjI2) (simp add: g(1))
      qed
    qed
  qed (auto simp: leaf_visit_def leaf_refused_def)
qed

lemma evaluate_leaf_law:
  assumes "flowie_mqtt_security_compile_leaf un rules indices s = (Inr leaf, s')"
  shows "mqtt_refused un request \<and>
      (\<exists>e. \<forall>(emit :: 'c topic_visitor) flags. flowie_mqtt_security_evaluate_leaf un leaf request emit flags = Inl e) \<or>
    (\<exists>es. flowie_mqtt_security_evaluate_leaf un leaf request =
        (flowie_topic_entries_visit es :: 'c topic_visitor \<Rightarrow> 'c \<Rightarrow> salts_error + 'c) \<and>
          set es = {p. p < length indices \<and> mqtt_selects request (rules ! (indices ! p))})"
proof -
  obtain index where index: "topic_index_ok index" "topic_bucket index = topic_empty"
      "compile_candidates un rules 0 indices index = (Inr (lf_candidates leaf), lf_topics leaf)"
    by (rule compile_leaf_runs [OF assms])
  note spec = compile_candidates_spec [OF index(3)]
  have cands: "lf_candidates leaf = leaf_candidates rules indices" using spec by (simp add: leaf_candidates_def)
  have shapes: "\<forall>(f, e) \<in> set (leaf_entries rules indices). filter_shape f"
    using spec by (auto simp: leaf_entries_iff intro!: filter_validate_shape [of un])
  have inserted: "oeach (\<lambda>(f, e). flowie_topic_index_insert (Span f) e) (leaf_entries rules indices) index =
      (Inr (), lf_topics leaf)"
    using spec by (simp add: leaf_entries_def)
  show ?thesis
  proof (cases "rq_resource_type request = FLOWIE_SECURITY_RESOURCE_MQTT_TOPIC")
    case False
    then show ?thesis
      by (intro disjI2 exI [of _ "[]"]) (simp add: flowie_mqtt_security_evaluate_leaf_def mqtt_selects_def fun_eq_iff)
  next
    case True
    show ?thesis
    proof (cases "flowie_mqtt_security_resource request")
      case (Inl e)
      then show ?thesis using True by (simp add: flowie_mqtt_security_evaluate_leaf_def mqtt_refused_def)
    next
      case (Inr r)
      obtain resource kind validated where r: "r = (resource, kind, validated)" by (cases r)
      let ?selected = "{p. p < length indices \<and> filter_selected (pattern_filter (sr_pattern (rules ! (indices ! p)))) resource kind \<and>
        candidate_ok (sr_pattern (rules ! (indices ! p))) resource (rq_protocol_context request)}"
      have selected: "{p. p < length indices \<and> mqtt_selects request (rules ! (indices ! p))} = ?selected"
        using True Inr r by (simp add: mqtt_selects_def)
      have evaluate: "flowie_mqtt_security_evaluate_leaf un leaf request = (\<lambda>emit.
          leaf_visit un leaf resource kind validated
            (flowie_mqtt_security_emit_candidate leaf (rq_protocol_context request) resource emit))"
        using True Inr r by (simp add: flowie_mqtt_security_evaluate_leaf_def leaf_visit_def fun_eq_iff)
      have ne: "validated \<Longrightarrow> resource \<noteq> []" using Inr r by (simp add: security_resource_validated)
      let ?visit = "leaf_visit un leaf resource kind validated :: 'c topic_visitor \<Rightarrow> 'c \<Rightarrow> salts_error + 'c"
      have "leaf_refused un resource kind validated \<and> (\<exists>e. \<forall>visit ctx. ?visit visit ctx = Inl e) \<or> (\<exists>es. ?visit = flowie_topic_entries_visit es \<and>
          set es = {e. \<exists>f. (f, e) \<in> set (leaf_entries rules indices) \<and> filter_selected f resource kind})"
        by (rule leaf_visit_law [OF index(1,2) shapes inserted ne])
      then show ?thesis
      proof
        assume refused: "leaf_refused un resource kind validated \<and> (\<exists>e. \<forall>visit ctx. ?visit visit ctx = Inl e)"
        then have "mqtt_refused un request" using True Inr r by (simp add: mqtt_refused_def)
        then show ?thesis using refused unfolding evaluate by blast
      next
        assume "\<exists>es. ?visit = flowie_topic_entries_visit es \<and>
          set es = {e. \<exists>f. (f, e) \<in> set (leaf_entries rules indices) \<and> filter_selected f resource kind}"
        then obtain es where "?visit = flowie_topic_entries_visit es"
            "set es = {e. \<exists>f. (f, e) \<in> set (leaf_entries rules indices) \<and> filter_selected f resource kind}"
          by (elim exE conjE)
        from emit_reported [OF this cands] show ?thesis unfolding selected evaluate by (rule disjI2)
      qed
    qed
  qed
qed

text \<open>The MQTT matcher keeps the contract of the core.\<close>

interpretation mqtt: rule_matcher "flowie_mqtt_security_matcher_init un" "flowie_mqtt_security_compile_leaf un"
  "flowie_mqtt_security_evaluate_leaf un" mqtt_selects "mqtt_refused un" for un
  by unfold_locales (simp_all add: flowie_mqtt_security_matcher_init_def evaluate_leaf_law)

end
