(* ===== verification/Security_Policy.thy ===== *)
theory Security_Policy
  imports Security_Matcher
begin

text \<open>
  What a realm with the MQTT matcher decides: the rules of \<open>flowie_security.c\<close> over the topic
  patterns of \<open>flowie.c\<close>. The placeholders of a pattern stand for the identity of the client;
  \<open>expand_level\<close> is the filter level that a pattern level means for one client.
\<close>

section \<open>The rules that match a request\<close>

definition mqtt_rule_matches :: "flowie_mqtt_security_context flowie_security_request \<Rightarrow> flowie_security_rule \<Rightarrow> bool" where
  "mqtt_rule_matches request rule \<longleftrightarrow> rule_applies request rule \<and>
     (case sr_match_kind rule of
        FLOWIE_SECURITY_MATCH_EXACT \<Rightarrow> sr_pattern rule = rq_resource request
      | FLOWIE_SECURITY_MATCH_PREFIX \<Rightarrow> take (length (sr_pattern rule)) (rq_resource request) = sr_pattern rule
      | FLOWIE_SECURITY_MATCH_ADAPTER \<Rightarrow> mqtt_selects request rule
      | security_match_other k \<Rightarrow> False)"

lemma mqtt_matches: "mqtt.matches = mqtt_rule_matches"
  by (intro ext) (simp add: mqtt.matches_def mqtt_rule_matches_def)

text \<open>A principal may use a realm: it belongs to the domain or to the system, has not expired
  and was issued for the policy in force.\<close>

definition principal_current :: "'ctx flowie_security_request \<Rightarrow> u64 \<Rightarrow> u64 \<Rightarrow> bool" where
  "principal_current request policy_version now \<longleftrightarrow>
     (rq_domain_id request = cstr (sp_domain_id (rq_principal request)) \<or>
        sp_scope (rq_principal request) = FLOWIE_SECURITY_SCOPE_SYSTEM) \<and>
     (sp_expires_at (rq_principal request) = 0 \<or> now < sp_expires_at (rq_principal request)) \<and>
     sp_policy_version (rq_principal request) = policy_version"

lemma realm_evaluate_effect:
  assumes "effects_known (rm_rules realm)"
    and "flowie_security_realm_evaluate alloc matcher realm request now s = (Inr decision, s')"
  shows "sd_effect decision = FLOWIE_SECURITY_ALLOW \<or> sd_effect decision = FLOWIE_SECURITY_DENY"
  using assms(2)
  by (auto simp: realm_rules_loop_effect [OF assms(1)] flowie_security_realm_evaluate_def
      FLOWIE_SECURITY_DECISION_INIT_def Let_def split: if_splits option.splits prod.splits sum.splits)

lemma authorize_runs:
  assumes "rm_authorization realm = None"
    and "flowie_security_realm_authorize alloc matcher realm request now s = ((rc, Some decision), s')"
  shows "flowie_security_realm_evaluate alloc matcher realm request now s = (Inr decision, s') \<and>
    rc = (if sd_effect decision = FLOWIE_SECURITY_DENY then Inl SALTS_EPERM else Inr ())"
  using assms
  by (auto simp: flowie_security_realm_authorize_def split: if_splits prod.splits sum.splits)

lemma authorize_iff:
  assumes create: "flowie_security_realm_create alloc (flowie_mqtt_security_matcher_init un) config s = (Inr realm, s1)"
    and known: "effects_known (rc_rules config)"
    and run: "flowie_security_realm_authorize alloc' (flowie_mqtt_security_matcher_init un) realm request now s2 =
      ((rc, Some decision), s3)"
  shows "rc = Inr () \<longleftrightarrow> principal_current request (rc_policy_version config) now \<and>
    (\<exists>rule \<in> set (rc_rules config). mqtt_rule_matches request rule) \<and>
    \<not> (\<exists>rule \<in> set (rc_rules config). mqtt_rule_matches request rule \<and> sr_effect rule = FLOWIE_SECURITY_DENY)"
proof -
  have realm: "mqtt.compiled un realm" "rm_rules realm = rc_rules config" "rm_policy_version realm = rc_policy_version config"
      "rm_authorization realm = None"
    using mqtt.create_compiled [OF create] by simp_all
  note eval = authorize_runs [OF realm(4) run]
  have known': "effects_known (rm_rules realm)" using known realm(2) by simp
  have "rc = Inr () \<longleftrightarrow> sd_effect decision = FLOWIE_SECURITY_ALLOW"
    using realm_evaluate_effect [OF known' conjunct1 [OF eval]] eval by auto
  also have "\<dots> \<longleftrightarrow> principal_current request (rc_policy_version config) now \<and>
      (\<exists>rule \<in> set (rc_rules config). mqtt_rule_matches request rule) \<and>
      \<not> (\<exists>rule \<in> set (rc_rules config). mqtt_rule_matches request rule \<and> sr_effect rule = FLOWIE_SECURITY_DENY)"
    using mqtt.evaluate_decision [OF realm(1) known' conjunct1 [OF eval]]
    unfolding mqtt_matches principal_current_def realm(2,3) by blast
  finally show ?thesis .
qed

lemma authorize_total:
  assumes create: "flowie_security_realm_create alloc (flowie_mqtt_security_matcher_init un) config s = (Inr realm, s1)"
    and "flowie_security_principal_valid (rq_principal request)" "\<not> mqtt_refused un request" "alloc' s2 = (Inr u, s3)"
  shows "\<exists>rc decision s4. flowie_security_realm_authorize alloc' (flowie_mqtt_security_matcher_init un) realm request now s2 =
    ((rc, Some decision), s4) \<and> rc \<in> {Inr (), Inl SALTS_EPERM}"
proof -
  have realm: "mqtt.compiled un realm" "rm_authorization realm = None" using mqtt.create_compiled [OF create] by simp_all
  obtain decision s4 where "flowie_security_realm_evaluate alloc' (flowie_mqtt_security_matcher_init un) realm request now s2 =
      (Inr decision, s4)"
    using mqtt.evaluate_total [where alloc = alloc' and s = s2, OF realm(1) assms(2-4)] by blast
  then show ?thesis using assms(2) realm(2) by (simp add: flowie_security_realm_authorize_def)
qed

section \<open>Placeholders\<close>

lemma role_client_id_split:
  "flowie_mqtt_security_role_client_id client_id role = Some base \<longleftrightarrow>
     client_id = Span (base @ ch_dash # role) \<and> base \<noteq> [] \<and> role \<noteq> [] \<and>
     flowie_mqtt_security_identity_segment_valid client_id"
proof (cases client_id)
  case (Span bs)
  have "bs = base @ ch_dash # role"
    if "length role + 1 < length bs" "bs ! (length bs - length role - 1) = ch_dash"
      "drop (length bs - length role) bs = role" "take (length bs - length role - 1) bs = base"
  proof -
    have "bs = take (length bs - length role - 1) bs @ bs ! (length bs - length role - 1) #
        drop (Suc (length bs - length role - 1)) bs"
      by (rule id_take_nth_drop) (use that(1) in simp)
    moreover have "Suc (length bs - length role - 1) = length bs - length role" using that(1) by simp
    ultimately show ?thesis using that(2-) by simp
  qed
  then show ?thesis
    by (auto simp: Span flowie_mqtt_security_role_client_id_def flowie_mqtt_security_identity_segment_valid_def
        Let_def nth_append split: if_splits)
qed (simp add: flowie_mqtt_security_role_client_id_def flowie_mqtt_security_identity_segment_valid_def)

text \<open>The filter level that a pattern level means for a client, if its identity has one.\<close>

definition expand_level :: "flowie_mqtt_security_context \<Rightarrow> bytes \<Rightarrow> bytes option" where
  "expand_level context level =
     (if level = [ch_percent, 0x75] \<or> level = [ch_percent, 0x63]
      then let identity = (if level = [ch_percent, 0x75] then sc_username context else sc_client_id context)
           in if flowie_mqtt_security_identity_segment_valid identity then Some (span_bytes identity) else None
      else if placeholder_level level then flowie_mqtt_security_role_client_id (sc_client_id context) (tl level)
      else Some level)"

definition expand_pattern :: "flowie_mqtt_security_context \<Rightarrow> bytes \<Rightarrow> bytes list option" where
  "expand_pattern context pattern = those (map (expand_level context) (filter_levels pattern))"

lemma placeholder_segment_expand:
  "placeholder_level level \<Longrightarrow> placeholder_segment_ok context level segment \<longleftrightarrow> expand_level context level = Some segment"
  by (auto simp: placeholder_segment_ok_def expand_level_def Let_def split: option.splits)

lemma expand_plain: "\<not> placeholder_level level \<Longrightarrow> expand_level context level = Some level"
  by (auto simp: expand_level_def placeholder_level_def)

lemma placeholder_segment_plain: "\<not> placeholder_level level \<Longrightarrow> placeholder_segment_ok context level segment"
  by (auto simp: placeholder_segment_ok_def placeholder_level_def)

lemma expand_placeholder_chars:
  assumes "placeholder_level level" "expand_level context level = Some l"
  shows "l \<noteq> [] \<and> set l \<inter> {ch_slash, ch_plus, ch_hash} = {}"
proof -
  have "flowie_mqtt_security_identity_segment_valid (Span l)"
    using assms
    by (cases "sc_username context"; cases "sc_client_id context")
       (auto simp: expand_level_def role_client_id_split flowie_mqtt_security_identity_segment_valid_def Let_def
          split: if_splits)
  then show ?thesis by (auto simp: flowie_mqtt_security_identity_segment_valid_def list_all_iff)
qed

text \<open>Replacing placeholders by wildcards and checking the identity afterwards comes to
  replacing them by the identity, as long as the topic has a level for each level of the
  pattern.\<close>

lemma expand_matches:
  assumes "filter_levels_ok (map compile_level ps)" "length ps \<le> length ts"
  shows "levels_match (map compile_level ps) ts \<and> (\<forall>i < length ps. placeholder_segment_ok context (ps ! i) (ts ! i)) \<longleftrightarrow>
    (\<exists>fs. those (map (expand_level context) ps) = Some fs \<and> levels_match fs ts)"
  using assms
proof (induction ps arbitrary: ts)
  case (Cons p ps)
  obtain t ts' where ts: "ts = t # ts'" using Cons.prems(2) by (cases ts) auto
  have ok: "filter_levels_ok (map compile_level ps)" and len: "length ps \<le> length ts'"
    using Cons.prems by (simp_all add: ts filter_levels_ok_Cons)
  note IH = Cons.IH [OF ok len]
  show ?case
  proof (cases "p = [ch_hash]")
    case True
    then have plain: "\<not> placeholder_level p" "compile_level p = [ch_hash]"
      by (simp_all add: placeholder_level_def compile_level_def)
    then have "ps = []" using Cons.prems(1) True by (simp add: filter_levels_ok_Cons)
    then show ?thesis
      using True plain by (simp add: ts levels_match_hash expand_plain placeholder_segment_plain)
  next
    case False
    show ?thesis
    proof (cases "placeholder_level p")
      case True
      have level: "levels_match (l # fs) (t # ts') \<longleftrightarrow> l = t \<and> levels_match fs ts'"
        if "expand_level context p = Some l" for l fs
        using expand_placeholder_chars [OF True that] by (subst levels_match_Cons) (auto simp: level_ok_def)
      have wild: "levels_match ([ch_plus] # fs) (t # ts') \<longleftrightarrow> levels_match fs ts'" for fs
        by (subst levels_match_Cons) (auto simp: level_ok_def)
      have "(\<exists>fs. those (map (expand_level context) (p # ps)) = Some fs \<and> levels_match fs (t # ts')) \<longleftrightarrow>
          expand_level context p = Some t \<and> (\<exists>fs. those (map (expand_level context) ps) = Some fs \<and> levels_match fs ts')"
        using level by (cases "expand_level context p") auto
      then show ?thesis
        using IH True
        by (auto simp: ts All_less_Suc2 compile_level_def wild placeholder_segment_expand [OF True])
    next
      case plain: False
      then have "compile_level p = p" by (simp add: compile_level_def)
      then show ?thesis
        using IH False
        by (auto simp: ts All_less_Suc2 levels_match_Cons expand_plain [OF plain] placeholder_segment_plain [OF plain])
    qed
  qed
qed simp

lemma split_levels_slash: "split_levels (a @ ch_slash # b) = split_levels a @ split_levels b"
proof (induction a)
  case (Cons c a)
  obtain l ls where "split_levels a = l # ls" by (cases "split_levels a") auto
  then show ?case using Cons by simp
qed simp

lemma filter_levels_subset: "set (filter_levels f) \<subseteq> set (split_levels f)"
proof (cases "flowie_mqtt_shared_filter f")
  case (Some e)
  then consider "e = f" | a where "f = a @ ch_slash # e"
    by (auto simp: flowie_mqtt_shared_filter_def share_group_scan_Some Let_def neq_Nil_conv split: if_splits option.splits)
       (metis append_assoc append_take_drop_id)+
  then show ?thesis by cases (use Some in \<open>auto simp: filter_levels_def split_levels_slash\<close>)
qed (simp add: filter_levels_def)

definition share_level :: bytes where
  "share_level = [0x24, 0x73, 0x68, 0x61, 0x72, 0x65]"

lemma unshared_levels:
  assumes "hd (split_levels f) \<noteq> share_level"
  shows "filter_levels f = split_levels f"
proof -
  have "take 7 f \<noteq> share_prefix"
  proof
    assume "take 7 f = share_prefix"
    then have "f = share_prefix @ drop 7 f" by (metis append_take_drop_id)
    then have f: "f = share_level @ ch_slash # drop 7 f" by (simp add: share_prefix_def share_level_def)
    have "ch_slash \<notin> set share_level" by (simp add: share_level_def)
    from split_levels_append [OF this] have "hd (split_levels f) = share_level" by (subst f) simp
    then show False using assms by simp
  qed
  moreover have "length share_prefix = 7" by (simp add: share_prefix_def)
  ultimately show ?thesis by (simp add: filter_levels_def flowie_mqtt_shared_filter_def)
qed

lemma pattern_levels:
  assumes "hd (split_levels pattern) \<noteq> share_level"
  shows "filter_levels (pattern_filter pattern) = map compile_level (split_levels pattern)"
proof -
  have "hd (split_levels (pattern_filter pattern)) = compile_level (hd (split_levels pattern))"
    by (simp add: compiled_levels hd_map)
  then have "hd (split_levels (pattern_filter pattern)) \<noteq> share_level"
    using assms by (auto simp: compile_level_def share_level_def)
  then show ?thesis using unshared_levels compiled_levels by simp
qed

lemma placeholders_match_iff:
  "sc_identity context \<Longrightarrow> flowie_mqtt_security_placeholders_match pattern resource (Some context) \<longleftrightarrow>
     length (split_levels pattern) \<le> length (split_levels resource) \<and>
     (\<forall>i < length (split_levels pattern).
        placeholder_segment_ok context (split_levels pattern ! i) (split_levels resource ! i))"
  by (simp add: flowie_mqtt_security_placeholders_match_def placeholders_loop_levels)

text \<open>The topics that a pattern gives to a client; a share group in front of a pattern is no level.\<close>

definition pattern_grants :: "flowie_mqtt_security_context \<Rightarrow> bytes \<Rightarrow> bytes \<Rightarrow> bool" where
  "pattern_grants context pattern topic \<longleftrightarrow>
     (\<exists>fs. expand_pattern context pattern = Some fs \<and> topic_selects fs topic) \<and>
     (list_ex placeholder_level (split_levels pattern) \<longrightarrow>
        length (split_levels pattern) \<le> length (split_levels topic) \<and>
        \<not> (hd topic = ch_dollar \<and> placeholder_level (hd (split_levels pattern))))"

lemma those_plain: "\<not> list_ex placeholder_level ps \<Longrightarrow> those (map (expand_level context) ps) = Some ps"
  by (induction ps) (auto simp: expand_plain)

lemma compile_plain: "\<not> list_ex placeholder_level ps \<Longrightarrow> map compile_level ps = ps"
  by (induction ps) (auto simp: compile_level_def)

lemma those_hd: "those (map f ps) = Some fs \<Longrightarrow> ps \<noteq> [] \<Longrightarrow> fs \<noteq> [] \<and> f (hd ps) = Some (hd fs)"
  by (cases ps) (auto split: option.splits)

lemma pattern_filter_plain:
  "\<not> list_ex placeholder_level (split_levels pattern) \<Longrightarrow> pattern_filter pattern = pattern"
  using compiled_levels [of pattern] join_split [of pattern] join_split [of "pattern_filter pattern"]
  by (simp add: compile_plain)

lemma pattern_grants_iff:
  assumes shared: "list_ex placeholder_level (split_levels pattern) \<Longrightarrow> hd (split_levels pattern) \<noteq> share_level"
    and "filter_levels_ok (filter_levels (pattern_filter pattern))"
    and "sc_identity context"
  shows "topic_selects (filter_levels (pattern_filter pattern)) topic \<and> candidate_ok pattern topic (Some context) \<longleftrightarrow>
    pattern_grants context pattern topic"
proof (cases "list_ex placeholder_level (split_levels pattern)")
  case False
  then have "\<not> list_ex placeholder_level (filter_levels pattern)"
    using filter_levels_subset [of pattern] by (auto simp: list_ex_iff)
  then show ?thesis
    using False by (simp add: pattern_filter_plain candidate_ok_def pattern_grants_def expand_pattern_def those_plain)
next
  case True
  note unshared = shared [OF True]
  let ?ps = "split_levels pattern"
  let ?ts = "split_levels topic"
  have ok: "filter_levels_ok (map compile_level ?ps)" using unshared assms(2) by (simp add: pattern_levels)
  have first: "wildcard_first (map compile_level ?ps) \<longleftrightarrow> placeholder_level (hd ?ps) \<or> wildcard_first fs"
    if "those (map (expand_level context) ?ps) = Some fs" for fs
  proof -
    have fs: "fs \<noteq> []" "expand_level context (hd ?ps) = Some (hd fs)" using those_hd [OF that] by simp_all
    show ?thesis
    proof (cases "placeholder_level (hd ?ps)")
      case True
      then show ?thesis by (simp add: wildcard_first_def hd_map compile_level_def)
    next
      case False
      then show ?thesis using fs by (simp add: wildcard_first_def hd_map compile_level_def expand_plain)
    qed
  qed
  show ?thesis
  proof (cases "length ?ps \<le> length ?ts")
    case False
    then show ?thesis using True assms(3) by (simp add: candidate_ok_def pattern_grants_def placeholders_match_iff)
  next
    case len: True
    show ?thesis
      using expand_matches [OF ok len, of "context"] first True len
      by (auto simp: pattern_levels [OF unshared] unshared_levels [OF unshared] candidate_ok_def pattern_grants_def
          expand_pattern_def topic_selects_def placeholders_match_iff [OF assms(3)])
  qed
qed

section \<open>A realm with one rule\<close>

lemma blank_alloc: "topic_alloc blank_index = (Inr (), blank_index)"
  by (simp add: topic_alloc_def topic_attempt_def blank_index_def)

lemma compile_single:
  assumes "sr_match_kind rule = FLOWIE_SECURITY_MATCH_ADAPTER" "sr_resource_type rule = FLOWIE_SECURITY_RESOURCE_MQTT_TOPIC"
    and "sr_pattern rule \<noteq> []" "length (sr_pattern rule) \<le> FLOWIE_SECURITY_PATTERN_MAX"
    and valid: "flowie_mqtt_topic_filter_validate un (Span (pattern_filter (sr_pattern rule)))"
  obtains leaf s where "flowie_mqtt_security_compile_leaf un [rule] [0] blank_index = (Inr leaf, s)"
proof -
  let ?f = "pattern_filter (sr_pattern rule)"
  obtain b index where run: "flowie_topic_index_insert_bound (Span ?f) 0 fresh_index = (Inr b, index)"
    by (rule insert_fresh [OF filter_validate_shape [OF valid] filter_validate_levels [OF valid]])
  have fresh: "topic_alloc fresh_index = (Inr (), fresh_index)"
    by (simp add: topic_alloc_def topic_attempt_def fresh_index(4))
  have "flowie_mqtt_security_filter_compile (sr_pattern rule) (Suc FLOWIE_SECURITY_PATTERN_MAX) =
      Inr (?f, list_ex placeholder_level (split_levels (sr_pattern rule)))"
    using filter_compile_result [OF assms(3)] pattern_filter_length [of "sr_pattern rule"] assms(4) by simp
  then have "compile_candidates un [rule] 0 [0] fresh_index =
      (Inr [\<lparr>cd_pattern = sr_pattern rule,
             cd_uses_placeholders = list_ex placeholder_level (split_levels (sr_pattern rule))\<rparr>], index)"
    using assms run by (simp add: flowie_topic_index_insert_def obind_def)
  then show thesis
    using that by (simp add: flowie_mqtt_security_compile_leaf_def obind_def blank_alloc fresh fresh_index(1))
qed

definition sample_rule :: "bytes \<Rightarrow> flowie_security_rule" where
  "sample_rule pattern = \<lparr>sr_effect = FLOWIE_SECURITY_ALLOW, sr_subject_kind = FLOWIE_SECURITY_SUBJECT_ANY,
     sr_subject = [], sr_domain_id = [0x64], sr_action_mask = 2, sr_resource_type = FLOWIE_SECURITY_RESOURCE_MQTT_TOPIC,
     sr_match_kind = FLOWIE_SECURITY_MATCH_ADAPTER, sr_pattern = pattern\<rparr>"

definition sample_principal :: flowie_security_principal where
  "sample_principal = \<lparr>sp_principal_id = [0x70, 0], sp_principal_type = [0x74, 0], sp_domain_id = [0x64, 0],
     sp_auth_method = [0x6d, 0], sp_scope = FLOWIE_SECURITY_SCOPE_DOMAIN, sp_role_count = 0, sp_roles = [],
     sp_group_count = 0, sp_groups = [], sp_expires_at = 0, sp_policy_version = 1\<rparr>"

definition sample_request ::
    "bytes \<Rightarrow> bytes \<Rightarrow> flowie_mqtt_security_resource_kind \<Rightarrow> flowie_mqtt_security_context flowie_security_request" where
  "sample_request username resource kind = \<lparr>rq_principal = sample_principal, rq_domain_id = [0x64], rq_action = 2,
     rq_resource_type = FLOWIE_SECURITY_RESOURCE_MQTT_TOPIC, rq_resource = resource,
     rq_protocol_context = Some \<lparr>sc_kind = kind, sc_identity = True, sc_username = Span username,
       sc_client_id = Span [0x63], sc_validated = None\<rparr>\<rparr>"

definition sample_config :: "bytes \<Rightarrow> flowie_security_realm_config" where
  "sample_config pattern = \<lparr>rc_policy_version = 1, rc_rules = [sample_rule pattern], rc_policy_source = None\<rparr>"

text \<open>What the realm of one sample rule answers to a sample request.\<close>

definition sample_answer ::
    "(flowie_mqtt_security_context, flowie_mqtt_security_leaf) flowie_security_realm \<Rightarrow>
       flowie_mqtt_security_context flowie_security_request \<Rightarrow> salts_error + unit" where
  "sample_answer realm request = fst (fst (flowie_security_realm_authorize topic_alloc
     (flowie_mqtt_security_matcher_init rfc3629_next) realm request 0 blank_index))"

lemmas sample_defs = sample_config_def sample_rule_def sample_principal_def sample_request_def

lemma sample_filters:
  "flowie_mqtt_topic_filter_validate rfc3629_next (Span [ch_plus])"
  "flowie_mqtt_topic_filter_validate rfc3629_next (Span [0x72, ch_slash, ch_plus])"
proof -
  have "utf8_loop rfc3629_next [ch_plus]" "utf8_loop rfc3629_next [0x72, ch_slash, ch_plus]" by code_simp+
  then show "flowie_mqtt_topic_filter_validate rfc3629_next (Span [ch_plus])"
      "flowie_mqtt_topic_filter_validate rfc3629_next (Span [0x72, ch_slash, ch_plus])"
    by (simp_all add: flowie_mqtt_topic_filter_validate_def flowie_mqtt_utf8_validate_def
        flowie_mqtt_shared_filter_def share_prefix_def)
qed

lemma sample_realm:
  fixes pattern :: bytes
  assumes "flowie_mqtt_security_compile_leaf un [sample_rule pattern] [0] blank_index = (Inr leaf, s)"
  obtains realm where "flowie_security_realm_create topic_alloc (flowie_mqtt_security_matcher_init un)
      (sample_config pattern) blank_index = (Inr realm, s)"
proof -
  have "adapter_rule_indices [sample_rule pattern] = [0]" by (simp add: adapter_rule_indices_def sample_rule_def)
  then show thesis
    using that assms
    by (simp add: flowie_security_realm_create_def realm_compile_def blank_alloc obind_def
        flowie_mqtt_security_matcher_init_def FLOWIE_SECURITY_MAX_RULES_def sample_config_def)
qed

text \<open>A realm with one sample rule lets a sample request pass exactly when the rule selects
  it.\<close>

lemma sample_authorize:
  fixes pattern :: bytes
  assumes "pattern \<noteq> []" "length pattern \<le> FLOWIE_SECURITY_PATTERN_MAX"
    and "flowie_mqtt_topic_filter_validate rfc3629_next (Span (pattern_filter pattern))"
  shows "\<exists>realm s. flowie_security_realm_create topic_alloc (flowie_mqtt_security_matcher_init rfc3629_next)
      (sample_config pattern) blank_index = (Inr realm, s) \<and>
    (\<forall>username resource kind. \<not> mqtt_refused rfc3629_next (sample_request username resource kind) \<longrightarrow>
       sample_answer realm (sample_request username resource kind) =
         (if mqtt_selects (sample_request username resource kind) (sample_rule pattern) then Inr () else Inl SALTS_EPERM) \<and>
       (\<exists>rc decision s'. flowie_security_realm_authorize topic_alloc (flowie_mqtt_security_matcher_init rfc3629_next) realm
         (sample_request username resource kind) 0 blank_index = ((rc, Some decision), s')))"
proof -
  obtain leaf s where "flowie_mqtt_security_compile_leaf rfc3629_next [sample_rule pattern] [0] blank_index = (Inr leaf, s)"
    by (rule compile_single [of "sample_rule pattern" rfc3629_next]) (use assms in \<open>simp_all add: sample_rule_def\<close>)
  then obtain realm where create: "flowie_security_realm_create topic_alloc (flowie_mqtt_security_matcher_init rfc3629_next)
      (sample_config pattern) blank_index = (Inr realm, s)"
    by (rule sample_realm)
  have known: "effects_known (rc_rules (sample_config pattern))" by (simp add: effects_known_def sample_defs)
  have valid: "flowie_security_principal_valid (rq_principal (sample_request username resource kind))" for username resource kind
    by (simp add: flowie_security_principal_valid_def sample_defs cstr_def)
  have "sample_answer realm (sample_request username resource kind) =
         (if mqtt_selects (sample_request username resource kind) (sample_rule pattern) then Inr () else Inl SALTS_EPERM) \<and>
       (\<exists>rc decision s'. flowie_security_realm_authorize topic_alloc (flowie_mqtt_security_matcher_init rfc3629_next) realm
         (sample_request username resource kind) 0 blank_index = ((rc, Some decision), s'))"
    if r: "\<not> mqtt_refused rfc3629_next (sample_request username resource kind)" for username resource kind
  proof -
    obtain rc decision s' where run: "flowie_security_realm_authorize topic_alloc (flowie_mqtt_security_matcher_init rfc3629_next)
         realm (sample_request username resource kind) 0 blank_index = ((rc, Some decision), s')" "rc \<in> {Inr (), Inl SALTS_EPERM}"
      using authorize_total [where alloc' = topic_alloc and ?s2.0 = blank_index, OF create valid r blank_alloc] by blast
    have "rc = Inr () \<longleftrightarrow> mqtt_selects (sample_request username resource kind) (sample_rule pattern)"
      using authorize_iff [OF create known run(1)]
      by (simp add: principal_current_def mqtt_rule_matches_def rule_applies_def flowie_security_subject_matches_def
          sample_defs cstr_def)
    then show ?thesis using run by (auto simp: sample_answer_def)
  qed
  then show ?thesis using create by blast
qed

section \<open>Properties\<close>

text \<open>C21: authorization of MQTT requests, end to end. A realm built from a rule set with the
  MQTT matcher lets a request pass exactly when the principal is current for the realm, some
  rule matches the request, and no rule that denies matches it, whatever the order of the
  rules. A rule matches by domain, action, resource type and subject, and by its exact
  resource, its prefix, or its topic pattern.\<close>

theorem mqtt_authorize_decision:
  assumes "flowie_security_realm_create alloc (flowie_mqtt_security_matcher_init un) config s = (Inr realm, s1)"
    and "effects_known (rc_rules config)"
    and "flowie_security_realm_authorize alloc' (flowie_mqtt_security_matcher_init un) realm request now s2 =
      ((rc, Some decision), s3)"
  shows "rc = Inr () \<longleftrightarrow> principal_current request (rc_policy_version config) now \<and>
    (\<exists>rule \<in> set (rc_rules config). mqtt_rule_matches request rule) \<and>
    \<not> (\<exists>rule \<in> set (rc_rules config). mqtt_rule_matches request rule \<and> sr_effect rule = FLOWIE_SECURITY_DENY)"
  by (rule authorize_iff [OF assms])

lemma sample_levels [simp]:
  "placeholder_level [0x25, 0x75]" "\<not> placeholder_level [c]"
  by (simp_all add: placeholder_level_def ch_percent_def)

lemma sample_pattern:
  "pattern_filter [0x25, 0x75] = [ch_plus]"
  "pattern_filter [0x72, ch_slash, 0x25, 0x75] = [0x72, ch_slash, ch_plus]"
  by (simp_all add: pattern_filter_def compile_level_def ch_percent_def placeholder_level_def)

lemma sample_topic_request:
  "\<not> mqtt_refused rfc3629_next (sample_request username [0x61] FLOWIE_MQTT_SECURITY_TOPIC)"
  using sample_topic_ok(2)
  by (simp add: mqtt_refused_def flowie_mqtt_security_resource_def leaf_refused_def sample_request_def)

lemma sample_topic_selects:
  "mqtt_selects (sample_request username [0x61] FLOWIE_MQTT_SECURITY_TOPIC) (sample_rule [0x25, 0x75]) \<longleftrightarrow>
     username = [0x61]"
  by (auto simp: mqtt_selects_def flowie_mqtt_security_resource_def filter_selected_def sample_defs sample_pattern
      filter_shape_literals topic_selects_def levels_match_def level_ok_def candidate_ok_def placeholders_match_iff
      placeholder_segment_ok_def flowie_mqtt_security_identity_segment_valid_def ch_percent_def Let_def
      filter_levels_def flowie_mqtt_shared_filter_def share_prefix_def)

theorem mqtt_authorize_decision_witness:
  "\<exists>realm s. flowie_security_realm_create topic_alloc (flowie_mqtt_security_matcher_init rfc3629_next)
      (sample_config [0x25, 0x75]) blank_index = (Inr realm, s) \<and>
     sample_answer realm (sample_request [0x61] [0x61] FLOWIE_MQTT_SECURITY_TOPIC) = Inr () \<and>
     mqtt_rule_matches (sample_request [0x61] [0x61] FLOWIE_MQTT_SECURITY_TOPIC) (sample_rule [0x25, 0x75])"
proof -
  let ?request = "sample_request [0x61] [0x61] FLOWIE_MQTT_SECURITY_TOPIC"
  obtain realm s rc decision s' where
      create: "flowie_security_realm_create topic_alloc (flowie_mqtt_security_matcher_init rfc3629_next)
        (sample_config [0x25, 0x75]) blank_index = (Inr realm, s)"
      and answer: "sample_answer realm ?request = Inr ()"
      and run: "flowie_security_realm_authorize topic_alloc (flowie_mqtt_security_matcher_init rfc3629_next)
        realm ?request 0 blank_index = ((rc, Some decision), s')"
    using sample_authorize [of "[0x25, 0x75]"] sample_filters(1) sample_topic_request [of "[0x61]"]
      sample_topic_selects [of "[0x61]"]
    by (fastforce simp: sample_pattern FLOWIE_SECURITY_PATTERN_MAX_def)
  have known: "effects_known (rc_rules (sample_config [0x25, 0x75]))" by (simp add: effects_known_def sample_defs)
  have "rc = Inr ()" using answer run by (simp add: sample_answer_def)
  then have "mqtt_rule_matches ?request (sample_rule [0x25, 0x75])"
    using mqtt_authorize_decision [OF create known run] by (simp add: sample_config_def)
  then show ?thesis using create answer by blast
qed

text \<open>C23: authorization always answers. When the principal is well formed, memory is
  available and the topic or filter is one that the matcher accepts, the call writes a
  decision and returns either success or permission denied, never another error.\<close>

theorem mqtt_authorize_answers:
  assumes "flowie_security_realm_create alloc (flowie_mqtt_security_matcher_init un) config s = (Inr realm, s1)"
    and "flowie_security_principal_valid (rq_principal request)" "\<not> mqtt_refused un request" "alloc' s2 = (Inr u, s3)"
  shows "\<exists>rc decision s4. flowie_security_realm_authorize alloc' (flowie_mqtt_security_matcher_init un) realm request now s2 =
    ((rc, Some decision), s4) \<and> rc \<in> {Inr (), Inl SALTS_EPERM}"
  by (rule authorize_total [OF assms(1-3), of alloc' s2 u s3, OF assms(4)])

theorem mqtt_authorize_answers_witness:
  "\<exists>realm s. flowie_security_realm_create topic_alloc (flowie_mqtt_security_matcher_init rfc3629_next)
      (sample_config [0x25, 0x75]) blank_index = (Inr realm, s) \<and>
     sample_answer realm (sample_request [0x62] [0x61] FLOWIE_MQTT_SECURITY_TOPIC) = Inl SALTS_EPERM \<and>
     (\<exists>rc decision s4. flowie_security_realm_authorize topic_alloc (flowie_mqtt_security_matcher_init rfc3629_next) realm
        (sample_request [0x62] [0x61] FLOWIE_MQTT_SECURITY_TOPIC) 0 blank_index = ((rc, Some decision), s4))"
proof -
  let ?request = "sample_request [0x62] [0x61] FLOWIE_MQTT_SECURITY_TOPIC"
  obtain realm s where create: "flowie_security_realm_create topic_alloc (flowie_mqtt_security_matcher_init rfc3629_next)
        (sample_config [0x25, 0x75]) blank_index = (Inr realm, s)"
      and answer: "sample_answer realm ?request = Inl SALTS_EPERM"
    using sample_authorize [of "[0x25, 0x75]"] sample_filters(1) sample_topic_request [of "[0x62]"]
      sample_topic_selects [of "[0x62]"]
    by (fastforce simp: sample_pattern FLOWIE_SECURITY_PATTERN_MAX_def)
  have valid: "flowie_security_principal_valid (rq_principal ?request)"
    by (simp add: flowie_security_principal_valid_def sample_defs cstr_def)
  show ?thesis
    using mqtt_authorize_answers [where alloc' = topic_alloc and ?s2.0 = blank_index and now = 0,
        OF create valid sample_topic_request blank_alloc] create answer by blast
qed

text \<open>C22: what a topic pattern gives to a client that presents its identity. A compiled rule set reports a
  rule for a topic exactly when the pattern, without a share group and with its placeholders replaced
  by the user name, the client identifier or its base, is defined for the client and selects the topic;
  the topic may come from a plain context, where the matcher validates it, or from one that the protocol
  parser has validated. Two cases are narrower than the replaced filter: a pattern with placeholders
  needs a topic level for each of its own levels, also for a final multi-level wildcard, and a pattern
  that begins with a placeholder selects no topic that begins with a dollar sign. Patterns that have
  both a share group and placeholders are left out: there the placeholders are compared with the
  wrong levels.\<close>

theorem mqtt_leaf_topic_rules:
  assumes "flowie_mqtt_security_compile_leaf un rules indices s = (Inr leaf, s')"
    and "rq_resource_type request = FLOWIE_SECURITY_RESOURCE_MQTT_TOPIC"
    and "rq_protocol_context request = Some context" "sc_identity context"
    and "flowie_mqtt_security_resource request = Inr (topic, FLOWIE_MQTT_SECURITY_TOPIC, validated)"
    and "\<not> validated \<Longrightarrow> flowie_mqtt_topic_name_validate un (Span topic)"
    and "p < length indices" "sr_pattern (rules ! (indices ! p)) = pattern"
    and "list_ex placeholder_level (split_levels pattern) \<Longrightarrow> hd (split_levels pattern) \<noteq> share_level"
  shows "\<exists>es. flowie_mqtt_security_evaluate_leaf un leaf request collect_entry [] = Inr es \<and>
    (p \<in> set es \<longleftrightarrow> pattern_grants context pattern topic)"
proof -
  have accepted: "\<not> mqtt_refused un request" using assms(5,6) by (auto simp: mqtt_refused_def leaf_refused_def)
  obtain es where es: "flowie_mqtt_security_evaluate_leaf un leaf request = (flowie_topic_entries_visit es ::
      nat list topic_visitor \<Rightarrow> nat list \<Rightarrow> salts_error + nat list)"
      "set es = {p. p < length indices \<and> mqtt_selects request (rules ! (indices ! p))}"
    using evaluate_leaf_law [OF assms(1), of request, where 'c = "nat list"] accepted by blast
  obtain index index' candidates where "compile_candidates un rules 0 indices index = (Inr candidates, index')"
    using compile_leaf_runs [OF assms(1)] by metis
  then have "flowie_mqtt_topic_filter_validate un (Span (pattern_filter pattern))"
    using compile_candidates_spec assms(7,8) nth_mem by blast
  note grants = pattern_grants_iff [OF assms(9) filter_validate_levels [OF this] assms(4)]
  have "p \<in> set es \<longleftrightarrow> pattern_grants context pattern topic"
    using es(2) assms(2,3,5,7,8) by (simp add: mqtt_selects_def filter_selected_def grants)
  then show ?thesis by (simp add: es(1) collect_entries)
qed

text \<open>The first of the narrower cases: with the user name \<open>u\<close> the pattern \<open>a/%u/#\<close> does not give the topic
  \<open>a/u\<close>, which the replaced filter \<open>a/u/#\<close> selects.\<close>

lemma placeholder_hash_parent:
  assumes "sc_username context = Span [0x75]"
  shows "\<not> pattern_grants context [0x61, ch_slash, ch_percent, 0x75, ch_slash, ch_hash] [0x61, ch_slash, 0x75]"
    and "expand_pattern context [0x61, ch_slash, ch_percent, 0x75, ch_slash, ch_hash] = Some [[0x61], [0x75], [ch_hash]]"
    and "topic_selects [[0x61], [0x75], [ch_hash]] [0x61, ch_slash, 0x75]"
proof -
  have levels: "filter_levels [0x61, ch_slash, ch_percent, 0x75, ch_slash, ch_hash] = [[0x61], [ch_percent, 0x75], [ch_hash]]"
    by (subst unshared_levels) (simp_all add: share_level_def ch_percent_def)
  show "\<not> pattern_grants context [0x61, ch_slash, ch_percent, 0x75, ch_slash, ch_hash] [0x61, ch_slash, 0x75]"
    by (simp add: pattern_grants_def placeholder_level_def ch_percent_def)
  show "expand_pattern context [0x61, ch_slash, ch_percent, 0x75, ch_slash, ch_hash] = Some [[0x61], [0x75], [ch_hash]]"
    using assms by (simp add: expand_pattern_def levels) (simp add: expand_level_def ch_percent_def
        flowie_mqtt_security_identity_segment_valid_def)
  show "topic_selects [[0x61], [0x75], [ch_hash]] [0x61, ch_slash, 0x75]"
    by (simp add: topic_selects_def levels_match_def level_ok_def wildcard_first_def)
qed

lemma sample_grants:
  "pattern_grants (the (rq_protocol_context (sample_request [0x61] [0x61] FLOWIE_MQTT_SECURITY_TOPIC)))
     [0x25, 0x75] [0x61]"
  using unshared_levels [of "[0x25, 0x75]"]
  by (simp add: share_level_def pattern_grants_def expand_pattern_def expand_level_def sample_defs topic_selects_def levels_match_def
      level_ok_def wildcard_first_def flowie_mqtt_security_identity_segment_valid_def ch_percent_def)

theorem mqtt_leaf_topic_rules_witness:
  "\<exists>leaf s es. flowie_mqtt_security_compile_leaf rfc3629_next [sample_rule [0x25, 0x75]] [0] blank_index = (Inr leaf, s) \<and>
     flowie_mqtt_security_evaluate_leaf rfc3629_next leaf (sample_request [0x61] [0x61] FLOWIE_MQTT_SECURITY_TOPIC)
       collect_entry [] = Inr es \<and> 0 \<in> set es"
proof -
  let ?request = "sample_request [0x61] [0x61] FLOWIE_MQTT_SECURITY_TOPIC"
  obtain leaf s where compile: "flowie_mqtt_security_compile_leaf rfc3629_next [sample_rule [0x25, 0x75]] [0] blank_index =
      (Inr leaf, s)"
    by (rule compile_single [of "sample_rule [0x25, 0x75]" rfc3629_next])
       (use sample_filters(1) in \<open>simp_all add: sample_rule_def sample_pattern FLOWIE_SECURITY_PATTERN_MAX_def\<close>)
  obtain es where "flowie_mqtt_security_evaluate_leaf rfc3629_next leaf ?request collect_entry [] = Inr es"
      "0 \<in> set es \<longleftrightarrow> pattern_grants (the (rq_protocol_context ?request)) [0x25, 0x75] [0x61]"
    using mqtt_leaf_topic_rules [OF compile, of ?request "the (rq_protocol_context ?request)" "[0x61]" False 0 "[0x25, 0x75]"]
      sample_topic_ok(2)
    by (auto simp: sample_request_def sample_rule_def share_level_def flowie_mqtt_security_resource_def)
  then show ?thesis using compile sample_grants by blast
qed

text \<open>C24: compiling the pattern of a rule stays within its buffer. A non-empty pattern that fits
  the pattern field of a rule always compiles, the filter is no longer than the pattern, and
  it has the levels of the pattern with each placeholder replaced by a single-level
  wildcard; the flag tells whether there was one.\<close>

theorem mqtt_pattern_compile_bounds:
  assumes "pattern \<noteq> []" "length pattern \<le> FLOWIE_SECURITY_PATTERN_MAX"
  shows "\<exists>flt uses. flowie_mqtt_security_filter_compile pattern (FLOWIE_SECURITY_PATTERN_MAX + 1) = Inr (flt, uses) \<and>
    length flt \<le> length pattern \<and> split_levels flt = map compile_level (split_levels pattern) \<and>
    (uses \<longleftrightarrow> (\<exists>level \<in> set (split_levels pattern). placeholder_level level))"
  using assms filter_compile_result [OF assms(1), of "FLOWIE_SECURITY_PATTERN_MAX + 1"] pattern_filter_length [of pattern]
  by (simp add: compiled_levels list_ex_iff)

theorem mqtt_pattern_compile_bounds_witness:
  "\<exists>flt uses. flowie_mqtt_security_filter_compile [0x72, ch_slash, 0x25, 0x75] (FLOWIE_SECURITY_PATTERN_MAX + 1) =
     Inr (flt, uses) \<and> split_levels flt = [[0x72], [ch_plus]] \<and> uses"
  using mqtt_pattern_compile_bounds [of "[0x72, ch_slash, 0x25, 0x75]"]
  by (auto simp: FLOWIE_SECURITY_PATTERN_MAX_def compile_level_def)

lemma sample_share_filters:
  "flowie_mqtt_topic_filter_validate rfc3629_next (Span [0x72, ch_slash, 0x62])"
  "flowie_mqtt_topic_filter_validate rfc3629_next (Span (share_prefix @ [0x61, ch_slash, 0x72, ch_slash, 0x62]))"
  "flowie_mqtt_topic_filter_validate rfc3629_next (Span (share_prefix @ [0x67, ch_slash, 0x72, ch_slash, 0x61]))"
proof -
  have "utf8_loop rfc3629_next [0x72, ch_slash, 0x62]"
      "utf8_loop rfc3629_next (share_prefix @ [0x61, ch_slash, 0x72, ch_slash, 0x62])"
      "utf8_loop rfc3629_next (share_prefix @ [0x67, ch_slash, 0x72, ch_slash, 0x61])"
    by code_simp+
  then show "flowie_mqtt_topic_filter_validate rfc3629_next (Span [0x72, ch_slash, 0x62])"
      "flowie_mqtt_topic_filter_validate rfc3629_next (Span (share_prefix @ [0x61, ch_slash, 0x72, ch_slash, 0x62]))"
      "flowie_mqtt_topic_filter_validate rfc3629_next (Span (share_prefix @ [0x67, ch_slash, 0x72, ch_slash, 0x61]))"
    by (simp_all add: flowie_mqtt_topic_filter_validate_def flowie_mqtt_utf8_validate_def
        flowie_mqtt_shared_filter_def share_prefix_def)
qed

lemma sample_share_requests:
  "\<not> mqtt_refused rfc3629_next (sample_request u [0x72, ch_slash, 0x62] FLOWIE_MQTT_SECURITY_TOPIC_FILTER)"
  "\<not> mqtt_refused rfc3629_next
     (sample_request u (share_prefix @ [0x61, ch_slash, 0x72, ch_slash, 0x62]) FLOWIE_MQTT_SECURITY_TOPIC_FILTER)"
  "\<not> mqtt_refused rfc3629_next
     (sample_request u (share_prefix @ [0x67, ch_slash, 0x72, ch_slash, 0x61]) FLOWIE_MQTT_SECURITY_TOPIC_FILTER)"
  using sample_share_filters
  by (simp_all add: mqtt_refused_def flowie_mqtt_security_resource_def leaf_refused_def sample_request_def
      flowie_topic_filter_inner_def share_prefix_def Let_def)

lemmas sample_select_defs = mqtt_selects_def flowie_mqtt_security_resource_def filter_selected_def sample_defs sample_pattern
  filter_covers_def system_level_def wildcard_first_def level_ok_def candidate_ok_def placeholders_match_iff All_less_Suc2
  placeholder_segment_ok_def flowie_mqtt_security_identity_segment_valid_def ch_percent_def Let_def
  filter_levels_def flowie_mqtt_shared_filter_def share_prefix_def flowie_topic_filter_inner_def

lemma sample_share_selects:
  "\<not> mqtt_selects (sample_request [0x61] [0x72, ch_slash, 0x62] FLOWIE_MQTT_SECURITY_TOPIC_FILTER)
       (sample_rule [0x72, ch_slash, 0x25, 0x75])"
  "mqtt_selects (sample_request [0x61] (share_prefix @ [0x61, ch_slash, 0x72, ch_slash, 0x62]) FLOWIE_MQTT_SECURITY_TOPIC_FILTER)
       (sample_rule [0x72, ch_slash, 0x25, 0x75])"
  "\<not> mqtt_selects (sample_request [0x61] (share_prefix @ [0x67, ch_slash, 0x72, ch_slash, 0x61]) FLOWIE_MQTT_SECURITY_TOPIC_FILTER)
       (sample_rule [0x72, ch_slash, 0x25, 0x75])"
  by (simp_all add: sample_select_defs)

text \<open>C25: placeholders are not checked against the right levels of a shared filter. Under the
  single rule that allows the topics \<open>r/%u\<close>, the user \<open>a\<close> may not subscribe to \<open>r/b\<close>, but may
  subscribe to \<open>$share/a/r/b\<close>, which delivers the same topic: the identity is compared with
  the share group. In turn the filter \<open>$share/g/r/a\<close>, which asks only for the own topic, is
  denied.\<close>

theorem mqtt_shared_filter_bypass:
  "\<exists>realm s. flowie_security_realm_create topic_alloc (flowie_mqtt_security_matcher_init rfc3629_next)
      (sample_config [0x72, ch_slash, 0x25, 0x75]) blank_index = (Inr realm, s) \<and>
     sample_answer realm (sample_request [0x61] [0x72, ch_slash, 0x62] FLOWIE_MQTT_SECURITY_TOPIC_FILTER) = Inl SALTS_EPERM \<and>
     sample_answer realm (sample_request [0x61] (share_prefix @ [0x61, ch_slash, 0x72, ch_slash, 0x62])
       FLOWIE_MQTT_SECURITY_TOPIC_FILTER) = Inr () \<and>
     sample_answer realm (sample_request [0x61] (share_prefix @ [0x67, ch_slash, 0x72, ch_slash, 0x61])
       FLOWIE_MQTT_SECURITY_TOPIC_FILTER) = Inl SALTS_EPERM"
proof -
  have "flowie_mqtt_topic_filter_validate rfc3629_next (Span (pattern_filter [0x72, ch_slash, 0x25, 0x75]))"
    using sample_filters(2) by (simp add: sample_pattern)
  from sample_authorize [OF _ _ this] obtain realm s where
      create: "flowie_security_realm_create topic_alloc (flowie_mqtt_security_matcher_init rfc3629_next)
        (sample_config [0x72, ch_slash, 0x25, 0x75]) blank_index = (Inr realm, s)"
      and answer: "\<And>username resource kind. \<not> mqtt_refused rfc3629_next (sample_request username resource kind) \<Longrightarrow>
        sample_answer realm (sample_request username resource kind) =
          (if mqtt_selects (sample_request username resource kind) (sample_rule [0x72, ch_slash, 0x25, 0x75])
           then Inr () else Inl SALTS_EPERM)"
    unfolding FLOWIE_SECURITY_PATTERN_MAX_def by auto
  show ?thesis
    using create answer [OF sample_share_requests(1)] answer [OF sample_share_requests(2)]
      answer [OF sample_share_requests(3)] sample_share_selects
    by auto
qed

lemma text_validate_ok:
  "is_ok (flowie_security_principal_text_validate v capacity True) \<Longrightarrow> cstr v \<noteq> []"
  by (cases v; cases capacity) (auto simp: flowie_security_principal_text_validate_def cstr_def Let_def split: if_splits)

lemma groups_loop_distinct:
  "principal_groups_loop prior gs = Inr () \<Longrightarrow> distinct (map cstr prior) \<Longrightarrow> distinct (map cstr (prior @ gs)) \<and>
     (\<forall>g \<in> set gs. cstr g \<noteq> [])"
proof (induction prior gs rule: principal_groups_loop.induct)
  case (2 prior g gs)
  then show ?case by (auto simp: list_ex_iff text_validate_ok split: if_splits)
qed simp

text \<open>C26: the validator of provider results is strict enough for the authorization core. A
  principal that it accepts passes the check with which the core guards every request, its
  roles and groups are named, and no group occurs twice.\<close>

theorem principal_validate_sound:
  assumes "flowie_security_principal_validate pr = Inr ()"
  shows "flowie_security_principal_valid pr \<and>
    distinct (map cstr (take (unat (sp_group_count pr)) (sp_groups pr))) \<and>
    (\<forall>name \<in> set (take (unat (sp_role_count pr)) (sp_roles pr)) \<union> set (take (unat (sp_group_count pr)) (sp_groups pr)).
       cstr name \<noteq> [])"
proof -
  have "principal_groups_loop [] (take (unat (sp_group_count pr)) (sp_groups pr)) = Inr ()"
    using assms by (simp add: flowie_security_principal_validate_def split: if_splits)
  note groups = groups_loop_distinct [OF this]
  have "flowie_security_principal_valid pr"
    using assms text_validate_ok
    by (auto simp: flowie_security_principal_validate_def flowie_security_principal_valid_def split: if_splits
        flowie_security_scope.splits)
  moreover have "\<forall>name \<in> set (take (unat (sp_role_count pr)) (sp_roles pr)). cstr name \<noteq> []"
    using assms text_validate_ok by (auto simp: flowie_security_principal_validate_def list_all_iff split: if_splits)
  ultimately show ?thesis using groups by auto
qed

theorem principal_validate_sound_witness:
  "flowie_security_principal_validate sample_principal = Inr () \<and> flowie_security_principal_valid sample_principal"
proof -
  have "flowie_security_principal_validate sample_principal = Inr ()"
    by (simp add: flowie_security_principal_validate_def flowie_security_principal_text_validate_def sample_principal_def)
  then show ?thesis using principal_validate_sound by blast
qed

end
