(* ===== verification/Protocol_Contract.thy ===== *)
theory Protocol_Contract
  imports Salts_Support Mqtt_Types
begin

text \<open>
  The contract between the protocol owners of the broker and its applications
  (\<open>flowie/src/flowie_protocol_contract.c\<close>, \<open>flowie/include/flowie_protocol_contract.h\<close>), and
  the mapping of a parsed PUBLISH to a message of that contract (\<open>flowie/src/flowie.c\<close>):
  message metadata, routes, settlement points, and the selection and exchange helpers of the
  messaging patterns. Enumerations that the code compares as numbers are 32-bit words.
\<close>

section \<open>Messages\<close>

abbreviation (input) "FLOWIE_PROTOCOL_MQTT \<equiv> (1::u32)"
abbreviation (input) "FLOWIE_PROTOCOL_MESSAGE_DATA \<equiv> (1::u32)"
abbreviation (input) "FLOWIE_PROTOCOL_MESSAGE_ACK \<equiv> (3::u32)"
abbreviation (input) "FLOWIE_PROTOCOL_SETTLE_RECEIVED \<equiv> (1::u32)"
abbreviation (input) "FLOWIE_PROTOCOL_SETTLE_DURABLE \<equiv> (4::u32)"

record flowie_protocol_message =
  pm_protocol :: u32
  pm_protocol_version :: u32
  pm_kind :: u32
  pm_qos :: u32
  pm_packet_id :: u32
  pm_session_generation :: u64
  pm_duplicate :: u8
  pm_retain :: u8

record flowie_protocol_route =
  rt_protocol :: u32
  rt_owner_instance_id :: u64
  rt_session_id :: u64
  rt_session_generation :: u64

record flowie_protocol_origin =
  og_protocol :: u32
  og_protocol_version :: u32
  og_session_id :: u64

record flowie_protocol_settlement_policy =
  st_qos0 :: u32
  st_qos1 :: u32
  st_qos2 :: u32

record flowie_protocol_settlement_request =
  sq_message :: flowie_protocol_message
  sq_point :: u32
  sq_status :: "salts_error + unit"
  sq_message_id :: u64
  sq_attempt :: u32

record flowie_publish_message_view =
  mv_metadata :: flowie_protocol_message
  mv_route :: flowie_protocol_route
  mv_topic :: flowie_mqtt_span
  mv_properties :: flowie_mqtt_property_block_view
  mv_payload :: flowie_mqtt_span

definition flow_protocol_settlement_point_valid :: "u32 \<Rightarrow> bool" where
  "flow_protocol_settlement_point_valid point \<longleftrightarrow>
     point \<ge> FLOWIE_PROTOCOL_SETTLE_RECEIVED \<and> point \<le> FLOWIE_PROTOCOL_SETTLE_DURABLE"

definition flowie_protocol_message_validate :: "flowie_protocol_message \<Rightarrow> salts_error + unit" where
  "flowie_protocol_message_validate message =
     (if pm_protocol message \<noteq> FLOWIE_PROTOCOL_MQTT \<or> pm_protocol_version message = 0 \<or>
         pm_kind message < FLOWIE_PROTOCOL_MESSAGE_DATA \<or> pm_kind message > FLOWIE_PROTOCOL_MESSAGE_ACK \<or>
         pm_duplicate message > 1 \<or> pm_retain message > 1 \<or> pm_session_generation message = 0
      then Inl SALTS_EINVAL
      else if (pm_protocol_version message \<noteq> 3 \<and> pm_protocol_version message \<noteq> 4 \<and>
               pm_protocol_version message \<noteq> 5) \<or>
              pm_qos message > 2 \<or> (pm_qos message = 0 \<and> pm_packet_id message \<noteq> 0) \<or>
              (pm_qos message > 0 \<and> pm_packet_id message = 0)
      then Inl SALTS_EPROTO
      else Inr ())"

definition flowie_protocol_origin_validate :: "flowie_protocol_origin \<Rightarrow> salts_error + unit" where
  "flowie_protocol_origin_validate origin =
     (if og_protocol origin \<noteq> FLOWIE_PROTOCOL_MQTT \<or> og_protocol_version origin = 0 \<or> og_session_id origin = 0
      then Inl SALTS_EINVAL
      else if og_protocol_version origin \<noteq> 3 \<and> og_protocol_version origin \<noteq> 4 \<and> og_protocol_version origin \<noteq> 5
      then Inl SALTS_EPROTO
      else Inr ())"

definition flowie_protocol_settlement_policy_validate ::
    "flowie_protocol_settlement_policy \<Rightarrow> salts_error + unit" where
  "flowie_protocol_settlement_policy_validate policy =
     (if \<not> flow_protocol_settlement_point_valid (st_qos0 policy) \<or>
         \<not> flow_protocol_settlement_point_valid (st_qos1 policy) \<or>
         \<not> flow_protocol_settlement_point_valid (st_qos2 policy)
      then Inl SALTS_EINVAL else Inr ())"

text \<open>The settle function of the owner is an argument.\<close>

definition flowie_protocol_owner_settle ::
    "(flowie_protocol_settlement_request \<Rightarrow> salts_error + unit) \<Rightarrow> flowie_protocol_settlement_policy \<Rightarrow>
       flowie_protocol_settlement_request \<Rightarrow> salts_error + unit" where
  "flowie_protocol_owner_settle settle policy request =
     (if sq_attempt request = 0 \<or> \<not> flow_protocol_settlement_point_valid (sq_point request) then Inl SALTS_EINVAL
      else rbind (flowie_protocol_message_validate (sq_message request)) (\<lambda>_.
           rbind (flowie_protocol_settlement_policy_validate policy) (\<lambda>_.
             let required = (if pm_qos (sq_message request) = 0 then st_qos0 policy
                             else if pm_qos (sq_message request) = 1 then st_qos1 policy else st_qos2 policy)
             in if sq_point request \<noteq> required then Inl SALTS_EBUSY else settle request)))"

definition flowie_publish_message_map ::
    "flowie_mqtt_publish_view \<Rightarrow> flowie_mqtt_version \<Rightarrow> u64 \<Rightarrow> u64 \<Rightarrow> u64 \<Rightarrow>
       salts_error + flowie_publish_message_view" where
  "flowie_publish_message_map publish version owner_instance_id session_id session_generation =
     (if owner_instance_id = 0 \<or> session_id = 0 \<or> session_generation = 0 \<or>
         (span_null (pu_topic publish) \<and> span_size (pu_topic publish) \<noteq> 0) \<or>
         (span_null (pu_payload publish) \<and> span_size (pu_payload publish) \<noteq> 0) \<or>
         \<not> flowie_mqtt_version_is_supported version \<or> pu_qos publish > 2
      then Inl SALTS_EINVAL
      else let metadata = \<lparr>pm_protocol = FLOWIE_PROTOCOL_MQTT, pm_protocol_version = version,
                 pm_kind = FLOWIE_PROTOCOL_MESSAGE_DATA, pm_qos = ucast (pu_qos publish),
                 pm_packet_id = ucast (pu_packet_id publish), pm_session_generation = session_generation,
                 pm_duplicate = pu_duplicate publish, pm_retain = pu_retain publish\<rparr>
           in rbind (flowie_protocol_message_validate metadata) (\<lambda>_.
                Inr \<lparr>mv_metadata = metadata,
                     mv_route = \<lparr>rt_protocol = FLOWIE_PROTOCOL_MQTT, rt_owner_instance_id = owner_instance_id,
                                 rt_session_id = session_id, rt_session_generation = session_generation\<rparr>,
                     mv_topic = pu_topic publish, mv_properties = pu_properties publish,
                     mv_payload = pu_payload publish\<rparr>))"

section \<open>Patterns\<close>

datatype flowie_pattern_role =
    FLOWIE_PATTERN_PUBLISH | FLOWIE_PATTERN_SUBSCRIBE | FLOWIE_PATTERN_PUSH | FLOWIE_PATTERN_PULL
  | FLOWIE_PATTERN_ROUTE | FLOWIE_PATTERN_DEAL | FLOWIE_PATTERN_PAIR | FLOWIE_PATTERN_REQUEST
  | FLOWIE_PATTERN_REPLY | FLOWIE_PATTERN_EXTENDED_PUBLISH | FLOWIE_PATTERN_EXTENDED_SUBSCRIBE
  | pattern_role_other int

definition flowie_pattern_role_validate :: "flowie_pattern_role \<Rightarrow> salts_error + unit" where
  "flowie_pattern_role_validate role =
     (case role of pattern_role_other i \<Rightarrow> Inl SALTS_EINVAL | _ \<Rightarrow> Inr ())"

definition flowie_pattern_roles_compatible :: "flowie_pattern_role \<Rightarrow> flowie_pattern_role \<Rightarrow> bool" where
  "flowie_pattern_roles_compatible local remote \<longleftrightarrow>
     is_ok (flowie_pattern_role_validate local) \<and> is_ok (flowie_pattern_role_validate remote) \<and>
     (case local of
        FLOWIE_PATTERN_PUBLISH \<Rightarrow> remote = FLOWIE_PATTERN_SUBSCRIBE \<or> remote = FLOWIE_PATTERN_EXTENDED_SUBSCRIBE
      | FLOWIE_PATTERN_SUBSCRIBE \<Rightarrow> remote = FLOWIE_PATTERN_PUBLISH \<or> remote = FLOWIE_PATTERN_EXTENDED_PUBLISH
      | FLOWIE_PATTERN_PUSH \<Rightarrow> remote = FLOWIE_PATTERN_PULL
      | FLOWIE_PATTERN_PULL \<Rightarrow> remote = FLOWIE_PATTERN_PUSH
      | FLOWIE_PATTERN_ROUTE \<Rightarrow> remote = FLOWIE_PATTERN_DEAL
      | FLOWIE_PATTERN_DEAL \<Rightarrow> remote = FLOWIE_PATTERN_ROUTE
      | FLOWIE_PATTERN_PAIR \<Rightarrow> remote = FLOWIE_PATTERN_PAIR
      | FLOWIE_PATTERN_REQUEST \<Rightarrow> remote = FLOWIE_PATTERN_REPLY
      | FLOWIE_PATTERN_REPLY \<Rightarrow> remote = FLOWIE_PATTERN_REQUEST
      | FLOWIE_PATTERN_EXTENDED_PUBLISH \<Rightarrow>
          remote = FLOWIE_PATTERN_SUBSCRIBE \<or> remote = FLOWIE_PATTERN_EXTENDED_SUBSCRIBE
      | FLOWIE_PATTERN_EXTENDED_SUBSCRIBE \<Rightarrow>
          remote = FLOWIE_PATTERN_PUBLISH \<or> remote = FLOWIE_PATTERN_EXTENDED_PUBLISH
      | pattern_role_other i \<Rightarrow> False)"

datatype flowie_pattern_selection = FLOWIE_PATTERN_SELECT_FAN_OUT | FLOWIE_PATTERN_SELECT_ROUND_ROBIN

record flowie_pattern_selection_iterator =
  si_selection :: flowie_pattern_selection
  si_candidate_count :: nat
  si_next_offset :: nat
  si_remaining :: nat

text \<open>The state of a selector is its cursor.\<close>

definition flowie_pattern_selection_begin ::
    "flowie_pattern_selection \<Rightarrow> nat \<Rightarrow> (u64, flowie_pattern_selection_iterator) op" where
  "flowie_pattern_selection_begin selection candidate_count cursor =
     (if candidate_count = 0 then (Inl SALTS_ENOENT, cursor)
      else let (ticket, cursor') = (if selection = FLOWIE_PATTERN_SELECT_ROUND_ROBIN then (cursor, cursor + 1)
                                    else (0, cursor))
           in (Inr \<lparr>si_selection = selection, si_candidate_count = candidate_count,
                    si_next_offset = (if selection = FLOWIE_PATTERN_SELECT_ROUND_ROBIN
                                      then unat ticket mod candidate_count else 0),
                    si_remaining = candidate_count\<rparr>, cursor'))"

definition flow_pattern_iterator_valid :: "flowie_pattern_selection_iterator \<Rightarrow> bool" where
  "flow_pattern_iterator_valid iterator \<longleftrightarrow> si_candidate_count iterator \<noteq> 0 \<and>
     si_remaining iterator \<le> si_candidate_count iterator \<and> si_next_offset iterator < si_candidate_count iterator"

definition flowie_pattern_selection_next :: "(flowie_pattern_selection_iterator, nat) op" where
  "flowie_pattern_selection_next iterator =
     (if \<not> flow_pattern_iterator_valid iterator then (Inl SALTS_EINVAL, iterator)
      else if si_remaining iterator = 0 then (Inl SALTS_ENOENT, iterator)
      else let offset = si_next_offset iterator + 1;
               offset = (if offset = si_candidate_count iterator then 0 else offset)
           in (Inr (si_next_offset iterator),
               iterator\<lparr>si_next_offset := offset, si_remaining := si_remaining iterator - 1\<rparr>))"

record flowie_pattern_route =
  pr_route_id :: u64
  pr_generation :: u64

definition flowie_pattern_route_validate :: "flowie_pattern_route \<Rightarrow> salts_error + unit" where
  "flowie_pattern_route_validate route =
     (if pr_route_id route \<noteq> 0 \<and> pr_generation route \<noteq> 0 then Inr () else Inl SALTS_EINVAL)"

definition flowie_pattern_routes_match :: "flowie_pattern_route \<Rightarrow> flowie_pattern_route \<Rightarrow> bool" where
  "flowie_pattern_routes_match requested candidate \<longleftrightarrow>
     is_ok (flowie_pattern_route_validate requested) \<and> is_ok (flowie_pattern_route_validate candidate) \<and>
     pr_route_id requested = pr_route_id candidate \<and> pr_generation requested = pr_generation candidate"

section \<open>A selection produces every candidate once\<close>

function selection_drain :: "flowie_pattern_selection_iterator \<Rightarrow> nat list" where
  "selection_drain iterator =
     (case flowie_pattern_selection_next iterator of
        (Inl e, iterator') \<Rightarrow> []
      | (Inr candidate, iterator') \<Rightarrow> candidate # selection_drain iterator')"
  by pat_completeness auto
termination
  by (relation "measure si_remaining") (auto simp: flowie_pattern_selection_next_def Let_def split: if_splits)

declare selection_drain.simps [simp del]

lemma selection_drain_offsets:
  "flow_pattern_iterator_valid it \<Longrightarrow>
     selection_drain it = map (\<lambda>i. (si_next_offset it + i) mod si_candidate_count it) [0..<si_remaining it]"
proof (induction "si_remaining it" arbitrary: it)
  case 0
  then show ?case by (simp add: selection_drain.simps [of it] flowie_pattern_selection_next_def)
next
  case (Suc k)
  define next_it where "next_it = it\<lparr>si_next_offset := (si_next_offset it + 1) mod si_candidate_count it, si_remaining := k\<rparr>"
  have it: "si_remaining it = Suc k" "si_next_offset it < si_candidate_count it" "Suc k \<le> si_candidate_count it"
    using Suc.hyps(2) [symmetric] Suc.prems by (auto simp: flow_pattern_iterator_valid_def)
  have run: "flowie_pattern_selection_next it = (Inr (si_next_offset it), next_it)"
    using Suc.prems it
    by (cases "Suc (si_next_offset it) = si_candidate_count it")
       (simp_all add: flowie_pattern_selection_next_def next_it_def Let_def)
  have "flow_pattern_iterator_valid next_it"
    using it by (simp add: flow_pattern_iterator_valid_def next_it_def)
  then have "selection_drain next_it =
      map (\<lambda>i. (si_next_offset next_it + i) mod si_candidate_count next_it) [0..<k]"
    using Suc.hyps(1) [of next_it] by (simp add: next_it_def)
  also have "\<dots> = map (\<lambda>i. (si_next_offset it + Suc i) mod si_candidate_count it) [0..<k]"
    by (simp add: next_it_def mod_simps)
  finally show ?case
    using it by (simp add: selection_drain.simps [of it] run map_upt_Suc del: upt_Suc)
qed

text \<open>C27: a selection terminates and produces every candidate exactly once. A fan-out lists the
  candidates in order, a round-robin selection starts at the cursor of the selector modulo
  their number and wraps around, and advances the cursor by one.\<close>

theorem pattern_selection_complete:
  assumes "flowie_pattern_selection_begin selection candidate_count cursor = (Inr it, cursor')"
  shows "selection_drain it =
      rotate (if selection = FLOWIE_PATTERN_SELECT_ROUND_ROBIN then unat cursor mod candidate_count else 0)
        [0..<candidate_count] \<and>
    distinct (selection_drain it) \<and> set (selection_drain it) = {..<candidate_count} \<and>
    cursor' = (if selection = FLOWIE_PATTERN_SELECT_ROUND_ROBIN then cursor + 1 else cursor)"
proof -
  let ?start = "if selection = FLOWIE_PATTERN_SELECT_ROUND_ROBIN then unat cursor mod candidate_count else 0"
  have it: "it = \<lparr>si_selection = selection, si_candidate_count = candidate_count, si_next_offset = ?start,
      si_remaining = candidate_count\<rparr>" "0 < candidate_count"
    using assms by (auto simp: flowie_pattern_selection_begin_def split: if_splits)
  then have "flow_pattern_iterator_valid it" by (simp add: flow_pattern_iterator_valid_def)
  then have "selection_drain it = map (\<lambda>i. (?start + i) mod candidate_count) [0..<candidate_count]"
    using selection_drain_offsets [of it] it(1) by simp
  also have "\<dots> = rotate ?start [0..<candidate_count]"
    by (rule nth_equalityI) (use it(2) in \<open>simp_all add: nth_rotate\<close>)
  finally have drain: "selection_drain it = rotate ?start [0..<candidate_count]" .
  moreover have "cursor' = (if selection = FLOWIE_PATTERN_SELECT_ROUND_ROBIN then cursor + 1 else cursor)"
    using assms by (auto simp: flowie_pattern_selection_begin_def split: if_splits)
  ultimately show ?thesis by (simp add: lessThan_atLeast0)
qed

theorem pattern_selection_complete_witness:
  "flowie_pattern_selection_begin FLOWIE_PATTERN_SELECT_ROUND_ROBIN 3 7 =
     (Inr \<lparr>si_selection = FLOWIE_PATTERN_SELECT_ROUND_ROBIN, si_candidate_count = 3, si_next_offset = 1,
           si_remaining = 3\<rparr>, 8) \<and>
   selection_drain \<lparr>si_selection = FLOWIE_PATTERN_SELECT_ROUND_ROBIN, si_candidate_count = 3, si_next_offset = 1,
     si_remaining = 3\<rparr> = [1, 2, 0]"
proof -
  have run: "flowie_pattern_selection_begin FLOWIE_PATTERN_SELECT_ROUND_ROBIN 3 7 =
     (Inr \<lparr>si_selection = FLOWIE_PATTERN_SELECT_ROUND_ROBIN, si_candidate_count = 3, si_next_offset = 1,
           si_remaining = 3\<rparr>, 8)"
    by (simp add: flowie_pattern_selection_begin_def)
  show ?thesis using pattern_selection_complete [OF run] run by (simp add: upt_rec)
qed

end
