(* ===== verification/Pattern_Exchange.thy ===== *)
theory Pattern_Exchange
  imports Protocol_Contract
begin

text \<open>
  The request/reply association of \<open>flowie/src/flowie_protocol_contract.c\<close>: two atomic variables, a
  state and a correlation, that several threads use at once. The operations are given twice: as
  functions of the exchange, and as programs of single atomic loads, stores and compare-and-swaps, which
  agree when nobody interferes. A step relation interleaves the atomic actions of any number of threads,
  each of which may call any operation with any arguments. The code leaves it to its callers that only
  the thread whose begin has succeeded finishes, marks or resets the exchange; that rule is a predicate
  on calls, and what it is needed for is shown as well. Calls of match and snapshot from outside only read
  and are not steps. Atomic actions are sequentially consistent in the model.
\<close>

section \<open>Operations\<close>

datatype flowie_pattern_exchange_state =
    FLOWIE_PATTERN_EXCHANGE_READY | FLOWIE_PATTERN_EXCHANGE_WAIT_REPLY
  | FLOWIE_PATTERN_EXCHANGE_PROCESSING_REQUEST | FLOWIE_PATTERN_EXCHANGE_RESETTING

record flowie_pattern_exchange =
  ex_state :: flowie_pattern_exchange_state
  ex_correlation_id :: u64

definition flow_pattern_exchange_active_state :: "flowie_pattern_exchange_state \<Rightarrow> bool" where
  "flow_pattern_exchange_active_state state \<longleftrightarrow>
     state = FLOWIE_PATTERN_EXCHANGE_WAIT_REPLY \<or> state = FLOWIE_PATTERN_EXCHANGE_PROCESSING_REQUEST"

definition flowie_pattern_exchange_init :: flowie_pattern_exchange where
  "flowie_pattern_exchange_init = \<lparr>ex_state = FLOWIE_PATTERN_EXCHANGE_READY, ex_correlation_id = 0\<rparr>"

text \<open>The two compare-and-swap steps.\<close>

definition claim_correlation :: "u64 \<Rightarrow> flowie_pattern_exchange \<Rightarrow> flowie_pattern_exchange option" where
  "claim_correlation correlation_id exchange =
     (if ex_correlation_id exchange = 0 then Some (exchange\<lparr>ex_correlation_id := correlation_id\<rparr>) else None)"

definition activate :: "flowie_pattern_exchange_state \<Rightarrow> flowie_pattern_exchange \<Rightarrow> flowie_pattern_exchange option" where
  "activate active_state exchange =
     (if ex_state exchange = FLOWIE_PATTERN_EXCHANGE_READY then Some (exchange\<lparr>ex_state := active_state\<rparr>) else None)"

definition flowie_pattern_exchange_begin ::
    "flowie_pattern_exchange_state \<Rightarrow> u64 \<Rightarrow> (flowie_pattern_exchange, unit) op" where
  "flowie_pattern_exchange_begin active_state correlation_id exchange =
     (if \<not> flow_pattern_exchange_active_state active_state \<or> correlation_id = 0 then (Inl SALTS_EINVAL, exchange)
      else case claim_correlation correlation_id exchange of
             None \<Rightarrow> (Inl SALTS_EBUSY, exchange)
           | Some claimed \<Rightarrow>
               (case activate active_state claimed of
                  Some active \<Rightarrow> (Inr (), active)
                | None \<Rightarrow> (Inl SALTS_EBUSY, claimed\<lparr>ex_correlation_id := 0\<rparr>)))"

definition flowie_pattern_exchange_match ::
    "flowie_pattern_exchange_state \<Rightarrow> u64 \<Rightarrow> flowie_pattern_exchange \<Rightarrow> salts_error + unit" where
  "flowie_pattern_exchange_match expected_state correlation_id exchange =
     (if \<not> flow_pattern_exchange_active_state expected_state \<or> correlation_id = 0 then Inl SALTS_EINVAL
      else if ex_state exchange \<noteq> expected_state then Inl SALTS_EBUSY
      else if ex_correlation_id exchange = correlation_id then Inr () else Inl SALTS_EPROTO)"

definition flowie_pattern_exchange_finish ::
    "flowie_pattern_exchange_state \<Rightarrow> u64 \<Rightarrow> flowie_pattern_exchange_state \<Rightarrow> (flowie_pattern_exchange, unit) op" where
  "flowie_pattern_exchange_finish expected_state correlation_id terminal_state exchange =
     (if terminal_state \<noteq> FLOWIE_PATTERN_EXCHANGE_READY \<and> terminal_state \<noteq> FLOWIE_PATTERN_EXCHANGE_RESETTING
      then (Inl SALTS_EINVAL, exchange)
      else case flowie_pattern_exchange_match expected_state correlation_id exchange of
             Inl e \<Rightarrow> (Inl e, exchange)
           | Inr u \<Rightarrow>
               (Inr (), (if terminal_state = FLOWIE_PATTERN_EXCHANGE_READY
                         then exchange\<lparr>ex_correlation_id := 0\<rparr> else exchange)\<lparr>ex_state := terminal_state\<rparr>))"

definition flowie_pattern_exchange_mark_resetting :: "(flowie_pattern_exchange, unit) op" where
  "flowie_pattern_exchange_mark_resetting exchange =
     (if \<not> flow_pattern_exchange_active_state (ex_state exchange) \<and>
         ex_state exchange \<noteq> FLOWIE_PATTERN_EXCHANGE_RESETTING then (Inl SALTS_EBUSY, exchange)
      else (Inr (), exchange\<lparr>ex_state := FLOWIE_PATTERN_EXCHANGE_RESETTING\<rparr>))"

definition flowie_pattern_exchange_reset :: "flowie_pattern_exchange \<Rightarrow> flowie_pattern_exchange" where
  "flowie_pattern_exchange_reset exchange =
     exchange\<lparr>ex_correlation_id := 0, ex_state := FLOWIE_PATTERN_EXCHANGE_READY\<rparr>"

section \<open>Operations as programs of atomic actions\<close>

datatype exchange_call =
    Begin flowie_pattern_exchange_state u64
  | Finish flowie_pattern_exchange_state u64 flowie_pattern_exchange_state
  | Mark_resetting | Reset

text \<open>The atomic action that a thread performs next, or the result of its last call.\<close>

datatype exchange_point =
    Returned "salts_error + unit"
  | Begin_claim flowie_pattern_exchange_state u64 | Begin_activate flowie_pattern_exchange_state u64
  | Begin_undo u64
  | Finish_state flowie_pattern_exchange_state u64 flowie_pattern_exchange_state
  | Finish_correlation u64 flowie_pattern_exchange_state | Finish_clear
  | Finish_store flowie_pattern_exchange_state
  | Mark_load | Mark_store | Reset_clear | Reset_store

text \<open>The checks of the arguments touch no shared variable.\<close>

fun exchange_entry :: "exchange_call \<Rightarrow> exchange_point" where
  "exchange_entry (Begin active_state correlation_id) =
     (if \<not> flow_pattern_exchange_active_state active_state \<or> correlation_id = 0 then Returned (Inl SALTS_EINVAL)
      else Begin_claim active_state correlation_id)"
| "exchange_entry (Finish expected_state correlation_id terminal_state) =
     (if terminal_state \<noteq> FLOWIE_PATTERN_EXCHANGE_READY \<and> terminal_state \<noteq> FLOWIE_PATTERN_EXCHANGE_RESETTING
      then Returned (Inl SALTS_EINVAL)
      else if \<not> flow_pattern_exchange_active_state expected_state \<or> correlation_id = 0
      then Returned (Inl SALTS_EINVAL)
      else Finish_state expected_state correlation_id terminal_state)"
| "exchange_entry Mark_resetting = Mark_load"
| "exchange_entry Reset = Reset_clear"

fun exchange_atomic :: "exchange_point \<Rightarrow> flowie_pattern_exchange \<Rightarrow> exchange_point \<times> flowie_pattern_exchange" where
  "exchange_atomic (Returned rc) ex = (Returned rc, ex)"
| "exchange_atomic (Begin_claim st cid) ex =
     (case claim_correlation cid ex of
        None \<Rightarrow> (Returned (Inl SALTS_EBUSY), ex)
      | Some claimed \<Rightarrow> (Begin_activate st cid, claimed))"
| "exchange_atomic (Begin_activate st cid) ex =
     (case activate st ex of
        Some active \<Rightarrow> (Returned (Inr ()), active)
      | None \<Rightarrow> (Begin_undo cid, ex))"
| "exchange_atomic (Begin_undo cid) ex = (Returned (Inl SALTS_EBUSY), ex\<lparr>ex_correlation_id := 0\<rparr>)"
| "exchange_atomic (Finish_state st cid terminal) ex =
     (if ex_state ex \<noteq> st then Returned (Inl SALTS_EBUSY) else Finish_correlation cid terminal, ex)"
| "exchange_atomic (Finish_correlation cid terminal) ex =
     (if ex_correlation_id ex \<noteq> cid then Returned (Inl SALTS_EPROTO)
      else if terminal = FLOWIE_PATTERN_EXCHANGE_READY then Finish_clear else Finish_store terminal, ex)"
| "exchange_atomic Finish_clear ex = (Finish_store FLOWIE_PATTERN_EXCHANGE_READY, ex\<lparr>ex_correlation_id := 0\<rparr>)"
| "exchange_atomic (Finish_store terminal) ex = (Returned (Inr ()), ex\<lparr>ex_state := terminal\<rparr>)"
| "exchange_atomic Mark_load ex =
     (if \<not> flow_pattern_exchange_active_state (ex_state ex) \<and> ex_state ex \<noteq> FLOWIE_PATTERN_EXCHANGE_RESETTING
      then Returned (Inl SALTS_EBUSY) else Mark_store, ex)"
| "exchange_atomic Mark_store ex = (Returned (Inr ()), ex\<lparr>ex_state := FLOWIE_PATTERN_EXCHANGE_RESETTING\<rparr>)"
| "exchange_atomic Reset_clear ex = (Reset_store, ex\<lparr>ex_correlation_id := 0\<rparr>)"
| "exchange_atomic Reset_store ex = (Returned (Inr ()), ex\<lparr>ex_state := FLOWIE_PATTERN_EXCHANGE_READY\<rparr>)"

fun exchange_call_run :: "exchange_call \<Rightarrow> (flowie_pattern_exchange, unit) op" where
  "exchange_call_run (Begin st cid) ex = flowie_pattern_exchange_begin st cid ex"
| "exchange_call_run (Finish st cid terminal) ex = flowie_pattern_exchange_finish st cid terminal ex"
| "exchange_call_run Mark_resetting ex = flowie_pattern_exchange_mark_resetting ex"
| "exchange_call_run Reset ex = (Inr (), flowie_pattern_exchange_reset ex)"

text \<open>Without interference at most four atomic actions complete a call, with the effect and the result
  of the operation.\<close>

lemma exchange_atomic_alone:
  "((\<lambda>(pc, ex). exchange_atomic pc ex) ^^ 4) (exchange_entry c, ex) =
     (case exchange_call_run c ex of (rc, ex') \<Rightarrow> (Returned rc, ex'))"
  by (cases c)
     (auto simp: numeral_eq_Suc flowie_pattern_exchange_begin_def flowie_pattern_exchange_finish_def
       flowie_pattern_exchange_match_def flowie_pattern_exchange_mark_resetting_def flowie_pattern_exchange_reset_def
       claim_correlation_def activate_def split: option.splits)

section \<open>Interleaved threads\<close>

text \<open>
  Next to the exchange and the threads there is an auxiliary variable: the association that a thread has
  begun and not yet ended, with the state that the thread last stored. No operation reads it.
\<close>

type_synonym exchange_held = "(flowie_pattern_exchange_state \<times> u64) option"
type_synonym exchange_system = "flowie_pattern_exchange \<times> (nat \<Rightarrow> exchange_point) \<times> (nat \<Rightarrow> exchange_held)"

fun held_after :: "exchange_point \<Rightarrow> flowie_pattern_exchange \<Rightarrow> exchange_held \<Rightarrow> exchange_held" where
  "held_after (Begin_activate st cid) ex h = (if activate st ex = None then h else Some (st, cid))"
| "held_after (Finish_store terminal) ex h =
     (if terminal = FLOWIE_PATTERN_EXCHANGE_READY then None else map_option (\<lambda>(st, cid). (terminal, cid)) h)"
| "held_after Mark_store ex h = map_option (\<lambda>(st, cid). (FLOWIE_PATTERN_EXCHANGE_RESETTING, cid)) h"
| "held_after Reset_store ex h = None"
| "held_after _ ex h = h"

fun returned :: "exchange_point \<Rightarrow> bool" where
  "returned (Returned rc) = True"
| "returned _ = False"

inductive exchange_step ::
    "(exchange_held \<Rightarrow> exchange_call \<Rightarrow> bool) \<Rightarrow> exchange_system \<Rightarrow> exchange_system \<Rightarrow> bool"
  for allowed :: "exchange_held \<Rightarrow> exchange_call \<Rightarrow> bool" where
  call: "returned (pcs t) \<Longrightarrow> allowed (held t) c \<Longrightarrow>
    exchange_step allowed (ex, pcs, held) (ex, pcs(t := exchange_entry c), held)"
| run: "\<not> returned (pcs t) \<Longrightarrow> exchange_atomic (pcs t) ex = (pc, ex') \<Longrightarrow>
    exchange_step allowed (ex, pcs, held) (ex', pcs(t := pc), held(t := held_after (pcs t) ex (held t)))"

inductive exchange_reachable :: "(exchange_held \<Rightarrow> exchange_call \<Rightarrow> bool) \<Rightarrow> exchange_system \<Rightarrow> bool"
  for allowed :: "exchange_held \<Rightarrow> exchange_call \<Rightarrow> bool" where
  start: "exchange_reachable allowed (flowie_pattern_exchange_init, \<lambda>_. Returned (Inr ()), \<lambda>_. None)"
| step: "exchange_reachable allowed s \<Longrightarrow> exchange_step allowed s s' \<Longrightarrow> exchange_reachable allowed s'"

text \<open>The rule for callers: any thread may begin at any time; only a thread that has an association
  finishes it, marks it or resets it, in whatever state it is.\<close>

fun holder_only :: "exchange_held \<Rightarrow> exchange_call \<Rightarrow> bool" where
  "holder_only held (Begin st cid) = True"
| "holder_only held c = (held \<noteq> None)"

section \<open>One holder\<close>

text \<open>The correlation that a thread has installed, and the state that it keeps.\<close>

fun owned_correlation :: "exchange_point \<Rightarrow> exchange_held \<Rightarrow> u64 option" where
  "owned_correlation (Begin_activate st cid) h = Some cid"
| "owned_correlation (Begin_undo cid) h = Some cid"
| "owned_correlation (Finish_store terminal) h =
     (if terminal = FLOWIE_PATTERN_EXCHANGE_READY then None else map_option snd h)"
| "owned_correlation Reset_store h = None"
| "owned_correlation _ h = map_option snd h"

text \<open>What the program points of a thread say about its association.\<close>

fun point_ok :: "exchange_point \<Rightarrow> exchange_held \<Rightarrow> bool" where
  "point_ok (Returned rc) h = True"
| "point_ok (Begin_claim st cid) h = (flow_pattern_exchange_active_state st \<and> cid \<noteq> 0)"
| "point_ok (Begin_activate st cid) h = (flow_pattern_exchange_active_state st \<and> h = None)"
| "point_ok (Begin_undo cid) h = (h = None)"
| "point_ok (Finish_state st cid terminal) h =
     (h \<noteq> None \<and> terminal \<in> {FLOWIE_PATTERN_EXCHANGE_READY, FLOWIE_PATTERN_EXCHANGE_RESETTING})"
| "point_ok (Finish_correlation cid terminal) h =
     (h \<noteq> None \<and> terminal \<in> {FLOWIE_PATTERN_EXCHANGE_READY, FLOWIE_PATTERN_EXCHANGE_RESETTING})"
| "point_ok (Finish_store terminal) h =
     (h \<noteq> None \<and> terminal \<in> {FLOWIE_PATTERN_EXCHANGE_READY, FLOWIE_PATTERN_EXCHANGE_RESETTING})"
| "point_ok _ h = (h \<noteq> None)"

text \<open>At most one thread owns the variable, and its value is what that thread put there; the
  value \<open>z\<close> says that nobody does.\<close>

definition exclusive :: "'a \<Rightarrow> 'a \<Rightarrow> (nat \<Rightarrow> 'a option) \<Rightarrow> bool" where
  "exclusive z v f \<longleftrightarrow> (\<forall>t x. f t = Some x \<longrightarrow> x \<noteq> z \<and> v = x) \<and>
     (\<forall>t u. f t \<noteq> None \<longrightarrow> f u \<noteq> None \<longrightarrow> t = u) \<and> (v \<noteq> z \<longrightarrow> (\<exists>t. f t = Some v))"

lemma exclusive_take: "exclusive z z f \<Longrightarrow> x \<noteq> z \<Longrightarrow> exclusive z x (f(t := Some x))"
  by (fastforce simp: exclusive_def)

lemma exclusive_drop: "exclusive z v f \<Longrightarrow> f t = Some y \<Longrightarrow> exclusive z z (f(t := None))"
  by (fastforce simp: exclusive_def)

lemma exclusive_change: "exclusive z v f \<Longrightarrow> f t = Some y \<Longrightarrow> x \<noteq> z \<Longrightarrow> exclusive z x (f(t := Some x))"
  by (fastforce simp: exclusive_def)

lemma exclusive_same: "exclusive z v f \<Longrightarrow> f t = x \<Longrightarrow> exclusive z v (f(t := x))"
  by (simp add: fun_upd_idem)

lemma exclusive_other: "exclusive z v f \<Longrightarrow> f t \<noteq> None \<Longrightarrow> u = t \<or> f u = None"
  by (auto simp: exclusive_def)

lemma exclusive_value: "exclusive z v f \<Longrightarrow> f t = Some x \<Longrightarrow> v = x \<and> x \<noteq> z"
  by (simp add: exclusive_def)

lemma exclusive_nobody: "exclusive z v f \<Longrightarrow> \<forall>t. f t = None \<Longrightarrow> v = z"
  by (auto simp: exclusive_def)

definition exchange_ok :: "exchange_system \<Rightarrow> bool" where
  "exchange_ok s = (case s of (ex, pcs, held) \<Rightarrow>
     exclusive 0 (ex_correlation_id ex) (\<lambda>t. owned_correlation (pcs t) (held t)) \<and>
     exclusive FLOWIE_PATTERN_EXCHANGE_READY (ex_state ex) (\<lambda>t. map_option fst (held t)) \<and>
     (\<forall>t. point_ok (pcs t) (held t)))"

lemma point_entry: "holder_only h c \<Longrightarrow> point_ok (exchange_entry c) h"
  by (cases c) (auto simp: flow_pattern_exchange_active_state_def)

lemma owned_entry: "owned_correlation (exchange_entry c) h = map_option snd h"
  by (cases c) simp_all

lemma owned_returned: "returned pc \<Longrightarrow> owned_correlation pc h = map_option snd h"
  by (cases pc) simp_all

text \<open>One atomic action of a thread, seen from the variable that it owns.\<close>

lemma atomic_correlation:
  assumes "exclusive 0 (ex_correlation_id ex) f" "f t = owned_correlation pc0 h" "point_ok pc0 h"
    and "exchange_atomic pc0 ex = (pc, ex')"
  shows "exclusive 0 (ex_correlation_id ex') (f(t := owned_correlation pc (held_after pc0 ex h)))"
proof (cases pc0)
  case (Begin_claim st cid)
  then show ?thesis
    using assms by (auto simp: claim_correlation_def intro: exclusive_take exclusive_same split: if_splits)
qed (use assms in \<open>auto simp: activate_def option.map_comp comp_def split_beta
    intro: exclusive_same exclusive_drop split: if_splits\<close>)

lemma atomic_state:
  assumes "exclusive FLOWIE_PATTERN_EXCHANGE_READY (ex_state ex) g" "g t = map_option fst h" "point_ok pc0 h"
    and "exchange_atomic pc0 ex = (pc, ex')"
  shows "exclusive FLOWIE_PATTERN_EXCHANGE_READY (ex_state ex') (g(t := map_option fst (held_after pc0 ex h)))"
proof (cases pc0)
  case (Begin_activate st cid)
  then show ?thesis
    using assms by (auto simp: activate_def flow_pattern_exchange_active_state_def intro: exclusive_take exclusive_same
        split: if_splits)
qed (use assms in \<open>auto simp: claim_correlation_def intro: exclusive_same exclusive_drop exclusive_change split: if_splits\<close>)

lemma atomic_point:
  assumes "exclusive 0 (ex_correlation_id ex) f" "f t = owned_correlation pc0 h" "point_ok pc0 h"
    and "exchange_atomic pc0 ex = (pc, ex')"
  shows "point_ok pc (held_after pc0 ex h)"
proof (cases pc0)
  case (Begin_claim st cid)
  have "h = None" if "ex_correlation_id ex = 0"
    using assms(1,2) that Begin_claim by (cases h) (auto simp: exclusive_def)
  then show ?thesis using assms(3,4) Begin_claim by (auto simp: claim_correlation_def split: if_splits)
qed (use assms(3,4) in \<open>auto simp: activate_def split: if_splits\<close>)

lemma exchange_ok_step:
  assumes "exchange_step holder_only s s'" "exchange_ok s"
  shows "exchange_ok s'"
  using assms
proof (induction rule: exchange_step.induct)
  case (call pcs t held c ex)
  have "(\<lambda>u. owned_correlation ((pcs(t := exchange_entry c)) u) (held u)) = (\<lambda>u. owned_correlation (pcs u) (held u))"
    using call(1) by (auto simp: owned_entry owned_returned)
  then show ?case using call point_entry by (simp add: exchange_ok_def)
next
  case (run pcs t ex pc ex' held)
  let ?f = "\<lambda>u. owned_correlation (pcs u) (held u)" and ?g = "\<lambda>u. map_option fst (held u)"
  let ?h = "held_after (pcs t) ex (held t)"
  have ok: "exclusive 0 (ex_correlation_id ex) ?f" "exclusive FLOWIE_PATTERN_EXCHANGE_READY (ex_state ex) ?g"
      "\<And>u. point_ok (pcs u) (held u)"
    using run(3) by (simp_all add: exchange_ok_def)
  have "(\<lambda>u. owned_correlation ((pcs(t := pc)) u) ((held(t := ?h)) u)) = ?f(t := owned_correlation pc ?h)"
      "(\<lambda>u. map_option fst ((held(t := ?h)) u)) = ?g(t := map_option fst ?h)"
    by auto
  then show ?case
    using atomic_correlation [OF ok(1) refl ok(3) run(2)] atomic_state [OF ok(2) refl ok(3) run(2)]
      atomic_point [OF ok(1) refl ok(3) run(2)] ok(3)
    by (simp add: exchange_ok_def)
qed

lemma exchange_reachable_ok: "exchange_reachable holder_only s \<Longrightarrow> exchange_ok s"
proof (induction rule: exchange_reachable.induct)
  case start
  show ?case by (simp add: exchange_ok_def exclusive_def flowie_pattern_exchange_init_def)
qed (rule exchange_ok_step)

text \<open>C28: an association has one holder at a time, in every interleaving of the atomic loads, stores and
  compare-and-swaps of begin, finish, mark_resetting and reset in any number of threads, provided that
  finish, mark_resetting and reset are called only by a thread whose begin has succeeded and that has not
  ended its association since. Between the calls of the holder the state and the correlation are exactly
  the ones that it has stored, whatever the begins of other threads do meanwhile. When no call is under
  way and nobody holds the association, the exchange is ready and the next begin succeeds.\<close>

theorem exchange_mutual_exclusion:
  assumes "exchange_reachable holder_only (ex, pcs, held)"
  shows "(\<forall>t u. held t \<noteq> None \<and> held u \<noteq> None \<longrightarrow> t = u) \<and>
    (\<forall>t st cid. returned (pcs t) \<and> held t = Some (st, cid) \<longrightarrow>
       ex = \<lparr>ex_state = st, ex_correlation_id = cid\<rparr> \<and> st \<noteq> FLOWIE_PATTERN_EXCHANGE_READY \<and> cid \<noteq> 0) \<and>
    ((\<forall>t. returned (pcs t) \<and> held t = None) \<longrightarrow> ex = flowie_pattern_exchange_init \<and>
      (\<forall>st cid. flow_pattern_exchange_active_state st \<and> cid \<noteq> 0 \<longrightarrow>
         flowie_pattern_exchange_begin st cid ex = (Inr (), \<lparr>ex_state = st, ex_correlation_id = cid\<rparr>)))"
proof -
  let ?f = "\<lambda>t. owned_correlation (pcs t) (held t)" and ?g = "\<lambda>t. map_option fst (held t)"
  have ok: "exclusive 0 (ex_correlation_id ex) ?f" "exclusive FLOWIE_PATTERN_EXCHANGE_READY (ex_state ex) ?g"
    using exchange_reachable_ok [OF assms] by (simp_all add: exchange_ok_def)
  have "t = u" if "held t \<noteq> None" "held u \<noteq> None" for t u
    using exclusive_other [OF ok(2), of t u] that by auto
  moreover have "ex = \<lparr>ex_state = st, ex_correlation_id = cid\<rparr> \<and> st \<noteq> FLOWIE_PATTERN_EXCHANGE_READY \<and> cid \<noteq> 0"
    if "returned (pcs t)" "held t = Some (st, cid)" for t st cid
    using exclusive_value [OF ok(1), of t cid] exclusive_value [OF ok(2), of t st] that
    by (cases ex) (simp add: owned_returned)
  moreover have "ex = flowie_pattern_exchange_init" if "\<forall>t. returned (pcs t) \<and> held t = None"
    using exclusive_nobody [OF ok(1)] exclusive_nobody [OF ok(2)] that
    by (cases ex) (simp add: flowie_pattern_exchange_init_def owned_returned)
  moreover have "flowie_pattern_exchange_begin st cid flowie_pattern_exchange_init =
      (Inr (), \<lparr>ex_state = st, ex_correlation_id = cid\<rparr>)"
    if "flow_pattern_exchange_active_state st" "cid \<noteq> 0" for st cid
    using that by (simp add: flowie_pattern_exchange_begin_def claim_correlation_def activate_def
        flowie_pattern_exchange_init_def)
  ultimately show ?thesis by blast
qed

section \<open>Schedules\<close>

text \<open>A schedule names the thread that moves; a call starts an operation of the thread.\<close>

fun exchange_schedule ::
    "(exchange_held \<Rightarrow> exchange_call \<Rightarrow> bool) \<Rightarrow> (nat \<times> exchange_call option) list \<Rightarrow> exchange_system \<Rightarrow>
       exchange_system option" where
  "exchange_schedule allowed [] s = Some s"
| "exchange_schedule allowed ((t, Some c) # moves) (ex, pcs, held) =
     (if returned (pcs t) \<and> allowed (held t) c
      then exchange_schedule allowed moves (ex, pcs(t := exchange_entry c), held) else None)"
| "exchange_schedule allowed ((t, None) # moves) (ex, pcs, held) =
     (if returned (pcs t) then None
      else case exchange_atomic (pcs t) ex of
        (pc, ex') \<Rightarrow> exchange_schedule allowed moves (ex', pcs(t := pc), held(t := held_after (pcs t) ex (held t))))"

lemma schedule_reachable:
  "exchange_schedule allowed moves s = Some s' \<Longrightarrow> exchange_reachable allowed s \<Longrightarrow> exchange_reachable allowed s'"
  by (induction allowed moves s rule: exchange_schedule.induct)
     (auto split: if_splits prod.splits intro: exchange_reachable.step exchange_step.call exchange_step.run)

abbreviation exchange_start :: exchange_system where
  "exchange_start \<equiv> (flowie_pattern_exchange_init, \<lambda>_. Returned (Inr ()), \<lambda>_. None)"

abbreviation (input) "sample_begin t cid \<equiv> [(t, Some (Begin FLOWIE_PATTERN_EXCHANGE_WAIT_REPLY cid)), (t, None), (t, None)]"

text \<open>The rule for callers is needed: a reset by a thread that holds nothing lets a second thread begin while
  the first one still has its association.\<close>

lemma foreign_reset_two_holders:
  "\<exists>ex pcs held. exchange_reachable (\<lambda>_ _. True) (ex, pcs, held) \<and>
     held 0 = Some (FLOWIE_PATTERN_EXCHANGE_WAIT_REPLY, 7) \<and> held 1 = Some (FLOWIE_PATTERN_EXCHANGE_WAIT_REPLY, 8) \<and>
     ex_correlation_id ex = 8"
proof -
  have "exchange_schedule (\<lambda>_ _. True)
      (sample_begin 0 7 @ [(1, Some Reset), (1, None), (1, None)] @ sample_begin 1 8) exchange_start =
    Some (\<lparr>ex_state = FLOWIE_PATTERN_EXCHANGE_WAIT_REPLY, ex_correlation_id = 8\<rparr>, \<lambda>_. Returned (Inr ()),
      (\<lambda>_. None)(0 := Some (FLOWIE_PATTERN_EXCHANGE_WAIT_REPLY, 7), 1 := Some (FLOWIE_PATTERN_EXCHANGE_WAIT_REPLY, 8)))"
    by (simp add: flow_pattern_exchange_active_state_def claim_correlation_def activate_def
        flowie_pattern_exchange_init_def fun_eq_iff)
  from schedule_reachable [OF this exchange_reachable.start] show ?thesis by fastforce
qed

theorem exchange_mutual_exclusion_witness:
  "\<exists>ex pcs held. exchange_reachable holder_only (ex, pcs, held) \<and> pcs 5 = Begin_claim FLOWIE_PATTERN_EXCHANGE_WAIT_REPLY 9 \<and>
     held 3 = Some (FLOWIE_PATTERN_EXCHANGE_RESETTING, 7) \<and>
     ex = \<lparr>ex_state = FLOWIE_PATTERN_EXCHANGE_RESETTING, ex_correlation_id = 7\<rparr> \<and> held 5 = None"
proof -
  have "\<exists>ex pcs held. exchange_schedule holder_only
      (sample_begin 3 7 @ [(5, Some (Begin FLOWIE_PATTERN_EXCHANGE_WAIT_REPLY 9)), (3, Some Mark_resetting), (3, None), (3, None)])
      exchange_start = Some (ex, pcs, held) \<and> pcs 5 = Begin_claim FLOWIE_PATTERN_EXCHANGE_WAIT_REPLY 9 \<and>
      returned (pcs 3) \<and> held 3 = Some (FLOWIE_PATTERN_EXCHANGE_RESETTING, 7)"
    by (simp add: flow_pattern_exchange_active_state_def claim_correlation_def activate_def
        flowie_pattern_exchange_init_def)
  then obtain ex pcs held where run: "exchange_schedule holder_only
      (sample_begin 3 7 @ [(5, Some (Begin FLOWIE_PATTERN_EXCHANGE_WAIT_REPLY 9)), (3, Some Mark_resetting), (3, None), (3, None)])
      exchange_start = Some (ex, pcs, held)"
    and at: "pcs 5 = Begin_claim FLOWIE_PATTERN_EXCHANGE_WAIT_REPLY 9" "returned (pcs 3)"
      "held 3 = Some (FLOWIE_PATTERN_EXCHANGE_RESETTING, 7)"
    by blast
  have reachable: "exchange_reachable holder_only (ex, pcs, held)"
    by (rule schedule_reachable [OF run exchange_reachable.start])
  have "held 5 = None" "ex = \<lparr>ex_state = FLOWIE_PATTERN_EXCHANGE_RESETTING, ex_correlation_id = 7\<rparr>"
    using exchange_mutual_exclusion [OF reachable] at by force+
  then show ?thesis using reachable at by blast
qed

end
