(* ===== verification/Session_Owner.thy ===== *)
theory Session_Owner
  imports Protocol_Contract Mqtt_Control
begin

text \<open>
  The owner of an MQTT session, \<open>flowie/src/flowie_session.c\<close>: its data, the table of outbound
  deliveries with its derived index, and the life of a session from CONNECT to the end of the
  connection. An operation returns a status with its outputs and the owner it leaves behind.
  A text that the code keeps behind a pointer is an optional list of bytes; the outcomes of
  coming allocations are part of the owner.
\<close>

section \<open>Data\<close>

record flowie_session_config =
  sf_owner_instance_id :: u64
  sf_session_id :: u64
  sf_max_subscriptions :: nat
  sf_max_inflight :: nat
  sf_settlement :: flowie_protocol_settlement_policy

record flowie_session_subscription_owned =
  sn_filter :: bytes
  sn_qos :: u8
  sn_no_local :: u8
  sn_retain_as_published :: u8
  sn_retain_handling :: u8
  sn_subscription_identifier :: u32

datatype flowie_session_inflight_state =
    FLOWIE_SESSION_INFLIGHT_SETTLEMENT | FLOWIE_SESSION_INFLIGHT_QOS2_RELEASE

record flowie_session_inflight =
  if_packet_id :: u16
  if_qos :: u8
  if_state :: flowie_session_inflight_state

datatype flowie_session_delivery_state =
    FLOWIE_SESSION_DELIVERY_RESERVED | FLOWIE_SESSION_DELIVERY_WAIT_ACK
  | FLOWIE_SESSION_DELIVERY_WAIT_PUBREC | FLOWIE_SESSION_DELIVERY_WAIT_PUBCOMP
  | FLOWIE_SESSION_DELIVERY_QUEUED

record flowie_session_delivery =
  dl_packet_id :: u16
  dl_qos :: u8
  dl_state :: flowie_session_delivery_state
  dl_expiry_at :: u64
  dl_packet :: "bytes option"

record flowie_session_owner =
  so_config :: flowie_session_config
  so_client_id :: "bytes option"
  so_subscriptions :: "flowie_session_subscription_owned list"
  so_inflight :: "flowie_session_inflight list"
  so_deliveries :: "flowie_session_delivery list"
  so_delivery_index :: "u16 \<Rightarrow> nat option"
  so_will_topic :: "bytes option"
  so_will_properties :: "bytes option"
  so_will_payload :: "bytes option"
  so_version :: flowie_mqtt_version
  so_keep_alive :: u16
  so_session_expiry_interval :: u32
  so_session_generation :: u64
  so_resource_generation :: u64
  so_next_delivery_packet_id :: u16
  so_will_delay_interval :: u32
  so_initialized :: bool
  so_active :: bool
  so_clean_start :: u8
  so_has_will :: bool
  so_will_pending :: bool
  so_will_qos :: u8
  so_will_retain :: u8
  so_faults :: faults

abbreviation (input) "UINT64_MAX \<equiv> (18446744073709551615::u64)"

section \<open>Allocation\<close>

definition session_attempt :: "(flowie_session_owner, unit) op" where
  "session_attempt owner =
     (case so_faults owner of
        [] \<Rightarrow> (Inr (), owner)
      | status # rest \<Rightarrow> (flowie_stl_error status, owner\<lparr>so_faults := rest\<rparr>))"

text \<open>Several texts are copied before any of the copies is checked.\<close>

fun session_allocs :: "nat \<Rightarrow> (flowie_session_owner, unit) op" where
  "session_allocs 0 owner = (Inr (), owner)"
| "session_allocs (Suc n) owner =
     (case session_attempt owner of (first, owner1) \<Rightarrow>
      case session_allocs n owner1 of (others, owner2) \<Rightarrow>
        (if is_ok first \<and> is_ok others then Inr () else Inl SALTS_ENOMEM, owner2))"

declare session_allocs.simps [simp del]

section \<open>The table of deliveries\<close>

definition flowie_session_delivery_lookup ::
    "u16 \<Rightarrow> flowie_session_owner \<Rightarrow> salts_error + nat \<times> flowie_session_delivery" where
  "flowie_session_delivery_lookup packet_id owner =
     (if packet_id = 0 then Inl SALTS_EINVAL
      else case so_delivery_index owner packet_id of
             None \<Rightarrow> Inl SALTS_ENOENT
           | Some index \<Rightarrow>
               if \<not> index < length (so_deliveries owner) \<or> dl_packet_id (so_deliveries owner ! index) \<noteq> packet_id
               then Inl SALTS_EPROTO
               else Inr (index, so_deliveries owner ! index))"

definition flowie_session_delivery_append :: "flowie_session_delivery \<Rightarrow> (flowie_session_owner, unit) op" where
  "flowie_session_delivery_append delivery owner =
     (if dl_packet_id delivery = 0 then (Inl SALTS_EINVAL, owner)
      else case flowie_session_delivery_lookup (dl_packet_id delivery) owner of
        Inr found \<Rightarrow> (Inl SALTS_EALREADY, owner)
      | Inl e \<Rightarrow>
          if e \<noteq> SALTS_ENOENT then (Inl e, owner)
          else case session_attempt owner of
            (Inl e, owner1) \<Rightarrow> (Inl e, owner1)
          | (Inr u, owner1) \<Rightarrow>
              let owner2 = owner1\<lparr>so_deliveries := so_deliveries owner1 @ [delivery]\<rparr> in
              case session_attempt owner2 of
                (Inl e, owner3) \<Rightarrow> (Inl e, owner3\<lparr>so_deliveries := butlast (so_deliveries owner3)\<rparr>)
              | (Inr u, owner3) \<Rightarrow>
                  (Inr (), owner3\<lparr>so_delivery_index :=
                             (so_delivery_index owner3)(dl_packet_id delivery \<mapsto> length (so_deliveries owner))\<rparr>))"

definition flowie_session_delivery_remove_at ::
    "nat \<Rightarrow> (flowie_session_owner, flowie_session_delivery) op" where
  "flowie_session_delivery_remove_at index owner =
     (let ds = so_deliveries owner; total = length ds in
      if \<not> index < total then (Inl SALTS_ENOENT, owner)
      else let packet_id = dl_packet_id (ds ! index);
               moved_packet_id = (if index + 1 < total then dl_packet_id (ds ! (total - 1)) else 0) in
      if so_delivery_index owner packet_id \<noteq> Some index then (Inl SALTS_EPROTO, owner)
      else if index + 1 < total \<and> so_delivery_index owner moved_packet_id \<noteq> Some (total - 1)
      then (Inl SALTS_EPROTO, owner)
      else let owner1 = owner\<lparr>so_delivery_index := (so_delivery_index owner)(packet_id := None),
                              so_deliveries := swap_remove index ds\<rparr> in
      if moved_packet_id \<noteq> 0 then
        (if so_delivery_index owner1 moved_packet_id = None then (Inl SALTS_EPROTO, owner1)
         else (Inr (ds ! index),
               owner1\<lparr>so_delivery_index := (so_delivery_index owner1)(moved_packet_id \<mapsto> index)\<rparr>))
      else (Inr (ds ! index), owner1))"

section \<open>Clearing\<close>

function inflight_clear_loop ::
    "bool \<Rightarrow> nat \<Rightarrow> flowie_session_inflight list \<Rightarrow> flowie_session_inflight list" where
  "inflight_clear_loop keep_qos2_release index entries =
     (if \<not> index < length entries then entries
      else if keep_qos2_release \<and> if_state (entries ! index) = FLOWIE_SESSION_INFLIGHT_QOS2_RELEASE
      then inflight_clear_loop keep_qos2_release (index + 1) entries
      else inflight_clear_loop keep_qos2_release index (swap_remove index entries))"
  by pat_completeness auto
termination
  by (relation "measure (\<lambda>(keep, index, entries). length entries - index)") auto

declare inflight_clear_loop.simps [simp del]

definition flowie_session_inflight_clear :: "bool \<Rightarrow> flowie_session_owner \<Rightarrow> flowie_session_owner" where
  "flowie_session_inflight_clear keep_qos2_release owner =
     owner\<lparr>so_inflight := inflight_clear_loop keep_qos2_release 0 (so_inflight owner)\<rparr>"

definition flowie_session_subscriptions_clear :: "flowie_session_owner \<Rightarrow> flowie_session_owner" where
  "flowie_session_subscriptions_clear owner = owner\<lparr>so_subscriptions := []\<rparr>"

definition flowie_session_deliveries_clear :: "flowie_session_owner \<Rightarrow> flowie_session_owner" where
  "flowie_session_deliveries_clear owner = owner\<lparr>so_deliveries := [], so_delivery_index := (\<lambda>_. None)\<rparr>"

definition flowie_session_will_clear :: "flowie_session_owner \<Rightarrow> flowie_session_owner" where
  "flowie_session_will_clear owner =
     owner\<lparr>so_will_topic := None, so_will_properties := None, so_will_payload := None, so_will_delay_interval := 0,
           so_has_will := False, so_will_pending := False, so_will_qos := 0, so_will_retain := 0\<rparr>"

definition flowie_session_generation_advance :: "(flowie_session_owner, unit) op" where
  "flowie_session_generation_advance owner =
     (if so_resource_generation owner = UINT64_MAX then (Inl SALTS_ERANGE, owner)
      else (Inr (), owner\<lparr>so_resource_generation := so_resource_generation owner + 1\<rparr>))"

section \<open>Creation\<close>

definition flowie_session_config_valid :: "flowie_session_config \<Rightarrow> bool" where
  "flowie_session_config_valid config \<longleftrightarrow>
     sf_owner_instance_id config \<noteq> 0 \<and> sf_session_id config \<noteq> 0 \<and>
     sf_max_subscriptions config \<noteq> 0 \<and> sf_max_subscriptions config \<le> 65535 \<and>
     sf_max_inflight config \<noteq> 0 \<and> sf_max_inflight config \<le> 65535 \<and>
     flowie_protocol_settlement_policy_validate (sf_settlement config) = Inr ()"

definition session_zero :: "flowie_session_config \<Rightarrow> faults \<Rightarrow> flowie_session_owner" where
  "session_zero config faults =
     \<lparr>so_config = config, so_client_id = None, so_subscriptions = [], so_inflight = [], so_deliveries = [],
      so_delivery_index = (\<lambda>_. None), so_will_topic = None, so_will_properties = None, so_will_payload = None,
      so_version = 0, so_keep_alive = 0, so_session_expiry_interval = 0, so_session_generation = 0,
      so_resource_generation = 1, so_next_delivery_packet_id = 0, so_will_delay_interval = 0,
      so_initialized = False, so_active = False, so_clean_start = 0, so_has_will = False,
      so_will_pending = False, so_will_qos = 0, so_will_retain = 0, so_faults = faults\<rparr>"

text \<open>The constructor allocates the structure, three vectors and the map.\<close>

definition flowie_session_owner_create :: "flowie_session_config \<Rightarrow> faults \<Rightarrow> flowie_session_owner option" where
  "flowie_session_owner_create config faults =
     (if \<not> flowie_session_config_valid config then None
      else case obind session_attempt (\<lambda>_. obind session_attempt (\<lambda>_. obind session_attempt (\<lambda>_.
                  obind session_attempt (\<lambda>_. session_attempt)))) (session_zero config faults) of
             (Inl e, owner) \<Rightarrow> None
           | (Inr u, owner) \<Rightarrow> Some owner)"

definition flowie_session_owner_touch :: "(flowie_session_owner, unit) op" where
  "flowie_session_owner_touch owner =
     (if \<not> so_initialized owner then (Inl SALTS_EINVAL, owner) else flowie_session_generation_advance owner)"

end
