(* ===== verification/Session_Connect.thy ===== *)
theory Session_Connect
  imports Session_Owner
begin

text \<open>
  CONNECT, reconnect, DISCONNECT and the end of a connection for the session owner of
  \<open>flowie/src/flowie_session.c\<close>, with the will message and the session expiry interval.
\<close>

section \<open>Properties of CONNECT\<close>

text \<open>The search for an integer property that may occur once.\<close>

function property_integer_loop ::
    "utf8_next \<Rightarrow> u32 \<Rightarrow> flowie_mqtt_property_iterator \<Rightarrow> u32 option \<Rightarrow> salts_error + u32 option" where
  "property_integer_loop un identifier iterator found =
     (case flowie_mqtt_property_iterator_next un iterator of
        Inr (property, iterator') \<Rightarrow>
          if pr_identifier property \<noteq> identifier then property_integer_loop un identifier iterator' found
          else if found \<noteq> None then Inl SALTS_EPROTO
          else property_integer_loop un identifier iterator' (Some (pr_integer property))
      | Inl rc \<Rightarrow> if rc = FLOWIE_MQTT_PARSE_NEED_MORE then Inr found else Inl SALTS_EPROTO)"
  by pat_completeness auto
termination
  by (relation "measure (\<lambda>(un, identifier, iterator, found). iterator_left iterator)")
     (auto dest!: property_iterator_next_shorter)

declare property_integer_loop.simps [simp del]

definition property_integer ::
    "utf8_next \<Rightarrow> u32 \<Rightarrow> flowie_mqtt_property_block_view \<Rightarrow> salts_error + u32 option" where
  "property_integer un identifier block =
     rbind (map_error (\<lambda>_. SALTS_EPROTO) (flowie_mqtt_property_iterator_init block)) (\<lambda>iterator.
       property_integer_loop un identifier iterator None)"

definition flowie_session_will_delay :: "utf8_next \<Rightarrow> flowie_mqtt_connect_view \<Rightarrow> salts_error + u32" where
  "flowie_session_will_delay un connect =
     (if cv_version connect \<noteq> FLOWIE_MQTT_VERSION_5 \<or> span_size (pb_values (cv_will_properties connect)) = 0
      then Inr 0
      else rbind (property_integer un FLOWIE_MQTT_PROPERTY_WILL_DELAY_INTERVAL (cv_will_properties connect))
             (\<lambda>found. Inr (case found of None \<Rightarrow> 0 | Some v \<Rightarrow> v)))"

definition flowie_session_expiry :: "utf8_next \<Rightarrow> flowie_mqtt_connect_view \<Rightarrow> salts_error + u32" where
  "flowie_session_expiry un connect =
     (if flowie_mqtt_version_is_3x (cv_version connect)
      then Inr (if cv_clean_start connect \<noteq> 0 then 0 else 0xffffffff)
      else if span_size (pb_values (cv_properties connect)) = 0 then Inr 0
      else rbind (property_integer un FLOWIE_MQTT_PROPERTY_SESSION_EXPIRY_INTERVAL (cv_properties connect))
             (\<lambda>found. Inr (case found of None \<Rightarrow> 0 | Some v \<Rightarrow> v)))"

section \<open>Opening\<close>

text \<open>The checks that come before any change, with the expiry interval as their result.\<close>

definition open_checks ::
    "utf8_next \<Rightarrow> flowie_mqtt_connect_view \<Rightarrow> bool \<Rightarrow> flowie_session_owner \<Rightarrow> salts_error + u32" where
  "open_checks un connect allow_active owner =
     (if \<not> flowie_mqtt_version_is_supported (cv_version connect) \<or>
         (span_null (cv_client_id connect) \<and> span_size (cv_client_id connect) \<noteq> 0) then Inl SALTS_EINVAL
      else if so_active owner \<and> \<not> allow_active then Inl SALTS_EALREADY
      else if span_size (cv_client_id connect) = 0 then Inl SALTS_ENOTSUP
      else if span_size (cv_client_id connect) > 65535 then Inl SALTS_EMSGSIZE
      else if \<not> flowie_mqtt_utf8_validate un (cv_client_id connect) then Inl SALTS_EPROTO
      else if so_initialized owner \<and> so_client_id owner \<noteq> Some (span_bytes (cv_client_id connect))
      then Inl SALTS_EPROTO
      else if so_initialized owner \<and> so_version owner \<noteq> cv_version connect \<and> cv_clean_start connect = 0
      then Inl SALTS_EPROTO
      else if so_session_generation owner = UINT64_MAX \<or> so_resource_generation owner = UINT64_MAX
      then Inl SALTS_ERANGE
      else flowie_session_expiry un connect)"

definition clean_start_clear :: "flowie_session_owner \<Rightarrow> flowie_session_owner" where
  "clean_start_clear owner =
     flowie_session_deliveries_clear (flowie_session_inflight_clear False (flowie_session_subscriptions_clear owner))"

definition open_will ::
    "flowie_mqtt_connect_view \<Rightarrow> u32 \<Rightarrow> flowie_session_owner \<Rightarrow> flowie_session_owner" where
  "open_will connect will_delay owner =
     (let owner = flowie_session_will_clear owner in
      if span_size (cv_will_topic connect) \<noteq> 0
      then owner\<lparr>so_will_topic := Some (span_bytes (cv_will_topic connect)),
                 so_will_properties := Some (span_bytes (pb_values (cv_will_properties connect))),
                 so_will_payload := Some (span_bytes (cv_will_payload connect)),
                 so_will_delay_interval := will_delay, so_has_will := True,
                 so_will_qos := cv_will_qos connect, so_will_retain := cv_will_retain connect\<rparr>
      else owner)"

definition flowie_session_owner_open_impl ::
    "utf8_next \<Rightarrow> flowie_mqtt_connect_view \<Rightarrow> bool \<Rightarrow> (flowie_session_owner, unit) op" where
  "flowie_session_owner_open_impl un connect allow_active owner =
     (case open_checks un connect allow_active owner of
        Inl e \<Rightarrow> (Inl e, owner)
      | Inr expiry \<Rightarrow>
          let has_will = span_size (cv_will_topic connect) \<noteq> 0 in
          case (if has_will then flowie_session_will_delay un connect else Inr 0) of
            Inl e \<Rightarrow> (Inl e, owner)
          | Inr will_delay \<Rightarrow>
              obind (session_allocs (if has_will then 3 else 0)) (\<lambda>_.
              obind (session_allocs (if so_initialized owner then 0 else 1)) (\<lambda>_ owner.
                let owner = (if cv_clean_start connect \<noteq> 0 then clean_start_clear owner else owner);
                    owner = (if so_initialized owner then owner
                             else owner\<lparr>so_client_id := Some (span_bytes (cv_client_id connect))\<rparr>);
                    owner = open_will connect will_delay owner
                in (Inr (), owner\<lparr>so_version := cv_version connect, so_keep_alive := cv_keep_alive connect,
                                  so_session_expiry_interval := expiry, so_clean_start := cv_clean_start connect,
                                  so_session_generation := so_session_generation owner + 1,
                                  so_resource_generation := so_resource_generation owner + 1,
                                  so_initialized := True, so_active := True\<rparr>))) owner)"

definition flowie_session_owner_open ::
    "utf8_next \<Rightarrow> flowie_mqtt_connect_view \<Rightarrow> (flowie_session_owner, unit) op" where
  "flowie_session_owner_open un connect = flowie_session_owner_open_impl un connect False"

definition flowie_session_owner_route :: "flowie_session_owner \<Rightarrow> salts_error + flowie_protocol_route" where
  "flowie_session_owner_route owner =
     (if \<not> so_active owner \<or> so_session_generation owner = 0 then Inl SALTS_EBUSY
      else Inr \<lparr>rt_protocol = FLOWIE_PROTOCOL_MQTT, rt_owner_instance_id = sf_owner_instance_id (so_config owner),
                rt_session_id = sf_session_id (so_config owner), rt_session_generation = so_session_generation owner\<rparr>)"

record flowie_session_connect_result =
  cr_accepted :: bool
  cr_close_after_reply :: bool
  cr_session_present :: bool
  cr_route :: "flowie_protocol_route option"
  cr_reply_session_present :: u8
  cr_reply_reason_code :: u8

text \<open>The reply is a CONNACK of the version of the CONNECT; its two variable fields are part of
  the result.\<close>

definition flowie_session_owner_connect_impl ::
    "utf8_next \<Rightarrow> flowie_mqtt_connect_view \<Rightarrow> bool \<Rightarrow> (flowie_session_owner, flowie_session_connect_result) op" where
  "flowie_session_owner_connect_impl un connect allow_active owner =
     (let refused = \<lparr>cr_accepted = False, cr_close_after_reply = True, cr_session_present = False, cr_route = None,
                     cr_reply_session_present = 0, cr_reply_reason_code = 0\<rparr>;
          v5 = (cv_version connect = FLOWIE_MQTT_VERSION_5)
      in case flowie_session_owner_open_impl un connect allow_active owner of
           (Inr u, owner') \<Rightarrow>
             let session_present = (so_initialized owner \<and> cv_clean_start connect = 0) in
             (case flowie_session_owner_route owner' of
                Inl e \<Rightarrow> (Inl e, owner')
              | Inr route \<Rightarrow>
                  (Inr \<lparr>cr_accepted = True, cr_close_after_reply = False, cr_session_present = session_present,
                        cr_route = Some route,
                        cr_reply_session_present = (if cv_version connect = FLOWIE_MQTT_VERSION_3_1 then 0
                                                    else if session_present then 1 else 0),
                        cr_reply_reason_code = 0\<rparr>, owner'))
         | (Inl e, owner') \<Rightarrow>
             if e = SALTS_ENOTSUP
             then (Inr (refused\<lparr>cr_reply_reason_code := if v5 then 0x85 else 0x02\<rparr>), owner')
             else if e = SALTS_EALREADY
             then (Inr (refused\<lparr>cr_reply_reason_code := if v5 then 0x89 else 0x03\<rparr>), owner')
             else (Inl e, owner'))"

definition flowie_session_owner_connect ::
    "utf8_next \<Rightarrow> flowie_mqtt_connect_view \<Rightarrow> (flowie_session_owner, flowie_session_connect_result) op" where
  "flowie_session_owner_connect un connect = flowie_session_owner_connect_impl un connect False"

definition flowie_session_owner_connect_takeover ::
    "utf8_next \<Rightarrow> flowie_mqtt_connect_view \<Rightarrow> (flowie_session_owner, flowie_session_connect_result) op" where
  "flowie_session_owner_connect_takeover un connect = flowie_session_owner_connect_impl un connect True"

section \<open>Closing\<close>

definition flowie_session_owner_close :: "(flowie_session_owner, unit) op" where
  "flowie_session_owner_close owner =
     (if \<not> so_active owner then (Inl SALTS_EALREADY, owner)
      else obind flowie_session_generation_advance (\<lambda>_ owner.
        let owner = owner\<lparr>so_active := False, so_will_pending := so_has_will owner \<or> so_will_pending owner\<rparr> in
        (Inr (), if so_session_expiry_interval owner = 0 then clean_start_clear owner
                 else flowie_session_inflight_clear True owner)) owner)"

definition disconnect_expiry ::
    "utf8_next \<Rightarrow> flowie_mqtt_control_packet_view \<Rightarrow> flowie_session_owner \<Rightarrow> salts_error + u32 option \<times> bool" where
  "disconnect_expiry un disconnect owner =
     (if ct_version disconnect \<noteq> FLOWIE_MQTT_VERSION_5 then Inr (None, False)
      else rbind (property_integer un FLOWIE_MQTT_PROPERTY_SESSION_EXPIRY_INTERVAL (ct_properties disconnect))
        (\<lambda>found. case found of
           None \<Rightarrow> Inr (None, False)
         | Some expiry \<Rightarrow>
             if expiry = so_session_expiry_interval owner then Inr (found, False)
             else if so_session_expiry_interval owner = 0 \<and> expiry \<noteq> 0 then Inl SALTS_EPROTO
             else Inr (found, True)))"

definition flowie_session_owner_disconnect ::
    "utf8_next \<Rightarrow> flowie_mqtt_control_packet_view \<Rightarrow> (flowie_session_owner, unit) op" where
  "flowie_session_owner_disconnect un disconnect owner =
     (if ct_type disconnect \<noteq> FLOWIE_MQTT_PACKET_DISCONNECT \<or> ct_version disconnect \<noteq> so_version owner
      then (Inl SALTS_EINVAL, owner)
      else if \<not> so_active owner then (Inl SALTS_EBUSY, owner)
      else case disconnect_expiry un disconnect owner of
        Inl e \<Rightarrow> (Inl e, owner)
      | Inr (found, changed) \<Rightarrow>
          let clear = (ct_reason_code disconnect \<noteq> 0x04 \<and> so_has_will owner) in
          if \<not> changed \<and> \<not> clear then (Inr (), owner)
          else if so_resource_generation owner = UINT64_MAX then (Inl SALTS_ERANGE, owner)
          else let owner = (case found of None \<Rightarrow> owner
                            | Some expiry \<Rightarrow> owner\<lparr>so_session_expiry_interval := expiry\<rparr>);
                   owner = (if clear then flowie_session_will_clear owner else owner)
               in (Inr (), owner\<lparr>so_resource_generation := so_resource_generation owner + 1\<rparr>))"

definition flowie_session_owner_will_complete :: "(flowie_session_owner, unit) op" where
  "flowie_session_owner_will_complete owner =
     (if \<not> so_has_will owner \<or> \<not> so_will_pending owner then (Inl SALTS_ENOENT, owner)
      else if so_resource_generation owner = UINT64_MAX then (Inl SALTS_ERANGE, owner)
      else let owner = flowie_session_will_clear owner in
           (Inr (), owner\<lparr>so_resource_generation := so_resource_generation owner + 1\<rparr>))"

end
