(* ===== verification/Session_Delivery.thy ===== *)
theory Session_Delivery
  imports Session_Connect Mqtt_Framing
begin

text \<open>
  The outbound deliveries of a session, \<open>flowie/src/flowie_session.c\<close>: reservation of a packet
  identifier, commit of the encoded PUBLISH, retransmission, acknowledgement and expiry.
\<close>

section \<open>Validity of a stored delivery\<close>

definition packet_options :: "flowie_mqtt_version \<Rightarrow> nat \<Rightarrow> flowie_mqtt_parse_options" where
  "packet_options version limit = \<lparr>po_version = version, po_max_packet_size = limit\<rparr>"

text \<open>A packet that must fill the given bytes; the parser's own allocation is not a fault of the
  owner and always succeeds here.\<close>

definition whole_packet_parse :: "flowie_mqtt_version \<Rightarrow> bytes \<Rightarrow> flowie_mqtt_packet_view option" where
  "whole_packet_parse version packet =
     (case flowie_mqtt_packet_parse True (Span packet) (Some (packet_options version (length packet))) of
        Inl e \<Rightarrow> None
      | Inr (view, consumed) \<Rightarrow> if consumed \<noteq> length packet then None else Some view)"

definition pubrel_delivery_ok :: "utf8_next \<Rightarrow> flowie_session_delivery \<Rightarrow> flowie_mqtt_packet_view \<Rightarrow> bool" where
  "pubrel_delivery_ok un delivery packet \<longleftrightarrow>
     dl_qos delivery = 2 \<and> pv_type packet = FLOWIE_MQTT_PACKET_PUBREL \<and>
     (case flowie_mqtt_control_packet_parse un packet of
        Inl e \<Rightarrow> False
      | Inr control \<Rightarrow> ct_packet_id control = dl_packet_id delivery) \<and>
     dl_expiry_at delivery = 0"

definition publish_delivery_ok ::
    "utf8_next \<Rightarrow> flowie_mqtt_version \<Rightarrow> flowie_session_delivery \<Rightarrow> flowie_mqtt_packet_view \<Rightarrow> bool" where
  "publish_delivery_ok un version delivery packet \<longleftrightarrow>
     pv_type packet = FLOWIE_MQTT_PACKET_PUBLISH \<and>
     (case flowie_mqtt_publish_parse un packet of
        Inl e \<Rightarrow> False
      | Inr publish \<Rightarrow>
          pu_packet_id publish = dl_packet_id delivery \<and> pu_qos publish = dl_qos delivery \<and>
          (dl_state delivery = FLOWIE_SESSION_DELIVERY_WAIT_ACK \<longrightarrow> dl_qos delivery = 1) \<and>
          (dl_state delivery = FLOWIE_SESSION_DELIVERY_WAIT_PUBREC \<longrightarrow> dl_qos delivery = 2) \<and>
          (dl_state delivery = FLOWIE_SESSION_DELIVERY_QUEUED \<longrightarrow> dl_qos delivery \<noteq> 0 \<and> dl_qos delivery \<le> 2) \<and>
          (dl_expiry_at delivery = 0 \<or> flowie_mqtt_version_is_3x version \<or>
           (version = FLOWIE_MQTT_VERSION_5 \<and>
            (case property_integer un FLOWIE_MQTT_PROPERTY_MESSAGE_EXPIRY_INTERVAL (pu_properties publish) of
               Inr (Some interval) \<Rightarrow> True
             | _ \<Rightarrow> False))))"

definition flowie_session_record_delivery_validate ::
    "utf8_next \<Rightarrow> flowie_mqtt_version \<Rightarrow> flowie_session_delivery \<Rightarrow> salts_error + unit" where
  "flowie_session_record_delivery_validate un version delivery =
     (case dl_packet delivery of
        None \<Rightarrow> Inl SALTS_EPROTO
      | Some bytes \<Rightarrow>
          (case whole_packet_parse version bytes of
             None \<Rightarrow> Inl SALTS_EPROTO
           | Some packet \<Rightarrow>
               if dl_state delivery = FLOWIE_SESSION_DELIVERY_WAIT_PUBCOMP
               then (if pubrel_delivery_ok un delivery packet then Inr () else Inl SALTS_EPROTO)
               else (if publish_delivery_ok un version delivery packet then Inr () else Inl SALTS_EPROTO)))"

section \<open>Reservation and commit\<close>

definition next_packet_id :: "u16 \<Rightarrow> u16" where
  "next_packet_id candidate = (if candidate = 65535 then 1 else candidate + 1)"

fun reserve_loop :: "nat \<Rightarrow> u16 \<Rightarrow> flowie_session_owner \<Rightarrow> salts_error + u16" where
  "reserve_loop 0 candidate owner = Inl SALTS_ENOSPC"
| "reserve_loop (Suc attempts) candidate owner =
     (let candidate = next_packet_id candidate in
      case flowie_session_delivery_lookup candidate owner of
        Inl e \<Rightarrow> if e = SALTS_ENOENT then Inr candidate else Inl e
      | Inr found \<Rightarrow> reserve_loop attempts candidate owner)"

definition flowie_session_owner_delivery_reserve :: "u8 \<Rightarrow> (flowie_session_owner, u16) op" where
  "flowie_session_owner_delivery_reserve qos owner =
     (if qos = 0 \<or> qos > 2 then (Inl SALTS_EINVAL, owner)
      else if \<not> so_active owner \<and> (\<not> so_initialized owner \<or> so_session_expiry_interval owner = 0)
      then (Inl SALTS_EBUSY, owner)
      else if length (so_inflight owner) + length (so_deliveries owner) \<ge> sf_max_inflight (so_config owner)
      then (Inl SALTS_ENOSPC, owner)
      else case reserve_loop 65535 (so_next_delivery_packet_id owner) owner of
        Inl e \<Rightarrow> (Inl e, owner)
      | Inr candidate \<Rightarrow>
          obind (flowie_session_delivery_append
                   \<lparr>dl_packet_id = candidate, dl_qos = qos, dl_state = FLOWIE_SESSION_DELIVERY_RESERVED,
                    dl_expiry_at = 0, dl_packet = None\<rparr>)
            (\<lambda>_ owner. (Inr candidate, owner\<lparr>so_next_delivery_packet_id := candidate\<rparr>)) owner)"

definition sent_state :: "u8 \<Rightarrow> flowie_session_delivery_state" where
  "sent_state qos = (if qos = 1 then FLOWIE_SESSION_DELIVERY_WAIT_ACK else FLOWIE_SESSION_DELIVERY_WAIT_PUBREC)"

definition delivery_write :: "nat \<Rightarrow> flowie_session_delivery \<Rightarrow> flowie_session_owner \<Rightarrow> flowie_session_owner" where
  "delivery_write index delivery owner = owner\<lparr>so_deliveries := (so_deliveries owner)[index := delivery]\<rparr>"

definition flowie_session_owner_delivery_commit_state ::
    "utf8_next \<Rightarrow> u16 \<Rightarrow> flowie_mqtt_span \<Rightarrow> u64 \<Rightarrow> bool \<Rightarrow> (flowie_session_owner, unit) op" where
  "flowie_session_owner_delivery_commit_state un packet_id packet expiry queued owner =
     (if span_null packet \<or> span_size packet = 0 then (Inl SALTS_EINVAL, owner)
      else case flowie_session_delivery_lookup packet_id owner of
        Inl e \<Rightarrow> (Inl e, owner)
      | Inr (index, delivery) \<Rightarrow>
          if dl_state delivery \<noteq> FLOWIE_SESSION_DELIVERY_RESERVED \<or> dl_packet delivery \<noteq> None
          then (Inl SALTS_EALREADY, owner)
          else obind (session_allocs 1) (\<lambda>_ owner.
            let committed = delivery\<lparr>dl_packet := Some (span_bytes packet), dl_expiry_at := expiry,
                              dl_state := if queued then FLOWIE_SESSION_DELIVERY_QUEUED
                                          else sent_state (dl_qos delivery)\<rparr>;
                undone = delivery_write index
                  (delivery\<lparr>dl_packet := None, dl_expiry_at := 0, dl_state := FLOWIE_SESSION_DELIVERY_RESERVED\<rparr>) owner
            in if expiry \<noteq> 0 \<and> flowie_session_record_delivery_validate un (so_version owner) committed \<noteq> Inr ()
               then (Inl SALTS_EPROTO, undone)
               else if so_resource_generation owner = UINT64_MAX then (Inl SALTS_ERANGE, undone)
               else (Inr (), (delivery_write index committed owner)
                       \<lparr>so_resource_generation := so_resource_generation owner + 1\<rparr>)) owner)"

definition flowie_session_owner_delivery_commit ::
    "utf8_next \<Rightarrow> u16 \<Rightarrow> flowie_mqtt_span \<Rightarrow> u64 \<Rightarrow> (flowie_session_owner, unit) op" where
  "flowie_session_owner_delivery_commit un packet_id packet expiry =
     flowie_session_owner_delivery_commit_state un packet_id packet expiry False"

definition flowie_session_owner_delivery_commit_queued ::
    "utf8_next \<Rightarrow> u16 \<Rightarrow> flowie_mqtt_span \<Rightarrow> u64 \<Rightarrow> (flowie_session_owner, unit) op" where
  "flowie_session_owner_delivery_commit_queued un packet_id packet expiry =
     flowie_session_owner_delivery_commit_state un packet_id packet expiry True"

definition flowie_session_owner_delivery_cancel :: "u16 \<Rightarrow> (flowie_session_owner, unit) op" where
  "flowie_session_owner_delivery_cancel packet_id owner =
     (case flowie_session_delivery_lookup packet_id owner of
        Inl e \<Rightarrow> (Inl e, owner)
      | Inr (index, delivery) \<Rightarrow> obind (flowie_session_delivery_remove_at index) (\<lambda>_. oret ()) owner)"

section \<open>Expiry\<close>

definition delivery_expired :: "u64 \<Rightarrow> flowie_session_delivery \<Rightarrow> bool" where
  "delivery_expired now delivery \<longleftrightarrow> dl_expiry_at delivery \<noteq> 0 \<and> dl_expiry_at delivery \<le> now"

function expire_loop :: "u64 \<Rightarrow> nat \<Rightarrow> (flowie_session_owner, unit) op" where
  "expire_loop now index owner =
     (if \<not> index < length (so_deliveries owner) then (Inr (), owner)
      else if \<not> delivery_expired now (so_deliveries owner ! index) then expire_loop now (index + 1) owner
      else case flowie_session_delivery_remove_at index owner of
             (Inl e, owner') \<Rightarrow> (Inl e, owner')
           | (Inr removed, owner') \<Rightarrow> expire_loop now index owner')"
  by pat_completeness auto

lemma remove_at_shorter:
  "flowie_session_delivery_remove_at index owner = (Inr removed, owner') \<Longrightarrow>
     length (so_deliveries owner') = length (so_deliveries owner) - 1 \<and> index < length (so_deliveries owner)"
  by (auto simp: flowie_session_delivery_remove_at_def Let_def split: if_splits)

termination expire_loop
  by (relation "measure (\<lambda>(now, index, owner). length (so_deliveries owner) - index)")
     (auto dest!: remove_at_shorter [OF sym])

declare expire_loop.simps [simp del]

definition flowie_session_owner_delivery_expire :: "u64 \<Rightarrow> (flowie_session_owner, nat) op" where
  "flowie_session_owner_delivery_expire now owner =
     (if now = 0 then (Inl SALTS_EINVAL, owner)
      else let total = length (filter (delivery_expired now) (so_deliveries owner)) in
           if total = 0 then (Inr 0, owner)
           else if so_resource_generation owner = UINT64_MAX then (Inl SALTS_ERANGE, owner)
           else obind (expire_loop now 0) (\<lambda>_ owner.
                  (Inr total, owner\<lparr>so_resource_generation := so_resource_generation owner + 1\<rparr>)) owner)"

definition flowie_session_owner_delivery_expire_packet :: "u16 \<Rightarrow> u64 \<Rightarrow> (flowie_session_owner, bool) op" where
  "flowie_session_owner_delivery_expire_packet packet_id now owner =
     (if packet_id = 0 \<or> now = 0 then (Inl SALTS_EINVAL, owner)
      else case flowie_session_delivery_lookup packet_id owner of
        Inl e \<Rightarrow> (Inl e, owner)
      | Inr (index, delivery) \<Rightarrow>
          if \<not> delivery_expired now delivery then (Inr False, owner)
          else if so_resource_generation owner = UINT64_MAX then (Inl SALTS_ERANGE, owner)
          else obind (flowie_session_delivery_remove_at index) (\<lambda>_ owner.
                 (Inr True, owner\<lparr>so_resource_generation := so_resource_generation owner + 1\<rparr>)) owner)"

section \<open>Retransmission\<close>

text \<open>
  The refresh of the Message Expiry Interval overwrites the last four bytes of the property in
  the packet itself. The property values end where the payload begins, so the position of the
  cursor in the packet follows from the bytes that are left.
\<close>

definition overwrite :: "nat \<Rightarrow> bytes \<Rightarrow> bytes \<Rightarrow> bytes" where
  "overwrite offset v packet = take offset packet @ v @ drop (offset + length v) packet"

definition remaining_interval :: "u64 \<Rightarrow> u64 \<Rightarrow> u32" where
  "remaining_interval expiry now =
     (let remaining = expiry - now in if remaining > 0xffffffff then 0xffffffff else ucast remaining)"

definition interval_bytes :: "u32 \<Rightarrow> bytes" where
  "interval_bytes interval = [ucast (drop_bit 24 interval), ucast (drop_bit 16 interval),
                              ucast (drop_bit 8 interval), ucast interval]"

function expiry_refresh_loop ::
    "utf8_next \<Rightarrow> u32 \<Rightarrow> nat \<Rightarrow> flowie_mqtt_property_iterator \<Rightarrow> bool \<Rightarrow> bytes \<Rightarrow> (salts_error + unit) \<times> bytes" where
  "expiry_refresh_loop un interval payload_size iterator found packet =
     (case flowie_mqtt_property_iterator_next un iterator of
        Inl rc \<Rightarrow>
          (if rc \<noteq> FLOWIE_MQTT_PARSE_NEED_MORE \<or> \<not> found then Inl SALTS_EPROTO else Inr (), packet)
      | Inr (property, iterator') \<Rightarrow>
          if pr_identifier property \<noteq> FLOWIE_MQTT_PROPERTY_MESSAGE_EXPIRY_INTERVAL
          then expiry_refresh_loop un interval payload_size iterator' found packet
          else let property_size = iterator_left iterator - iterator_left iterator';
                   cursor = length packet - payload_size - iterator_left iterator'
               in if found \<or> property_size < 4 then (Inl SALTS_EPROTO, packet)
                  else expiry_refresh_loop un interval payload_size iterator' True
                         (overwrite (cursor - 4) (interval_bytes interval) packet))"
  by pat_completeness auto
termination
  by (relation "measure (\<lambda>(un, interval, payload_size, iterator, found, packet). iterator_left iterator)")
     (auto dest!: property_iterator_next_shorter)

declare expiry_refresh_loop.simps [simp del]

definition flowie_session_delivery_packet_expiry_refresh ::
    "utf8_next \<Rightarrow> flowie_mqtt_version \<Rightarrow> bytes \<Rightarrow> u64 \<Rightarrow> u64 \<Rightarrow> (salts_error + unit) \<times> bytes" where
  "flowie_session_delivery_packet_expiry_refresh un version packet expiry now =
     (if packet = [] \<or> expiry = 0 \<or> now = 0 \<or> expiry \<le> now \<or> version \<noteq> FLOWIE_MQTT_VERSION_5
      then (Inl SALTS_EINVAL, packet)
      else case whole_packet_parse version packet of
        None \<Rightarrow> (Inl SALTS_EPROTO, packet)
      | Some view \<Rightarrow>
          (case flowie_mqtt_publish_parse un view of
             Inl e \<Rightarrow> (Inl SALTS_EPROTO, packet)
           | Inr publish \<Rightarrow>
               (case flowie_mqtt_property_iterator_init (pu_properties publish) of
                  Inl e \<Rightarrow> (Inl SALTS_EPROTO, packet)
                | Inr iterator \<Rightarrow>
                    expiry_refresh_loop un (remaining_interval expiry now) (span_size (pu_payload publish))
                      iterator False packet)))"

definition pending_refresh ::
    "utf8_next \<Rightarrow> u64 \<Rightarrow> flowie_mqtt_version \<Rightarrow> bytes \<Rightarrow> flowie_session_delivery \<Rightarrow> (salts_error + unit) \<times> bytes" where
  "pending_refresh un now version packet delivery =
     (if dl_expiry_at delivery = 0 then (Inr (), packet)
      else if now = 0 \<or> dl_expiry_at delivery \<le> now then (Inl SALTS_EBUSY, packet)
      else if version = FLOWIE_MQTT_VERSION_5
      then flowie_session_delivery_packet_expiry_refresh un version packet (dl_expiry_at delivery) now
      else if \<not> flowie_mqtt_version_is_3x version then (Inl SALTS_EPROTO, packet)
      else (Inr (), packet))"

text \<open>A first send leaves the queue, a retransmission of a PUBLISH sets the duplicate flag.\<close>

definition pending_sent :: "bytes \<Rightarrow> flowie_session_delivery \<Rightarrow> flowie_session_delivery" where
  "pending_sent packet delivery =
     (if dl_state delivery = FLOWIE_SESSION_DELIVERY_QUEUED
      then delivery\<lparr>dl_state := sent_state (dl_qos delivery), dl_packet := Some packet\<rparr>
      else if (dl_state delivery = FLOWIE_SESSION_DELIVERY_WAIT_ACK \<or>
               dl_state delivery = FLOWIE_SESSION_DELIVERY_WAIT_PUBREC) \<and>
              packet \<noteq> [] \<and> drop_bit 4 (hd packet) = 3
      then delivery\<lparr>dl_packet := Some ((hd packet OR 0x08) # tl packet)\<rparr>
      else delivery\<lparr>dl_packet := Some packet\<rparr>)"

definition flowie_session_owner_delivery_pending_at_ex ::
    "utf8_next \<Rightarrow> nat \<Rightarrow> u64 \<Rightarrow> (flowie_session_owner, bytes \<times> u16 \<times> u64) op" where
  "flowie_session_owner_delivery_pending_at_ex un index now owner =
     (if \<not> index < length (so_deliveries owner) then (Inl SALTS_ENOENT, owner)
      else let delivery = so_deliveries owner ! index in
      case dl_packet delivery of
        None \<Rightarrow> (Inl SALTS_ENOENT, owner)
      | Some packet \<Rightarrow>
          if dl_state delivery = FLOWIE_SESSION_DELIVERY_RESERVED then (Inl SALTS_ENOENT, owner)
          else case pending_refresh un now (so_version owner) packet delivery of
            (Inl e, packet') \<Rightarrow> (Inl e, delivery_write index (delivery\<lparr>dl_packet := Some packet'\<rparr>) owner)
          | (Inr u, packet') \<Rightarrow>
              let sent = pending_sent packet' delivery in
              (Inr (the (dl_packet sent), dl_packet_id delivery, dl_expiry_at delivery),
               delivery_write index sent owner))"

definition flowie_session_owner_delivery_pending_at :: "utf8_next \<Rightarrow> nat \<Rightarrow> (flowie_session_owner, bytes) op" where
  "flowie_session_owner_delivery_pending_at un index owner =
     (if \<not> index < length (so_deliveries owner) then (Inl SALTS_ENOENT, owner)
      else if dl_expiry_at (so_deliveries owner ! index) \<noteq> 0 then (Inl SALTS_EBUSY, owner)
      else obind (flowie_session_owner_delivery_pending_at_ex un index 0) (\<lambda>(packet, packet_id, expiry). oret packet) owner)"

section \<open>Acknowledgement\<close>

datatype flowie_session_ack_kind =
    FLOWIE_SESSION_ACK_NONE | FLOWIE_SESSION_ACK_PUBACK | FLOWIE_SESSION_ACK_PUBREC
  | FLOWIE_SESSION_ACK_PUBREL | FLOWIE_SESSION_ACK_PUBCOMP

record flowie_session_ack_intent =
  ak_kind :: flowie_session_ack_kind
  ak_packet_id :: u16
  ak_reason_code :: u8

definition FLOWIE_SESSION_ACK_INTENT_INIT :: flowie_session_ack_intent where
  "FLOWIE_SESSION_ACK_INTENT_INIT = \<lparr>ak_kind = FLOWIE_SESSION_ACK_NONE, ak_packet_id = 0, ak_reason_code = 0\<rparr>"

definition flowie_session_ack :: "flowie_session_ack_kind \<Rightarrow> u16 \<Rightarrow> flowie_session_ack_intent" where
  "flowie_session_ack kind packet_id =
     FLOWIE_SESSION_ACK_INTENT_INIT\<lparr>ak_kind := kind, ak_packet_id := packet_id\<rparr>"

definition ack_settled :: "nat \<Rightarrow> (flowie_session_owner, flowie_session_ack_intent) op" where
  "ack_settled index owner =
     (if so_resource_generation owner = UINT64_MAX then (Inl SALTS_ERANGE, owner)
      else obind (flowie_session_delivery_remove_at index) (\<lambda>_ owner.
             (Inr FLOWIE_SESSION_ACK_INTENT_INIT,
              owner\<lparr>so_resource_generation := so_resource_generation owner + 1\<rparr>)) owner)"

text \<open>The PUBREL that takes the place of an acknowledged QoS 2 PUBLISH.\<close>

definition pubrel_packet :: "flowie_mqtt_version \<Rightarrow> u16 \<Rightarrow> flowie_mqtt_control_packet" where
  "pubrel_packet version packet_id =
     \<lparr>kp_version = version, kp_type = FLOWIE_MQTT_PACKET_PUBREL, kp_session_present = 0, kp_packet_id = packet_id,
      kp_reason_code = 0, kp_properties = NullSpan 0, kp_reason_codes = NullSpan 0\<rparr>"

definition ack_received ::
    "utf8_next \<Rightarrow> nat \<Rightarrow> flowie_session_delivery \<Rightarrow> (flowie_session_owner, flowie_session_ack_intent) op" where
  "ack_received un index delivery owner =
     obind (\<lambda>owner.
         if dl_state delivery \<noteq> FLOWIE_SESSION_DELIVERY_WAIT_PUBREC then (Inr (), owner)
         else if so_resource_generation owner = UINT64_MAX then (Inl SALTS_ERANGE, owner)
         else case flowie_mqtt_control_packet_encode un (pubrel_packet (so_version owner) (dl_packet_id delivery)) 32 of
           Inl e \<Rightarrow> (Inl SALTS_EPROTO, owner)
         | Inr encoded \<Rightarrow>
             obind (session_allocs 1) (\<lambda>_ owner.
               (Inr (), delivery_write index
                  (delivery\<lparr>dl_packet := Some encoded, dl_state := FLOWIE_SESSION_DELIVERY_WAIT_PUBCOMP,
                            dl_expiry_at := 0\<rparr>) owner)) owner)
       (\<lambda>_ owner.
         if so_resource_generation owner = UINT64_MAX then (Inl SALTS_ERANGE, owner)
         else (Inr (flowie_session_ack FLOWIE_SESSION_ACK_PUBREL (dl_packet_id delivery)),
               owner\<lparr>so_resource_generation := so_resource_generation owner + 1\<rparr>)) owner"

definition flowie_session_owner_delivery_ack ::
    "utf8_next \<Rightarrow> flowie_mqtt_packet_view \<Rightarrow> (flowie_session_owner, flowie_session_ack_intent) op" where
  "flowie_session_owner_delivery_ack un packet owner =
     (if \<not> so_active owner \<or> pv_version packet \<noteq> so_version owner then (Inl SALTS_EBUSY, owner)
      else if pv_type packet \<noteq> FLOWIE_MQTT_PACKET_PUBACK \<and> pv_type packet \<noteq> FLOWIE_MQTT_PACKET_PUBREC \<and>
              pv_type packet \<noteq> FLOWIE_MQTT_PACKET_PUBCOMP then (Inl SALTS_EPROTO, owner)
      else case flowie_mqtt_control_packet_parse un packet of
        Inl e \<Rightarrow> (Inl SALTS_EPROTO, owner)
      | Inr control \<Rightarrow>
          (case flowie_session_delivery_lookup (ct_packet_id control) owner of
             Inl e \<Rightarrow> (Inl e, owner)
           | Inr (index, delivery) \<Rightarrow>
               if dl_state delivery = FLOWIE_SESSION_DELIVERY_RESERVED then (Inl SALTS_ENOENT, owner)
               else if pv_type packet = FLOWIE_MQTT_PACKET_PUBACK then
                 (if dl_qos delivery \<noteq> 1 \<or> dl_state delivery \<noteq> FLOWIE_SESSION_DELIVERY_WAIT_ACK
                  then (Inl SALTS_EPROTO, owner) else ack_settled index owner)
               else if pv_type packet = FLOWIE_MQTT_PACKET_PUBREC then
                 (if dl_qos delivery \<noteq> 2 \<or> (dl_state delivery \<noteq> FLOWIE_SESSION_DELIVERY_WAIT_PUBREC \<and>
                                             dl_state delivery \<noteq> FLOWIE_SESSION_DELIVERY_WAIT_PUBCOMP)
                  then (Inl SALTS_EPROTO, owner)
                  else if ct_reason_code control < 0x80 then ack_received un index delivery owner
                  else ack_settled index owner)
               else (if dl_qos delivery \<noteq> 2 \<or> dl_state delivery \<noteq> FLOWIE_SESSION_DELIVERY_WAIT_PUBCOMP
                     then (Inl SALTS_EPROTO, owner) else ack_settled index owner)))"

definition flowie_session_ack_control_packet ::
    "flowie_session_ack_intent \<Rightarrow> flowie_mqtt_version \<Rightarrow> salts_error + flowie_mqtt_control_packet" where
  "flowie_session_ack_control_packet ack version =
     (if ak_packet_id ack = 0 \<or> \<not> flowie_mqtt_version_is_supported version then Inl SALTS_EINVAL
      else rbind (case ak_kind ack of
               FLOWIE_SESSION_ACK_PUBACK \<Rightarrow> Inr FLOWIE_MQTT_PACKET_PUBACK
             | FLOWIE_SESSION_ACK_PUBREC \<Rightarrow> Inr FLOWIE_MQTT_PACKET_PUBREC
             | FLOWIE_SESSION_ACK_PUBREL \<Rightarrow> Inr FLOWIE_MQTT_PACKET_PUBREL
             | FLOWIE_SESSION_ACK_PUBCOMP \<Rightarrow> Inr FLOWIE_MQTT_PACKET_PUBCOMP
             | FLOWIE_SESSION_ACK_NONE \<Rightarrow> Inl SALTS_EPROTO) (\<lambda>type.
           if flowie_mqtt_version_is_3x version \<and> ak_reason_code ack \<noteq> 0 then Inl SALTS_EPROTO
           else Inr \<lparr>kp_version = version, kp_type = type, kp_session_present = 0, kp_packet_id = ak_packet_id ack,
                     kp_reason_code = ak_reason_code ack, kp_properties = NullSpan 0, kp_reason_codes = NullSpan 0\<rparr>))"

end
