(* ===== verification/Session_Table.thy ===== *)
theory Session_Table
  imports Session_Delivery
begin

text \<open>
  The table of outbound deliveries as a finite map. The vector and its derived index agree,
  \<open>table_ok\<close>, and under that agreement the operations of \<open>flowie/src/flowie_session.c\<close> on the
  table are the operations of a map from packet identifiers to deliveries. The locale states
  what the operations of a session rely on; its interpretation discharges it for the vector
  with swap removal.
\<close>

section \<open>Allocation\<close>

lemma session_attempt_frame:
  "session_attempt s = (r, s') \<Longrightarrow> s' = s\<lparr>so_faults := tl (so_faults s)\<rparr>"
  by (cases "so_faults s") (auto simp: session_attempt_def)

lemma session_allocs_frame:
  "session_allocs n s = (r, s') \<Longrightarrow> s' = s\<lparr>so_faults := drop n (so_faults s)\<rparr>"
proof (induction n arbitrary: s r s')
  case (Suc n)
  obtain r1 r2 where "session_attempt s = (r1, s\<lparr>so_faults := tl (so_faults s)\<rparr>)"
    and rest: "session_allocs n (s\<lparr>so_faults := tl (so_faults s)\<rparr>) = (r2, s')"
    using Suc.prems by (auto simp: session_allocs.simps dest: session_attempt_frame split: prod.splits)
  show ?case using Suc.IH [OF rest] by (simp add: drop_Suc)
qed (simp add: session_allocs.simps)

lemma session_attempt_no_faults [op_simps]: "so_faults s = [] \<Longrightarrow> session_attempt s = (Inr (), s)"
  by (simp add: session_attempt_def)

lemma session_allocs_no_faults [op_simps]: "so_faults s = [] \<Longrightarrow> session_allocs n s = (Inr (), s)"
  by (induction n) (simp_all add: session_allocs.simps session_attempt_no_faults is_ok_def)

section \<open>Lists keyed by a field\<close>

text \<open>A vector whose elements carry distinct keys is a finite map; the operations of the vector
  are updates of that map.\<close>

definition keyed_map :: "('e \<Rightarrow> 'k) \<Rightarrow> 'e list \<Rightarrow> 'k \<Rightarrow> 'e option" where
  "keyed_map key xs = map_of (map (\<lambda>e. (key e, e)) xs)"

lemma keyed_map_None: "keyed_map key xs k = None \<longleftrightarrow> k \<notin> key ` set xs"
  by (simp add: keyed_map_def map_of_eq_None_iff image_image)

lemma keyed_map_Some:
  "distinct (map key xs) \<Longrightarrow> keyed_map key xs k = Some e \<longleftrightarrow> e \<in> set xs \<and> key e = k"
  by (auto simp: keyed_map_def map_of_eq_Some_iff comp_def)

lemma keyed_map_Nil [simp]: "keyed_map key [] = Map.empty"
  by (simp add: keyed_map_def)

lemma keyed_map_append:
  "keyed_map key xs (key e) = None \<Longrightarrow> keyed_map key (xs @ [e]) = (keyed_map key xs)(key e \<mapsto> e)"
  by (auto simp: keyed_map_def fun_eq_iff map_add_def split: option.splits)

lemma keyed_map_eqI:
  assumes "distinct (map key ys)" "\<And>k e. e \<in> set ys \<and> key e = k \<longleftrightarrow> m k = Some e"
  shows "keyed_map key ys = m"
proof
  fix k
  have "keyed_map key ys k = Some e \<longleftrightarrow> m k = Some e" for e
    using assms by (simp add: keyed_map_Some)
  then show "keyed_map key ys k = m k" by (metis option.exhaust)
qed

lemma map_key_write: "i < length xs \<Longrightarrow> key e = key (xs ! i) \<Longrightarrow> map key (xs[i := e]) = map key xs"
  by (simp add: map_update list_update_same_conv)

lemma key_unique:
  assumes "distinct (map key xs)" "i < length xs" "x \<in> set xs"
  shows "key x = key (xs ! i) \<longleftrightarrow> x = xs ! i"
proof -
  have "inj_on key (set xs)" using assms(1) by (simp add: distinct_map)
  then show ?thesis using assms(3) nth_mem [OF assms(2)] by (rule inj_on_eq_iff)
qed

lemma set_write:
  assumes "distinct xs" "i < length xs"
  shows "set (xs[i := e]) = insert e (set xs - {xs ! i})"
  using assms by (rule set_update_distinct)

lemma keyed_map_write:
  assumes "distinct (map key xs)" "i < length xs" "key e = key (xs ! i)"
  shows "keyed_map key (xs[i := e]) = (keyed_map key xs)(key e \<mapsto> e)"
proof (rule keyed_map_eqI)
  show "distinct (map key (xs[i := e]))"
    using assms by (simp add: map_key_write)
  have "set (xs[i := e]) = insert e (set xs - {xs ! i})"
    using assms by (intro set_write) (simp_all add: distinct_map)
  then show "x \<in> set (xs[i := e]) \<and> key x = k \<longleftrightarrow> ((keyed_map key xs)(key e \<mapsto> e)) k = Some x" for k x
    using key_unique [OF assms(1,2), of x] assms(3) by (auto simp: keyed_map_Some [OF assms(1)])
qed

lemma distinct_key_remove: "distinct (map key xs) \<Longrightarrow> i < length xs \<Longrightarrow> distinct (map key (swap_remove i xs))"
  by (auto simp: distinct_map distinct_swap_remove set_swap_remove intro: inj_on_subset)

lemma keyed_map_remove:
  assumes "distinct (map key xs)" "i < length xs"
  shows "keyed_map key (swap_remove i xs) = (keyed_map key xs)(key (xs ! i) := None)"
proof (rule keyed_map_eqI)
  show "distinct (map key (swap_remove i xs))"
    using assms by (rule distinct_key_remove)
  have "set (swap_remove i xs) = set xs - {xs ! i}"
    using assms by (simp add: set_swap_remove distinct_map)
  then show "x \<in> set (swap_remove i xs) \<and> key x = k \<longleftrightarrow> ((keyed_map key xs)(key (xs ! i) := None)) k = Some x" for k x
    using key_unique [OF assms, of x] by (auto simp: keyed_map_Some [OF assms(1)])
qed

section \<open>The index agrees with the vector\<close>

lemma last_nth: "i < length xs \<Longrightarrow> last xs = xs ! (length xs - 1)"
  by (rule last_conv_nth) auto

definition table_ok :: "(u16 \<Rightarrow> nat option) \<Rightarrow> flowie_session_delivery list \<Rightarrow> bool" where
  "table_ok index ds \<longleftrightarrow>
     (\<forall>p i. index p = Some i \<longleftrightarrow> i < length ds \<and> dl_packet_id (ds ! i) = p) \<and>
     (\<forall>d \<in> set ds. dl_packet_id d \<noteq> 0)"

abbreviation delivery_table_ok :: "flowie_session_owner \<Rightarrow> bool" where
  "delivery_table_ok s \<equiv> table_ok (so_delivery_index s) (so_deliveries s)"

definition delivery_map :: "flowie_session_owner \<Rightarrow> u16 \<Rightarrow> flowie_session_delivery option" where
  "delivery_map s = keyed_map dl_packet_id (so_deliveries s)"

lemma table_ok_empty [simp]: "table_ok (\<lambda>_. None) []"
  by (simp add: table_ok_def)

lemma table_ok_Some_iff:
  "table_ok index ds \<Longrightarrow> index p = Some i \<longleftrightarrow> i < length ds \<and> dl_packet_id (ds ! i) = p"
  by (simp add: table_ok_def)

lemma table_ok_None_iff: "table_ok index ds \<Longrightarrow> index p = None \<longleftrightarrow> p \<notin> dl_packet_id ` set ds"
proof -
  assume ok: "table_ok index ds"
  have "index p \<noteq> None \<longleftrightarrow> (\<exists>i < length ds. dl_packet_id (ds ! i) = p)"
    by (simp add: table_ok_Some_iff [OF ok])
  then show ?thesis by (metis (no_types, opaque_lifting) imageE image_eqI in_set_conv_nth)
qed

lemma table_ok_nonzero: "table_ok index ds \<Longrightarrow> d \<in> set ds \<Longrightarrow> dl_packet_id d \<noteq> 0"
  by (simp add: table_ok_def)

lemma table_ok_inj:
  "table_ok index ds \<Longrightarrow> i < length ds \<Longrightarrow> j < length ds \<Longrightarrow>
     dl_packet_id (ds ! i) = dl_packet_id (ds ! j) \<longleftrightarrow> i = j"
  by (metis option.inject table_ok_Some_iff)

lemma table_ok_distinct: "table_ok index ds \<Longrightarrow> distinct (map dl_packet_id ds)"
  by (simp add: distinct_conv_nth table_ok_inj)

lemma table_ok_write:
  "table_ok index ds \<Longrightarrow> i < length ds \<Longrightarrow> dl_packet_id d = dl_packet_id (ds ! i) \<Longrightarrow>
     table_ok index (ds[i := d])"
  unfolding table_ok_def by (auto simp: nth_list_update dest!: set_update_subset_insert [THEN subsetD])

lemma table_ok_append:
  "table_ok index ds \<Longrightarrow> dl_packet_id d \<noteq> 0 \<Longrightarrow> index (dl_packet_id d) = None \<Longrightarrow>
     table_ok (index(dl_packet_id d \<mapsto> length ds)) (ds @ [d])"
  unfolding table_ok_def by (auto simp: nth_append less_Suc_eq split: if_splits) (metis option.distinct(1))

text \<open>The index after a removal: the last delivery has moved to the hole.\<close>

definition index_removed ::
    "nat \<Rightarrow> flowie_session_delivery list \<Rightarrow> (u16 \<Rightarrow> nat option) \<Rightarrow> u16 \<Rightarrow> nat option" where
  "index_removed i ds index =
     (let removed = index(dl_packet_id (ds ! i) := None) in
      if i + 1 < length ds then removed(dl_packet_id (last ds) \<mapsto> i) else removed)"

lemma table_ok_remove:
  assumes ok: "table_ok index ds" and i: "i < length ds"
  shows "table_ok (index_removed i ds index) (swap_remove i ds)"
proof -
  have at: "index p = Some j \<longleftrightarrow> j < length ds \<and> dl_packet_id (ds ! j) = p" for p j
    by (rule table_ok_Some_iff [OF ok])
  obtain n where n: "length ds = Suc n" "i \<le> n" "last ds = ds ! n"
    using i last_nth [OF i] by (cases "length ds") auto
  have inj: "j \<le> n \<Longrightarrow> k \<le> n \<Longrightarrow> dl_packet_id (ds ! j) = dl_packet_id (ds ! k) \<longleftrightarrow> j = k" for j k
    using table_ok_inj [OF ok, of j k] n(1) by (simp add: less_Suc_eq_le)
  have nth: "k \<le> n \<Longrightarrow> j < n \<Longrightarrow> swap_remove k ds ! j = (if j = k then ds ! n else ds ! j)" for j k
    using swap_remove_nth [of k ds j] n by simp
  have "index_removed i ds index p = Some j \<longleftrightarrow>
      j < length ds - 1 \<and> dl_packet_id (swap_remove i ds ! j) = p" for p j
  proof (cases "i = n")
    case True
    then show ?thesis
      using inj [of j n] by (auto simp: index_removed_def Let_def nth n(1) at less_Suc_eq)
  next
    case False
    with n(2) have "i < n" by simp
    then show ?thesis
      using inj [of j n] inj [of i n] inj [of j i]
      by (cases "p = dl_packet_id (ds ! n)") (auto simp: index_removed_def Let_def nth n(1,3) at less_Suc_eq)
  qed
  moreover have "set (swap_remove i ds) \<subseteq> set ds"
    using mset_swap_remove [OF i] by (metis in_diffD set_mset_mset subsetI)
  moreover have "\<forall>d \<in> set ds. dl_packet_id d \<noteq> 0"
    using ok by (simp add: table_ok_def)
  ultimately show ?thesis
    unfolding table_ok_def length_swap_remove by blast
qed

section \<open>The operations of the table\<close>

lemma delivery_map_Some_iff:
  "delivery_table_ok s \<Longrightarrow> delivery_map s p = Some d \<longleftrightarrow> d \<in> set (so_deliveries s) \<and> dl_packet_id d = p"
  by (simp add: delivery_map_def keyed_map_Some table_ok_distinct)

lemma delivery_map_None_iff: "delivery_map s p = None \<longleftrightarrow> p \<notin> dl_packet_id ` set (so_deliveries s)"
  by (simp add: delivery_map_def keyed_map_None)

lemma delivery_map_nth:
  "delivery_table_ok s \<Longrightarrow> i < length (so_deliveries s) \<Longrightarrow>
     delivery_map s (dl_packet_id (so_deliveries s ! i)) = Some (so_deliveries s ! i)"
  by (simp add: delivery_map_Some_iff)

lemma delivery_lookup_iff:
  assumes "delivery_table_ok s"
  shows "flowie_session_delivery_lookup p s = Inr (i, d) \<longleftrightarrow>
    i < length (so_deliveries s) \<and> so_deliveries s ! i = d \<and> dl_packet_id d = p"
proof -
  have "dl_packet_id (so_deliveries s ! i) \<noteq> 0" if "i < length (so_deliveries s)"
    using that table_ok_nonzero [OF assms] by simp
  then show ?thesis
    using table_ok_Some_iff [OF assms, of p i]
    by (auto simp: flowie_session_delivery_lookup_def split: option.splits if_splits)
qed

lemma delivery_lookup_found:
  assumes "delivery_table_ok s" "delivery_map s p = Some d"
  shows "\<exists>i. flowie_session_delivery_lookup p s = Inr (i, d)"
  using assms by (auto simp: delivery_map_Some_iff delivery_lookup_iff in_set_conv_nth)

lemma delivery_lookup_missing:
  assumes "delivery_table_ok s"
  shows "flowie_session_delivery_lookup p s = Inl e \<longleftrightarrow>
    delivery_map s p = None \<and> e = (if p = 0 then SALTS_EINVAL else SALTS_ENOENT)"
  using assms
  by (auto simp: flowie_session_delivery_lookup_def table_ok_Some_iff table_ok_None_iff delivery_map_None_iff
      dest: table_ok_nonzero split: option.splits if_splits)

lemma delivery_remove_at_run:
  assumes ok: "delivery_table_ok s" and i: "i < length (so_deliveries s)"
  shows "flowie_session_delivery_remove_at i s =
    (Inr (so_deliveries s ! i),
     s\<lparr>so_delivery_index := index_removed i (so_deliveries s) (so_delivery_index s),
       so_deliveries := swap_remove i (so_deliveries s)\<rparr>)"
proof -
  let ?ds = "so_deliveries s"
  have last: "?ds ! (length ?ds - 1) = last ?ds"
    using last_nth [OF i] by simp
  have nonzero: "dl_packet_id (last ?ds) \<noteq> 0"
    using i by (intro table_ok_nonzero [OF ok] last_in_set) auto
  have here: "so_delivery_index s (dl_packet_id (?ds ! i)) = Some i"
    using i by (simp add: table_ok_Some_iff [OF ok])
  have there: "so_delivery_index s (dl_packet_id (last ?ds)) = Some (length ?ds - 1)"
    using i last by (auto simp: table_ok_Some_iff [OF ok])
  have "dl_packet_id (last ?ds) \<noteq> dl_packet_id (?ds ! i)" if "i + 1 < length ?ds"
    using that table_ok_inj [OF ok, of "length ?ds - 1" i] by (simp add: last [symmetric])
  then show ?thesis
    using i here there nonzero last
    by (cases "i + 1 < length ?ds")
       (simp_all add: flowie_session_delivery_remove_at_def Let_def index_removed_def)
qed

lemma delivery_append_run:
  assumes ok: "delivery_table_ok s" and new: "delivery_map s (dl_packet_id d) = None" "dl_packet_id d \<noteq> 0"
    and run: "flowie_session_delivery_append d s = (r, s')"
  shows "(\<exists>e fs. r = Inl e \<and> s' = s\<lparr>so_faults := fs\<rparr>) \<or>
    (\<exists>fs. r = Inr () \<and> s' = s\<lparr>so_deliveries := so_deliveries s @ [d], so_faults := fs,
       so_delivery_index := (so_delivery_index s)(dl_packet_id d \<mapsto> length (so_deliveries s))\<rparr>)"
proof -
  let ?s1 = "s\<lparr>so_faults := tl (so_faults s)\<rparr>"
  let ?s2 = "?s1\<lparr>so_deliveries := so_deliveries s @ [d]\<rparr>"
  have absent: "flowie_session_delivery_lookup (dl_packet_id d) s = Inl SALTS_ENOENT"
    using new by (simp add: delivery_lookup_missing [OF ok])
  obtain r1 where first: "session_attempt s = (r1, ?s1)"
    by (metis session_attempt_frame surj_pair)
  obtain r2 where second: "session_attempt ?s2 = (r2, ?s2\<lparr>so_faults := tl (so_faults ?s2)\<rparr>)"
    by (metis session_attempt_frame surj_pair)
  show ?thesis
  proof (cases r1)
    case (Inl e)
    then show ?thesis
      using run new(2) by (auto simp: flowie_session_delivery_append_def absent first)
  next
    case (Inr u)
    then show ?thesis
      using run new(2) second
      by (cases r2) (auto simp: flowie_session_delivery_append_def absent first Let_def)
  qed
qed

section \<open>The contract of the table\<close>

locale keyed_table =
  fixes lookup :: "'k \<Rightarrow> 's \<Rightarrow> salts_error + nat \<times> 'd" and remove_at :: "nat \<Rightarrow> ('s, 'd) op"
    and contents :: "'s \<Rightarrow> 'k \<Rightarrow> 'd option" and valid :: "'s \<Rightarrow> bool" and missing :: "'k \<Rightarrow> salts_error"
  assumes lookup_found: "valid s \<Longrightarrow> contents s k = Some d \<Longrightarrow> \<exists>i. lookup k s = Inr (i, d)"
    and lookup_missing: "valid s \<Longrightarrow> contents s k = None \<Longrightarrow> lookup k s = Inl (missing k)"
    and remove_found: "valid s \<Longrightarrow> lookup k s = Inr (i, d) \<Longrightarrow>
      \<exists>s'. remove_at i s = (Inr d, s') \<and> valid s' \<and> contents s' = (contents s)(k := None)"
begin

lemma lookup_contents: "valid s \<Longrightarrow> lookup k s = Inr (i, d) \<Longrightarrow> contents s k = Some d"
  using lookup_found lookup_missing by (cases "contents s k") fastforce+

lemma found_removed:
  "valid s \<Longrightarrow> contents s k = Some d \<Longrightarrow>
     \<exists>i s'. lookup k s = Inr (i, d) \<and> remove_at i s = (Inr d, s') \<and> valid s' \<and>
       contents s' = (contents s)(k := None)"
  using lookup_found [of s k d] remove_found [of s k _ d] by blast

lemma lookup_remove_cases:
  assumes "valid s"
  obtains (missing) "lookup k s = Inl (missing k)" "contents s k = None"
  | (found) i d s' where "lookup k s = Inr (i, d)" "contents s k = Some d" "remove_at i s = (Inr d, s')"
      "valid s'" "contents s' = (contents s)(k := None)"
  using assms lookup_missing [of s k] found_removed [of s k] by (cases "contents s k") auto

end

interpretation deliveries: keyed_table flowie_session_delivery_lookup flowie_session_delivery_remove_at
  delivery_map delivery_table_ok "\<lambda>p. if p = 0 then SALTS_EINVAL else SALTS_ENOENT"
proof
  fix s :: flowie_session_owner and k :: u16 and i :: nat and d :: flowie_session_delivery
  assume ok: "delivery_table_ok s"
  show "\<exists>i. flowie_session_delivery_lookup k s = Inr (i, d)" if "delivery_map s k = Some d"
    using delivery_lookup_found [OF ok that] .
  show "flowie_session_delivery_lookup k s = Inl (if k = 0 then SALTS_EINVAL else SALTS_ENOENT)"
    if "delivery_map s k = None"
    using that by (simp add: delivery_lookup_missing [OF ok])
  assume "flowie_session_delivery_lookup k s = Inr (i, d)"
  then have i: "i < length (so_deliveries s)" "so_deliveries s ! i = d" "dl_packet_id d = k"
    by (simp_all add: delivery_lookup_iff [OF ok])
  then show "\<exists>s'. flowie_session_delivery_remove_at i s = (Inr d, s') \<and> delivery_table_ok s' \<and>
      delivery_map s' = (delivery_map s)(k := None)"
    using delivery_remove_at_run [OF ok i(1)] table_ok_remove [OF ok i(1)]
      keyed_map_remove [OF table_ok_distinct [OF ok] i(1)]
    by (simp add: delivery_map_def)
qed

end
