(* ===== verification/Session_Subscribe.thy ===== *)
theory Session_Subscribe
  imports Session_Delivery Mqtt_Parse
begin

text \<open>
  SUBSCRIBE and UNSUBSCRIBE for the session owner of \<open>flowie/src/flowie_session.c\<close>. Both work on
  a copy of the subscriptions that takes the place of the original only when the whole packet has
  been accepted.
\<close>

section \<open>Subscriptions\<close>

record flowie_session_subscription =
  ss_filter :: flowie_mqtt_span
  ss_qos :: u8
  ss_no_local :: u8
  ss_retain_as_published :: u8
  ss_retain_handling :: u8
  ss_subscription_identifier :: u32

record flowie_session_subscribe_result =
  sr_packet_id :: u16
  sr_accepted_count :: nat
  sr_changed :: bool

record flowie_session_unsubscribe_result =
  ur_packet_id :: u16
  ur_filter_count :: nat
  ur_removed_count :: nat
  ur_changed :: bool
  ur_reason_codes :: flowie_mqtt_span

fun subscriptions_clone_loop ::
    "flowie_session_subscription_owned list \<Rightarrow> flowie_session_subscription_owned list \<Rightarrow>
       (flowie_session_owner, flowie_session_subscription_owned list) op" where
  "subscriptions_clone_loop [] out = oret out"
| "subscriptions_clone_loop (entry # entries) out =
     obind (session_allocs 1) (\<lambda>_. obind session_attempt (\<lambda>_. subscriptions_clone_loop entries (out @ [entry])))"

definition flowie_session_subscriptions_clone ::
    "flowie_session_subscription_owned list \<Rightarrow>
       (flowie_session_owner, flowie_session_subscription_owned list) op" where
  "flowie_session_subscriptions_clone source = obind session_attempt (\<lambda>_. subscriptions_clone_loop source [])"

fun flowie_session_subscription_find ::
    "flowie_session_subscription_owned list \<Rightarrow> bytes \<Rightarrow> nat option" where
  "flowie_session_subscription_find [] flt = None"
| "flowie_session_subscription_find (entry # entries) flt =
     (if sn_filter entry = flt then Some 0 else map_option Suc (flowie_session_subscription_find entries flt))"

definition subscription_entry ::
    "flowie_mqtt_subscription_view \<Rightarrow> u32 \<Rightarrow> flowie_session_subscription_owned" where
  "subscription_entry entry subscription_identifier =
     \<lparr>sn_filter = span_bytes (sv_filter entry), sn_qos = sv_qos entry, sn_no_local = sv_no_local entry,
      sn_retain_as_published = sv_retain_as_published entry, sn_retain_handling = sv_retain_handling entry,
      sn_subscription_identifier = subscription_identifier\<rparr>"

text \<open>The result is the new list of subscriptions and whether it differs from the old one.\<close>

definition flowie_session_subscription_apply ::
    "flowie_session_subscription_owned list \<Rightarrow> nat \<Rightarrow> flowie_mqtt_subscription_view \<Rightarrow> u32 \<Rightarrow> bool \<Rightarrow>
       (flowie_session_owner, flowie_session_subscription_owned list \<times> bool) op" where
  "flowie_session_subscription_apply subscriptions capacity entry subscription_identifier changed owner =
     (let added = subscription_entry entry subscription_identifier in
      case flowie_session_subscription_find subscriptions (span_bytes (sv_filter entry)) of
        Some i \<Rightarrow>
          (let existing = subscriptions ! i in
           if sn_qos existing \<noteq> sv_qos entry \<or> sn_no_local existing \<noteq> sv_no_local entry \<or>
              sn_retain_as_published existing \<noteq> sv_retain_as_published entry \<or>
              sn_retain_handling existing \<noteq> sv_retain_handling entry \<or>
              sn_subscription_identifier existing \<noteq> subscription_identifier
           then (Inr (subscriptions[i := added], True), owner)
           else (Inr (subscriptions, changed), owner))
      | None \<Rightarrow>
          if length subscriptions \<ge> capacity then (Inl SALTS_ENOSPC, owner)
          else obind (session_allocs 1) (\<lambda>_. obind session_attempt (\<lambda>_.
                 oret (subscriptions @ [added], True))) owner)"

function subscription_identifier_loop ::
    "utf8_next \<Rightarrow> flowie_mqtt_property_iterator \<Rightarrow> u32 \<Rightarrow> salts_error + u32" where
  "subscription_identifier_loop un iterator identifier =
     (case flowie_mqtt_property_iterator_next un iterator of
        Inr (property, iterator') \<Rightarrow>
          subscription_identifier_loop un iterator'
            (if pr_identifier property = FLOWIE_MQTT_PROPERTY_SUBSCRIPTION_IDENTIFIER
             then pr_integer property else identifier)
      | Inl rc \<Rightarrow> if rc = FLOWIE_MQTT_PARSE_NEED_MORE then Inr identifier else Inl SALTS_EPROTO)"
  by pat_completeness auto
termination
  by (relation "measure (\<lambda>(un, iterator, identifier). iterator_left iterator)")
     (auto dest!: property_iterator_next_shorter)

declare subscription_identifier_loop.simps [simp del]

definition subscribe_identifier ::
    "utf8_next \<Rightarrow> flowie_mqtt_packet_view \<Rightarrow> flowie_mqtt_subscribe_view \<Rightarrow> salts_error + u32" where
  "subscribe_identifier un packet subscribe =
     (if pv_version packet = FLOWIE_MQTT_VERSION_5 \<and> span_size (pb_values (sb_properties subscribe)) \<noteq> 0
      then rbind (map_error (\<lambda>_. SALTS_EPROTO) (flowie_mqtt_property_iterator_init (sb_properties subscribe)))
             (\<lambda>iterator. subscription_identifier_loop un iterator 0)
      else Inr 0)"

function subscribe_loop ::
    "utf8_next \<Rightarrow> u32 \<Rightarrow> flowie_mqtt_subscription_iterator \<Rightarrow> flowie_session_subscription_owned list \<Rightarrow> bool \<Rightarrow> nat \<Rightarrow>
       (flowie_session_owner, flowie_session_subscription_owned list \<times> bool \<times> nat \<times> flowie_mqtt_parse_result) op" where
  "subscribe_loop un identifier iterator staged changed n owner =
     (case flowie_mqtt_subscription_iterator_next un iterator of
        Inl rc \<Rightarrow> (Inr (staged, changed, n, rc), owner)
      | Inr (entry, iterator') \<Rightarrow>
          (case flowie_session_subscription_apply staged (sf_max_subscriptions (so_config owner)) entry identifier
                  changed owner of
             (Inl e, owner') \<Rightarrow> (Inl e, owner')
           | (Inr (staged', changed'), owner') \<Rightarrow>
               subscribe_loop un identifier iterator' staged' changed' (n + 1) owner'))"
  by pat_completeness auto
termination
  by (relation "measure (\<lambda>(un, identifier, iterator, staged, changed, n, owner). iterator_left (snd iterator))")
     (auto dest!: subscription_iterator_next_shorter)

declare subscribe_loop.simps [simp del]

definition flowie_session_owner_subscribe ::
    "utf8_next \<Rightarrow> flowie_mqtt_packet_view \<Rightarrow> flowie_mqtt_subscribe_view \<Rightarrow>
       (flowie_session_owner, flowie_session_subscribe_result) op" where
  "flowie_session_owner_subscribe un packet subscribe owner =
     (if \<not> so_active owner then (Inl SALTS_EBUSY, owner)
      else if pv_type packet \<noteq> FLOWIE_MQTT_PACKET_SUBSCRIBE \<or> pv_version packet \<noteq> so_version owner \<or>
              sb_packet_id subscribe = 0 \<or> sb_entry_count subscribe = 0 then (Inl SALTS_EPROTO, owner)
      else case flowie_mqtt_subscription_iterator_init packet subscribe of
        Inl e \<Rightarrow> (Inl SALTS_EPROTO, owner)
      | Inr iterator \<Rightarrow>
          (case subscribe_identifier un packet subscribe of
             Inl e \<Rightarrow> (Inl e, owner)
           | Inr identifier \<Rightarrow>
               obind (flowie_session_subscriptions_clone (so_subscriptions owner)) (\<lambda>staged.
               obind (subscribe_loop un identifier iterator staged False 0) (\<lambda>(staged, changed, n, rc).
               if rc \<noteq> FLOWIE_MQTT_PARSE_NEED_MORE \<or> n \<noteq> sb_entry_count subscribe then ofail SALTS_EPROTO
               else obind (if changed
                           then obind flowie_session_generation_advance (\<lambda>_ owner.
                                  (Inr (), owner\<lparr>so_subscriptions := staged\<rparr>))
                           else oret ()) (\<lambda>_.
                 oret \<lparr>sr_packet_id = sb_packet_id subscribe, sr_accepted_count = n, sr_changed = changed\<rparr>))) owner))"

definition flowie_session_owner_subscription_at ::
    "nat \<Rightarrow> flowie_session_owner \<Rightarrow> salts_error + flowie_session_subscription" where
  "flowie_session_owner_subscription_at index owner =
     (if \<not> index < length (so_subscriptions owner) then Inl SALTS_ENOENT
      else let entry = so_subscriptions owner ! index in
           Inr \<lparr>ss_filter = Span (sn_filter entry), ss_qos = sn_qos entry, ss_no_local = sn_no_local entry,
                ss_retain_as_published = sn_retain_as_published entry,
                ss_retain_handling = sn_retain_handling entry,
                ss_subscription_identifier = sn_subscription_identifier entry\<rparr>)"

section \<open>Unsubscribe\<close>

definition flowie_session_subscription_remove ::
    "flowie_session_subscription_owned list \<Rightarrow> bytes \<Rightarrow> flowie_session_subscription_owned list \<times> bool" where
  "flowie_session_subscription_remove subscriptions flt =
     (case flowie_session_subscription_find subscriptions flt of
        None \<Rightarrow> (subscriptions, False)
      | Some i \<Rightarrow> (swap_remove i subscriptions, True))"

text \<open>The loop collects a reason code per filter; version 3 sessions do not report them.\<close>

function unsubscribe_loop ::
    "utf8_next \<Rightarrow> flowie_mqtt_topic_filter_iterator \<Rightarrow> flowie_session_subscription_owned list \<Rightarrow> bytes \<Rightarrow> nat \<Rightarrow>
       flowie_session_subscription_owned list \<times> bytes \<times> nat \<times> flowie_mqtt_parse_result" where
  "unsubscribe_loop un iterator staged reasons removed_count =
     (case flowie_mqtt_topic_filter_iterator_next un iterator of
        Inl rc \<Rightarrow> (staged, reasons, removed_count, rc)
      | Inr (flt, iterator') \<Rightarrow>
          (case flowie_session_subscription_remove staged (span_bytes flt) of (staged', removed) \<Rightarrow>
             unsubscribe_loop un iterator' staged' (reasons @ [if removed then 0x00 else 0x11])
               (removed_count + (if removed then 1 else 0))))"
  by pat_completeness auto
termination
  by (relation "measure (\<lambda>(un, iterator, staged, reasons, removed_count). iterator_left iterator)")
     (auto dest!: topic_filter_iterator_next_shorter)

declare unsubscribe_loop.simps [simp del]

text \<open>The buffer for the reason codes is given by its capacity, \<open>None\<close> for a NULL pointer.\<close>

definition flowie_session_owner_unsubscribe ::
    "utf8_next \<Rightarrow> flowie_mqtt_packet_view \<Rightarrow> flowie_mqtt_unsubscribe_view \<Rightarrow> nat option \<Rightarrow>
       (flowie_session_owner, flowie_session_unsubscribe_result) op" where
  "flowie_session_owner_unsubscribe un packet unsubscribe reason_codes owner =
     (let v5 = (pv_version packet = FLOWIE_MQTT_VERSION_5) in
      if \<not> so_active owner then (Inl SALTS_EBUSY, owner)
      else if pv_type packet \<noteq> FLOWIE_MQTT_PACKET_UNSUBSCRIBE \<or> pv_version packet \<noteq> so_version owner \<or>
              us_packet_id unsubscribe = 0 \<or> us_filter_count unsubscribe = 0 then (Inl SALTS_EPROTO, owner)
      else if v5 \<and> (case reason_codes of None \<Rightarrow> True | Some capacity \<Rightarrow> capacity < us_filter_count unsubscribe)
      then (Inl SALTS_ENOSPC, owner)
      else obind (session_allocs (if v5 then 1 else 0)) (\<lambda>_ owner.
        case flowie_mqtt_topic_filter_iterator_init unsubscribe of
          Inl e \<Rightarrow> (Inl SALTS_EPROTO, owner)
        | Inr iterator \<Rightarrow>
            obind (flowie_session_subscriptions_clone (so_subscriptions owner)) (\<lambda>staged.
            case unsubscribe_loop un iterator staged [] 0 of (staged, reasons, removed_count, rc) \<Rightarrow>
              if rc \<noteq> FLOWIE_MQTT_PARSE_NEED_MORE \<or> length reasons \<noteq> us_filter_count unsubscribe
              then ofail SALTS_EPROTO
              else obind (if removed_count \<noteq> 0
                          then obind flowie_session_generation_advance (\<lambda>_ owner.
                                 (Inr (), owner\<lparr>so_subscriptions := staged\<rparr>))
                          else oret ()) (\<lambda>_.
                oret \<lparr>ur_packet_id = us_packet_id unsubscribe, ur_filter_count = length reasons,
                      ur_removed_count = removed_count, ur_changed = (removed_count \<noteq> 0),
                      ur_reason_codes = (if v5 then Span reasons else NullSpan 0)\<rparr>)) owner) owner)"

end
