(* ===== verification/Session_Inbound.thy ===== *)
theory Session_Inbound
  imports Session_Delivery
begin

text \<open>
  Inbound PUBLISH packets of QoS 1 and 2 for the session owner of \<open>flowie/src/flowie_session.c\<close>:
  admission of a new packet identifier, settlement by the application, and the release of a
  QoS 2 identifier by PUBREL.
\<close>

section \<open>Operations\<close>

record flowie_session_publish_begin_result =
  bg_admit_application :: bool
  bg_has_ack :: bool
  bg_message :: flowie_publish_message_view
  bg_ack :: flowie_session_ack_intent

fun flowie_session_inflight_find :: "flowie_session_inflight list \<Rightarrow> u16 \<Rightarrow> nat option" where
  "flowie_session_inflight_find [] packet_id = None"
| "flowie_session_inflight_find (entry # entries) packet_id =
     (if if_packet_id entry = packet_id then Some 0
      else map_option Suc (flowie_session_inflight_find entries packet_id))"

definition flowie_session_route_check ::
    "flowie_session_owner \<Rightarrow> flowie_protocol_route \<Rightarrow> salts_error + unit" where
  "flowie_session_route_check owner route =
     (if rt_protocol route \<noteq> FLOWIE_PROTOCOL_MQTT then Inl SALTS_EPROTO
      else if rt_owner_instance_id route \<noteq> sf_owner_instance_id (so_config owner) \<or>
              rt_session_id route \<noteq> sf_session_id (so_config owner) \<or>
              rt_session_generation route \<noteq> so_session_generation owner
      then Inl SALTS_EBUSY else Inr ())"

definition flowie_session_owner_publish_begin ::
    "flowie_mqtt_publish_view \<Rightarrow> (flowie_session_owner, flowie_session_publish_begin_result) op" where
  "flowie_session_owner_publish_begin publish owner =
     (if \<not> so_active owner then (Inl SALTS_EBUSY, owner)
      else case flowie_publish_message_map publish (so_version owner) (sf_owner_instance_id (so_config owner))
                  (sf_session_id (so_config owner)) (so_session_generation owner) of
        Inl e \<Rightarrow> (Inl e, owner)
      | Inr message \<Rightarrow>
          let result = \<lparr>bg_admit_application = False, bg_has_ack = False, bg_message = message,
                        bg_ack = FLOWIE_SESSION_ACK_INTENT_INIT\<rparr> in
          if pu_qos publish = 0 then (Inr (result\<lparr>bg_admit_application := True\<rparr>), owner)
          else case flowie_session_inflight_find (so_inflight owner) (pu_packet_id publish) of
            Some i \<Rightarrow>
              let existing = so_inflight owner ! i in
              if pu_duplicate publish = 0 \<or> if_qos existing \<noteq> pu_qos publish then (Inl SALTS_EPROTO, owner)
              else if if_state existing = FLOWIE_SESSION_INFLIGHT_QOS2_RELEASE
              then (Inr (result\<lparr>bg_has_ack := True,
                     bg_ack := flowie_session_ack FLOWIE_SESSION_ACK_PUBREC (pu_packet_id publish)\<rparr>), owner)
              else (Inr result, owner)
          | None \<Rightarrow>
              if length (so_inflight owner) \<ge> sf_max_inflight (so_config owner) then (Inl SALTS_ENOSPC, owner)
              else if so_resource_generation owner = UINT64_MAX then (Inl SALTS_ERANGE, owner)
              else obind session_attempt (\<lambda>_ owner.
                (Inr (result\<lparr>bg_admit_application := True\<rparr>),
                 owner\<lparr>so_inflight := so_inflight owner @
                         [\<lparr>if_packet_id = pu_packet_id publish, if_qos = pu_qos publish,
                           if_state = FLOWIE_SESSION_INFLIGHT_SETTLEMENT\<rparr>],
                       so_resource_generation := so_resource_generation owner + 1\<rparr>)) owner)"

definition flowie_session_required_settlement :: "flowie_session_owner \<Rightarrow> u8 \<Rightarrow> u32" where
  "flowie_session_required_settlement owner qos =
     (if qos = 1 then st_qos1 (sf_settlement (so_config owner)) else st_qos2 (sf_settlement (so_config owner)))"

text \<open>The shape a settlement request must have for this owner.\<close>

definition settlement_request_ok :: "flowie_session_owner \<Rightarrow> flowie_protocol_settlement_request \<Rightarrow> bool" where
  "settlement_request_ok owner request \<longleftrightarrow>
     (let message = sq_message request in
      is_ok (flowie_protocol_message_validate message) \<and> pm_protocol message = FLOWIE_PROTOCOL_MQTT \<and>
      pm_protocol_version message = so_version owner \<and> pm_kind message = FLOWIE_PROTOCOL_MESSAGE_DATA \<and>
      pm_qos message \<noteq> 0 \<and> pm_qos message \<le> 2 \<and> pm_packet_id message \<le> 65535 \<and>
      pm_session_generation message = so_session_generation owner \<and> pm_packet_id message \<noteq> 0 \<and>
      sq_point request \<ge> FLOWIE_PROTOCOL_SETTLE_RECEIVED \<and> sq_point request \<le> FLOWIE_PROTOCOL_SETTLE_DURABLE)"

definition flowie_session_owner_publish_settle ::
    "flowie_protocol_route \<Rightarrow> flowie_protocol_settlement_request \<Rightarrow>
       (flowie_session_owner, flowie_session_ack_intent) op" where
  "flowie_session_owner_publish_settle route request owner =
     (if \<not> so_active owner then (Inl SALTS_EBUSY, owner)
      else case flowie_session_route_check owner route of
        Inl e \<Rightarrow> (Inl e, owner)
      | Inr u \<Rightarrow>
          if \<not> settlement_request_ok owner request then (Inl SALTS_EPROTO, owner)
          else case flowie_session_inflight_find (so_inflight owner) (ucast (pm_packet_id (sq_message request))) of
            None \<Rightarrow> (Inl SALTS_ENOENT, owner)
          | Some i \<Rightarrow>
              let entry = so_inflight owner ! i in
              if ucast (if_qos entry) \<noteq> pm_qos (sq_message request) then (Inl SALTS_EPROTO, owner)
              else if if_state entry \<noteq> FLOWIE_SESSION_INFLIGHT_SETTLEMENT then (Inl SALTS_EALREADY, owner)
              else case sq_status request of
                Inl e \<Rightarrow> (Inl e, owner)
              | Inr u \<Rightarrow>
                  if sq_point request < flowie_session_required_settlement owner (if_qos entry)
                  then (Inl SALTS_EBUSY, owner)
                  else if so_resource_generation owner = UINT64_MAX then (Inl SALTS_ERANGE, owner)
                  else if if_qos entry = 1
                  then (Inr (flowie_session_ack FLOWIE_SESSION_ACK_PUBACK (if_packet_id entry)),
                        owner\<lparr>so_inflight := swap_remove i (so_inflight owner),
                              so_resource_generation := so_resource_generation owner + 1\<rparr>)
                  else (Inr (flowie_session_ack FLOWIE_SESSION_ACK_PUBREC (if_packet_id entry)),
                        owner\<lparr>so_inflight := (so_inflight owner)
                                [i := entry\<lparr>if_state := FLOWIE_SESSION_INFLIGHT_QOS2_RELEASE\<rparr>],
                              so_resource_generation := so_resource_generation owner + 1\<rparr>))"

definition flowie_session_owner_qos2_release ::
    "flowie_protocol_route \<Rightarrow> u16 \<Rightarrow> (flowie_session_owner, flowie_session_ack_intent) op" where
  "flowie_session_owner_qos2_release route packet_id owner =
     (if packet_id = 0 then (Inl SALTS_EINVAL, owner)
      else if \<not> so_active owner then (Inl SALTS_EBUSY, owner)
      else case flowie_session_route_check owner route of
        Inl e \<Rightarrow> (Inl e, owner)
      | Inr u \<Rightarrow>
          (case flowie_session_inflight_find (so_inflight owner) packet_id of
             None \<Rightarrow> (Inl SALTS_ENOENT, owner)
           | Some i \<Rightarrow>
               let entry = so_inflight owner ! i in
               if if_qos entry \<noteq> 2 \<or> if_state entry \<noteq> FLOWIE_SESSION_INFLIGHT_QOS2_RELEASE
               then (Inl SALTS_EPROTO, owner)
               else if so_resource_generation owner = UINT64_MAX then (Inl SALTS_ERANGE, owner)
               else (Inr (flowie_session_ack FLOWIE_SESSION_ACK_PUBCOMP packet_id),
                     owner\<lparr>so_inflight := swap_remove i (so_inflight owner),
                           so_resource_generation := so_resource_generation owner + 1\<rparr>)))"

end
