(* ===== verification/Session_Invariant.thy ===== *)
theory Session_Invariant
  imports Session_Table Session_Subscribe Session_Inbound
begin

text \<open>
  The invariant of a session owner: the index of the deliveries agrees with the vector, every
  delivery and every inbound packet is in a state that fits its QoS, identifiers and filters are
  unique, the limits of the configuration hold, and an active session is initialized. Every
  operation of \<open>flowie/src/flowie_session.c\<close> keeps it, on its error paths and whatever the
  outcome of its allocations.
\<close>

section \<open>The invariant\<close>

definition delivery_ok :: "flowie_session_delivery \<Rightarrow> bool" where
  "delivery_ok d \<longleftrightarrow> (dl_qos d = 1 \<or> dl_qos d = 2) \<and>
     (case dl_state d of
        FLOWIE_SESSION_DELIVERY_RESERVED \<Rightarrow> dl_packet d = None \<and> dl_expiry_at d = 0
      | FLOWIE_SESSION_DELIVERY_QUEUED \<Rightarrow> dl_packet d \<noteq> None
      | FLOWIE_SESSION_DELIVERY_WAIT_ACK \<Rightarrow> dl_packet d \<noteq> None \<and> dl_qos d = 1
      | FLOWIE_SESSION_DELIVERY_WAIT_PUBREC \<Rightarrow> dl_packet d \<noteq> None \<and> dl_qos d = 2
      | FLOWIE_SESSION_DELIVERY_WAIT_PUBCOMP \<Rightarrow> dl_packet d \<noteq> None \<and> dl_qos d = 2 \<and> dl_expiry_at d = 0)"

definition deliveries_ok :: "nat \<Rightarrow> (u16 \<Rightarrow> nat option) \<Rightarrow> flowie_session_delivery list \<Rightarrow> bool" where
  "deliveries_ok n index ds \<longleftrightarrow> table_ok index ds \<and> (\<forall>d \<in> set ds. delivery_ok d) \<and> length ds \<le> n"

definition inflight_entry_ok :: "flowie_session_inflight \<Rightarrow> bool" where
  "inflight_entry_ok e \<longleftrightarrow> if_packet_id e \<noteq> 0 \<and> (if_qos e = 1 \<or> if_qos e = 2) \<and>
     (if_state e = FLOWIE_SESSION_INFLIGHT_QOS2_RELEASE \<longrightarrow> if_qos e = 2)"

definition inflight_ok :: "nat \<Rightarrow> flowie_session_inflight list \<Rightarrow> bool" where
  "inflight_ok n es \<longleftrightarrow> length es \<le> n \<and> distinct (map if_packet_id es) \<and> (\<forall>e \<in> set es. inflight_entry_ok e)"

definition subscriptions_ok :: "nat \<Rightarrow> flowie_session_subscription_owned list \<Rightarrow> bool" where
  "subscriptions_ok n ss \<longleftrightarrow> length ss \<le> n \<and> distinct (map sn_filter ss)"

definition will_ok ::
    "bool \<Rightarrow> bool \<Rightarrow> bytes option \<Rightarrow> bytes option \<Rightarrow> bytes option \<Rightarrow> u32 \<Rightarrow> u8 \<Rightarrow> u8 \<Rightarrow> bool" where
  "will_ok present pending topic properties payload delay qos retain \<longleftrightarrow>
     (if present then topic \<noteq> None \<and> properties \<noteq> None \<and> payload \<noteq> None
      else \<not> pending \<and> topic = None \<and> properties = None \<and> payload = None \<and> delay = 0 \<and> qos = 0 \<and> retain = 0)"

lemma will_ok_simps [simp]:
  "will_ok True pending (Some topic) (Some properties) (Some payload) delay qos retain"
  "will_ok False False None None None 0 0 0"
  by (simp_all add: will_ok_def)

lemma will_ok_pending: "will_ok present pending t p c d q r \<Longrightarrow> will_ok present (present \<or> pending) t p c d q r"
  by (simp add: will_ok_def)

definition session_invariant :: "flowie_session_owner \<Rightarrow> bool" where
  "session_invariant s \<longleftrightarrow> flowie_session_config_valid (so_config s) \<and>
     deliveries_ok (sf_max_inflight (so_config s)) (so_delivery_index s) (so_deliveries s) \<and>
     inflight_ok (sf_max_inflight (so_config s)) (so_inflight s) \<and>
     subscriptions_ok (sf_max_subscriptions (so_config s)) (so_subscriptions s) \<and>
     (so_active s \<longrightarrow> so_initialized s \<and> so_session_generation s \<noteq> 0) \<and>
     (so_initialized s \<longrightarrow> so_client_id s \<noteq> None \<and> flowie_mqtt_version_is_supported (so_version s)) \<and>
     will_ok (so_has_will s) (so_will_pending s) (so_will_topic s) (so_will_properties s) (so_will_payload s)
       (so_will_delay_interval s) (so_will_qos s) (so_will_retain s) \<and>
     so_client_id s \<noteq> Some []"

lemma session_invariant_frame [simp]:
  "session_invariant (s\<lparr>so_faults := fs\<rparr>) = session_invariant s"
  "session_invariant (s\<lparr>so_resource_generation := g\<rparr>) = session_invariant s"
  "session_invariant (s\<lparr>so_next_delivery_packet_id := p\<rparr>) = session_invariant s"
  by (simp_all add: session_invariant_def)

lemma session_invariant_table: "session_invariant s \<Longrightarrow> delivery_table_ok s"
  by (simp add: session_invariant_def deliveries_ok_def)

lemma session_invariant_delivery:
  "session_invariant s \<Longrightarrow> i < length (so_deliveries s) \<Longrightarrow> delivery_ok (so_deliveries s ! i)"
  by (simp add: session_invariant_def deliveries_ok_def)

text \<open>An operation made of two parts keeps what each part keeps.\<close>

lemma obind_keeps:
  assumes "obind m f s = (r, s')" "P s"
    and "\<And>r1 s1. m s = (r1, s1) \<Longrightarrow> P s1"
    and "\<And>x s1. m s = (Inr x, s1) \<Longrightarrow> P s1 \<Longrightarrow> f x s1 = (r, s') \<Longrightarrow> P s'"
  shows "P s'"
  using assms by (cases "m s"; cases "fst (m s)") (auto simp: obind_def)

lemma qos_cases: "\<not> (qos = 0 \<or> qos > 2) \<Longrightarrow> qos = 1 \<or> qos = (2::u8)"
proof -
  assume "\<not> (qos = 0 \<or> qos > 2)"
  then have "unat qos \<noteq> 0" "unat qos \<le> 2"
    by (auto simp: word_le_nat_alt unat_eq_zero not_less)
  then have "unat qos = unat (1::u8) \<or> unat qos = unat (2::u8)" by auto
  then show ?thesis by (simp only: word_unat_eq_iff)
qed

lemma generation_next: "x \<noteq> UINT64_MAX \<Longrightarrow> x + 1 \<noteq> 0"
proof
  assume x: "x \<noteq> UINT64_MAX" and "x + 1 = 0"
  then have "x = - 1" by (simp add: eq_neg_iff_add_eq_0)
  with x show False by simp
qed

section \<open>Allocation and small steps\<close>

lemma session_attempt_keeps: "session_attempt s = (r, s') \<Longrightarrow> session_invariant s \<Longrightarrow> session_invariant s'"
  by (auto dest!: session_attempt_frame)

lemma session_allocs_keeps: "session_allocs n s = (r, s') \<Longrightarrow> session_invariant s \<Longrightarrow> session_invariant s'"
  by (auto dest!: session_allocs_frame)

lemma generation_advance_keeps:
  "flowie_session_generation_advance s = (r, s') \<Longrightarrow> session_invariant s \<Longrightarrow> session_invariant s'"
  by (auto simp: flowie_session_generation_advance_def split: if_splits)

lemma touch_keeps: "flowie_session_owner_touch s = (r, s') \<Longrightarrow> session_invariant s \<Longrightarrow> session_invariant s'"
  by (auto simp: flowie_session_owner_touch_def split: if_splits dest: generation_advance_keeps)

lemma session_invariant_zero:
  "flowie_session_config_valid config \<Longrightarrow> session_invariant (session_zero config fs)"
  by (simp add: session_invariant_def session_zero_def deliveries_ok_def inflight_ok_def subscriptions_ok_def)

lemma create_invariant:
  assumes "flowie_session_owner_create config faults = Some s"
  shows "session_invariant s"
proof -
  let ?z = "session_zero config faults"
  have valid: "flowie_session_config_valid config"
    and run: "obind session_attempt (\<lambda>_. obind session_attempt (\<lambda>_. obind session_attempt (\<lambda>_.
                obind session_attempt (\<lambda>_. session_attempt)))) ?z = (Inr (), s)"
    using assms by (auto simp: flowie_session_owner_create_def split: if_splits prod.splits sum.splits)
  from run show ?thesis
    using session_invariant_zero [OF valid, of faults]
    by (auto simp: obind_Inr_iff dest!: session_attempt_keeps)
qed

section \<open>Life of a connection\<close>

lemma inflight_ok_remove: "inflight_ok n es \<Longrightarrow> i < length es \<Longrightarrow> inflight_ok n (swap_remove i es)"
  unfolding inflight_ok_def using distinct_key_remove [of if_packet_id es i] set_swap_remove [of es i]
  by (auto simp: distinct_map)

lemma inflight_clear_keeps: "inflight_ok n es \<Longrightarrow> inflight_ok n (inflight_clear_loop keep i es)"
proof (induction keep i es rule: inflight_clear_loop.induct)
  case (1 keep i es)
  then show ?case
    by (subst inflight_clear_loop.simps) (auto simp: inflight_ok_remove)
qed

lemma inflight_clear_all: "inflight_clear_loop False 0 es = []"
proof (induction "length es" arbitrary: es)
  case 0
  then show ?case by (subst inflight_clear_loop.simps) simp
next
  case (Suc n)
  from Suc.hyps(1) [of "swap_remove 0 es"] Suc.hyps(2) [symmetric]
  show ?case by (subst inflight_clear_loop.simps) auto
qed

lemma empty_ok [simp]: "inflight_ok n []" "subscriptions_ok n []" "deliveries_ok n (\<lambda>_. None) []"
  by (simp_all add: inflight_ok_def subscriptions_ok_def deliveries_ok_def)

lemmas clear_defs = clean_start_clear_def flowie_session_subscriptions_clear_def flowie_session_inflight_clear_def
  flowie_session_deliveries_clear_def flowie_session_will_clear_def

lemma clean_start_clear_keeps: "session_invariant s \<Longrightarrow> session_invariant (clean_start_clear s)"
  by (auto simp: session_invariant_def clear_defs inflight_clear_all)

lemma will_clear_keeps: "session_invariant s \<Longrightarrow> session_invariant (flowie_session_will_clear s)"
  by (simp add: session_invariant_def clear_defs)

lemma open_checks_facts:
  assumes "open_checks un connect allow_active s = Inr expiry"
  shows "flowie_mqtt_version_is_supported (cv_version connect)" "so_session_generation s + 1 \<noteq> 0"
    "so_initialized s \<Longrightarrow> so_client_id s = Some (span_bytes (cv_client_id connect))"
    "so_active s \<Longrightarrow> allow_active" "span_bytes (cv_client_id connect) \<noteq> []"
  using assms generation_next [of "so_session_generation s"]
  by (cases "cv_client_id connect"; auto simp: open_checks_def split: if_splits)+

text \<open>The owner that a successful open leaves behind, up to the allocations that were used.\<close>

definition opened ::
    "flowie_mqtt_connect_view \<Rightarrow> u32 \<Rightarrow> u32 \<Rightarrow> flowie_session_owner \<Rightarrow> flowie_session_owner" where
  "opened connect expiry will_delay s =
     (let s1 = (if cv_clean_start connect \<noteq> 0 then clean_start_clear s else s);
          s2 = (if so_initialized s1 then s1 else s1\<lparr>so_client_id := Some (span_bytes (cv_client_id connect))\<rparr>);
          s3 = open_will connect will_delay s2
      in s3\<lparr>so_version := cv_version connect, so_keep_alive := cv_keep_alive connect,
            so_session_expiry_interval := expiry, so_clean_start := cv_clean_start connect,
            so_session_generation := so_session_generation s3 + 1,
            so_resource_generation := so_resource_generation s3 + 1, so_initialized := True, so_active := True\<rparr>)"

lemma open_impl_cases:
  assumes "flowie_session_owner_open_impl un connect allow_active s = (r, s')"
  obtains (refused) e fs where "r = Inl e" "s' = s\<lparr>so_faults := fs\<rparr>"
  | (opened) expiry will_delay fs where "r = Inr ()" "open_checks un connect allow_active s = Inr expiry"
      "s' = opened connect expiry will_delay (s\<lparr>so_faults := fs\<rparr>)"
proof (cases "open_checks un connect allow_active s")
  case (Inl e)
  then show thesis
    using assms refused [of e "so_faults s"] by (simp add: flowie_session_owner_open_impl_def)
next
  case (Inr expiry)
  let ?has_will = "span_size (cv_will_topic connect) \<noteq> 0"
  show thesis
  proof (cases "if ?has_will then flowie_session_will_delay un connect else Inr 0")
    case (Inl e)
    then show thesis
      using assms refused [of e "so_faults s"] \<open>open_checks un connect allow_active s = Inr expiry\<close>
      by (simp add: flowie_session_owner_open_impl_def Let_def)
  next
    case (Inr will_delay)
    obtain r1 s1 where first: "session_allocs (if ?has_will then 3 else 0) s = (r1, s1)" by fastforce
    obtain r2 s2 where second: "session_allocs (if so_initialized s then 0 else 1) s1 = (r2, s2)" by fastforce
    have s1: "s1 = s\<lparr>so_faults := so_faults s1\<rparr>" and s2: "s2 = s\<lparr>so_faults := so_faults s2\<rparr>"
      using session_allocs_frame [OF first] session_allocs_frame [OF second] by simp_all
    show thesis
    proof (cases "is_ok r1 \<and> is_ok r2")
      case True
      then have "r = Inr ()" "s' = opened connect expiry will_delay s2"
        using assms \<open>open_checks un connect allow_active s = Inr expiry\<close> Inr first second
        by (auto simp: flowie_session_owner_open_impl_def Let_def opened_def obind_def is_ok_def split: sum.splits)
      then show thesis
        using opened [OF _ \<open>open_checks un connect allow_active s = Inr expiry\<close>, of will_delay "so_faults s2"] s2
        by metis
    next
      case False
      then obtain e fs where "r = Inl e" "s' = s\<lparr>so_faults := fs\<rparr>"
        using assms \<open>open_checks un connect allow_active s = Inr expiry\<close> Inr first second s1 s2
        by (auto simp: flowie_session_owner_open_impl_def Let_def obind_def is_ok_def split: sum.splits)
      then show thesis by (rule refused)
    qed
  qed
qed

lemma open_will_keeps: "session_invariant s \<Longrightarrow> session_invariant (open_will connect will_delay s)"
  using will_clear_keeps [of s]
  by (cases "span_size (cv_will_topic connect) = 0") (simp_all add: open_will_def session_invariant_def clear_defs)

lemma open_will_fields [simp]:
  "so_session_generation (open_will connect will_delay s) = so_session_generation s"
  "so_client_id (open_will connect will_delay s) = so_client_id s"
  by (simp_all add: open_will_def clear_defs Let_def)

lemma connected_keeps:
  assumes "session_invariant s" "flowie_mqtt_version_is_supported v" "g \<noteq> 0" "so_client_id s \<noteq> None"
  shows "session_invariant (s\<lparr>so_version := v, so_keep_alive := k, so_session_expiry_interval := e, so_clean_start := c,
    so_session_generation := g, so_resource_generation := h, so_initialized := True, so_active := True\<rparr>)"
  using assms by (simp add: session_invariant_def)

lemma opened_invariant:
  assumes "session_invariant s" "open_checks un connect allow_active s = Inr expiry"
  shows "session_invariant (opened connect expiry will_delay (s\<lparr>so_faults := fs\<rparr>))"
proof -
  note facts = open_checks_facts [OF assms(2)]
  define s1 where "s1 = (if cv_clean_start connect \<noteq> 0 then clean_start_clear (s\<lparr>so_faults := fs\<rparr>) else s\<lparr>so_faults := fs\<rparr>)"
  define s2 where "s2 = (if so_initialized s1 then s1 else s1\<lparr>so_client_id := Some (span_bytes (cv_client_id connect))\<rparr>)"
  have s1: "session_invariant s1" "so_session_generation s1 = so_session_generation s" "so_initialized s1 = so_initialized s"
    using assms(1) clean_start_clear_keeps [of "s\<lparr>so_faults := fs\<rparr>"] by (simp_all add: s1_def clear_defs)
  then have "session_invariant s2" using facts(5) by (auto simp: s2_def session_invariant_def)
  moreover have "so_session_generation s2 = so_session_generation s" "so_client_id s2 \<noteq> None"
    using s1 by (simp_all add: s2_def session_invariant_def)
  ultimately show ?thesis
    using facts(1,2) unfolding opened_def Let_def s1_def [symmetric] s2_def [symmetric]
    by (intro connected_keeps open_will_keeps) simp_all
qed

lemma open_impl_keeps:
  assumes "flowie_session_owner_open_impl un connect allow_active s = (r, s')" "session_invariant s"
  shows "session_invariant s'"
  using assms(1)
proof (cases rule: open_impl_cases)
  case (opened expiry will_delay fs)
  then show ?thesis using opened_invariant [OF assms(2)] by simp
qed (use assms(2) in simp)

lemma connect_impl_keeps:
  assumes "flowie_session_owner_connect_impl un connect allow_active s = (r, s')" "session_invariant s"
  shows "session_invariant s'"
proof -
  obtain r1 s1 where run: "flowie_session_owner_open_impl un connect allow_active s = (r1, s1)" by fastforce
  then have "s' = s1"
    using assms(1) by (auto simp: flowie_session_owner_connect_impl_def Let_def split: sum.splits if_splits)
  then show ?thesis using open_impl_keeps [OF run assms(2)] by simp
qed

lemma close_keeps:
  assumes "flowie_session_owner_close s = (r, s')" "session_invariant s"
  shows "session_invariant s'"
  using assms inflight_clear_keeps [of "sf_max_inflight (so_config s)" "so_inflight s" True 0]
  by (auto simp: flowie_session_owner_close_def flowie_session_generation_advance_def obind_def Let_def
      session_invariant_def clear_defs inflight_clear_all will_ok_pending split: if_splits)

lemma disconnect_keeps:
  assumes "flowie_session_owner_disconnect un disconnect s = (r, s')" "session_invariant s"
  shows "session_invariant s'"
  using assms
  by (auto simp: flowie_session_owner_disconnect_def Let_def session_invariant_def clear_defs
      split: if_splits sum.splits option.splits)

lemma will_complete_keeps:
  "flowie_session_owner_will_complete s = (r, s') \<Longrightarrow> session_invariant s \<Longrightarrow> session_invariant s'"
  by (auto simp: flowie_session_owner_will_complete_def Let_def will_clear_keeps split: if_splits)

section \<open>Deliveries\<close>

lemma deliveries_ok_write:
  "deliveries_ok n index ds \<Longrightarrow> i < length ds \<Longrightarrow> dl_packet_id d = dl_packet_id (ds ! i) \<Longrightarrow> delivery_ok d \<Longrightarrow>
     deliveries_ok n index (ds[i := d])"
  unfolding deliveries_ok_def
  by (auto simp: table_ok_write dest!: set_update_subset_insert [THEN subsetD])

lemma deliveries_ok_append:
  "deliveries_ok n index ds \<Longrightarrow> dl_packet_id d \<noteq> 0 \<Longrightarrow> index (dl_packet_id d) = None \<Longrightarrow> delivery_ok d \<Longrightarrow>
     length ds < n \<Longrightarrow> deliveries_ok n (index(dl_packet_id d \<mapsto> length ds)) (ds @ [d])"
  unfolding deliveries_ok_def by (auto simp: table_ok_append)

lemma deliveries_ok_remove:
  "deliveries_ok n index ds \<Longrightarrow> i < length ds \<Longrightarrow>
     deliveries_ok n (index_removed i ds index) (swap_remove i ds)"
  unfolding deliveries_ok_def
  using set_swap_remove [of ds i] table_ok_distinct [of index ds]
  by (auto simp: table_ok_remove distinct_map)

lemma delivery_write_keeps:
  assumes "session_invariant s" "i < length (so_deliveries s)"
    "dl_packet_id d = dl_packet_id (so_deliveries s ! i)" "delivery_ok d"
  shows "session_invariant (delivery_write i d s)"
  using assms by (auto simp: session_invariant_def delivery_write_def deliveries_ok_write)

lemma remove_at_keeps:
  assumes "flowie_session_delivery_remove_at i s = (r, s')" "session_invariant s"
  shows "session_invariant s'"
proof (cases "i < length (so_deliveries s)")
  case True
  then show ?thesis
    using assms delivery_remove_at_run [OF session_invariant_table [OF assms(2)] True]
    by (auto simp: session_invariant_def deliveries_ok_remove)
next
  case False
  then show ?thesis
    using assms by (simp add: flowie_session_delivery_remove_at_def Let_def)
qed

lemma next_packet_id_nonzero: "next_packet_id candidate \<noteq> 0"
proof
  assume "next_packet_id candidate = 0"
  then have "candidate \<noteq> 65535" "candidate + 1 = 0"
    by (auto simp: next_packet_id_def split: if_splits)
  then show False by (simp add: eq_neg_iff_add_eq_0 [symmetric])
qed

lemma reserve_loop_fresh:
  assumes "delivery_table_ok s"
  shows "reserve_loop n candidate s = Inr p \<Longrightarrow> p \<noteq> 0 \<and> delivery_map s p = None"
proof (induction n arbitrary: candidate)
  case (Suc n)
  show ?case
  proof (cases "flowie_session_delivery_lookup (next_packet_id candidate) s")
    case (Inl e)
    with Suc.prems have "p = next_packet_id candidate" by (simp add: Let_def split: if_splits)
    with Inl show ?thesis
      by (simp add: next_packet_id_nonzero delivery_lookup_missing [OF assms])
  next
    case (Inr found)
    then show ?thesis using Suc by (simp add: Let_def)
  qed
qed simp

lemma reserve_keeps:
  assumes run: "flowie_session_owner_delivery_reserve qos s = (r, s')" and inv: "session_invariant s"
  shows "session_invariant s'"
proof (cases "s' = s")
  case False
  let ?d = "\<lambda>p. \<lparr>dl_packet_id = p, dl_qos = qos, dl_state = FLOWIE_SESSION_DELIVERY_RESERVED,
                dl_expiry_at = 0, dl_packet = None\<rparr>"
  from False run obtain p where loop: "reserve_loop 65535 (so_next_delivery_packet_id s) s = Inr p"
    and qos: "\<not> (qos = 0 \<or> qos > 2)"
    and room: "length (so_deliveries s) < sf_max_inflight (so_config s)"
    and append: "obind (flowie_session_delivery_append (?d p))
        (\<lambda>_ s. (Inr p, s\<lparr>so_next_delivery_packet_id := p\<rparr>)) s = (r, s')"
    by (auto simp: flowie_session_owner_delivery_reserve_def split: if_splits sum.splits)
  have table: "delivery_table_ok s" by (rule session_invariant_table [OF inv])
  have fresh: "p \<noteq> 0" "delivery_map s p = None"
    using reserve_loop_fresh [OF table loop] by simp_all
  have absent: "so_delivery_index s p = None"
    using fresh(2) by (simp add: table_ok_None_iff [OF table] delivery_map_None_iff)
  have new: "delivery_ok (?d p)"
    using qos_cases [OF qos] by (auto simp: delivery_ok_def)
  have step: "session_invariant s1" if "flowie_session_delivery_append (?d p) s = (r1, s1)" for r1 s1
    using delivery_append_run [OF table _ _ that] fresh inv new room absent
    by (auto simp: session_invariant_def deliveries_ok_append [of _ _ _ "?d p", simplified])
  show ?thesis
    using append inv by (rule obind_keeps) (auto dest: step)
qed (use inv in simp)

lemma commit_state_keeps:
  assumes run: "flowie_session_owner_delivery_commit_state un p packet expiry queued s = (r, s')"
    and inv: "session_invariant s"
  shows "session_invariant s'"
proof (cases "s' = s")
  case False
  from False run obtain i d where found: "flowie_session_delivery_lookup p s = Inr (i, d)"
    and reserved: "dl_state d = FLOWIE_SESSION_DELIVERY_RESERVED"
    by (auto simp: flowie_session_owner_delivery_commit_state_def split: if_splits sum.splits)
  have at: "i < length (so_deliveries s)" "so_deliveries s ! i = d"
    using found by (simp_all add: delivery_lookup_iff [OF session_invariant_table [OF inv]])
  have d: "delivery_ok d" "dl_packet d = None" "dl_expiry_at d = 0"
    using session_invariant_delivery [OF inv at(1)] at(2) reserved by (auto simp: delivery_ok_def)
  have ok: "delivery_ok (d\<lparr>dl_packet := Some bs, dl_expiry_at := expiry,
      dl_state := if queued then FLOWIE_SESSION_DELIVERY_QUEUED else sent_state (dl_qos d)\<rparr>)" for bs
    using d by (auto simp: delivery_ok_def sent_state_def)
  have undone: "delivery_ok (d\<lparr>dl_packet := None, dl_expiry_at := 0, dl_state := FLOWIE_SESSION_DELIVERY_RESERVED\<rparr>)"
    using d by (auto simp: delivery_ok_def)
  show ?thesis
  proof (cases "session_allocs 1 s")
    case (Pair r1 s1)
    then obtain fs where s1: "s1 = s\<lparr>so_faults := fs\<rparr>"
      by (auto dest: session_allocs_frame)
    have at1: "i < length (so_deliveries s1)" "so_deliveries s1 ! i = d" "session_invariant s1"
      using at inv by (simp_all add: s1)
    have kept: "session_invariant (delivery_write i d' s1)" if "delivery_ok d'" "dl_packet_id d' = dl_packet_id d" for d'
      using delivery_write_keeps [OF at1(3,1), of d'] that at1(2) by simp
    show ?thesis
      using run found reserved d Pair at1(3) kept [OF ok] kept [OF undone] inv
      by (auto simp: flowie_session_owner_delivery_commit_state_def obind_def Let_def split: if_splits sum.splits)
  qed
qed (use inv in simp)

lemma cancel_keeps:
  assumes "flowie_session_owner_delivery_cancel p s = (r, s')" "session_invariant s"
  shows "session_invariant s'"
  using assms
  by (auto simp: flowie_session_owner_delivery_cancel_def obind_def dest: remove_at_keeps
      split: sum.splits prod.splits)

lemma expire_loop_keeps:
  "expire_loop now i s = (r, s') \<Longrightarrow> session_invariant s \<Longrightarrow> session_invariant s'"
proof (induction now i s rule: expire_loop.induct)
  case (1 now i s)
  then show ?case
    by (subst (asm) (2) expire_loop.simps)
       (auto dest: remove_at_keeps split: if_splits prod.splits sum.splits)
qed

lemma expire_keeps:
  assumes "flowie_session_owner_delivery_expire now s = (r, s')" "session_invariant s"
  shows "session_invariant s'"
  using assms
  by (auto simp: flowie_session_owner_delivery_expire_def Let_def obind_def dest!: expire_loop_keeps
      split: if_splits sum.splits prod.splits)

lemma expire_packet_keeps:
  assumes "flowie_session_owner_delivery_expire_packet p now s = (r, s')" "session_invariant s"
  shows "session_invariant s'"
  using assms
  by (auto simp: flowie_session_owner_delivery_expire_packet_def obind_def dest!: remove_at_keeps
      split: if_splits sum.splits prod.splits)

lemma pending_sent_ok: "delivery_ok d \<Longrightarrow> dl_state d \<noteq> FLOWIE_SESSION_DELIVERY_RESERVED \<Longrightarrow> delivery_ok (pending_sent bs d)"
  by (auto simp: delivery_ok_def pending_sent_def sent_state_def split: flowie_session_delivery_state.splits)

lemma pending_sent_id [simp]: "dl_packet_id (pending_sent bs d) = dl_packet_id d"
  by (simp add: pending_sent_def)

lemma pending_at_ex_keeps:
  assumes "flowie_session_owner_delivery_pending_at_ex un i now s = (r, s')" "session_invariant s"
  shows "session_invariant s'"
proof (cases "s' = s")
  case False
  let ?d = "so_deliveries s ! i"
  from False assms(1) have i: "i < length (so_deliveries s)"
    and sent: "dl_state ?d \<noteq> FLOWIE_SESSION_DELIVERY_RESERVED"
    and s': "\<exists>bs. s' = delivery_write i (?d\<lparr>dl_packet := Some bs\<rparr>) s \<or> s' = delivery_write i (pending_sent bs ?d) s"
    by (auto simp: flowie_session_owner_delivery_pending_at_ex_def Let_def
        split: if_splits option.splits prod.splits sum.splits)
  have d: "delivery_ok ?d" by (rule session_invariant_delivery [OF assms(2) i])
  then have "delivery_ok (?d\<lparr>dl_packet := Some bs\<rparr>)" for bs
    using sent by (auto simp: delivery_ok_def split: flowie_session_delivery_state.splits)
  then show ?thesis
    using s' delivery_write_keeps [OF assms(2) i] pending_sent_ok [OF d sent] by auto
qed (use assms(2) in simp)

lemma pending_at_keeps:
  assumes "flowie_session_owner_delivery_pending_at un i s = (r, s')" "session_invariant s"
  shows "session_invariant s'"
  using assms
  by (auto simp: flowie_session_owner_delivery_pending_at_def obind_def dest: pending_at_ex_keeps
      split: if_splits sum.splits prod.splits)

lemma ack_settled_keeps:
  "ack_settled i s = (r, s') \<Longrightarrow> session_invariant s \<Longrightarrow> session_invariant s'"
  by (auto simp: ack_settled_def obind_def dest!: remove_at_keeps split: if_splits sum.splits prod.splits)

lemma ack_received_keeps:
  assumes run: "ack_received un i d s = (r, s')" and inv: "session_invariant s"
    and at: "i < length (so_deliveries s)" "so_deliveries s ! i = d"
  shows "session_invariant s'"
proof (cases "dl_state d = FLOWIE_SESSION_DELIVERY_WAIT_PUBREC")
  case True
  have d: "delivery_ok d" using session_invariant_delivery [OF inv at(1)] at(2) by simp
  have ok: "delivery_ok (d\<lparr>dl_packet := Some bs, dl_state := FLOWIE_SESSION_DELIVERY_WAIT_PUBCOMP, dl_expiry_at := 0\<rparr>)" for bs
    using d True by (auto simp: delivery_ok_def)
  have kept: "session_invariant (delivery_write i
      (d\<lparr>dl_packet := Some bs, dl_state := FLOWIE_SESSION_DELIVERY_WAIT_PUBCOMP, dl_expiry_at := 0\<rparr>) (s\<lparr>so_faults := fs\<rparr>))" for bs fs
    by (rule delivery_write_keeps) (use inv at ok in simp_all)
  show ?thesis
    using run True inv kept
    by (auto simp: ack_received_def obind_def dest!: session_allocs_frame split: if_splits sum.splits prod.splits)
next
  case False
  then show ?thesis
    using run inv by (auto simp: ack_received_def obind_def split: if_splits)
qed

lemma delivery_ack_keeps:
  assumes run: "flowie_session_owner_delivery_ack un packet s = (r, s')" and inv: "session_invariant s"
  shows "session_invariant s'"
proof (cases "s' = s")
  case False
  from False run obtain p i d where found: "flowie_session_delivery_lookup p s = Inr (i, d)"
    and s': "ack_settled i s = (r, s') \<or> ack_received un i d s = (r, s')"
    by (auto simp: flowie_session_owner_delivery_ack_def split: if_splits sum.splits)
  have "i < length (so_deliveries s)" "so_deliveries s ! i = d"
    using found by (simp_all add: delivery_lookup_iff [OF session_invariant_table [OF inv]])
  then show ?thesis
    using s' ack_settled_keeps ack_received_keeps inv by blast
qed (use inv in simp)

end
