(* ===== verification/Session_Subscriptions.thy ===== *)
theory Session_Subscriptions
  imports Session_Invariant Mqtt_Roundtrip
begin

text \<open>
  The subscriptions of a session as a map from topic filters to options. SUBSCRIBE and
  UNSUBSCRIBE of \<open>flowie/src/flowie_session.c\<close> refine updates of that map, entry by entry of
  the packet, and change nothing when they fail.
\<close>

section \<open>The map of subscriptions\<close>

definition subscription_map ::
    "flowie_session_subscription_owned list \<Rightarrow> bytes \<Rightarrow> flowie_session_subscription_owned option" where
  "subscription_map ss = keyed_map sn_filter ss"

lemma subscription_find_Some:
  "flowie_session_subscription_find ss f = Some i \<Longrightarrow> i < length ss \<and> sn_filter (ss ! i) = f"
  by (induction ss f arbitrary: i rule: flowie_session_subscription_find.induct) (auto split: if_splits)

lemma subscription_find_None: "flowie_session_subscription_find ss f = None \<longleftrightarrow> f \<notin> sn_filter ` set ss"
  by (induction ss f rule: flowie_session_subscription_find.induct) auto

lemma subscription_find_map: "flowie_session_subscription_find ss f = None \<longleftrightarrow> subscription_map ss f = None"
  by (simp add: subscription_find_None subscription_map_def keyed_map_None)

section \<open>SUBSCRIBE\<close>

lemma subscription_apply_run:
  assumes run: "flowie_session_subscription_apply ss n entry sid changed s = (r, s')"
    and ok: "subscriptions_ok n ss"
  obtains (refused) e fs where "r = Inl e" "s' = s\<lparr>so_faults := fs\<rparr>"
  | (applied) ss' fs where "r = Inr (ss', changed \<or> ss' \<noteq> ss)" "s' = s\<lparr>so_faults := fs\<rparr>" "subscriptions_ok n ss'"
      "subscription_map ss' = (subscription_map ss)(span_bytes (sv_filter entry) \<mapsto> subscription_entry entry sid)"
proof (cases "flowie_session_subscription_find ss (span_bytes (sv_filter entry))")
  case None
  let ?e = "subscription_entry entry sid"
  have absent: "span_bytes (sv_filter entry) \<notin> sn_filter ` set ss"
    using None by (simp add: subscription_find_None)
  have grown: "subscription_map (ss @ [?e]) = (subscription_map ss)(span_bytes (sv_filter entry) \<mapsto> ?e)"
    using keyed_map_append [of sn_filter ss ?e] absent
    by (simp add: subscription_entry_def subscription_map_def keyed_map_None)
  show thesis
  proof (cases "n \<le> length ss")
    case True
    then have "r = Inl SALTS_ENOSPC" "s' = s\<lparr>so_faults := so_faults s\<rparr>"
      using run None by (simp_all add: flowie_session_subscription_apply_def Let_def)
    then show thesis by (rule refused)
  next
    case False
    then have room: "subscriptions_ok n (ss @ [?e])"
      using ok absent by (auto simp: subscriptions_ok_def subscription_entry_def)
    obtain r1 s1 where first: "session_allocs 1 s = (r1, s1)" by fastforce
    obtain r2 s2 where second: "session_attempt s1 = (r2, s2)" by fastforce
    have s1: "s1 = s\<lparr>so_faults := so_faults s1\<rparr>" and s2: "s2 = s\<lparr>so_faults := so_faults s2\<rparr>"
      using session_allocs_frame [OF first] session_attempt_frame [OF second] by simp_all
    have step: "(r, s') = (case r1 of Inl e \<Rightarrow> (Inl e, s1) | Inr u \<Rightarrow>
        (case r2 of Inl e \<Rightarrow> (Inl e, s2) | Inr u \<Rightarrow> (Inr (ss @ [?e], True), s2)))"
      using run None False first second
      by (auto simp: flowie_session_subscription_apply_def Let_def obind_def split: sum.splits)
    then consider "\<exists>e. r = Inl e" "s' = s1 \<or> s' = s2" | "r = Inr (ss @ [?e], True)" "s' = s2"
      by (auto split: sum.splits)
    then show thesis
    proof cases
      case 1
      then show thesis using refused s1 s2 by metis
    next
      case 2
      then show thesis using applied [of "ss @ [?e]" "so_faults s2"] s2 room grown by simp
    qed
  qed
next
  case (Some i)
  let ?e = "subscription_entry entry sid"
  have i: "i < length ss" "sn_filter (ss ! i) = span_bytes (sv_filter entry)"
    using subscription_find_Some [OF Some] by simp_all
  have e: "sn_filter ?e = span_bytes (sv_filter entry)"
    by (simp add: subscription_entry_def)
  have same: "(\<not> (sn_qos (ss ! i) \<noteq> sv_qos entry \<or> sn_no_local (ss ! i) \<noteq> sv_no_local entry \<or>
      sn_retain_as_published (ss ! i) \<noteq> sv_retain_as_published entry \<or>
      sn_retain_handling (ss ! i) \<noteq> sv_retain_handling entry \<or>
      sn_subscription_identifier (ss ! i) \<noteq> sid)) \<longleftrightarrow> ss ! i = ?e"
    using i(2) by (auto simp: subscription_entry_def intro!: flowie_session_subscription_owned.equality)
  have "r = Inr (ss[i := ?e], changed \<or> ss[i := ?e] \<noteq> ss)" "s' = s\<lparr>so_faults := so_faults s\<rparr>"
    using run Some i(1) same list_update_same_conv [OF i(1), of ?e]
    by (auto simp: flowie_session_subscription_apply_def Let_def split: if_splits)
  moreover have "subscriptions_ok n (ss[i := ?e])"
    using ok i e by (simp add: subscriptions_ok_def map_key_write)
  moreover have "subscription_map (ss[i := ?e]) = (subscription_map ss)(span_bytes (sv_filter entry) \<mapsto> ?e)"
    using keyed_map_write [of sn_filter ss i ?e] ok i e by (simp add: subscriptions_ok_def subscription_map_def)
  ultimately show thesis by (rule applied)
qed

text \<open>What a SUBSCRIBE does to the map, entry by entry.\<close>

definition subscribed ::
    "u32 \<Rightarrow> flowie_mqtt_subscription_view list \<Rightarrow> (bytes \<Rightarrow> flowie_session_subscription_owned option) \<Rightarrow>
       bytes \<Rightarrow> flowie_session_subscription_owned option" where
  "subscribed sid entries m =
     fold (\<lambda>e m. m(span_bytes (sv_filter e) \<mapsto> subscription_entry e sid)) entries m"

lemma subscribe_loop_run:
  assumes "subscribe_loop un sid it ss changed n s = (r, s')"
    and "subscriptions_ok (sf_max_subscriptions (so_config s)) ss"
  shows "(\<exists>fs. s' = s\<lparr>so_faults := fs\<rparr>) \<and>
    (\<forall>ss' changed' n' rc. r = Inr (ss', changed', n', rc) \<longrightarrow>
       subscriptions_ok (sf_max_subscriptions (so_config s)) ss' \<and>
       (\<not> changed' \<longrightarrow> \<not> changed \<and> ss' = ss) \<and>
       (rc = FLOWIE_MQTT_PARSE_NEED_MORE \<longrightarrow>
          (\<exists>entries. iterates (flowie_mqtt_subscription_iterator_next un) it entries \<and> n' = n + length entries \<and>
             subscription_map ss' = subscribed sid entries (subscription_map ss))))"
  using assms
proof (induction un sid it ss changed n s arbitrary: r s' rule: subscribe_loop.induct)
  case (1 un sid it ss changed n s)
  show ?case
  proof (cases "flowie_mqtt_subscription_iterator_next un it")
    case (Inl rc)
    then have "r = Inr (ss, changed, n, rc)" "s' = s\<lparr>so_faults := so_faults s\<rparr>"
      using "1.prems"(1) by (simp_all add: subscribe_loop.simps [of un sid it])
    moreover have "iterates (flowie_mqtt_subscription_iterator_next un) it []" if "rc = FLOWIE_MQTT_PARSE_NEED_MORE"
      using Inl that by simp
    ultimately show ?thesis
      using "1.prems"(2) by (fastforce simp: subscribed_def)
  next
    case (Inr a)
    then obtain entry it' where nxt: "flowie_mqtt_subscription_iterator_next un it = Inr (entry, it')"
      by (cases a) simp
    obtain r1 s1 where run: "flowie_session_subscription_apply ss (sf_max_subscriptions (so_config s)) entry sid
        changed s = (r1, s1)" by fastforce
    from run "1.prems"(2) show ?thesis
    proof (cases rule: subscription_apply_run)
      case (refused e fs)
      then show ?thesis
        using "1.prems"(1) nxt run by (auto simp: subscribe_loop.simps [of un sid it])
    next
      case (applied ss1 fs)
      have loop: "subscribe_loop un sid it' ss1 (changed \<or> ss1 \<noteq> ss) (n + 1) s1 = (r, s')"
        using "1.prems"(1) nxt run applied(1) by (simp add: subscribe_loop.simps [of un sid it])
      have ok: "subscriptions_ok (sf_max_subscriptions (so_config s1)) ss1"
        using applied(2,3) by simp
      note ih = "1.IH" [OF nxt refl run [unfolded applied(1), symmetric] refl refl loop ok]
      have "\<exists>fs. s' = s\<lparr>so_faults := fs\<rparr>"
        using ih applied(2) by auto
      moreover have "subscriptions_ok (sf_max_subscriptions (so_config s)) ss' \<and>
         (\<not> changed' \<longrightarrow> \<not> changed \<and> ss' = ss) \<and>
         (rc = FLOWIE_MQTT_PARSE_NEED_MORE \<longrightarrow>
            (\<exists>entries. iterates (flowie_mqtt_subscription_iterator_next un) it entries \<and> n' = n + length entries \<and>
               subscription_map ss' = subscribed sid entries (subscription_map ss)))"
        if r: "r = Inr (ss', changed', n', rc)" for ss' changed' n' rc
      proof -
        have tail: "subscriptions_ok (sf_max_subscriptions (so_config s)) ss'"
          "\<not> changed' \<Longrightarrow> \<not> changed \<and> ss1 = ss \<and> ss' = ss1"
          using ih r applied(2) by auto
        have more: "rc = FLOWIE_MQTT_PARSE_NEED_MORE \<Longrightarrow> \<exists>entries.
            iterates (flowie_mqtt_subscription_iterator_next un) it' entries \<and> n' = n + 1 + length entries \<and>
            subscription_map ss' = subscribed sid entries (subscription_map ss1)"
          using ih r by simp
        have "\<exists>entries. iterates (flowie_mqtt_subscription_iterator_next un) it entries \<and> n' = n + length entries \<and>
            subscription_map ss' = subscribed sid entries (subscription_map ss)"
          if "rc = FLOWIE_MQTT_PARSE_NEED_MORE"
        proof -
          from more [OF that] obtain entries where
            "iterates (flowie_mqtt_subscription_iterator_next un) it' entries" "n' = n + 1 + length entries"
            "subscription_map ss' = subscribed sid entries (subscription_map ss1)" by blast
          then show ?thesis
            using nxt applied(4) by (intro exI [of _ "entry # entries"]) (simp add: subscribed_def)
        qed
        with tail show ?thesis by blast
      qed
      ultimately show ?thesis by blast
    qed
  qed
qed

lemma clone_loop_run:
  "subscriptions_clone_loop es out s = (r, s') \<Longrightarrow>
     (\<exists>fs. s' = s\<lparr>so_faults := fs\<rparr>) \<and> (\<forall>x. r = Inr x \<longrightarrow> x = out @ es)"
proof (induction es arbitrary: out s)
  case Nil
  then show ?case by (auto intro!: exI [of _ "so_faults s"])
next
  case (Cons e es)
  obtain r1 s1 where first: "session_allocs 1 s = (r1, s1)" by fastforce
  obtain r2 s2 where second: "session_attempt s1 = (r2, s2)" by fastforce
  have frame: "\<exists>fs. s1 = s\<lparr>so_faults := fs\<rparr>" "\<exists>fs. s2 = s\<lparr>so_faults := fs\<rparr>"
    using session_allocs_frame [OF first] session_attempt_frame [OF second] by auto
  show ?case
  proof (cases "\<exists>u v. r1 = Inr u \<and> r2 = Inr v")
    case True
    then have "subscriptions_clone_loop es (out @ [e]) s2 = (r, s')"
      using Cons.prems first second by (auto simp: obind_def)
    from Cons.IH [OF this] frame(2) show ?thesis by auto
  next
    case False
    then have "(s' = s1 \<or> s' = s2) \<and> (\<exists>e. r = Inl e)"
      using Cons.prems first second by (auto simp: obind_def split: sum.splits)
    with frame show ?thesis by auto
  qed
qed

lemma clone_run:
  assumes "flowie_session_subscriptions_clone ss s = (r, s')"
  shows "(\<exists>fs. s' = s\<lparr>so_faults := fs\<rparr>) \<and> (\<forall>x. r = Inr x \<longrightarrow> x = ss)"
proof (cases "session_attempt s")
  case (Pair r1 s1)
  note frame = session_attempt_frame [OF Pair]
  show ?thesis
  proof (cases r1)
    case (Inl e)
    then show ?thesis
      using assms Pair frame by (auto simp: flowie_session_subscriptions_clone_def obind_def)
  next
    case (Inr u)
    then have "subscriptions_clone_loop ss [] s1 = (r, s')"
      using assms Pair by (simp add: flowie_session_subscriptions_clone_def obind_def)
    from clone_loop_run [OF this] frame show ?thesis by auto
  qed
qed

text \<open>The outcome of a SUBSCRIBE: nothing changes, or every entry of the packet is applied.\<close>

lemma subscribe_run:
  assumes run: "flowie_session_owner_subscribe un packet subscribe s = (r, s')"
    and ok: "subscriptions_ok (sf_max_subscriptions (so_config s)) (so_subscriptions s)"
  obtains (refused) e fs where "r = Inl e" "s' = s\<lparr>so_faults := fs\<rparr>"
  | (accepted) sid it entries ss changed fs where
      "r = Inr \<lparr>sr_packet_id = sb_packet_id subscribe, sr_accepted_count = sb_entry_count subscribe, sr_changed = changed\<rparr>"
      "so_active s" "subscribe_identifier un packet subscribe = Inr sid"
      "flowie_mqtt_subscription_iterator_init packet subscribe = Inr it"
      "iterates (flowie_mqtt_subscription_iterator_next un) it entries" "length entries = sb_entry_count subscribe"
      "s' = s\<lparr>so_faults := fs, so_subscriptions := ss,
              so_resource_generation := so_resource_generation s + (if changed then 1 else 0)\<rparr>"
      "subscriptions_ok (sf_max_subscriptions (so_config s)) ss" "\<not> changed \<Longrightarrow> ss = so_subscriptions s"
      "subscription_map ss = subscribed sid entries (subscription_map (so_subscriptions s))"
proof (cases "s' = s \<and> (\<exists>e. r = Inl e)")
  case True
  then show thesis using refused [of _ "so_faults s"] by auto
next
  case False
  from False run obtain it sid where active: "so_active s"
    and it: "flowie_mqtt_subscription_iterator_init packet subscribe = Inr it"
    and sid: "subscribe_identifier un packet subscribe = Inr sid"
    by (auto simp: flowie_session_owner_subscribe_def split: if_splits sum.splits)
  obtain r1 s1 where clone: "flowie_session_subscriptions_clone (so_subscriptions s) s = (r1, s1)" by fastforce
  obtain fs1 where s1: "s1 = s\<lparr>so_faults := fs1\<rparr>" using clone_run [OF clone] by blast
  show thesis
  proof (cases r1)
    case (Inl e)
    then have "r = Inl e" "s' = s\<lparr>so_faults := fs1\<rparr>"
      using run False active it sid clone s1
      by (auto simp: flowie_session_owner_subscribe_def obind_def split: if_splits)
    then show thesis by (rule refused)
  next
    case (Inr staged)
    then have staged: "staged = so_subscriptions s" using clone_run [OF clone] by simp
    obtain r2 s2 where loop: "subscribe_loop un sid it staged False 0 s1 = (r2, s2)" by fastforce
    have ok1: "subscriptions_ok (sf_max_subscriptions (so_config s1)) staged" using ok by (simp add: s1 staged)
    obtain fs2 where s2: "s2 = s\<lparr>so_faults := fs2\<rparr>"
      using subscribe_loop_run [OF loop ok1] s1 by auto
    show thesis
    proof (cases r2)
      case (Inl e)
      then have "r = Inl e" "s' = s\<lparr>so_faults := fs2\<rparr>"
        using run False active it sid clone loop \<open>r1 = Inr staged\<close> s2
        by (auto simp: flowie_session_owner_subscribe_def obind_def split: if_splits)
      then show thesis by (rule refused)
    next
      case (Inr result)
      obtain ss changed n rc where result: "result = (ss, changed, n, rc)" by (cases result)
      have facts: "subscriptions_ok (sf_max_subscriptions (so_config s)) ss" "\<not> changed \<Longrightarrow> ss = so_subscriptions s"
        "rc = FLOWIE_MQTT_PARSE_NEED_MORE \<Longrightarrow> \<exists>entries. iterates (flowie_mqtt_subscription_iterator_next un) it entries \<and>
           n = length entries \<and> subscription_map ss = subscribed sid entries (subscription_map (so_subscriptions s))"
        using subscribe_loop_run [OF loop ok1] Inr result s1 staged by auto
      have finish: "(if rc \<noteq> FLOWIE_MQTT_PARSE_NEED_MORE \<or> n \<noteq> sb_entry_count subscribe then (Inl SALTS_EPROTO, s2)
          else if changed \<and> so_resource_generation s2 = UINT64_MAX then (Inl SALTS_ERANGE, s2)
          else (Inr \<lparr>sr_packet_id = sb_packet_id subscribe, sr_accepted_count = n, sr_changed = changed\<rparr>,
                if changed then s2\<lparr>so_resource_generation := so_resource_generation s2 + 1, so_subscriptions := ss\<rparr>
                else s2)) = (r, s')"
        using run False active it sid clone loop \<open>r1 = Inr staged\<close> Inr result
        by (auto simp: flowie_session_owner_subscribe_def obind_def flowie_session_generation_advance_def split: if_splits)
      show thesis
      proof (cases "\<exists>e. r = Inl e")
        case True
        with finish s2 have "\<exists>e. r = Inl e" "s' = s\<lparr>so_faults := fs2\<rparr>" by (auto split: if_splits)
        then show thesis using refused by blast
      next
        case False
        then have rc: "rc = FLOWIE_MQTT_PARSE_NEED_MORE" "n = sb_entry_count subscribe"
          and r: "r = Inr \<lparr>sr_packet_id = sb_packet_id subscribe, sr_accepted_count = n, sr_changed = changed\<rparr>"
          and s': "s' = (if changed then s2\<lparr>so_resource_generation := so_resource_generation s2 + 1, so_subscriptions := ss\<rparr>
                else s2)"
          using finish by (auto split: if_splits)
        from facts(3) [OF rc(1)] obtain entries where entries:
          "iterates (flowie_mqtt_subscription_iterator_next un) it entries" "n = length entries"
          "subscription_map ss = subscribed sid entries (subscription_map (so_subscriptions s))" by blast
        have "s' = s\<lparr>so_faults := fs2, so_subscriptions := ss,
              so_resource_generation := so_resource_generation s + (if changed then 1 else 0)\<rparr>"
          using s' s2 facts(2) by auto
        then show thesis
          using accepted [OF _ active sid it entries(1)] entries r rc facts(1,2) by simp
      qed
    qed
  qed
qed

lemma subscribe_keeps:
  assumes "flowie_session_owner_subscribe un packet subscribe s = (r, s')" "session_invariant s"
  shows "session_invariant s'"
proof -
  have "subscriptions_ok (sf_max_subscriptions (so_config s)) (so_subscriptions s)"
    using assms(2) by (simp add: session_invariant_def)
  from assms(1) this show ?thesis
  proof (cases rule: subscribe_run)
    case (refused e fs)
    then show ?thesis using assms(2) by simp
  next
    case (accepted sid it entries ss changed fs)
    then show ?thesis using assms(2) by (auto simp: session_invariant_def)
  qed
qed

section \<open>UNSUBSCRIBE\<close>

text \<open>What an UNSUBSCRIBE does to the map, with the reason code of each filter.\<close>

fun unsubscribed ::
    "bytes list \<Rightarrow> (bytes \<Rightarrow> flowie_session_subscription_owned option) \<Rightarrow>
       (bytes \<Rightarrow> flowie_session_subscription_owned option) \<times> bytes" where
  "unsubscribed [] m = (m, [])"
| "unsubscribed (f # fs) m =
     (let (m', codes) = unsubscribed fs (m(f := None)) in (m', (if m f = None then 0x11 else 0x00) # codes))"

lemma unsubscribed_map: "fst (unsubscribed fs m) = (\<lambda>f. if f \<in> set fs then None else m f)"
  by (induction fs arbitrary: m) (auto simp: Let_def split_def)

lemma subscription_remove_run:
  assumes "flowie_session_subscription_remove ss f = (ss', removed)" "subscriptions_ok n ss"
  shows "subscriptions_ok n ss' \<and> subscription_map ss' = (subscription_map ss)(f := None) \<and>
    (removed \<longleftrightarrow> subscription_map ss f \<noteq> None) \<and> (\<not> removed \<longrightarrow> ss' = ss)"
proof (cases "flowie_session_subscription_find ss f")
  case None
  then show ?thesis
    using assms subscription_find_map [of ss f]
    by (auto simp: flowie_session_subscription_remove_def fun_upd_idem)
next
  case (Some i)
  then have i: "i < length ss" "sn_filter (ss ! i) = f" by (auto dest: subscription_find_Some)
  have distinct: "distinct (map sn_filter ss)" using assms(2) by (simp add: subscriptions_ok_def)
  show ?thesis
    using assms Some i distinct keyed_map_remove [OF distinct i(1)] distinct_key_remove [OF distinct i(1)]
      subscription_find_map [of ss f]
    by (auto simp: flowie_session_subscription_remove_def subscription_map_def subscriptions_ok_def)
qed

lemma unsubscribe_loop_run:
  assumes "unsubscribe_loop un it ss reasons k = (ss', reasons', k', rc)" "subscriptions_ok n ss"
  shows "subscriptions_ok n ss' \<and> k \<le> k' \<and> (k' = k \<longrightarrow> ss' = ss) \<and>
    (rc = FLOWIE_MQTT_PARSE_NEED_MORE \<longrightarrow>
       (\<exists>fs codes. iterates (flowie_mqtt_topic_filter_iterator_next un) it fs \<and>
          unsubscribed (map span_bytes fs) (subscription_map ss) = (subscription_map ss', codes) \<and>
          length codes = length fs \<and> reasons' = reasons @ codes \<and> k' = k + length (filter (\<lambda>c. c = 0x00) codes)))"
  using assms
proof (induction un it ss reasons k rule: unsubscribe_loop.induct)
  case (1 un it ss reasons k)
  show ?case
  proof (cases "flowie_mqtt_topic_filter_iterator_next un it")
    case (Inl rc')
    then have "ss' = ss" "reasons' = reasons" "k' = k" "rc = rc'"
      using "1.prems"(1) by (simp_all add: unsubscribe_loop.simps [of un it])
    moreover have "iterates (flowie_mqtt_topic_filter_iterator_next un) it []" if "rc' = FLOWIE_MQTT_PARSE_NEED_MORE"
      using Inl that by simp
    ultimately show ?thesis
      using "1.prems"(2) by fastforce
  next
    case (Inr a)
    then obtain f it' where nxt: "flowie_mqtt_topic_filter_iterator_next un it = Inr (f, it')"
      by (cases a) simp
    obtain ss1 removed where step: "flowie_session_subscription_remove ss (span_bytes f) = (ss1, removed)" by fastforce
    note removed = subscription_remove_run [OF step "1.prems"(2)]
    let ?c = "if removed then 0x00 else 0x11 :: u8"
    have loop: "unsubscribe_loop un it' ss1 (reasons @ [?c]) (k + (if removed then 1 else 0)) = (ss', reasons', k', rc)"
      using "1.prems"(1) nxt step by (simp add: unsubscribe_loop.simps [of un it])
    note ih = "1.IH" [OF nxt refl step [symmetric] loop conjunct1 [OF removed]]
    have kept: "subscriptions_ok n ss'" "k \<le> k'" "k' = k \<Longrightarrow> ss' = ss"
      using ih removed by (auto split: if_splits)
    moreover have "\<exists>fs codes. iterates (flowie_mqtt_topic_filter_iterator_next un) it fs \<and>
          unsubscribed (map span_bytes fs) (subscription_map ss) = (subscription_map ss', codes) \<and>
          length codes = length fs \<and> reasons' = reasons @ codes \<and> k' = k + length (filter (\<lambda>c. c = 0x00) codes)"
      if more: "rc = FLOWIE_MQTT_PARSE_NEED_MORE"
    proof -
      from ih more obtain fs codes where tail: "iterates (flowie_mqtt_topic_filter_iterator_next un) it' fs"
        "unsubscribed (map span_bytes fs) (subscription_map ss1) = (subscription_map ss', codes)"
        "length codes = length fs" "reasons' = reasons @ [?c] @ codes"
        "k' = k + (if removed then 1 else 0) + length (filter (\<lambda>c. c = 0x00) codes)"
        by auto
      have "unsubscribed (map span_bytes (f # fs)) (subscription_map ss) = (subscription_map ss', ?c # codes)"
        using tail(2) removed by (cases removed) auto
      then show ?thesis
        using tail nxt by (intro exI [of _ "f # fs"] exI [of _ "?c # codes"]) (cases removed; simp)
    qed
    ultimately show ?thesis by blast
  qed
qed

lemma unsubscribe_run:
  assumes run: "flowie_session_owner_unsubscribe un packet unsubscribe buffer s = (r, s')"
    and ok: "subscriptions_ok (sf_max_subscriptions (so_config s)) (so_subscriptions s)"
  obtains (refused) e fs where "r = Inl e" "s' = s\<lparr>so_faults := fs\<rparr>"
  | (accepted) it filters codes ss k fs where
      "r = Inr \<lparr>ur_packet_id = us_packet_id unsubscribe, ur_filter_count = us_filter_count unsubscribe,
                ur_removed_count = k, ur_changed = (k \<noteq> 0),
                ur_reason_codes = (if pv_version packet = FLOWIE_MQTT_VERSION_5 then Span codes else NullSpan 0)\<rparr>"
      "so_active s" "flowie_mqtt_topic_filter_iterator_init unsubscribe = Inr it"
      "iterates (flowie_mqtt_topic_filter_iterator_next un) it filters" "length filters = us_filter_count unsubscribe"
      "unsubscribed (map span_bytes filters) (subscription_map (so_subscriptions s)) = (subscription_map ss, codes)"
      "length codes = length filters" "k = length (filter (\<lambda>c. c = 0x00) codes)"
      "s' = s\<lparr>so_faults := fs, so_subscriptions := ss,
              so_resource_generation := so_resource_generation s + (if k \<noteq> 0 then 1 else 0)\<rparr>"
      "subscriptions_ok (sf_max_subscriptions (so_config s)) ss"
proof (cases "s' = s \<and> (\<exists>e. r = Inl e)")
  case True
  then show thesis using refused [of _ "so_faults s"] by auto
next
  case False
  let ?v5 = "pv_version packet = FLOWIE_MQTT_VERSION_5"
  obtain r0 s0 where alloc: "session_allocs (if ?v5 then 1 else 0) s = (r0, s0)" by fastforce
  obtain fs0 where s0: "s0 = s\<lparr>so_faults := fs0\<rparr>" using session_allocs_frame [OF alloc] by blast
  obtain r1 s1 where clone: "flowie_session_subscriptions_clone (so_subscriptions s0) s0 = (r1, s1)" by fastforce
  obtain fs1 where s1: "s1 = s\<lparr>so_faults := fs1\<rparr>" using clone_run [OF clone] s0 by auto
  from False run have active: "so_active s" by (auto simp: flowie_session_owner_unsubscribe_def Let_def split: if_splits)
  show thesis
  proof (cases "\<exists>e. r = Inl e")
    case True
    have "s' = s0 \<or> s' = s1"
      using True run False alloc clone
      by (auto simp: flowie_session_owner_unsubscribe_def Let_def obind_def flowie_session_generation_advance_def
          split: if_splits sum.splits prod.splits)
    then show thesis using True refused s0 s1 by blast
  next
    case success: False
    then obtain it staged ss reasons k rc where it: "flowie_mqtt_topic_filter_iterator_init unsubscribe = Inr it"
      and staged: "r1 = Inr staged" and loop: "unsubscribe_loop un it staged [] 0 = (ss, reasons, k, rc)"
      and rc: "rc = FLOWIE_MQTT_PARSE_NEED_MORE" "length reasons = us_filter_count unsubscribe"
      and r: "r = Inr \<lparr>ur_packet_id = us_packet_id unsubscribe, ur_filter_count = length reasons,
                ur_removed_count = k, ur_changed = (k \<noteq> 0), ur_reason_codes = (if ?v5 then Span reasons else NullSpan 0)\<rparr>"
      and s': "s' = (if k \<noteq> 0 then s1\<lparr>so_resource_generation := so_resource_generation s1 + 1, so_subscriptions := ss\<rparr>
                else s1)"
      using run False alloc clone
      by (auto simp: flowie_session_owner_unsubscribe_def Let_def obind_def flowie_session_generation_advance_def
          split: if_splits sum.splits prod.splits)
    have "staged = so_subscriptions s" using clone_run [OF clone] staged s0 by simp
    note final = unsubscribe_loop_run [OF loop [unfolded this] ok]
    have same: "k = 0 \<Longrightarrow> ss = so_subscriptions s" and kept: "subscriptions_ok (sf_max_subscriptions (so_config s)) ss"
      using final by simp_all
    obtain fs where fs: "iterates (flowie_mqtt_topic_filter_iterator_next un) it fs"
      "unsubscribed (map span_bytes fs) (subscription_map (so_subscriptions s)) = (subscription_map ss, reasons)"
      "length reasons = length fs" "k = length (filter (\<lambda>c. c = 0x00) reasons)"
      using final rc(1) by (simp only: append_Nil add_0 simp_thms) blast
    have "s' = s\<lparr>so_faults := fs1, so_subscriptions := ss,
              so_resource_generation := so_resource_generation s + (if k \<noteq> 0 then 1 else 0)\<rparr>"
      using s' s1 same by auto
    from _ active it fs(1) _ fs(2,3,4) this kept show thesis
      by (rule accepted) (use r rc(2) fs(3) in simp_all)
  qed
qed

lemma unsubscribe_keeps:
  assumes "flowie_session_owner_unsubscribe un packet unsubscribe buffer s = (r, s')" "session_invariant s"
  shows "session_invariant s'"
proof -
  have "subscriptions_ok (sf_max_subscriptions (so_config s)) (so_subscriptions s)"
    using assms(2) by (simp add: session_invariant_def)
  from assms(1) this show ?thesis
  proof (cases rule: unsubscribe_run)
    case (refused e fs)
    then show ?thesis using assms(2) by simp
  next
    case (accepted it filters codes ss k fs)
    then show ?thesis using assms(2) by (auto simp: session_invariant_def)
  qed
qed

end
