(* ===== verification/Session_System.thy ===== *)
theory Session_System
  imports Session_Subscriptions
begin

text \<open>
  A session owner under any sequence of the operations of \<open>flowie/src/flowie_session.c\<close>. A
  command names an operation with its arguments; the environment also decides the outcome of the
  allocations to come. Every state that such a sequence reaches satisfies the invariant.
\<close>

section \<open>Inbound packets\<close>

lemma inflight_find_Some:
  "flowie_session_inflight_find es p = Some i \<Longrightarrow> i < length es \<and> if_packet_id (es ! i) = p"
  by (induction es p arbitrary: i rule: flowie_session_inflight_find.induct) (auto split: if_splits)

lemma inflight_find_None: "flowie_session_inflight_find es p = None \<longleftrightarrow> p \<notin> if_packet_id ` set es"
  by (induction es p rule: flowie_session_inflight_find.induct) auto

lemma inflight_ok_write:
  assumes "inflight_ok n es" "i < length es" "if_packet_id e = if_packet_id (es ! i)" "inflight_entry_ok e"
  shows "inflight_ok n (es[i := e])"
  using assms map_key_write [of i es if_packet_id e] set_update_subset_insert [of es i e]
  by (auto simp: inflight_ok_def)

lemma publish_map_id:
  assumes "flowie_publish_message_map publish version owner session generation = Inr message" "pu_qos publish \<noteq> 0"
  shows "pu_packet_id publish \<noteq> 0" "pu_qos publish = 1 \<or> pu_qos publish = 2"
proof -
  have qos: "\<not> (pu_qos publish = 0 \<or> pu_qos publish > 2)"
    using assms by (auto simp: flowie_publish_message_map_def split: if_splits)
  then show "pu_qos publish = 1 \<or> pu_qos publish = 2" by (rule qos_cases)
  then have "ucast (pu_qos publish) \<noteq> (0::u32)" by auto
  then have "ucast (pu_packet_id publish) \<noteq> (0::u32)"
    using assms(1)
    by (auto simp: flowie_publish_message_map_def flowie_protocol_message_validate_def Let_def rbind_Inr_iff
        word_greater_zero_iff split: if_splits)
  then show "pu_packet_id publish \<noteq> 0" by auto
qed

definition inflight_new :: "flowie_mqtt_publish_view \<Rightarrow> flowie_session_inflight" where
  "inflight_new publish = \<lparr>if_packet_id = pu_packet_id publish, if_qos = pu_qos publish,
     if_state = FLOWIE_SESSION_INFLIGHT_SETTLEMENT\<rparr>"

lemma publish_begin_cases:
  assumes "flowie_session_owner_publish_begin publish s = (r, s')"
  obtains (unchanged) "s' = s" "\<And>result. r = Inr result \<Longrightarrow> bg_admit_application result \<Longrightarrow> pu_qos publish = 0"
  | (no_memory) e where "r = Inl e" "s' = s\<lparr>so_faults := tl (so_faults s)\<rparr>"
  | (admitted) message where
      "r = Inr \<lparr>bg_admit_application = True, bg_has_ack = False, bg_message = message, bg_ack = FLOWIE_SESSION_ACK_INTENT_INIT\<rparr>"
      "flowie_publish_message_map publish (so_version s) (sf_owner_instance_id (so_config s))
         (sf_session_id (so_config s)) (so_session_generation s) = Inr message"
      "so_active s" "pu_qos publish \<noteq> 0" "pu_packet_id publish \<notin> if_packet_id ` set (so_inflight s)"
      "length (so_inflight s) < sf_max_inflight (so_config s)"
      "s' = s\<lparr>so_faults := tl (so_faults s), so_inflight := so_inflight s @ [inflight_new publish],
              so_resource_generation := so_resource_generation s + 1\<rparr>"
proof -
  let ?map = "flowie_publish_message_map publish (so_version s) (sf_owner_instance_id (so_config s))
         (sf_session_id (so_config s)) (so_session_generation s)"
  let ?find = "flowie_session_inflight_find (so_inflight s) (pu_packet_id publish)"
  let ?fresh = "\<lambda>message. so_active s \<and> ?map = Inr message \<and> pu_qos publish \<noteq> 0 \<and> ?find = None \<and>
      length (so_inflight s) < sf_max_inflight (so_config s) \<and> so_resource_generation s \<noteq> UINT64_MAX"
  show thesis
  proof (cases "\<exists>message. ?fresh message")
    case True
    then obtain message where fresh: "?fresh message" by blast
    obtain r1 where attempt: "session_attempt s = (r1, s\<lparr>so_faults := tl (so_faults s)\<rparr>)"
      by (metis session_attempt_frame surj_pair)
    show thesis
    proof (cases r1)
      case (Inl e)
      then have "r = Inl e" "s' = s\<lparr>so_faults := tl (so_faults s)\<rparr>"
        using assms fresh attempt by (simp_all add: flowie_session_owner_publish_begin_def obind_def Let_def)
      then show thesis by (rule no_memory)
    next
      case (Inr u)
      then show thesis
        using admitted [of message] assms fresh attempt
        by (simp add: flowie_session_owner_publish_begin_def obind_def Let_def inflight_new_def inflight_find_None)
    qed
  next
    case False
    have "s' = s"
      using assms False
      by (auto simp: flowie_session_owner_publish_begin_def Let_def split: if_splits sum.splits option.splits)
    moreover have "pu_qos publish = 0" if "r = Inr result" "bg_admit_application result" for result
      using assms False that
      by (auto simp: flowie_session_owner_publish_begin_def Let_def split: if_splits sum.splits option.splits)
    ultimately show thesis by (rule unchanged)
  qed
qed

lemma publish_begin_keeps:
  assumes run: "flowie_session_owner_publish_begin publish s = (r, s')" and inv: "session_invariant s"
  shows "session_invariant s'"
  using run
proof (cases rule: publish_begin_cases)
  case (admitted message)
  have "inflight_ok (sf_max_inflight (so_config s)) (so_inflight s @ [inflight_new publish])"
    using inv publish_map_id [OF admitted(2,4)] admitted(5,6)
    by (auto simp: session_invariant_def inflight_ok_def inflight_entry_ok_def inflight_new_def)
  then show ?thesis using admitted(7) inv by (auto simp: session_invariant_def)
qed (use inv in simp_all)

lemma publish_settle_keeps:
  assumes run: "flowie_session_owner_publish_settle route request s = (r, s')" and inv: "session_invariant s"
  shows "session_invariant s'"
proof (cases "s' = s")
  case False
  from False run obtain i where
    found: "flowie_session_inflight_find (so_inflight s) (ucast (pm_packet_id (sq_message request))) = Some i"
    and s': "s' = s\<lparr>so_inflight := swap_remove i (so_inflight s), so_resource_generation := so_resource_generation s + 1\<rparr> \<or>
      if_qos (so_inflight s ! i) \<noteq> 1 \<and>
      s' = s\<lparr>so_inflight := (so_inflight s)[i := (so_inflight s ! i)\<lparr>if_state := FLOWIE_SESSION_INFLIGHT_QOS2_RELEASE\<rparr>],
             so_resource_generation := so_resource_generation s + 1\<rparr>"
    by (auto simp: flowie_session_owner_publish_settle_def Let_def split: if_splits sum.splits option.splits)
  have i: "i < length (so_inflight s)" using inflight_find_Some [OF found] by simp
  have ok: "inflight_ok (sf_max_inflight (so_config s)) (so_inflight s)" using inv by (simp add: session_invariant_def)
  then have "inflight_entry_ok (so_inflight s ! i)" using i by (simp add: inflight_ok_def)
  then have "if_qos (so_inflight s ! i) \<noteq> 1 \<Longrightarrow>
      inflight_entry_ok ((so_inflight s ! i)\<lparr>if_state := FLOWIE_SESSION_INFLIGHT_QOS2_RELEASE\<rparr>)"
    by (auto simp: inflight_entry_ok_def)
  then show ?thesis
    using s' inv i inflight_ok_remove [OF ok i] inflight_ok_write [OF ok i] by (auto simp: session_invariant_def)
qed (use inv in simp)

lemma qos2_release_keeps:
  assumes run: "flowie_session_owner_qos2_release route p s = (r, s')" and inv: "session_invariant s"
  shows "session_invariant s'"
proof (cases "s' = s")
  case False
  from False run obtain i where found: "flowie_session_inflight_find (so_inflight s) p = Some i"
    and s': "s' = s\<lparr>so_inflight := swap_remove i (so_inflight s), so_resource_generation := so_resource_generation s + 1\<rparr>"
    by (auto simp: flowie_session_owner_qos2_release_def Let_def split: if_splits sum.splits option.splits)
  have i: "i < length (so_inflight s)" using inflight_find_Some [OF found] by simp
  then show ?thesis
    using s' inv inflight_ok_remove [of "sf_max_inflight (so_config s)" "so_inflight s" i]
    by (auto simp: session_invariant_def)
qed (use inv in simp)

section \<open>Commands\<close>

datatype session_command =
    Connect flowie_mqtt_connect_view | Connect_takeover flowie_mqtt_connect_view | Close
  | Disconnect flowie_mqtt_control_packet_view | Will_complete | Touch
  | Subscribe flowie_mqtt_packet_view flowie_mqtt_subscribe_view
  | Unsubscribe flowie_mqtt_packet_view flowie_mqtt_unsubscribe_view "nat option"
  | Delivery_reserve u8 | Delivery_commit u16 flowie_mqtt_span u64 | Delivery_commit_queued u16 flowie_mqtt_span u64
  | Delivery_cancel u16 | Delivery_expire u64 | Delivery_expire_packet u16 u64
  | Delivery_pending nat u64 | Delivery_pending_at nat | Delivery_ack flowie_mqtt_packet_view
  | Publish_begin flowie_mqtt_publish_view
  | Publish_settle flowie_protocol_route flowie_protocol_settlement_request
  | Qos2_release flowie_protocol_route u16
  | Allocation_outcomes faults

fun session_exec :: "utf8_next \<Rightarrow> session_command \<Rightarrow> flowie_session_owner \<Rightarrow> flowie_session_owner" where
  "session_exec un (Connect connect) s = snd (flowie_session_owner_connect un connect s)"
| "session_exec un (Connect_takeover connect) s = snd (flowie_session_owner_connect_takeover un connect s)"
| "session_exec un Close s = snd (flowie_session_owner_close s)"
| "session_exec un (Disconnect disconnect) s = snd (flowie_session_owner_disconnect un disconnect s)"
| "session_exec un Will_complete s = snd (flowie_session_owner_will_complete s)"
| "session_exec un Touch s = snd (flowie_session_owner_touch s)"
| "session_exec un (Subscribe packet subscribe) s = snd (flowie_session_owner_subscribe un packet subscribe s)"
| "session_exec un (Unsubscribe packet unsubscribe buffer) s =
     snd (flowie_session_owner_unsubscribe un packet unsubscribe buffer s)"
| "session_exec un (Delivery_reserve qos) s = snd (flowie_session_owner_delivery_reserve qos s)"
| "session_exec un (Delivery_commit p packet expiry) s = snd (flowie_session_owner_delivery_commit un p packet expiry s)"
| "session_exec un (Delivery_commit_queued p packet expiry) s =
     snd (flowie_session_owner_delivery_commit_queued un p packet expiry s)"
| "session_exec un (Delivery_cancel p) s = snd (flowie_session_owner_delivery_cancel p s)"
| "session_exec un (Delivery_expire now) s = snd (flowie_session_owner_delivery_expire now s)"
| "session_exec un (Delivery_expire_packet p now) s = snd (flowie_session_owner_delivery_expire_packet p now s)"
| "session_exec un (Delivery_pending i now) s = snd (flowie_session_owner_delivery_pending_at_ex un i now s)"
| "session_exec un (Delivery_pending_at i) s = snd (flowie_session_owner_delivery_pending_at un i s)"
| "session_exec un (Delivery_ack packet) s = snd (flowie_session_owner_delivery_ack un packet s)"
| "session_exec un (Publish_begin publish) s = snd (flowie_session_owner_publish_begin publish s)"
| "session_exec un (Publish_settle route request) s = snd (flowie_session_owner_publish_settle route request s)"
| "session_exec un (Qos2_release route p) s = snd (flowie_session_owner_qos2_release route p s)"
| "session_exec un (Allocation_outcomes fs) s = s\<lparr>so_faults := fs\<rparr>"

inductive session_reachable :: "utf8_next \<Rightarrow> flowie_session_config \<Rightarrow> flowie_session_owner \<Rightarrow> bool"
  for un config where
  created: "flowie_session_owner_create config faults = Some s \<Longrightarrow> session_reachable un config s"
| exec: "session_reachable un config s \<Longrightarrow> session_reachable un config (session_exec un command s)"

lemmas session_keeps = touch_keeps connect_impl_keeps close_keeps disconnect_keeps will_complete_keeps subscribe_keeps
  unsubscribe_keeps reserve_keeps commit_state_keeps cancel_keeps expire_keeps expire_packet_keeps
  pending_at_ex_keeps pending_at_keeps delivery_ack_keeps publish_begin_keeps publish_settle_keeps qos2_release_keeps

lemma snd_keeps: "(\<And>r s'. f s = (r, s') \<Longrightarrow> P s') \<Longrightarrow> P (snd (f s))"
  by (metis prod.collapse)

lemma session_exec_keeps: "session_invariant s \<Longrightarrow> session_invariant (session_exec un command s)"
  by (cases command)
     (simp_all add: flowie_session_owner_connect_def flowie_session_owner_connect_takeover_def
       flowie_session_owner_delivery_commit_def flowie_session_owner_delivery_commit_queued_def,
       (rule snd_keeps, erule session_keeps, assumption)+)

lemma reachable_invariant: "session_reachable un config s \<Longrightarrow> session_invariant s"
  by (induction rule: session_reachable.induct) (simp_all add: create_invariant session_exec_keeps)

text \<open>C29: every state of a session that any sequence of its operations reaches, with any outcome of
  the allocations and errors included, satisfies the invariant: the delivery index agrees with the
  vector, packet identifiers and filters are unique and within the configured limits, every delivery
  and inbound packet is in a state that fits its QoS, and an active session is initialized.\<close>

theorem session_reachable_invariant:
  assumes "session_reachable un config s"
  shows "(\<forall>p i. so_delivery_index s p = Some i \<longleftrightarrow> i < length (so_deliveries s) \<and> dl_packet_id (so_deliveries s ! i) = p) \<and>
    distinct (map dl_packet_id (so_deliveries s)) \<and> (\<forall>d \<in> set (so_deliveries s). dl_packet_id d \<noteq> 0 \<and> delivery_ok d) \<and>
    length (so_deliveries s) \<le> sf_max_inflight (so_config s) \<and>
    inflight_ok (sf_max_inflight (so_config s)) (so_inflight s) \<and>
    subscriptions_ok (sf_max_subscriptions (so_config s)) (so_subscriptions s) \<and>
    (so_active s \<longrightarrow> so_initialized s \<and> so_session_generation s \<noteq> 0) \<and>
    (so_initialized s \<longrightarrow> so_client_id s \<noteq> None \<and> flowie_mqtt_version_is_supported (so_version s)) \<and>
    (so_client_id s \<noteq> Some []) \<and>
    (if so_has_will s then so_will_topic s \<noteq> None \<and> so_will_properties s \<noteq> None \<and> so_will_payload s \<noteq> None
     else \<not> so_will_pending s \<and> so_will_topic s = None)"
proof -
  have inv: "session_invariant s" by (rule reachable_invariant [OF assms])
  then have table: "table_ok (so_delivery_index s) (so_deliveries s)" by (rule session_invariant_table)
  have "if so_has_will s then so_will_topic s \<noteq> None \<and> so_will_properties s \<noteq> None \<and> so_will_payload s \<noteq> None
     else \<not> so_will_pending s \<and> so_will_topic s = None"
    using inv by (simp add: session_invariant_def will_ok_def split: if_splits)
  then show ?thesis
    using inv table table_ok_distinct [OF table]
    unfolding session_invariant_def deliveries_ok_def table_ok_def by blast
qed

section \<open>A sample session\<close>

definition sample_config :: flowie_session_config where
  "sample_config = \<lparr>sf_owner_instance_id = 1, sf_session_id = 2, sf_max_subscriptions = 4, sf_max_inflight = 4,
     sf_settlement = \<lparr>st_qos0 = 1, st_qos1 = 2, st_qos2 = 2\<rparr>\<rparr>"

definition sample_connect :: flowie_mqtt_connect_view where
  "sample_connect = \<lparr>cv_version = 4, cv_clean_start = 0, cv_will_qos = 0, cv_will_retain = 0, cv_keep_alive = 60,
     cv_properties = \<lparr>pb_encoded = NullSpan 0, pb_values = NullSpan 0\<rparr>, cv_client_id = Span [0x61],
     cv_will_properties = \<lparr>pb_encoded = NullSpan 0, pb_values = NullSpan 0\<rparr>, cv_will_topic = NullSpan 0,
     cv_will_payload = NullSpan 0, cv_username = NullSpan 0, cv_password = NullSpan 0\<rparr>"

definition sample_owner :: flowie_session_owner where
  "sample_owner = (session_zero sample_config [])\<lparr>so_client_id := Some [0x61], so_version := 4, so_keep_alive := 60,
     so_session_expiry_interval := 0xffffffff, so_session_generation := 1, so_resource_generation := 2,
     so_initialized := True, so_active := True\<rparr>"

lemma sample_create: "flowie_session_owner_create sample_config [] = Some (session_zero sample_config [])"
  by (simp add: flowie_session_owner_create_def flowie_session_config_valid_def sample_config_def
      flowie_protocol_settlement_policy_validate_def flow_protocol_settlement_point_valid_def obind_def
      session_attempt_def session_zero_def)

lemma sample_client_id: "flowie_mqtt_utf8_validate rfc3629_next (Span [0x61])"
  by code_simp

lemma sample_open:
  "flowie_session_owner_open_impl rfc3629_next sample_connect False (session_zero sample_config []) = (Inr (), sample_owner)"
  using sample_client_id
  by (simp add: flowie_session_owner_open_impl_def open_checks_def sample_connect_def session_zero_def
      flowie_mqtt_version_is_supported_def flowie_session_expiry_def flowie_mqtt_version_is_3x_def Let_def
      session_allocs_no_faults obind_def open_will_def flowie_session_will_clear_def sample_owner_def)

lemma sample_connected: "session_exec rfc3629_next (Connect sample_connect) (session_zero sample_config []) = sample_owner"
  by (simp add: flowie_session_owner_connect_def flowie_session_owner_connect_impl_def sample_open Let_def
      split: sum.split)

lemma sample_reachable: "session_reachable rfc3629_next sample_config sample_owner"
  using session_reachable.exec [OF session_reachable.created [OF sample_create]] sample_connected by metis

theorem session_reachable_invariant_witness:
  "session_reachable rfc3629_next sample_config sample_owner \<and> so_active sample_owner \<and> so_initialized sample_owner \<and>
     so_session_generation sample_owner \<noteq> 0 \<and> distinct (map dl_packet_id (so_deliveries sample_owner))"
  using session_reachable_invariant [OF sample_reachable] sample_reachable by (simp add: sample_owner_def)

end
