(* ===== verification/Session_Outbound.thy ===== *)
theory Session_Outbound
  imports Session_System
begin

text \<open>
  Outbound deliveries of a session under any sequence of operations. A fresh packet identifier is
  found whenever the limits leave room, and every operation moves every delivery along the
  protocol: reserved, queued or sent, released for QoS 2, gone.
\<close>

section \<open>Packet identifiers\<close>

lemma unat_next_packet_id: "unat (next_packet_id c) = unat c mod 65535 + 1"
proof (cases "c = 65535")
  case True
  then show ?thesis by (simp add: next_packet_id_def)
next
  case False
  have "unat c < 65536" using unsigned_less [of c] by simp
  moreover have "unat c \<noteq> unat (65535::u16)" using False by (simp only: word_unat_eq_iff not_False_eq_True)
  ultimately have "unat c < 65535" by simp
  then show ?thesis
    using False by (simp add: next_packet_id_def unat_word_ariths)
qed

lemma unat_next_packet_ids: "unat ((next_packet_id ^^ Suc j) c) = (unat c + j) mod 65535 + 1"
proof (induction j)
  case (Suc j)
  then show ?case by (simp add: unat_next_packet_id mod_Suc_eq)
qed (simp add: unat_next_packet_id)

lemma next_packet_ids_inj: "inj_on (\<lambda>j. (next_packet_id ^^ Suc j) c) {..<65535}"
proof (rule inj_onI)
  fix i j
  assume ij: "i \<in> {..<65535}" "j \<in> {..<65535::nat}"
    and "(next_packet_id ^^ Suc i) c = (next_packet_id ^^ Suc j) c"
  then have "(unat c + i) mod 65535 = (unat c + j) mod 65535"
    by (metis unat_next_packet_ids add_right_cancel)
  then obtain q r where "i + 65535 * q = j + 65535 * r"
    by (auto simp: nat_mod_eq_iff)
  then have "i mod 65535 = j mod 65535"
    by (metis mod_mult_self2)
  then show "i = j" using ij by simp
qed

lemma reserve_loop_run:
  assumes ok: "delivery_table_ok s"
  shows "k < n \<Longrightarrow> delivery_map s ((next_packet_id ^^ Suc k) c) = None \<Longrightarrow>
    \<exists>k < n. reserve_loop n c s = Inr ((next_packet_id ^^ Suc k) c) \<and>
      delivery_map s ((next_packet_id ^^ Suc k) c) = None \<and>
      (\<forall>j < k. delivery_map s ((next_packet_id ^^ Suc j) c) \<noteq> None)"
proof (induction n arbitrary: c k)
  case (Suc n)
  let ?c = "next_packet_id c"
  show ?case
  proof (cases "delivery_map s ?c")
    case None
    then have "flowie_session_delivery_lookup ?c s = Inl SALTS_ENOENT"
      by (simp add: delivery_lookup_missing [OF ok] next_packet_id_nonzero)
    then show ?thesis using None by (intro exI [of _ 0]) simp
  next
    case (Some d)
    then obtain i where found: "flowie_session_delivery_lookup ?c s = Inr (i, d)"
      using delivery_lookup_found [OF ok] by blast
    from Suc.prems Some have "k \<noteq> 0" by (cases k) auto
    then obtain k' where "k = Suc k'" by (cases k) auto
    with Suc.prems have "k' < n" "delivery_map s ((next_packet_id ^^ Suc k') ?c) = None"
      by (simp_all add: funpow_swap1)
    from Suc.IH [OF this] obtain l where l: "l < n" "reserve_loop n ?c s = Inr ((next_packet_id ^^ Suc l) ?c)"
      "delivery_map s ((next_packet_id ^^ Suc l) ?c) = None"
      "\<forall>j < l. delivery_map s ((next_packet_id ^^ Suc j) ?c) \<noteq> None" by blast
    then show ?thesis
      using found Some
      by (intro exI [of _ "Suc l"]) (auto simp: funpow_swap1 less_Suc_eq_0_disj Let_def)
  qed
qed simp

lemma free_packet_id:
  assumes ok: "delivery_table_ok s" and few: "length (so_deliveries s) < 65535"
  shows "\<exists>k < 65535. delivery_map s ((next_packet_id ^^ Suc k) c) = None"
proof (rule ccontr)
  assume "\<not> ?thesis"
  then have "(\<lambda>j. (next_packet_id ^^ Suc j) c) ` {..<65535} \<subseteq> dl_packet_id ` set (so_deliveries s)"
    by (auto simp: delivery_map_None_iff)
  then have "card ((\<lambda>j. (next_packet_id ^^ Suc j) c) ` {..<65535}) \<le> card (dl_packet_id ` set (so_deliveries s))"
    by (intro card_mono) simp_all
  also have "\<dots> \<le> length (so_deliveries s)"
    by (metis card_image_le card_length finite_set le_trans)
  finally show False
    using few card_image [OF next_packet_ids_inj, of c] by simp
qed

lemma append_no_faults:
  assumes ok: "delivery_table_ok s" and new: "delivery_map s (dl_packet_id d) = None" "dl_packet_id d \<noteq> 0"
    and memory: "so_faults s = []"
  shows "flowie_session_delivery_append d s = (Inr (), s\<lparr>so_deliveries := so_deliveries s @ [d],
    so_delivery_index := (so_delivery_index s)(dl_packet_id d \<mapsto> length (so_deliveries s))\<rparr>)"
proof -
  have "flowie_session_delivery_lookup (dl_packet_id d) s = Inl SALTS_ENOENT"
    using new by (simp add: delivery_lookup_missing [OF ok])
  then show ?thesis
    using new(2) memory by (simp add: flowie_session_delivery_append_def session_attempt_def)
qed

text \<open>C32: while the session takes messages and its limit is not reached, a reservation with memory
  available succeeds within the bounded search. The identifier is the first free one after the last
  that was given out, wrapping from 65535 to 1; it is not zero, it was not in use, and no other
  delivery changes.\<close>

theorem delivery_reserve_fresh:
  assumes "session_invariant s" "so_faults s = []" "qos = 1 \<or> qos = 2"
    and "so_active s \<or> so_initialized s \<and> so_session_expiry_interval s \<noteq> 0"
    and "length (so_inflight s) + length (so_deliveries s) < sf_max_inflight (so_config s)"
  shows "\<exists>k s'. let p = (next_packet_id ^^ Suc k) (so_next_delivery_packet_id s) in
    flowie_session_owner_delivery_reserve qos s = (Inr p, s') \<and> p \<noteq> 0 \<and> delivery_map s p = None \<and>
    unat p = (unat (so_next_delivery_packet_id s) + k) mod 65535 + 1 \<and>
    (\<forall>j < k. delivery_map s ((next_packet_id ^^ Suc j) (so_next_delivery_packet_id s)) \<noteq> None) \<and>
    delivery_map s' = (delivery_map s)(p \<mapsto> \<lparr>dl_packet_id = p, dl_qos = qos,
      dl_state = FLOWIE_SESSION_DELIVERY_RESERVED, dl_expiry_at = 0, dl_packet = None\<rparr>) \<and>
    so_next_delivery_packet_id s' = p"
proof -
  let ?c = "so_next_delivery_packet_id s"
  have ok: "delivery_table_ok s" by (rule session_invariant_table [OF assms(1)])
  have "sf_max_inflight (so_config s) \<le> 65535"
    using assms(1) by (simp add: session_invariant_def flowie_session_config_valid_def)
  then have "length (so_deliveries s) < 65535" using assms(5) by simp
  from free_packet_id [OF ok this, of ?c] obtain k0 where
    k0: "k0 < 65535" "delivery_map s ((next_packet_id ^^ Suc k0) ?c) = None" by blast
  from reserve_loop_run [OF ok k0] obtain k where k: "reserve_loop 65535 ?c s = Inr ((next_packet_id ^^ Suc k) ?c)"
    "delivery_map s ((next_packet_id ^^ Suc k) ?c) = None"
    "\<forall>j < k. delivery_map s ((next_packet_id ^^ Suc j) ?c) \<noteq> None" by blast
  define p where "p = (next_packet_id ^^ Suc k) ?c"
  let ?d = "\<lparr>dl_packet_id = p, dl_qos = qos, dl_state = FLOWIE_SESSION_DELIVERY_RESERVED, dl_expiry_at = 0,
    dl_packet = None\<rparr>"
  have p: "p \<noteq> 0" "delivery_map s p = None"
    using k(2) by (simp_all add: p_def next_packet_id_nonzero)
  have "flowie_session_delivery_append ?d s = (Inr (), s\<lparr>so_deliveries := so_deliveries s @ [?d],
      so_delivery_index := (so_delivery_index s)(p \<mapsto> length (so_deliveries s))\<rparr>)"
    using append_no_faults [OF ok, of ?d] p assms(2) by simp
  moreover have "\<not> (qos = 0 \<or> qos > 2)" using assms(3) by auto
  moreover have "keyed_map dl_packet_id (so_deliveries s @ [?d]) = (keyed_map dl_packet_id (so_deliveries s))(p \<mapsto> ?d)"
    using keyed_map_append [of dl_packet_id "so_deliveries s" ?d] p(2) by (simp add: delivery_map_def)
  ultimately show ?thesis
    using assms(4,5) k p unat_next_packet_ids [of k ?c]
    by (intro exI [of _ k] exI [of _ "s\<lparr>so_deliveries := so_deliveries s @ [?d],
        so_delivery_index := (so_delivery_index s)(p \<mapsto> length (so_deliveries s)), so_next_delivery_packet_id := p\<rparr>"])
       (auto simp: flowie_session_owner_delivery_reserve_def p_def [symmetric] obind_def Let_def delivery_map_def
         simp del: funpow.simps)
qed

theorem delivery_reserve_fresh_witness:
  "flowie_session_owner_delivery_reserve 1 (sample_owner\<lparr>so_next_delivery_packet_id := 65535\<rparr>) =
     (Inr 1, snd (flowie_session_owner_delivery_reserve 1 (sample_owner\<lparr>so_next_delivery_packet_id := 65535\<rparr>)))"
proof -
  let ?s = "sample_owner\<lparr>so_next_delivery_packet_id := 65535\<rparr>"
  have inv: "session_invariant ?s"
    by (simp add: session_invariant_def sample_owner_def session_zero_def sample_config_def flowie_session_config_valid_def
        flowie_protocol_settlement_policy_validate_def flow_protocol_settlement_point_valid_def
        flowie_mqtt_version_is_supported_def)
  have empty: "delivery_map ?s = Map.empty"
    by (simp add: delivery_map_def sample_owner_def session_zero_def)
  have next_id: "so_next_delivery_packet_id ?s = 65535" by simp
  from delivery_reserve_fresh [OF inv, of 1] obtain k s' where
    run: "flowie_session_owner_delivery_reserve 1 ?s = (Inr ((next_packet_id ^^ Suc k) 65535), s')"
    and skipped: "\<forall>j < k. delivery_map ?s ((next_packet_id ^^ Suc j) 65535) \<noteq> None"
    by (auto simp: sample_owner_def session_zero_def sample_config_def Let_def simp del: funpow.simps)
  have "k = 0" using skipped by (auto simp: empty simp del: funpow.simps)
  then show ?thesis using run by (simp add: next_packet_id_def)
qed

section \<open>The protocol of a delivery\<close>

text \<open>The abstract specification: where the delivery of one packet identifier stands, and how a
  command may move it. \<open>Sent 1\<close> waits for PUBACK, \<open>Sent 2\<close> for PUBREC, \<open>Released\<close> for PUBCOMP.\<close>

datatype delivery_phase = Absent | Reserved u8 | Queued u8 | Sent u8 | Released

fun phase_of :: "flowie_session_delivery option \<Rightarrow> delivery_phase" where
  "phase_of None = Absent"
| "phase_of (Some d) =
     (case dl_state d of
        FLOWIE_SESSION_DELIVERY_RESERVED \<Rightarrow> Reserved (dl_qos d)
      | FLOWIE_SESSION_DELIVERY_QUEUED \<Rightarrow> Queued (dl_qos d)
      | FLOWIE_SESSION_DELIVERY_WAIT_ACK \<Rightarrow> Sent (dl_qos d)
      | FLOWIE_SESSION_DELIVERY_WAIT_PUBREC \<Rightarrow> Sent (dl_qos d)
      | FLOWIE_SESSION_DELIVERY_WAIT_PUBCOMP \<Rightarrow> Released)"

definition session_phase :: "flowie_session_owner \<Rightarrow> u16 \<Rightarrow> delivery_phase" where
  "session_phase s p = phase_of (delivery_map s p)"

inductive phase_step :: "session_command \<Rightarrow> u16 \<Rightarrow> delivery_phase \<Rightarrow> delivery_phase \<Rightarrow> bool" where
  stutter: "phase_step command p phase phase"
| reserve: "qos = 1 \<or> qos = 2 \<Longrightarrow> phase_step (Delivery_reserve qos) p Absent (Reserved qos)"
| commit: "phase_step (Delivery_commit p packet expiry) p (Reserved qos) (Sent qos)"
| commit_queued: "phase_step (Delivery_commit_queued p packet expiry) p (Reserved qos) (Queued qos)"
| send: "phase_step (Delivery_pending i now) p (Queued qos) (Sent qos)"
| send_at: "phase_step (Delivery_pending_at i) p (Queued qos) (Sent qos)"
| puback: "pv_type packet = FLOWIE_MQTT_PACKET_PUBACK \<Longrightarrow> phase_step (Delivery_ack packet) p (Sent 1) Absent"
| pubrec: "pv_type packet = FLOWIE_MQTT_PACKET_PUBREC \<Longrightarrow> phase_step (Delivery_ack packet) p (Sent 2) Released"
| refused: "pv_type packet = FLOWIE_MQTT_PACKET_PUBREC \<Longrightarrow> phase = Sent 2 \<or> phase = Released \<Longrightarrow>
    phase_step (Delivery_ack packet) p phase Absent"
| pubcomp: "pv_type packet = FLOWIE_MQTT_PACKET_PUBCOMP \<Longrightarrow> phase_step (Delivery_ack packet) p Released Absent"
| cancel: "phase_step (Delivery_cancel p) p phase Absent"
| expire: "phase = Queued qos \<or> phase = Sent qos \<Longrightarrow> phase_step (Delivery_expire now) p phase Absent"
| expire_packet: "phase = Queued qos \<or> phase = Sent qos \<Longrightarrow> phase_step (Delivery_expire_packet p now) p phase Absent"
| clean_start: "cv_clean_start connect \<noteq> 0 \<Longrightarrow> command = Connect connect \<or> command = Connect_takeover connect \<Longrightarrow>
    phase_step command p phase Absent"
| close: "phase_step Close p phase Absent"

lemma phase_same: "so_deliveries s' = so_deliveries s \<Longrightarrow> phase_step command p (session_phase s p) (session_phase s' p)"
  by (simp add: session_phase_def delivery_map_def stutter)

lemma phase_at:
  assumes "session_invariant s" "i < length (so_deliveries s)"
  shows "delivery_map s (dl_packet_id (so_deliveries s ! i)) = Some (so_deliveries s ! i)"
  using assms by (simp add: delivery_map_nth session_invariant_table)

lemma phase_write:
  assumes "session_invariant s" "i < length (so_deliveries s)" "dl_packet_id d = dl_packet_id (so_deliveries s ! i)"
    and "so_deliveries s' = (so_deliveries s)[i := d]"
  shows "session_phase s' q = (if q = dl_packet_id d then phase_of (Some d) else session_phase s q)"
  using keyed_map_write [OF table_ok_distinct [OF session_invariant_table [OF assms(1)]] assms(2,3)] assms(4)
  by (simp add: session_phase_def delivery_map_def)

lemma remove_at_phase:
  assumes "flowie_session_delivery_remove_at i s = (r, s')" "session_invariant s" "i < length (so_deliveries s)"
  shows "session_phase s' q = (if q = dl_packet_id (so_deliveries s ! i) then Absent else session_phase s q)"
  using delivery_remove_at_run [OF session_invariant_table [OF assms(2)] assms(3)] assms(1)
    keyed_map_remove [OF table_ok_distinct [OF session_invariant_table [OF assms(2)]] assms(3)]
  by (auto simp: session_phase_def delivery_map_def)

lemma lookup_at:
  assumes "session_invariant s" "flowie_session_delivery_lookup p s = Inr (i, d)"
  shows "i < length (so_deliveries s)" "so_deliveries s ! i = d" "dl_packet_id d = p" "delivery_ok d"
    "session_phase s p = phase_of (Some d)"
proof -
  show at: "i < length (so_deliveries s)" "so_deliveries s ! i = d" "dl_packet_id d = p"
    using assms(2) by (simp_all add: delivery_lookup_iff [OF session_invariant_table [OF assms(1)]])
  show "delivery_ok d" using session_invariant_delivery [OF assms(1) at(1)] at(2) by simp
  show "session_phase s p = phase_of (Some d)"
    using phase_at [OF assms(1) at(1)] at by (simp add: session_phase_def)
qed

lemma reserve_phase:
  assumes run: "flowie_session_owner_delivery_reserve qos s = (r, s')" and inv: "session_invariant s"
  shows "phase_step (Delivery_reserve qos) p (session_phase s p) (session_phase s' p)"
proof (cases "so_deliveries s' = so_deliveries s")
  case False
  let ?d = "\<lambda>c. \<lparr>dl_packet_id = c, dl_qos = qos, dl_state = FLOWIE_SESSION_DELIVERY_RESERVED,
                dl_expiry_at = 0, dl_packet = None\<rparr>"
  have table: "delivery_table_ok s" by (rule session_invariant_table [OF inv])
  from False run obtain c where loop: "reserve_loop 65535 (so_next_delivery_packet_id s) s = Inr c"
    and qos: "\<not> (qos = 0 \<or> qos > 2)"
    and append: "obind (flowie_session_delivery_append (?d c))
        (\<lambda>_ s. (Inr c, s\<lparr>so_next_delivery_packet_id := c\<rparr>)) s = (r, s')"
    by (auto simp: flowie_session_owner_delivery_reserve_def split: if_splits sum.splits)
  have fresh: "c \<noteq> 0" "delivery_map s c = None"
    using reserve_loop_fresh [OF table loop] by simp_all
  obtain r1 s1 where step: "flowie_session_delivery_append (?d c) s = (r1, s1)" by fastforce
  then have "so_deliveries s' = so_deliveries s @ [?d c]"
    using delivery_append_run [OF table _ _ step] fresh append False by (auto simp: obind_def)
  then have "delivery_map s' = (delivery_map s)(c \<mapsto> ?d c)"
    using keyed_map_append [of dl_packet_id "so_deliveries s" "?d c"] fresh(2) by (simp add: delivery_map_def)
  then show ?thesis
    using fresh(2) qos_cases [OF qos] by (auto simp: session_phase_def intro: phase_step.intros)
qed (rule phase_same)

lemma commit_state_phase:
  assumes run: "flowie_session_owner_delivery_commit_state un c packet expiry queued s = (r, s')" and inv: "session_invariant s"
  shows "session_phase s' p = session_phase s p \<or> p = c \<and> (\<exists>qos. session_phase s p = Reserved qos \<and>
    session_phase s' p = (if queued then Queued qos else Sent qos))"
proof (cases "so_deliveries s' = so_deliveries s")
  case False
  from False run obtain i d where found: "flowie_session_delivery_lookup c s = Inr (i, d)"
    and reserved: "dl_state d = FLOWIE_SESSION_DELIVERY_RESERVED"
    by (auto simp: flowie_session_owner_delivery_commit_state_def split: if_splits sum.splits)
  note at = lookup_at [OF inv found]
  have "\<exists>bs. so_deliveries s' = (so_deliveries s)[i := d\<lparr>dl_packet := bs, dl_expiry_at := 0,
        dl_state := FLOWIE_SESSION_DELIVERY_RESERVED\<rparr>] \<or>
      so_deliveries s' = (so_deliveries s)[i := d\<lparr>dl_packet := bs, dl_expiry_at := expiry,
        dl_state := if queued then FLOWIE_SESSION_DELIVERY_QUEUED else sent_state (dl_qos d)\<rparr>]"
    using False run found
    by (auto simp: flowie_session_owner_delivery_commit_state_def obind_def Let_def delivery_write_def
        dest!: session_allocs_frame split: if_splits sum.splits prod.splits)
  then obtain bs where "so_deliveries s' = (so_deliveries s)[i := d\<lparr>dl_packet := bs, dl_expiry_at := 0,
        dl_state := FLOWIE_SESSION_DELIVERY_RESERVED\<rparr>] \<or>
      so_deliveries s' = (so_deliveries s)[i := d\<lparr>dl_packet := bs, dl_expiry_at := expiry,
        dl_state := if queued then FLOWIE_SESSION_DELIVERY_QUEUED else sent_state (dl_qos d)\<rparr>]" by blast
  then show ?thesis
  proof
    assume w: "so_deliveries s' = (so_deliveries s)[i := d\<lparr>dl_packet := bs, dl_expiry_at := 0,
        dl_state := FLOWIE_SESSION_DELIVERY_RESERVED\<rparr>]"
    show ?thesis
      using phase_write [OF inv at(1) _ w, of p] at reserved by auto
  next
    assume w: "so_deliveries s' = (so_deliveries s)[i := d\<lparr>dl_packet := bs, dl_expiry_at := expiry,
        dl_state := if queued then FLOWIE_SESSION_DELIVERY_QUEUED else sent_state (dl_qos d)\<rparr>]"
    show ?thesis
      using phase_write [OF inv at(1) _ w, of p] at reserved by (auto simp: sent_state_def)
  qed
qed (simp add: session_phase_def delivery_map_def)

lemma expired_phase:
  assumes "delivery_ok d" "delivery_expired now d"
  shows "\<exists>qos. phase_of (Some d) = Queued qos \<or> phase_of (Some d) = Sent qos"
  using assms by (auto simp: delivery_ok_def delivery_expired_def split: flowie_session_delivery_state.splits)

lemma expire_loop_phase:
  "expire_loop now i s = (r, s') \<Longrightarrow> session_invariant s \<Longrightarrow>
     session_phase s' p = session_phase s p \<or>
     session_phase s' p = Absent \<and> (\<exists>qos. session_phase s p = Queued qos \<or> session_phase s p = Sent qos)"
proof (induction now i s rule: expire_loop.induct)
  case (1 now i s)
  let ?d = "so_deliveries s ! i"
  consider (finished) "\<not> i < length (so_deliveries s)"
    | (kept) "i < length (so_deliveries s)" "\<not> delivery_expired now ?d"
    | (expired) "i < length (so_deliveries s)" "delivery_expired now ?d"
    by blast
  then show ?case
  proof cases
    case finished
    then show ?thesis using "1.prems" by (simp add: expire_loop.simps [of now i])
  next
    case kept
    then show ?thesis using "1.IH"(1) "1.prems" by (simp add: expire_loop.simps [of now i])
  next
    case expired
    obtain removed s1 where remove: "flowie_session_delivery_remove_at i s = (Inr removed, s1)"
      using delivery_remove_at_run [OF session_invariant_table [OF "1.prems"(2)] expired(1)] by blast
    have loop: "expire_loop now i s1 = (r, s')"
      using "1.prems"(1) expired remove by (simp add: expire_loop.simps [of now i])
    have s1: "session_phase s1 p = (if p = dl_packet_id ?d then Absent else session_phase s p)"
      by (rule remove_at_phase [OF remove "1.prems"(2) expired(1)])
    have inv1: "session_invariant s1" by (rule remove_at_keeps [OF remove "1.prems"(2)])
    have "session_phase s' p = session_phase s1 p \<or> session_phase s' p = Absent \<and>
        (\<exists>qos. session_phase s1 p = Queued qos \<or> session_phase s1 p = Sent qos)"
      using "1.IH"(2) [OF _ _ remove [symmetric] refl loop inv1] expired by simp
    moreover have "\<exists>qos. session_phase s (dl_packet_id ?d) = Queued qos \<or> session_phase s (dl_packet_id ?d) = Sent qos"
      using expired_phase [OF session_invariant_delivery [OF "1.prems"(2) expired(1)] expired(2)]
        phase_at [OF "1.prems"(2) expired(1)] by (simp add: session_phase_def)
    ultimately show ?thesis using s1 by (auto split: if_splits)
  qed
qed

lemma expire_phase:
  assumes "flowie_session_owner_delivery_expire now s = (r, s')" "session_invariant s"
  shows "phase_step (Delivery_expire now) p (session_phase s p) (session_phase s' p)"
proof (cases "so_deliveries s' = so_deliveries s")
  case False
  obtain r1 s1 where loop: "expire_loop now 0 s = (r1, s1)" by fastforce
  have "so_deliveries s' = so_deliveries s1"
    using False assms(1) loop
    by (auto simp: flowie_session_owner_delivery_expire_def Let_def obind_def split: if_splits sum.splits)
  then have "session_phase s' p = session_phase s1 p" by (simp add: session_phase_def delivery_map_def)
  then show ?thesis
    using expire_loop_phase [OF loop assms(2), of p] by (auto intro: stutter expire)
qed (rule phase_same)

lemma remove_found_phase:
  assumes "flowie_session_delivery_lookup c s = Inr (i, d)" "session_invariant s"
    "flowie_session_delivery_remove_at i s = (r, s1)" "so_deliveries s' = so_deliveries s1"
  shows "session_phase s' p = (if p = c then Absent else session_phase s p)"
proof -
  note at = lookup_at [OF assms(2,1)]
  have "session_phase s' p = session_phase s1 p" using assms(4) by (simp add: session_phase_def delivery_map_def)
  then show ?thesis using remove_at_phase [OF assms(3,2) at(1), of p] at by simp
qed

lemma cancel_phase:
  assumes "flowie_session_owner_delivery_cancel c s = (r, s')" "session_invariant s"
  shows "phase_step (Delivery_cancel c) p (session_phase s p) (session_phase s' p)"
proof (cases "so_deliveries s' = so_deliveries s")
  case False
  from False assms(1) obtain i d where found: "flowie_session_delivery_lookup c s = Inr (i, d)"
    by (auto simp: flowie_session_owner_delivery_cancel_def split: sum.splits)
  obtain r1 s1 where remove: "flowie_session_delivery_remove_at i s = (r1, s1)" by fastforce
  have "so_deliveries s' = so_deliveries s1"
    using assms(1) found remove by (auto simp: flowie_session_owner_delivery_cancel_def obind_def split: sum.splits)
  from remove_found_phase [OF found assms(2) remove this, of p] show ?thesis
    by (auto intro: stutter cancel)
qed (rule phase_same)

lemma expire_packet_phase:
  assumes "flowie_session_owner_delivery_expire_packet c now s = (r, s')" "session_invariant s"
  shows "phase_step (Delivery_expire_packet c now) p (session_phase s p) (session_phase s' p)"
proof (cases "so_deliveries s' = so_deliveries s")
  case False
  from False assms(1) obtain i d where found: "flowie_session_delivery_lookup c s = Inr (i, d)"
    and expired: "delivery_expired now d"
    by (auto simp: flowie_session_owner_delivery_expire_packet_def split: sum.splits if_splits)
  obtain r1 s1 where remove: "flowie_session_delivery_remove_at i s = (r1, s1)" by fastforce
  have "so_deliveries s' = so_deliveries s1"
    using False assms(1) found remove
    by (auto simp: flowie_session_owner_delivery_expire_packet_def obind_def split: sum.splits if_splits)
  from remove_found_phase [OF found assms(2) remove this, of p] lookup_at [OF assms(2) found]
    expired_phase [of d now] expired show ?thesis
    by (auto intro: stutter expire_packet)
qed (rule phase_same)

lemma pending_sent_phase:
  assumes "delivery_ok d" "dl_state d \<noteq> FLOWIE_SESSION_DELIVERY_RESERVED"
  shows "phase_of (Some (pending_sent bs d)) =
    (if dl_state d = FLOWIE_SESSION_DELIVERY_QUEUED then Sent (dl_qos d) else phase_of (Some d))"
  using assms by (auto simp: pending_sent_def sent_state_def split: flowie_session_delivery_state.splits)

lemma phase_of_packet: "phase_of (Some (d\<lparr>dl_packet := x\<rparr>)) = phase_of (Some d)"
  by (simp split: flowie_session_delivery_state.split)

lemma pending_at_ex_phase:
  assumes "flowie_session_owner_delivery_pending_at_ex un i now s = (r, s')" "session_invariant s"
  shows "session_phase s' p = session_phase s p \<or>
    (\<exists>qos. session_phase s p = Queued qos \<and> session_phase s' p = Sent qos)"
proof (cases "so_deliveries s' = so_deliveries s")
  case False
  let ?d = "so_deliveries s ! i"
  from False assms(1) have i: "i < length (so_deliveries s)"
    and sent: "dl_state ?d \<noteq> FLOWIE_SESSION_DELIVERY_RESERVED"
    and s': "\<exists>bs. s' = delivery_write i (?d\<lparr>dl_packet := Some bs\<rparr>) s \<or> s' = delivery_write i (pending_sent bs ?d) s"
    by (auto simp: flowie_session_owner_delivery_pending_at_ex_def Let_def
        split: if_splits option.splits prod.splits sum.splits)
  have d: "delivery_ok ?d" by (rule session_invariant_delivery [OF assms(2) i])
  have here: "session_phase s (dl_packet_id ?d) = phase_of (Some ?d)"
    using phase_at [OF assms(2) i] by (simp add: session_phase_def)
  from s' obtain bs where "s' = delivery_write i (?d\<lparr>dl_packet := Some bs\<rparr>) s \<or> s' = delivery_write i (pending_sent bs ?d) s"
    by blast
  then show ?thesis
  proof
    assume "s' = delivery_write i (?d\<lparr>dl_packet := Some bs\<rparr>) s"
    then have "session_phase s' p = session_phase s p"
      using phase_write [OF assms(2) i, of "?d\<lparr>dl_packet := Some bs\<rparr>" s' p] here
      by (auto simp: delivery_write_def phase_of_packet simp del: phase_of.simps)
    then show ?thesis ..
  next
    assume "s' = delivery_write i (pending_sent bs ?d) s"
    then have w: "session_phase s' p = (if p = dl_packet_id ?d then phase_of (Some (pending_sent bs ?d)) else session_phase s p)"
      using phase_write [OF assms(2) i, of "pending_sent bs ?d" s' p] by (simp add: delivery_write_def)
    show ?thesis
      using w here pending_sent_phase [OF d sent, of bs] by (auto split: if_splits)
  qed
qed (simp add: session_phase_def delivery_map_def)

lemma ack_settled_phase:
  assumes "ack_settled i s = (r, s')" "session_invariant s" "flowie_session_delivery_lookup c s = Inr (i, d)"
  shows "session_phase s' p = session_phase s p \<or> p = c \<and> session_phase s' p = Absent"
proof (cases "so_deliveries s' = so_deliveries s")
  case False
  obtain r1 s1 where remove: "flowie_session_delivery_remove_at i s = (r1, s1)" by fastforce
  have "so_deliveries s' = so_deliveries s1"
    using False assms(1) remove by (auto simp: ack_settled_def obind_def split: sum.splits if_splits)
  from remove_found_phase [OF assms(3,2) remove this, of p] show ?thesis by simp
qed (simp add: session_phase_def delivery_map_def)

lemma ack_received_phase:
  assumes "ack_received un i d s = (r, s')" "session_invariant s" "flowie_session_delivery_lookup c s = Inr (i, d)"
  shows "session_phase s' p = session_phase s p \<or>
    p = c \<and> dl_state d = FLOWIE_SESSION_DELIVERY_WAIT_PUBREC \<and> session_phase s' p = Released"
proof (cases "so_deliveries s' = so_deliveries s")
  case False
  note at = lookup_at [OF assms(2,3)]
  have "dl_state d = FLOWIE_SESSION_DELIVERY_WAIT_PUBREC \<and> (\<exists>bs. so_deliveries s' = (so_deliveries s)
      [i := d\<lparr>dl_packet := Some bs, dl_state := FLOWIE_SESSION_DELIVERY_WAIT_PUBCOMP, dl_expiry_at := 0\<rparr>])"
    using False assms(1)
    by (auto simp: ack_received_def obind_def delivery_write_def dest!: session_allocs_frame
        split: if_splits sum.splits prod.splits)
  then obtain bs where state: "dl_state d = FLOWIE_SESSION_DELIVERY_WAIT_PUBREC"
    and w: "so_deliveries s' = (so_deliveries s)
      [i := d\<lparr>dl_packet := Some bs, dl_state := FLOWIE_SESSION_DELIVERY_WAIT_PUBCOMP, dl_expiry_at := 0\<rparr>]" by blast
  show ?thesis
    using phase_write [OF assms(2) at(1) _ w, of p] at state by auto
qed (simp add: session_phase_def delivery_map_def)

lemma delivery_ack_phase:
  assumes run: "flowie_session_owner_delivery_ack un packet s = (r, s')" and inv: "session_invariant s"
  shows "phase_step (Delivery_ack packet) p (session_phase s p) (session_phase s' p)"
proof (cases "so_deliveries s' = so_deliveries s")
  case False
  from False run obtain c i d control where found: "flowie_session_delivery_lookup c s = Inr (i, d)"
    and kind: "(pv_type packet = FLOWIE_MQTT_PACKET_PUBACK \<and> dl_qos d = 1 \<and> dl_state d = FLOWIE_SESSION_DELIVERY_WAIT_ACK \<and>
        ack_settled i s = (r, s')) \<or>
      (pv_type packet = FLOWIE_MQTT_PACKET_PUBREC \<and> dl_qos d = 2 \<and>
        (dl_state d = FLOWIE_SESSION_DELIVERY_WAIT_PUBREC \<or> dl_state d = FLOWIE_SESSION_DELIVERY_WAIT_PUBCOMP) \<and>
        (ack_received un i d s = (r, s') \<or> ack_settled i s = (r, s'))) \<or>
      (pv_type packet = FLOWIE_MQTT_PACKET_PUBCOMP \<and> dl_state d = FLOWIE_SESSION_DELIVERY_WAIT_PUBCOMP \<and>
        ack_settled i s = (r, s'))"
    by (auto simp: flowie_session_owner_delivery_ack_def split: if_splits sum.splits)
  note at = lookup_at [OF inv found]
  from kind show ?thesis
    using ack_settled_phase [OF _ inv found, of r s' p] ack_received_phase [OF _ inv found, of un r s' p] at(5)
    by (elim disjE conjE) (auto intro: phase_step.intros)
qed (rule phase_same)

section \<open>Every command refines the protocol\<close>

lemma clean_start_phase: "session_phase (clean_start_clear s) p = Absent"
  by (simp add: session_phase_def delivery_map_def clear_defs)

lemma connect_impl_phase:
  assumes run: "flowie_session_owner_connect_impl un connect allow_active s = (r, s')"
    and command: "command = Connect connect \<or> command = Connect_takeover connect"
  shows "phase_step command p (session_phase s p) (session_phase s' p)"
proof -
  obtain r1 s1 where open_run: "flowie_session_owner_open_impl un connect allow_active s = (r1, s1)" by fastforce
  have s': "s' = s1"
    using run open_run by (auto simp: flowie_session_owner_connect_impl_def Let_def split: sum.splits if_splits)
  from open_run show ?thesis
  proof (cases rule: open_impl_cases)
    case (refused e fs)
    then show ?thesis by (intro phase_same) (simp add: s')
  next
    case (opened expiry will_delay fs)
    then have "so_deliveries s' = (if cv_clean_start connect \<noteq> 0 then [] else so_deliveries s)"
      by (simp add: s' opened_def Let_def open_will_def clear_defs)
    then show ?thesis
      using command clean_start [of connect command p]
      by (cases "cv_clean_start connect = 0") (simp_all add: session_phase_def delivery_map_def stutter)
  qed
qed

lemma frame_deliveries:
  assumes "session_invariant s"
  shows "so_deliveries (snd (flowie_session_owner_disconnect un disconnect s)) = so_deliveries s"
    "so_deliveries (snd (flowie_session_owner_will_complete s)) = so_deliveries s"
    "so_deliveries (snd (flowie_session_owner_touch s)) = so_deliveries s"
    "so_deliveries (snd (flowie_session_owner_subscribe un packet subscribe s)) = so_deliveries s"
    "so_deliveries (snd (flowie_session_owner_unsubscribe un packet unsubscribe buffer s)) = so_deliveries s"
    "so_deliveries (snd (flowie_session_owner_publish_begin publish s)) = so_deliveries s"
    "so_deliveries (snd (flowie_session_owner_publish_settle route request s)) = so_deliveries s"
    "so_deliveries (snd (flowie_session_owner_qos2_release route q s)) = so_deliveries s"
proof -
  have ok: "subscriptions_ok (sf_max_subscriptions (so_config s)) (so_subscriptions s)"
    using assms by (simp add: session_invariant_def)
  show "so_deliveries (snd (flowie_session_owner_disconnect un disconnect s)) = so_deliveries s"
    by (auto simp: flowie_session_owner_disconnect_def Let_def clear_defs split: sum.split option.split)
  show "so_deliveries (snd (flowie_session_owner_will_complete s)) = so_deliveries s"
    by (simp add: flowie_session_owner_will_complete_def Let_def clear_defs)
  show "so_deliveries (snd (flowie_session_owner_touch s)) = so_deliveries s"
    by (simp add: flowie_session_owner_touch_def flowie_session_generation_advance_def)
  show "so_deliveries (snd (flowie_session_owner_subscribe un packet subscribe s)) = so_deliveries s"
    by (rule snd_keeps) (erule subscribe_run [OF _ ok]; simp)
  show "so_deliveries (snd (flowie_session_owner_unsubscribe un packet unsubscribe buffer s)) = so_deliveries s"
    by (rule snd_keeps) (erule unsubscribe_run [OF _ ok]; simp)
  show "so_deliveries (snd (flowie_session_owner_publish_begin publish s)) = so_deliveries s"
    by (rule snd_keeps) (erule publish_begin_cases; simp)
  show "so_deliveries (snd (flowie_session_owner_publish_settle route request s)) = so_deliveries s"
    by (simp add: flowie_session_owner_publish_settle_def Let_def split: sum.split option.split)
  show "so_deliveries (snd (flowie_session_owner_qos2_release route q s)) = so_deliveries s"
    by (simp add: flowie_session_owner_qos2_release_def Let_def split: sum.split option.split)
qed

lemma close_phase: "phase_step Close p (session_phase s p) (session_phase (snd (flowie_session_owner_close s)) p)"
proof -
  have "so_deliveries (snd (flowie_session_owner_close s)) = so_deliveries s \<or>
      so_deliveries (snd (flowie_session_owner_close s)) = []"
    by (auto simp: flowie_session_owner_close_def flowie_session_generation_advance_def obind_def Let_def clear_defs)
  then show ?thesis
    by (auto simp: session_phase_def delivery_map_def intro: stutter close)
qed

text \<open>C31: every operation of a session, errors included, moves the delivery of every packet
  identifier by at most one step of the protocol. A QoS 2 message that has been released by PUBREC
  is never queued or sent again under its identifier: it ends with PUBCOMP, with a refusal, or with
  the session state that holds it.\<close>

theorem session_refines_delivery_protocol:
  assumes "session_reachable un config s"
  shows "phase_step command p (session_phase s p) (session_phase (session_exec un command s) p)"
proof -
  have inv: "session_invariant s" by (rule reachable_invariant [OF assms])
  note steps = reserve_phase [OF surjective_pairing inv] cancel_phase [OF surjective_pairing inv]
    expire_phase [OF surjective_pairing inv] expire_packet_phase [OF surjective_pairing inv]
    delivery_ack_phase [OF surjective_pairing inv] connect_impl_phase [OF surjective_pairing]
  show ?thesis
  proof (cases command)
    case (Delivery_commit c packet expiry)
    obtain r s' where "flowie_session_owner_delivery_commit_state un c packet expiry False s = (r, s')" by fastforce
    with commit_state_phase [OF this inv, of p] show ?thesis
      by (auto simp: Delivery_commit flowie_session_owner_delivery_commit_def intro: phase_step.intros)
  next
    case (Delivery_commit_queued c packet expiry)
    obtain r s' where "flowie_session_owner_delivery_commit_state un c packet expiry True s = (r, s')" by fastforce
    with commit_state_phase [OF this inv, of p] show ?thesis
      by (auto simp: Delivery_commit_queued flowie_session_owner_delivery_commit_queued_def intro: phase_step.intros)
  next
    case (Delivery_pending i now)
    obtain r s' where "flowie_session_owner_delivery_pending_at_ex un i now s = (r, s')" by fastforce
    with pending_at_ex_phase [OF this inv, of p] show ?thesis
      by (auto simp: Delivery_pending intro: phase_step.intros)
  next
    case (Delivery_pending_at i)
    obtain r s' where run: "flowie_session_owner_delivery_pending_at_ex un i 0 s = (r, s')" by fastforce
    then have "session_exec un command s = s \<or> session_exec un command s = s'"
      by (auto simp: Delivery_pending_at flowie_session_owner_delivery_pending_at_def obind_def split: sum.split)
    with pending_at_ex_phase [OF run inv, of p] show ?thesis
      by (auto simp: Delivery_pending_at intro: phase_step.intros)
  qed (simp_all add: frame_deliveries [OF inv] close_phase steps phase_same flowie_session_owner_connect_def
      flowie_session_owner_connect_takeover_def)
qed

theorem session_refines_delivery_protocol_witness:
  "session_phase sample_owner 1 = Absent \<and>
   session_phase (session_exec rfc3629_next (Delivery_reserve 1) sample_owner) 1 = Reserved 1 \<and>
   phase_step (Delivery_reserve 1) 1 Absent (Reserved 1)"
proof -
  have before: "session_phase sample_owner 1 = Absent"
    by (simp add: session_phase_def delivery_map_def sample_owner_def session_zero_def)
  have "reserve_loop 65535 0 sample_owner = Inr 1"
    using reserve_loop.simps(2) [of 65534 0 sample_owner]
    by (simp add: Let_def next_packet_id_def flowie_session_delivery_lookup_def sample_owner_def session_zero_def)
  then have after: "session_phase (session_exec rfc3629_next (Delivery_reserve 1) sample_owner) 1 = Reserved 1"
    by (simp add: flowie_session_owner_delivery_reserve_def flowie_session_delivery_append_def sample_owner_def
        session_zero_def sample_config_def obind_def session_attempt_def flowie_session_delivery_lookup_def
        session_phase_def delivery_map_def keyed_map_def)
  show ?thesis
    using session_refines_delivery_protocol [OF sample_reachable, of "Delivery_reserve 1" 1] before after by simp
qed

end
