(* ===== verification/Session_Repository.thy ===== *)
theory Session_Repository
  imports Session_Subscribe Session_Inbound
begin

text \<open>
  Copies of a session owner, \<open>flowie/src/flowie_session.c\<close>: the clone on which the endpoint stages
  an operation, the snapshot for readers, and the row of the protocol repository,
  \<open>flowie/include/flowie_protocol_repository.h\<close>, from which a session is restored after a restart.
  The columns of a row that the owner neither writes nor reads are left out, and the state column
  of a delivery holds a named state.
\<close>

section \<open>Clone\<close>

fun clone_inflight_loop :: "flowie_session_inflight list \<Rightarrow> (flowie_session_owner, unit) op" where
  "clone_inflight_loop [] = oret ()"
| "clone_inflight_loop (entry # entries) =
     obind session_attempt (\<lambda>_ copy. clone_inflight_loop entries (copy\<lparr>so_inflight := so_inflight copy @ [entry]\<rparr>))"

fun clone_deliveries_loop :: "flowie_session_delivery list \<Rightarrow> (flowie_session_owner, unit) op" where
  "clone_deliveries_loop [] = oret ()"
| "clone_deliveries_loop (entry # entries) =
     obind (session_allocs (if dl_packet entry = None then 0 else 1)) (\<lambda>_.
     obind (flowie_session_delivery_append entry) (\<lambda>_. clone_deliveries_loop entries))"

text \<open>The fields that are copied at the end, when every allocation has succeeded.\<close>

definition clone_fields :: "flowie_session_owner \<Rightarrow> flowie_session_owner \<Rightarrow> flowie_session_owner" where
  "clone_fields owner copy =
     copy\<lparr>so_version := so_version owner, so_keep_alive := so_keep_alive owner,
          so_session_expiry_interval := so_session_expiry_interval owner,
          so_session_generation := so_session_generation owner,
          so_resource_generation := so_resource_generation owner,
          so_next_delivery_packet_id := so_next_delivery_packet_id owner,
          so_will_delay_interval := so_will_delay_interval owner, so_initialized := so_initialized owner,
          so_active := so_active owner, so_clean_start := so_clean_start owner, so_has_will := so_has_will owner,
          so_will_pending := so_will_pending owner, so_will_qos := so_will_qos owner,
          so_will_retain := so_will_retain owner\<rparr>"

definition clone_will :: "flowie_session_owner \<Rightarrow> (flowie_session_owner, unit) op" where
  "clone_will owner =
     (if \<not> so_has_will owner then oret ()
      else obind (session_allocs 3) (\<lambda>_ copy.
        if so_will_topic owner = None \<or> so_will_properties owner = None \<or> so_will_payload owner = None
        then (Inl SALTS_ENOMEM, copy)
        else (Inr (), copy\<lparr>so_will_topic := so_will_topic owner, so_will_properties := so_will_properties owner,
                           so_will_payload := so_will_payload owner\<rparr>)))"

definition clone_client_id :: "flowie_session_owner \<Rightarrow> (flowie_session_owner, unit) op" where
  "clone_client_id owner =
     (case so_client_id owner of
        None \<Rightarrow> oret ()
      | Some client_id \<Rightarrow> obind (session_allocs 1) (\<lambda>_ copy. (Inr (), copy\<lparr>so_client_id := Some client_id\<rparr>)))"

definition flowie_session_owner_clone :: "flowie_session_owner \<Rightarrow> flowie_session_owner option" where
  "flowie_session_owner_clone owner =
     (if \<not> flowie_session_config_valid (so_config owner) then None
      else case flowie_session_owner_create (so_config owner) (so_faults owner) of
             None \<Rightarrow> None
           | Some copy \<Rightarrow>
               (case obind (clone_client_id owner) (\<lambda>_.
                     obind (clone_will owner) (\<lambda>_.
                     obind (flowie_session_subscriptions_clone (so_subscriptions owner)) (\<lambda>subscriptions copy.
                     obind (clone_inflight_loop (so_inflight owner)) (\<lambda>_.
                     obind (clone_deliveries_loop (so_deliveries owner)) (\<lambda>_ copy.
                       (Inr (), clone_fields owner copy)))
                     (copy\<lparr>so_subscriptions := subscriptions\<rparr>)))) copy of
                  (Inl e, copy) \<Rightarrow> None
                | (Inr u, copy) \<Rightarrow> Some copy))"

section \<open>Snapshot\<close>

record flowie_session_snapshot =
  sp_active :: bool
  sp_clean_start :: u8
  sp_version :: flowie_mqtt_version
  sp_keep_alive :: u16
  sp_session_expiry_interval :: u32
  sp_owner_instance_id :: u64
  sp_session_id :: u64
  sp_session_generation :: u64
  sp_resource_generation :: u64
  sp_subscription_count :: nat
  sp_subscription_capacity :: nat
  sp_inflight_count :: nat
  sp_inflight_capacity :: nat
  sp_client_id :: flowie_mqtt_span
  sp_has_will :: bool
  sp_will_pending :: bool
  sp_will_qos :: u8
  sp_will_retain :: u8
  sp_will_delay_interval :: u32
  sp_will_topic :: flowie_mqtt_span
  sp_will_properties :: flowie_mqtt_span
  sp_will_payload :: flowie_mqtt_span

definition text_span :: "bytes option \<Rightarrow> flowie_mqtt_span" where
  "text_span text = (case text of None \<Rightarrow> NullSpan 0 | Some bytes \<Rightarrow> Span bytes)"

definition flowie_session_owner_snapshot :: "flowie_session_owner \<Rightarrow> flowie_session_snapshot" where
  "flowie_session_owner_snapshot owner =
     \<lparr>sp_active = so_active owner, sp_clean_start = so_clean_start owner, sp_version = so_version owner,
      sp_keep_alive = so_keep_alive owner, sp_session_expiry_interval = so_session_expiry_interval owner,
      sp_owner_instance_id = sf_owner_instance_id (so_config owner), sp_session_id = sf_session_id (so_config owner),
      sp_session_generation = so_session_generation owner, sp_resource_generation = so_resource_generation owner,
      sp_subscription_count = length (so_subscriptions owner),
      sp_subscription_capacity = sf_max_subscriptions (so_config owner),
      sp_inflight_count = length (so_inflight owner) + length (so_deliveries owner),
      sp_inflight_capacity = sf_max_inflight (so_config owner), sp_client_id = text_span (so_client_id owner),
      sp_has_will = so_has_will owner, sp_will_pending = so_will_pending owner, sp_will_qos = so_will_qos owner,
      sp_will_retain = so_will_retain owner, sp_will_delay_interval = so_will_delay_interval owner,
      sp_will_topic = text_span (so_will_topic owner), sp_will_properties = text_span (so_will_properties owner),
      sp_will_payload = text_span (so_will_payload owner)\<rparr>"

section \<open>Rows of the repository\<close>

record flowie_protocol_subscription_row =
  br_filter :: flowie_mqtt_span
  br_qos :: u8
  br_no_local :: u8
  br_retain_as_published :: u8
  br_retain_handling :: u8
  br_subscription_identifier :: u32

record flowie_protocol_inflight_row =
  ir_packet_id :: u16
  ir_qos :: u8

record flowie_protocol_delivery_row =
  dr_packet_id :: u16
  dr_qos :: u8
  dr_state :: flowie_session_delivery_state
  dr_expiry_at_epoch_seconds :: u64
  dr_packet :: flowie_mqtt_span

record flowie_protocol_will_row =
  wr_pending :: bool
  wr_qos :: u8
  wr_retain :: u8
  wr_delay_interval :: u32
  wr_topic :: flowie_mqtt_span
  wr_properties :: flowie_mqtt_span
  wr_payload :: flowie_mqtt_span

record flowie_protocol_session_row =
  rw_client_id :: flowie_mqtt_span
  rw_revision :: u64
  rw_session_id :: u64
  rw_session_generation :: u64
  rw_mqtt_version :: flowie_mqtt_version
  rw_keep_alive :: u16
  rw_session_expiry_interval :: u32
  rw_next_delivery_packet_id :: u16
  rw_subscriptions :: "flowie_protocol_subscription_row list"
  rw_inflight :: "flowie_protocol_inflight_row list"
  rw_deliveries :: "flowie_protocol_delivery_row list"
  rw_will :: "flowie_protocol_will_row option"

section \<open>Writing the row\<close>

definition subscription_row :: "flowie_session_subscription_owned \<Rightarrow> flowie_protocol_subscription_row" where
  "subscription_row entry =
     \<lparr>br_filter = Span (sn_filter entry), br_qos = sn_qos entry, br_no_local = sn_no_local entry,
      br_retain_as_published = sn_retain_as_published entry, br_retain_handling = sn_retain_handling entry,
      br_subscription_identifier = sn_subscription_identifier entry\<rparr>"

text \<open>Only what has been promised to the client is kept: a received QoS 2 message that waits for its
  release, and a delivery that has left the reserved state, as if it had been sent.\<close>

definition inflight_persisted :: "flowie_session_inflight \<Rightarrow> bool" where
  "inflight_persisted entry \<longleftrightarrow> if_state entry = FLOWIE_SESSION_INFLIGHT_QOS2_RELEASE"

definition inflight_row :: "flowie_session_inflight \<Rightarrow> flowie_protocol_inflight_row" where
  "inflight_row entry = \<lparr>ir_packet_id = if_packet_id entry, ir_qos = if_qos entry\<rparr>"

definition delivery_persisted :: "flowie_session_delivery \<Rightarrow> bool" where
  "delivery_persisted entry \<longleftrightarrow> dl_state entry \<noteq> FLOWIE_SESSION_DELIVERY_RESERVED"

definition persisted_state :: "flowie_session_delivery \<Rightarrow> flowie_session_delivery_state" where
  "persisted_state entry =
     (if dl_state entry = FLOWIE_SESSION_DELIVERY_QUEUED
      then if dl_qos entry = 1 then FLOWIE_SESSION_DELIVERY_WAIT_ACK else FLOWIE_SESSION_DELIVERY_WAIT_PUBREC
      else dl_state entry)"

definition delivery_row :: "flowie_session_delivery \<Rightarrow> flowie_protocol_delivery_row option" where
  "delivery_row entry =
     (case dl_packet entry of
        None \<Rightarrow> None
      | Some packet \<Rightarrow>
          Some \<lparr>dr_packet_id = dl_packet_id entry, dr_qos = dl_qos entry, dr_state = persisted_state entry,
                dr_expiry_at_epoch_seconds = dl_expiry_at entry, dr_packet = Span packet\<rparr>)"

fun delivery_rows :: "flowie_session_delivery list \<Rightarrow> flowie_protocol_delivery_row list option" where
  "delivery_rows [] = Some []"
| "delivery_rows (entry # entries) =
     (if \<not> delivery_persisted entry then delivery_rows entries
      else case delivery_row entry of
             None \<Rightarrow> None
           | Some row \<Rightarrow> map_option ((#) row) (delivery_rows entries))"

definition will_row :: "flowie_session_owner \<Rightarrow> flowie_protocol_will_row" where
  "will_row owner =
     \<lparr>wr_pending = (so_will_pending owner \<or> so_active owner), wr_qos = so_will_qos owner,
      wr_retain = so_will_retain owner, wr_delay_interval = so_will_delay_interval owner,
      wr_topic = text_span (so_will_topic owner), wr_properties = text_span (so_will_properties owner),
      wr_payload = text_span (so_will_payload owner)\<rparr>"

text \<open>The three arrays are allocated before any of them is checked; an empty one may be null.\<close>

definition row_allocs :: "nat \<Rightarrow> nat \<Rightarrow> nat \<Rightarrow> (flowie_session_owner, unit) op" where
  "row_allocs subscription_count inflight_count delivery_count owner =
     (case session_attempt owner of (first, owner1) \<Rightarrow>
      case session_attempt owner1 of (second, owner2) \<Rightarrow>
      case session_attempt owner2 of (third, owner3) \<Rightarrow>
        (if (subscription_count \<noteq> 0 \<and> \<not> is_ok first) \<or> (inflight_count \<noteq> 0 \<and> \<not> is_ok second) \<or>
            (delivery_count \<noteq> 0 \<and> \<not> is_ok third)
         then Inl SALTS_ENOMEM else Inr (), owner3))"

definition flowie_session_owner_repository_snapshot ::
    "(flowie_session_owner, flowie_protocol_session_row) op" where
  "flowie_session_owner_repository_snapshot owner =
     (case so_client_id owner of
        None \<Rightarrow> (Inl SALTS_EINVAL, owner)
      | Some client_id \<Rightarrow>
          if \<not> so_initialized owner \<or> so_resource_generation owner = 0 then (Inl SALTS_EINVAL, owner)
          else let inflight = filter inflight_persisted (so_inflight owner) in
            obind (row_allocs (length (so_subscriptions owner)) (length inflight)
                     (length (filter delivery_persisted (so_deliveries owner)))) (\<lambda>_ owner.
              case delivery_rows (so_deliveries owner) of
                None \<Rightarrow> (Inl SALTS_EPROTO, owner)
              | Some deliveries \<Rightarrow>
                  (Inr \<lparr>rw_client_id = Span client_id, rw_revision = so_resource_generation owner,
                        rw_session_id = sf_session_id (so_config owner),
                        rw_session_generation = so_session_generation owner, rw_mqtt_version = so_version owner,
                        rw_keep_alive = so_keep_alive owner,
                        rw_session_expiry_interval = so_session_expiry_interval owner,
                        rw_next_delivery_packet_id = so_next_delivery_packet_id owner,
                        rw_subscriptions = map subscription_row (so_subscriptions owner),
                        rw_inflight = map inflight_row inflight, rw_deliveries = deliveries,
                        rw_will = if so_has_will owner then Some (will_row owner) else None\<rparr>, owner)) owner)"

section \<open>Restoring from the row\<close>

fun restore_subscriptions :: "flowie_protocol_subscription_row list \<Rightarrow> (flowie_session_owner, unit) op" where
  "restore_subscriptions [] = oret ()"
| "restore_subscriptions (row # rows) =
     obind (session_allocs 1) (\<lambda>_. obind session_attempt (\<lambda>_ owner.
       restore_subscriptions rows (owner\<lparr>so_subscriptions := so_subscriptions owner @
         [\<lparr>sn_filter = span_bytes (br_filter row), sn_qos = br_qos row, sn_no_local = br_no_local row,
           sn_retain_as_published = br_retain_as_published row, sn_retain_handling = br_retain_handling row,
           sn_subscription_identifier = br_subscription_identifier row\<rparr>]\<rparr>)))"

fun restore_inflight :: "flowie_protocol_inflight_row list \<Rightarrow> (flowie_session_owner, unit) op" where
  "restore_inflight [] = oret ()"
| "restore_inflight (row # rows) =
     obind session_attempt (\<lambda>_ owner.
       restore_inflight rows (owner\<lparr>so_inflight := so_inflight owner @
         [\<lparr>if_packet_id = ir_packet_id row, if_qos = ir_qos row,
           if_state = FLOWIE_SESSION_INFLIGHT_QOS2_RELEASE\<rparr>]\<rparr>))"

definition restore_delivery ::
    "utf8_next \<Rightarrow> flowie_protocol_delivery_row \<Rightarrow> (flowie_session_owner, unit) op" where
  "restore_delivery un row =
     obind (session_allocs 1) (\<lambda>_ owner.
       let entry = \<lparr>dl_packet_id = dr_packet_id row, dl_qos = dr_qos row, dl_state = dr_state row,
                    dl_expiry_at = dr_expiry_at_epoch_seconds row, dl_packet = Some (span_bytes (dr_packet row))\<rparr> in
       case flowie_session_record_delivery_validate un (so_version owner) entry of
         Inl e \<Rightarrow> (Inl e, owner)
       | Inr u \<Rightarrow>
           (case flowie_session_delivery_append entry owner of
              (Inl e, owner) \<Rightarrow> (Inl (if e = SALTS_EALREADY then SALTS_EPROTO else e), owner)
            | (Inr u, owner) \<Rightarrow> (Inr (), owner)))"

fun restore_deliveries ::
    "utf8_next \<Rightarrow> flowie_protocol_delivery_row list \<Rightarrow> (flowie_session_owner, unit) op" where
  "restore_deliveries un [] = oret ()"
| "restore_deliveries un (row # rows) = obind (restore_delivery un row) (\<lambda>_. restore_deliveries un rows)"

definition restore_will :: "flowie_protocol_will_row option \<Rightarrow> (flowie_session_owner, unit) op" where
  "restore_will will =
     (case will of
        None \<Rightarrow> oret ()
      | Some row \<Rightarrow> obind (session_allocs 3) (\<lambda>_ owner.
          (Inr (), owner\<lparr>so_will_topic := Some (span_bytes (wr_topic row)),
                         so_will_properties := Some (span_bytes (wr_properties row)),
                         so_will_payload := Some (span_bytes (wr_payload row)), so_has_will := True,
                         so_will_pending := wr_pending row, so_will_qos := wr_qos row,
                         so_will_retain := wr_retain row, so_will_delay_interval := wr_delay_interval row\<rparr>)))"

definition restore_fields :: "flowie_protocol_session_row \<Rightarrow> flowie_session_owner \<Rightarrow> flowie_session_owner" where
  "restore_fields row owner =
     owner\<lparr>so_client_id := Some (span_bytes (rw_client_id row)),
           so_config := (so_config owner)\<lparr>sf_session_id := rw_session_id row\<rparr>,
           so_version := rw_mqtt_version row, so_keep_alive := rw_keep_alive row,
           so_session_expiry_interval := rw_session_expiry_interval row,
           so_session_generation := rw_session_generation row, so_resource_generation := rw_revision row,
           so_next_delivery_packet_id := rw_next_delivery_packet_id row\<rparr>"

definition flowie_session_owner_repository_restore ::
    "utf8_next \<Rightarrow> flowie_session_config \<Rightarrow> flowie_protocol_session_row \<Rightarrow> faults \<Rightarrow>
       salts_error + flowie_session_owner" where
  "flowie_session_owner_repository_restore un config row faults =
     (if \<not> flowie_session_config_valid config \<or> span_null (rw_client_id row) \<or> span_size (rw_client_id row) = 0 \<or>
         rw_revision row = 0 \<or> length (rw_subscriptions row) > sf_max_subscriptions config \<or>
         length (rw_inflight row) + length (rw_deliveries row) > sf_max_inflight config
      then Inl SALTS_EINVAL
      else case flowie_session_owner_create config faults of
        None \<Rightarrow> Inl SALTS_ENOMEM
      | Some owner \<Rightarrow>
          (case obind (session_allocs 1) (\<lambda>_ owner.
                obind (restore_subscriptions (rw_subscriptions row)) (\<lambda>_.
                obind (restore_inflight (rw_inflight row)) (\<lambda>_.
                obind (restore_deliveries un (rw_deliveries row)) (\<lambda>_.
                obind (restore_will (rw_will row)) (\<lambda>_ owner.
                  (Inr (), owner\<lparr>so_active := False, so_clean_start := 0\<rparr>)))))
                (restore_fields row owner)) owner of
             (Inl e, owner) \<Rightarrow> Inl e
           | (Inr u, owner) \<Rightarrow> Inr owner))"

end
