(* ===== verification/Session_Copy.thy ===== *)
theory Session_Copy
  imports Session_System Session_Repository
begin

text \<open>
  The clone on which the endpoint stages an operation is the session itself, or there is no clone
  because an allocation has failed. \<open>performs\<close> states what an allocating operation does apart from
  the allocations it uses; it composes along the code.
\<close>

section \<open>Operations that fail for lack of memory only\<close>

definition performs ::
    "(flowie_session_owner, 'a) op \<Rightarrow> flowie_session_owner \<Rightarrow> 'a \<Rightarrow> flowie_session_owner \<Rightarrow> bool" where
  "performs m s x t \<longleftrightarrow>
     (case m s of
        (Inl e, s') \<Rightarrow> so_faults s \<noteq> []
      | (Inr y, s') \<Rightarrow> y = x \<and> s' = t\<lparr>so_faults := so_faults s'\<rparr> \<and> (so_faults s = [] \<longrightarrow> so_faults s' = []))"

lemma performs_cases:
  assumes "performs m s x t"
  obtains (failed) e s' where "m s = (Inl e, s')" "so_faults s \<noteq> []"
  | (performed) fs where "m s = (Inr x, t\<lparr>so_faults := fs\<rparr>)" "so_faults s = [] \<longrightarrow> fs = []"
proof (cases "m s")
  case (Pair r s')
  show thesis
  proof (cases r)
    case (Inl e)
    with Pair assms show thesis by (intro failed) (simp_all add: performs_def)
  next
    case (Inr y)
    with Pair assms have "y = x" "s' = t\<lparr>so_faults := so_faults s'\<rparr>" "so_faults s = [] \<longrightarrow> so_faults s' = []"
      by (simp_all add: performs_def)
    with Pair Inr show thesis by (intro performed [of "so_faults s'"]) simp_all
  qed
qed

lemma performs_oret [intro]: "performs (oret x) s x s"
  by (simp add: performs_def)

lemma performs_update [intro]: "performs (\<lambda>s. (Inr x, f s)) s x (f s)" if "so_faults (f s) = so_faults s"
  using that by (simp add: performs_def)

lemma performs_obind:
  assumes "performs m s x t" "\<And>fs. performs (f x) (t\<lparr>so_faults := fs\<rparr>) y u"
  shows "performs (obind m f) s y u"
  using assms(1)
proof (cases rule: performs_cases)
  case (failed e s')
  then show ?thesis by (simp add: performs_def obind_def)
next
  case (performed fs)
  then show ?thesis
    using assms(2) [of fs] by (auto simp: performs_def obind_def split: prod.splits sum.splits)
qed

lemma performs_mod_faults: "performs m s x (t\<lparr>so_faults := fs\<rparr>) = performs m s x t"
  by (auto simp: performs_def split: prod.splits sum.splits)

lemma performs_eq:
  assumes "performs m s x t" "t\<lparr>so_faults := []\<rparr> = u\<lparr>so_faults := []\<rparr>"
  shows "performs m s x u"
  using assms(1) performs_mod_faults [of m s x "[]" t] performs_mod_faults [of m s x "[]" u] by (simp add: assms(2))

lemma performs_after:
  "performs m (f s) x t \<Longrightarrow> so_faults (f s) = so_faults s \<Longrightarrow> performs (\<lambda>s. m (f s)) s x t"
  by (auto simp: performs_def split: prod.splits sum.splits)

lemma performs_attempt [intro]: "performs session_attempt s () s"
  by (auto simp: performs_def session_attempt_def split: list.splits sum.splits prod.splits)

lemma performs_allocs [intro]: "performs (session_allocs n) s () s"
proof -
  obtain r s' where run: "session_allocs n s = (r, s')" by fastforce
  show ?thesis
    using run session_allocs_frame [OF run] session_allocs_no_faults [of s n]
    by (auto simp: performs_def split: sum.splits)
qed

section \<open>The index of a table\<close>

definition table_index :: "flowie_session_delivery list \<Rightarrow> u16 \<Rightarrow> nat option" where
  "table_index ds = map_of (zip (map dl_packet_id ds) [0..<length ds])"

lemma table_index_iff:
  "distinct (map dl_packet_id ds) \<Longrightarrow>
     table_index ds p = Some i \<longleftrightarrow> i < length ds \<and> dl_packet_id (ds ! i) = p"
  by (auto simp: table_index_def map_of_zip_nth in_set_zip dest!: map_of_SomeD)
     (metis add.left_neutral diff_zero length_map length_upt map_of_zip_nth nth_map nth_upt)

lemma table_ok_index:
  "distinct (map dl_packet_id ds) \<Longrightarrow> \<forall>d \<in> set ds. dl_packet_id d \<noteq> 0 \<Longrightarrow> table_ok (table_index ds) ds"
  by (simp add: table_ok_def table_index_iff)

lemma table_ok_unique:
  assumes "table_ok index ds"
  shows "index = table_index ds"
proof
  fix p
  have "index p = Some i \<longleftrightarrow> table_index ds p = Some i" for i
    by (simp add: table_ok_Some_iff [OF assms] table_index_iff [OF table_ok_distinct [OF assms]])
  then show "index p = table_index ds p" by (metis option.exhaust)
qed

lemma performs_append:
  assumes ok: "delivery_table_ok s" and new: "dl_packet_id d \<noteq> 0" "dl_packet_id d \<notin> dl_packet_id ` set (so_deliveries s)"
  shows "performs (flowie_session_delivery_append d) s ()
    (s\<lparr>so_deliveries := so_deliveries s @ [d], so_delivery_index := table_index (so_deliveries s @ [d])\<rparr>)"
proof -
  obtain r s' where run: "flowie_session_delivery_append d s = (r, s')" by fastforce
  have free: "delivery_map s (dl_packet_id d) = None" "so_delivery_index s (dl_packet_id d) = None"
    using new(2) by (simp_all add: delivery_map_None_iff table_ok_None_iff [OF ok])
  have index: "(so_delivery_index s)(dl_packet_id d \<mapsto> length (so_deliveries s)) = table_index (so_deliveries s @ [d])"
    by (rule table_ok_unique [OF table_ok_append [OF ok new(1) free(2)]])
  have "r = Inr () \<and> so_faults s' = []" if "so_faults s = []"
    using run that new(1) free(1) delivery_lookup_missing [OF ok, of "dl_packet_id d" SALTS_ENOENT]
    by (auto simp: flowie_session_delivery_append_def session_attempt_def Let_def)
  with delivery_append_run [OF ok free(1) new(1) run] show ?thesis
    by (auto simp: performs_def run index intro!: flowie_session_owner.equality)
qed

section \<open>Clone\<close>

lemma performs_subscriptions_clone_loop: "performs (subscriptions_clone_loop es out) s (out @ es) s"
proof (induction es arbitrary: out s)
  case (Cons e es)
  have "performs (subscriptions_clone_loop es (out @ [e])) (s\<lparr>so_faults := fs\<rparr>) (out @ e # es) s" for fs
    by (rule performs_eq, rule Cons.IH [of "out @ [e]" "s\<lparr>so_faults := fs\<rparr>", simplified]) simp
  then show ?case
    by (auto intro!: performs_obind [OF performs_allocs] performs_obind [OF performs_attempt])
qed auto

lemma performs_subscriptions_clone: "performs (flowie_session_subscriptions_clone es) s es s"
proof -
  have "performs (subscriptions_clone_loop es []) (s\<lparr>so_faults := fs\<rparr>) es s" for fs
    by (rule performs_eq, rule performs_subscriptions_clone_loop [of es "[]", simplified]) simp
  then show ?thesis
    unfolding flowie_session_subscriptions_clone_def by (rule performs_obind [OF performs_attempt])
qed

lemma performs_clone_inflight: "performs (clone_inflight_loop es) s () (s\<lparr>so_inflight := so_inflight s @ es\<rparr>)"
proof (induction es arbitrary: s)
  case (Cons e es)
  have "performs (\<lambda>copy. clone_inflight_loop es (copy\<lparr>so_inflight := so_inflight copy @ [e]\<rparr>)) (s\<lparr>so_faults := fs\<rparr>) ()
      (s\<lparr>so_inflight := so_inflight s @ e # es\<rparr>)" for fs
    by (rule performs_after, rule performs_eq, rule Cons.IH) simp_all
  then show ?case
    by (simp add: performs_obind [OF performs_attempt])
qed auto

lemma performs_clone_deliveries:
  assumes "table_ok (so_delivery_index s) (so_deliveries s)" "\<forall>d \<in> set ds. dl_packet_id d \<noteq> 0"
    "distinct (map dl_packet_id (so_deliveries s @ ds))"
  shows "performs (clone_deliveries_loop ds) s ()
    (s\<lparr>so_deliveries := so_deliveries s @ ds, so_delivery_index := table_index (so_deliveries s @ ds)\<rparr>)"
  using assms
proof (induction ds arbitrary: s)
  case Nil
  then have "s\<lparr>so_delivery_index := table_index (so_deliveries s)\<rparr> = s"
    by (simp add: table_ok_unique [symmetric])
  then show ?case by (simp add: performs_def)
next
  case (Cons d ds)
  let ?t = "\<lambda>s. s\<lparr>so_deliveries := so_deliveries s @ [d], so_delivery_index := table_index (so_deliveries s @ [d])\<rparr>"
  have append: "performs (flowie_session_delivery_append d) (s\<lparr>so_faults := fs\<rparr>) () (?t s)" for fs
    by (rule performs_eq, rule performs_append) (use Cons.prems in auto)
  have "performs (clone_deliveries_loop ds) ((?t s)\<lparr>so_faults := fs\<rparr>) ()
      (s\<lparr>so_deliveries := so_deliveries s @ d # ds, so_delivery_index := table_index (so_deliveries s @ d # ds)\<rparr>)" for fs
    by (rule performs_eq, rule Cons.IH) (use Cons.prems table_ok_nonzero in \<open>auto intro!: table_ok_index\<close>)
  then show ?case
    by (auto intro!: performs_obind [OF performs_allocs] performs_obind [OF append])
qed

lemma create_cases:
  assumes "flowie_session_config_valid config"
  obtains (no_memory) "flowie_session_owner_create config faults = None" "faults \<noteq> []"
  | (created) fs where "flowie_session_owner_create config faults = Some (session_zero config fs)"
      "faults = [] \<longrightarrow> fs = []"
proof -
  let ?m = "obind session_attempt (\<lambda>_. obind session_attempt (\<lambda>_. obind session_attempt (\<lambda>_.
              obind session_attempt (\<lambda>_. session_attempt))))"
  have attempt: "performs session_attempt (s\<lparr>so_faults := fs\<rparr>) () s" for s fs
    by (rule performs_eq [OF performs_attempt]) simp
  have "performs ?m (session_zero config faults) () (session_zero config faults)"
    by (intro performs_obind [OF performs_attempt] performs_obind [OF attempt] attempt)
  then show thesis
  proof (cases rule: performs_cases)
    case (failed e s')
    then show thesis using assms by (intro no_memory) (simp_all add: flowie_session_owner_create_def session_zero_def)
  next
    case (performed fs)
    then show thesis
      using assms by (intro created [of fs]) (simp_all add: flowie_session_owner_create_def session_zero_def)
  qed
qed

lemma performs_clone_client_id: "performs (clone_client_id s) c () (c\<lparr>so_client_id := so_client_id s\<rparr>)"
  if "so_client_id c = None"
proof (cases "so_client_id s")
  case None
  with that have "c\<lparr>so_client_id := so_client_id s\<rparr> = c" by simp
  with None show ?thesis by (simp add: clone_client_id_def performs_def)
next
  case (Some client_id)
  have "performs (\<lambda>c. (Inr (), c\<lparr>so_client_id := Some client_id\<rparr>)) (c\<lparr>so_faults := fs\<rparr>) ()
      (c\<lparr>so_client_id := so_client_id s\<rparr>)" for fs
    by (rule performs_eq, rule performs_update) (simp_all add: Some)
  then show ?thesis
    by (simp add: clone_client_id_def Some performs_obind [OF performs_allocs])
qed

lemma performs_clone_will:
  assumes "session_invariant s" "so_will_topic c = None" "so_will_properties c = None" "so_will_payload c = None"
  shows "performs (clone_will s) c () (c\<lparr>so_will_topic := so_will_topic s, so_will_properties := so_will_properties s,
    so_will_payload := so_will_payload s\<rparr>)"
proof (cases "so_has_will s")
  case False
  then have "c\<lparr>so_will_topic := so_will_topic s, so_will_properties := so_will_properties s,
    so_will_payload := so_will_payload s\<rparr> = c"
    using assms by (simp add: session_invariant_def will_ok_def)
  with False show ?thesis by (simp add: clone_will_def performs_def)
next
  case True
  then have texts: "(so_will_topic s = None \<or> so_will_properties s = None \<or> so_will_payload s = None) = False"
    using assms(1) by (simp add: session_invariant_def will_ok_def)
  have "performs (\<lambda>c. (Inr (), c\<lparr>so_will_topic := so_will_topic s, so_will_properties := so_will_properties s,
      so_will_payload := so_will_payload s\<rparr>)) (c\<lparr>so_faults := fs\<rparr>) () (c\<lparr>so_will_topic := so_will_topic s,
      so_will_properties := so_will_properties s, so_will_payload := so_will_payload s\<rparr>)" for fs
    by (rule performs_eq, rule performs_update) simp_all
  with True show ?thesis
    by (simp only: clone_will_def texts not_True_eq_False if_False performs_obind [OF performs_allocs])
qed

text \<open>C37: the clone of a session that its operations can reach has the same value in every field, so an
  operation staged on it has the result it would have on the session. There is no clone only when
  an allocation has failed.\<close>

theorem clone_is_session:
  assumes "session_reachable un config s"
  shows "(flowie_session_owner_clone s = None \<and> so_faults s \<noteq> []) \<or>
    (\<exists>fs. flowie_session_owner_clone s = Some (s\<lparr>so_faults := fs\<rparr>))"
proof -
  have inv: "session_invariant s" by (rule reachable_invariant [OF assms])
  then have valid: "flowie_session_config_valid (so_config s)" and table: "delivery_table_ok s"
    by (simp_all add: session_invariant_def session_invariant_table [OF inv])
  from valid show ?thesis
  proof (cases rule: create_cases [where faults = "so_faults s"])
    case no_memory
    then show ?thesis by (simp add: flowie_session_owner_clone_def)
  next
    case (created gs)
    let ?z = "session_zero (so_config s) gs"
    let ?c1 = "?z\<lparr>so_client_id := so_client_id s\<rparr>"
    let ?c2 = "?c1\<lparr>so_will_topic := so_will_topic s, so_will_properties := so_will_properties s,
      so_will_payload := so_will_payload s\<rparr>"
    let ?c3 = "?c2\<lparr>so_subscriptions := so_subscriptions s\<rparr>"
    let ?c4 = "?c3\<lparr>so_inflight := so_inflight s\<rparr>"
    let ?c5 = "?c4\<lparr>so_deliveries := so_deliveries s, so_delivery_index := so_delivery_index s\<rparr>"
    have 1: "performs (clone_client_id s) ?z () ?c1"
      by (rule performs_clone_client_id) (simp add: session_zero_def)
    have 2: "performs (clone_will s) (?c1\<lparr>so_faults := fs\<rparr>) () ?c2" for fs
      by (rule performs_eq, rule performs_clone_will [OF inv]) (simp_all add: session_zero_def)
    have 3: "performs (flowie_session_subscriptions_clone (so_subscriptions s)) (?c2\<lparr>so_faults := fs\<rparr>)
        (so_subscriptions s) ?c2" for fs
      by (rule performs_eq, rule performs_subscriptions_clone) simp
    have 4: "performs (clone_inflight_loop (so_inflight s)) (?c2\<lparr>so_faults := fs, so_subscriptions := so_subscriptions s\<rparr>)
        () ?c4" for fs
      by (rule performs_eq, rule performs_clone_inflight) (simp add: session_zero_def)
    have 5: "performs (clone_deliveries_loop (so_deliveries s)) (?c4\<lparr>so_faults := fs\<rparr>) () ?c5" for fs
      by (rule performs_eq, rule performs_clone_deliveries)
         (simp_all add: session_zero_def table_ok_nonzero [OF table] table_ok_distinct [OF table]
           table_ok_unique [OF table])
    have 6: "performs (\<lambda>copy. (Inr (), clone_fields s copy)) (?c5\<lparr>so_faults := fs\<rparr>) () s" for fs
      by (rule performs_eq, rule performs_update)
         (simp_all add: clone_fields_def session_zero_def)
    let ?tail = "\<lambda>subscriptions copy. obind (clone_inflight_loop (so_inflight s)) (\<lambda>_.
        obind (clone_deliveries_loop (so_deliveries s)) (\<lambda>_ copy. (Inr (), clone_fields s copy)))
        (copy\<lparr>so_subscriptions := subscriptions\<rparr>)"
    have "performs (?tail (so_subscriptions s)) (?c2\<lparr>so_faults := fs\<rparr>) () s" for fs
      by (rule performs_after, rule performs_obind [OF 4], rule performs_obind [OF 5], rule 6) simp
    then have "performs (obind (clone_client_id s) (\<lambda>_. obind (clone_will s) (\<lambda>_.
        obind (flowie_session_subscriptions_clone (so_subscriptions s)) ?tail))) ?z () s"
      by (intro performs_obind [OF 1] performs_obind [OF 2] performs_obind [OF 3])
    then show ?thesis
      using created valid
      by (cases rule: performs_cases)
         (auto simp: flowie_session_owner_clone_def session_zero_def)
  qed
qed

theorem clone_is_session_witness:
  "session_reachable rfc3629_next sample_config sample_owner \<and> so_faults sample_owner = [] \<and>
     (\<exists>fs. flowie_session_owner_clone sample_owner = Some (sample_owner\<lparr>so_faults := fs\<rparr>))"
proof -
  have "so_faults sample_owner = []" by (simp add: sample_owner_def session_zero_def)
  then show ?thesis using clone_is_session [OF sample_reachable] sample_reachable by blast
qed

end
