(* ===== verification/Session_Frame.thy ===== *)
theory Session_Frame
  imports Session_System
begin

text \<open>
  Which operations of a session leave its configuration, its connection generation and its inbound
  packets alone: everything about deliveries, subscriptions and the will.
\<close>

definition same_inbound :: "flowie_session_owner \<Rightarrow> flowie_session_owner \<Rightarrow> bool" where
  "same_inbound s s' \<longleftrightarrow> so_config s' = so_config s \<and> so_inflight s' = so_inflight s \<and>
     so_session_generation s' = so_session_generation s"


lemma remove_at_inbound: "flowie_session_delivery_remove_at i s = (r, s') \<Longrightarrow> same_inbound s s'"
  by (auto simp: same_inbound_def flowie_session_delivery_remove_at_def Let_def split: if_splits)

lemma attempt_inbound: "session_attempt s = (r, s') \<Longrightarrow> same_inbound s s'"
  by (auto simp: same_inbound_def dest: session_attempt_frame)

lemma allocs_inbound: "session_allocs n s = (r, s') \<Longrightarrow> same_inbound s s'"
  by (auto simp: same_inbound_def dest: session_allocs_frame)

lemma append_inbound: "flowie_session_delivery_append d s = (r, s') \<Longrightarrow> same_inbound s s'"
  by (auto simp: same_inbound_def flowie_session_delivery_append_def Let_def dest!: attempt_inbound split: if_splits sum.splits prod.splits)

lemma faults_inbound: "same_inbound s (s\<lparr>so_faults := fs\<rparr>)"
  by (simp add: same_inbound_def)

lemma expire_loop_inbound: "expire_loop now i s = (r, s') \<Longrightarrow> same_inbound s s'"
proof (induction now i s rule: expire_loop.induct)
  case (1 now i s)
  then show ?case
    by (subst (asm) (3) expire_loop.simps)
       (auto simp: same_inbound_def dest: remove_at_inbound split: if_splits prod.splits sum.splits)
qed

lemma pending_at_ex_inbound:
  "flowie_session_owner_delivery_pending_at_ex un i now s = (r, s') \<Longrightarrow> same_inbound s s'"
  by (auto simp: same_inbound_def flowie_session_owner_delivery_pending_at_ex_def Let_def delivery_write_def
      split: if_splits option.splits prod.splits sum.splits)

lemma ack_settled_inbound: "ack_settled i s = (r, s') \<Longrightarrow> same_inbound s s'"
  by (auto simp: same_inbound_def ack_settled_def obind_def dest!: remove_at_inbound split: if_splits prod.splits sum.splits)

lemma ack_received_inbound: "ack_received un i d s = (r, s') \<Longrightarrow> same_inbound s s'"
  by (auto simp: same_inbound_def ack_received_def obind_def delivery_write_def dest!: allocs_inbound
      split: if_splits prod.splits sum.splits)

lemma delivery_ops_inbound:
  "same_inbound s (snd (flowie_session_owner_delivery_reserve qos s))"
  "same_inbound s (snd (flowie_session_owner_delivery_commit_state un p packet expiry queued s))"
  "same_inbound s (snd (flowie_session_owner_delivery_cancel p s))"
  "same_inbound s (snd (flowie_session_owner_delivery_expire now s))"
  "same_inbound s (snd (flowie_session_owner_delivery_expire_packet p now s))"
  "same_inbound s (snd (flowie_session_owner_delivery_pending_at_ex un i now s))"
  "same_inbound s (snd (flowie_session_owner_delivery_pending_at un i s))"
  "same_inbound s (snd (flowie_session_owner_delivery_ack un view s))"
proof -
  show "same_inbound s (snd (flowie_session_owner_delivery_reserve qos s))"
    by (rule snd_keeps) (auto simp: same_inbound_def flowie_session_owner_delivery_reserve_def obind_def dest!: append_inbound
        split: if_splits prod.splits sum.splits)
  show "same_inbound s (snd (flowie_session_owner_delivery_commit_state un p packet expiry queued s))"
    by (rule snd_keeps) (auto simp: same_inbound_def flowie_session_owner_delivery_commit_state_def obind_def Let_def delivery_write_def
        dest!: allocs_inbound split: if_splits prod.splits sum.splits)
  show "same_inbound s (snd (flowie_session_owner_delivery_cancel p s))"
    by (rule snd_keeps) (auto simp: same_inbound_def flowie_session_owner_delivery_cancel_def obind_def dest!: remove_at_inbound
        split: prod.splits sum.splits)
  show "same_inbound s (snd (flowie_session_owner_delivery_expire now s))"
    by (rule snd_keeps) (auto simp: same_inbound_def flowie_session_owner_delivery_expire_def obind_def Let_def dest!: expire_loop_inbound
        split: if_splits prod.splits sum.splits)
  show "same_inbound s (snd (flowie_session_owner_delivery_expire_packet p now s))"
    by (rule snd_keeps) (auto simp: same_inbound_def flowie_session_owner_delivery_expire_packet_def obind_def dest!: remove_at_inbound
        split: if_splits prod.splits sum.splits)
  show pending: "same_inbound s (snd (flowie_session_owner_delivery_pending_at_ex un i now s))" for now
    by (rule snd_keeps) (rule pending_at_ex_inbound)
  show "same_inbound s (snd (flowie_session_owner_delivery_pending_at un i s))"
    by (rule snd_keeps) (auto simp: same_inbound_def flowie_session_owner_delivery_pending_at_def obind_def dest!: pending_at_ex_inbound
        split: if_splits prod.splits sum.splits)
  show "same_inbound s (snd (flowie_session_owner_delivery_ack un view s))"
    by (rule snd_keeps) (auto simp: same_inbound_def flowie_session_owner_delivery_ack_def dest!: ack_settled_inbound ack_received_inbound
        split: if_splits sum.splits)
qed

lemma other_ops_inbound:
  assumes "session_invariant s"
  shows "same_inbound s (snd (flowie_session_owner_disconnect un disconnect s))"
    "same_inbound s (snd (flowie_session_owner_will_complete s))"
    "same_inbound s (snd (flowie_session_owner_touch s))"
    "same_inbound s (snd (flowie_session_owner_subscribe un packet subscribe s))"
    "same_inbound s (snd (flowie_session_owner_unsubscribe un packet unsubscribe buffer s))"
proof -
  have ok: "subscriptions_ok (sf_max_subscriptions (so_config s)) (so_subscriptions s)"
    using assms by (simp add: session_invariant_def)
  show "same_inbound s (snd (flowie_session_owner_disconnect un disconnect s))"
    by (auto simp: same_inbound_def flowie_session_owner_disconnect_def Let_def clear_defs split: sum.split option.split)
  show "same_inbound s (snd (flowie_session_owner_will_complete s))"
    by (simp add: same_inbound_def flowie_session_owner_will_complete_def Let_def clear_defs)
  show "same_inbound s (snd (flowie_session_owner_touch s))"
    by (simp add: same_inbound_def flowie_session_owner_touch_def flowie_session_generation_advance_def)
  show "same_inbound s (snd (flowie_session_owner_subscribe un packet subscribe s))"
    by (rule snd_keeps) (erule subscribe_run [OF _ ok]; simp add: same_inbound_def)
  show "same_inbound s (snd (flowie_session_owner_unsubscribe un packet unsubscribe buffer s))"
    by (rule snd_keeps) (erule unsubscribe_run [OF _ ok]; simp add: same_inbound_def)
qed

end
