(* ===== verification/Session_Admission.thy ===== *)
theory Session_Admission
  imports Session_Frame
begin

text \<open>
  Inbound QoS 2 messages: once the owner of a session has promised PUBREC for a packet identifier,
  no later PUBLISH with that identifier reaches the application until PUBREL, through any other
  operations, lost connections and reconnects that resume the session.
\<close>

section \<open>Runs\<close>

definition session_run :: "utf8_next \<Rightarrow> session_command list \<Rightarrow> flowie_session_owner \<Rightarrow> flowie_session_owner" where
  "session_run un = fold (session_exec un)"

text \<open>The commands that may end the memory of an identifier: its PUBREL, and the two ways to
  discard the state of a session.\<close>

fun forgets :: "u16 \<Rightarrow> session_command \<Rightarrow> flowie_session_owner \<Rightarrow> bool" where
  "forgets p (Qos2_release route q) s \<longleftrightarrow> q = p"
| "forgets p (Connect connect) s \<longleftrightarrow> cv_clean_start connect \<noteq> 0"
| "forgets p (Connect_takeover connect) s \<longleftrightarrow> cv_clean_start connect \<noteq> 0"
| "forgets p Close s \<longleftrightarrow> so_session_expiry_interval s = 0"
| "forgets p _ s \<longleftrightarrow> False"

fun remembers :: "utf8_next \<Rightarrow> u16 \<Rightarrow> session_command list \<Rightarrow> flowie_session_owner \<Rightarrow> bool" where
  "remembers un p [] s \<longleftrightarrow> True"
| "remembers un p (c # cs) s \<longleftrightarrow> \<not> forgets p c s \<and> remembers un p cs (session_exec un c s)"

definition received :: "u16 \<Rightarrow> flowie_session_owner \<Rightarrow> bool" where
  "received p s \<longleftrightarrow> keyed_map if_packet_id (so_inflight s) p =
     Some \<lparr>if_packet_id = p, if_qos = 2, if_state = FLOWIE_SESSION_INFLIGHT_QOS2_RELEASE\<rparr>"

lemma received_same: "same_inbound s s' \<Longrightarrow> received p s \<Longrightarrow> received p s'"
  by (simp add: received_def same_inbound_def)

section \<open>Operations on inbound packets\<close>

lemma invariant_inflight:
  assumes "session_invariant s"
  shows "distinct (map if_packet_id (so_inflight s))" "\<And>e. e \<in> set (so_inflight s) \<Longrightarrow> inflight_entry_ok e"
  using assms by (simp_all add: session_invariant_def inflight_ok_def)

lemma inflight_find_map:
  "flowie_session_inflight_find es p = None \<longleftrightarrow> keyed_map if_packet_id es p = None"
  by (simp add: inflight_find_None keyed_map_None)

lemma inflight_find_at:
  assumes "distinct (map if_packet_id es)" "flowie_session_inflight_find es p = Some i"
  shows "i < length es" "if_packet_id (es ! i) = p" "keyed_map if_packet_id es p = Some (es ! i)"
  using inflight_find_Some [OF assms(2)] by (simp_all add: keyed_map_Some [OF assms(1)])

text \<open>Clearing at the end of a connection keeps exactly the packets that wait for PUBREL.\<close>

lemma inflight_clear_mset:
  "\<forall>j < i. if_state (es ! j) = FLOWIE_SESSION_INFLIGHT_QOS2_RELEASE \<Longrightarrow> i \<le> length es \<Longrightarrow>
     mset (inflight_clear_loop True i es) =
       filter_mset (\<lambda>e. if_state e = FLOWIE_SESSION_INFLIGHT_QOS2_RELEASE) (mset es)"
proof (induction True i es rule: inflight_clear_loop.induct)
  case (1 i es)
  consider (finished) "i = length es"
    | (kept) "i < length es" "if_state (es ! i) = FLOWIE_SESSION_INFLIGHT_QOS2_RELEASE"
    | (dropped) "i < length es" "if_state (es ! i) \<noteq> FLOWIE_SESSION_INFLIGHT_QOS2_RELEASE"
    using "1.prems"(2) by fastforce
  then show ?case
  proof cases
    case finished
    then have "filter (\<lambda>e. if_state e = FLOWIE_SESSION_INFLIGHT_QOS2_RELEASE) es = es"
      using "1.prems"(1) by (auto simp: in_set_conv_nth filter_id_conv)
    then show ?thesis
      using finished inflight_clear_loop.simps [of True i es] by (simp flip: mset_filter)
  next
    case kept
    then have "\<forall>j < i + 1. if_state (es ! j) = FLOWIE_SESSION_INFLIGHT_QOS2_RELEASE"
      using "1.prems"(1) less_Suc_eq by auto
    then show ?thesis
      using kept "1.hyps"(1) by (simp add: inflight_clear_loop.simps [of True i])
  next
    case dropped
    have "\<forall>j < i. if_state (swap_remove i es ! j) = FLOWIE_SESSION_INFLIGHT_QOS2_RELEASE"
      using "1.prems"(1) dropped(1) by (simp add: swap_remove_nth)
    moreover have "i \<le> length (swap_remove i es)" using dropped(1) by simp
    ultimately have "mset (inflight_clear_loop True i (swap_remove i es)) =
        filter_mset (\<lambda>e. if_state e = FLOWIE_SESSION_INFLIGHT_QOS2_RELEASE) (mset (swap_remove i es))"
      using dropped "1.hyps"(2) by simp
    then show ?thesis
      using dropped by (simp add: inflight_clear_loop.simps [of True i] mset_swap_remove [OF dropped(1)] filter_diff_mset)
  qed
qed

lemma inflight_clear_set:
  "set (inflight_clear_loop True 0 es) = {e \<in> set es. if_state e = FLOWIE_SESSION_INFLIGHT_QOS2_RELEASE}"
proof -
  have "set_mset (mset (inflight_clear_loop True 0 es)) =
      set_mset (filter_mset (\<lambda>e. if_state e = FLOWIE_SESSION_INFLIGHT_QOS2_RELEASE) (mset es))"
    by (subst inflight_clear_mset) simp_all
  then show ?thesis by simp
qed

lemma close_received:
  assumes "session_invariant s" "received p s" "so_session_expiry_interval s \<noteq> 0"
  shows "received p (snd (flowie_session_owner_close s))"
proof -
  let ?es = "inflight_clear_loop True 0 (so_inflight s)"
  have cases: "so_inflight (snd (flowie_session_owner_close s)) = so_inflight s \<or>
      so_inflight (snd (flowie_session_owner_close s)) = ?es"
    using assms(3)
    by (auto simp: flowie_session_owner_close_def flowie_session_generation_advance_def obind_def Let_def clear_defs)
  have "distinct (map if_packet_id ?es)"
    using inflight_clear_keeps [of "sf_max_inflight (so_config s)" "so_inflight s" True 0] assms(1)
    by (simp add: session_invariant_def inflight_ok_def)
  then have "keyed_map if_packet_id ?es p =
      Some \<lparr>if_packet_id = p, if_qos = 2, if_state = FLOWIE_SESSION_INFLIGHT_QOS2_RELEASE\<rparr>"
    using assms(2) keyed_map_Some [OF invariant_inflight(1) [OF assms(1)]]
    by (simp add: keyed_map_Some received_def inflight_clear_set)
  with cases assms(2) show ?thesis by (auto simp: received_def)
qed

lemma connect_impl_received:
  assumes "received p s" "cv_clean_start connect = 0"
  shows "received p (snd (flowie_session_owner_connect_impl un connect allow_active s))"
proof (rule snd_keeps)
  fix r s'
  assume run: "flowie_session_owner_connect_impl un connect allow_active s = (r, s')"
  obtain r1 s1 where open_run: "flowie_session_owner_open_impl un connect allow_active s = (r1, s1)" by fastforce
  have s': "s' = s1"
    using run open_run by (auto simp: flowie_session_owner_connect_impl_def Let_def split: sum.splits if_splits)
  from open_run have "so_inflight s1 = so_inflight s"
    by (cases rule: open_impl_cases)
       (simp_all add: opened_def Let_def open_will_def clear_defs assms(2))
  then show "received p s'" using assms(1) s' by (simp add: received_def)
qed

lemma publish_begin_received:
  assumes "session_invariant s" "received p s"
  shows "received p (snd (flowie_session_owner_publish_begin publish s))"
proof (rule snd_keeps)
  fix r s'
  assume "flowie_session_owner_publish_begin publish s = (r, s')"
  then show "received p s'"
  proof (cases rule: publish_begin_cases)
    case (admitted message)
    then have "keyed_map if_packet_id (so_inflight s') =
        (keyed_map if_packet_id (so_inflight s))(pu_packet_id publish \<mapsto> inflight_new publish)"
      using keyed_map_append [of if_packet_id "so_inflight s" "inflight_new publish"]
      by (simp add: inflight_new_def keyed_map_None)
    moreover have "pu_packet_id publish \<noteq> p"
      using admitted(5) assms(2) keyed_map_None [of if_packet_id "so_inflight s" p] by (auto simp: received_def)
    ultimately show ?thesis using assms(2) by (simp add: received_def)
  qed (use assms(2) in \<open>simp_all add: received_def\<close>)
qed

lemma publish_settle_cases:
  assumes "flowie_session_owner_publish_settle route request s = (r, s')"
  obtains (unchanged) e where "r = Inl e" "s' = s"
  | (settled) i where "flowie_session_inflight_find (so_inflight s) (ucast (pm_packet_id (sq_message request))) = Some i"
      "if_state (so_inflight s ! i) = FLOWIE_SESSION_INFLIGHT_SETTLEMENT"
      "ucast (if_qos (so_inflight s ! i)) = pm_qos (sq_message request)" "if_qos (so_inflight s ! i) = 1"
      "s' = s\<lparr>so_inflight := swap_remove i (so_inflight s), so_resource_generation := so_resource_generation s + 1\<rparr>"
  | (promised) i where "flowie_session_inflight_find (so_inflight s) (ucast (pm_packet_id (sq_message request))) = Some i"
      "if_state (so_inflight s ! i) = FLOWIE_SESSION_INFLIGHT_SETTLEMENT"
      "ucast (if_qos (so_inflight s ! i)) = pm_qos (sq_message request)" "if_qos (so_inflight s ! i) \<noteq> 1"
      "r = Inr (flowie_session_ack FLOWIE_SESSION_ACK_PUBREC (if_packet_id (so_inflight s ! i)))"
      "s' = s\<lparr>so_inflight := (so_inflight s)[i := (so_inflight s ! i)\<lparr>if_state := FLOWIE_SESSION_INFLIGHT_QOS2_RELEASE\<rparr>],
              so_resource_generation := so_resource_generation s + 1\<rparr>"
proof (cases "\<exists>e. r = Inl e")
  case True
  then have "s' = s"
    using assms
    by (auto simp: flowie_session_owner_publish_settle_def Let_def split: if_splits sum.splits option.splits)
  with True show thesis using unchanged by blast
next
  case False
  let ?find = "flowie_session_inflight_find (so_inflight s) (ucast (pm_packet_id (sq_message request)))"
  from False assms obtain i where found: "?find = Some i"
    by (auto simp: flowie_session_owner_publish_settle_def Let_def split: if_splits sum.splits option.splits)
  let ?e = "so_inflight s ! i"
  have entry: "if_state ?e = FLOWIE_SESSION_INFLIGHT_SETTLEMENT" "ucast (if_qos ?e) = pm_qos (sq_message request)"
    and result: "(r, s') = (if if_qos ?e = 1
        then (Inr (flowie_session_ack FLOWIE_SESSION_ACK_PUBACK (if_packet_id ?e)),
              s\<lparr>so_inflight := swap_remove i (so_inflight s), so_resource_generation := so_resource_generation s + 1\<rparr>)
        else (Inr (flowie_session_ack FLOWIE_SESSION_ACK_PUBREC (if_packet_id ?e)),
              s\<lparr>so_inflight := (so_inflight s)[i := ?e\<lparr>if_state := FLOWIE_SESSION_INFLIGHT_QOS2_RELEASE\<rparr>],
                so_resource_generation := so_resource_generation s + 1\<rparr>))"
    using False assms found
    by (auto simp: flowie_session_owner_publish_settle_def Let_def split: if_splits sum.splits)
  show thesis
  proof (cases "if_qos ?e = 1")
    case True
    from found entry True show thesis by (rule settled) (use result True in simp)
  next
    case False
    from found entry False show thesis by (rule promised) (use result False in simp_all)
  qed
qed

lemma publish_settle_received:
  assumes inv: "session_invariant s" and "received p s"
  shows "received p (snd (flowie_session_owner_publish_settle route request s))"
proof (rule snd_keeps)
  fix r s'
  assume "flowie_session_owner_publish_settle route request s = (r, s')"
  then show "received p s'"
  proof (cases rule: publish_settle_cases)
    case (unchanged e)
    then show ?thesis using assms(2) by simp
  next
    case (settled i)
    note at = inflight_find_at [OF invariant_inflight(1) [OF inv] settled(1)]
    show ?thesis
      using settled(2,5) assms(2) keyed_map_remove [OF invariant_inflight(1) [OF inv] at(1)] at(2,3)
      by (auto simp: received_def)
  next
    case (promised i)
    note at = inflight_find_at [OF invariant_inflight(1) [OF inv] promised(1)]
    show ?thesis
      using promised(2,6) assms(2) keyed_map_write [OF invariant_inflight(1) [OF inv] at(1),
          of "(so_inflight s ! i)\<lparr>if_state := FLOWIE_SESSION_INFLIGHT_QOS2_RELEASE\<rparr>"] at(2,3)
      by (auto simp: received_def)
  qed
qed

lemma qos2_release_received:
  assumes inv: "session_invariant s" and "received p s" "q \<noteq> p"
  shows "received p (snd (flowie_session_owner_qos2_release route q s))"
proof (rule snd_keeps)
  fix r s'
  assume run: "flowie_session_owner_qos2_release route q s = (r, s')"
  show "received p s'"
  proof (cases "s' = s")
    case False
    then obtain i where found: "flowie_session_inflight_find (so_inflight s) q = Some i"
      and s': "s' = s\<lparr>so_inflight := swap_remove i (so_inflight s), so_resource_generation := so_resource_generation s + 1\<rparr>"
      using run by (auto simp: flowie_session_owner_qos2_release_def Let_def split: if_splits sum.splits option.splits)
    note at = inflight_find_at [OF invariant_inflight(1) [OF inv] found]
    show ?thesis
      using s' assms(2,3) keyed_map_remove [OF invariant_inflight(1) [OF inv] at(1)] at(2)
      by (simp add: received_def)
  qed (use assms(2) in simp)
qed

section \<open>Exactly once\<close>

lemma session_exec_received:
  assumes "session_invariant s" "received p s" "\<not> forgets p command s"
  shows "received p (session_exec un command s)"
  using assms(3)
  by (cases command)
     (simp_all add: received_same [OF _ assms(2)] faults_inbound delivery_ops_inbound other_ops_inbound [OF assms(1)]
       close_received [OF assms(1,2)] connect_impl_received [OF assms(2)] publish_begin_received [OF assms(1,2)]
       publish_settle_received [OF assms(1,2)] qos2_release_received [OF assms(1,2)]
       flowie_session_owner_connect_def flowie_session_owner_connect_takeover_def
       flowie_session_owner_delivery_commit_def flowie_session_owner_delivery_commit_queued_def)

lemma session_run_received:
  "session_invariant s \<Longrightarrow> received p s \<Longrightarrow> remembers un p commands s \<Longrightarrow>
     session_invariant (session_run un commands s) \<and> received p (session_run un commands s)"
proof (induction commands arbitrary: s)
  case (Cons c cs)
  then have "session_invariant (session_exec un c s)" "received p (session_exec un c s)"
    by (simp_all add: session_exec_keeps session_exec_received)
  with Cons show ?case by (simp add: session_run_def)
qed (simp add: session_run_def)

lemma publish_begin_of_received:
  assumes inv: "session_invariant s" and "received p s" "pu_packet_id publish = p" "pu_qos publish \<noteq> 0"
    and run: "flowie_session_owner_publish_begin publish s = (Inr result, s')"
  shows "\<not> bg_admit_application result \<and> bg_has_ack result \<and>
    bg_ack result = flowie_session_ack FLOWIE_SESSION_ACK_PUBREC p \<and> s' = s"
proof (cases "flowie_session_inflight_find (so_inflight s) p")
  case None
  then show ?thesis using assms(2) by (simp add: inflight_find_map received_def)
next
  case (Some i)
  have "so_inflight s ! i = \<lparr>if_packet_id = p, if_qos = 2, if_state = FLOWIE_SESSION_INFLIGHT_QOS2_RELEASE\<rparr>"
    using inflight_find_at [OF invariant_inflight(1) [OF inv] Some] assms(2) by (simp add: received_def)
  then show ?thesis
    using run assms(3,4) Some
    by (auto simp: flowie_session_owner_publish_begin_def Let_def split: if_splits sum.splits)
qed

lemma publish_settle_promise:
  assumes inv: "session_invariant s" and run: "flowie_session_owner_publish_settle route request s = (Inr ack, s')"
    and "pm_qos (sq_message request) = 2" "ucast (pm_packet_id (sq_message request)) = p"
  shows "received p s' \<and> ack = flowie_session_ack FLOWIE_SESSION_ACK_PUBREC p"
  using run
proof (cases rule: publish_settle_cases)
  case (settled i)
  then show ?thesis using assms(3) by simp
next
  case (promised i)
  note at = inflight_find_at [OF invariant_inflight(1) [OF inv] promised(1)]
  have "if_qos (so_inflight s ! i) = 2"
    using invariant_inflight(2) [OF inv nth_mem [OF at(1)]] promised(4) by (auto simp: inflight_entry_ok_def)
  then have e: "(so_inflight s ! i)\<lparr>if_state := FLOWIE_SESSION_INFLIGHT_QOS2_RELEASE\<rparr> =
      \<lparr>if_packet_id = p, if_qos = 2, if_state = FLOWIE_SESSION_INFLIGHT_QOS2_RELEASE\<rparr>"
    using at(2) assms(4) by (cases "so_inflight s ! i") simp
  show ?thesis
    using keyed_map_write [OF invariant_inflight(1) [OF inv] at(1), of "(so_inflight s ! i)\<lparr>if_state := FLOWIE_SESSION_INFLIGHT_QOS2_RELEASE\<rparr>"]
      promised(5,6) at(2) assms(4) e by (simp add: received_def)
qed simp

text \<open>C30: QoS 2 messages reach the application exactly once. After the settlement that promises
  PUBREC for an identifier, and whatever operations, lost connections and resumed sessions follow,
  a PUBLISH with that identifier is not admitted again but answered by PUBREC, until the
  identifier is released by PUBREL or the state of the session is discarded.\<close>

theorem inbound_exactly_once:
  assumes "session_reachable un config s"
    and "flowie_session_owner_publish_settle route request s = (Inr ack, s1)"
    and "pm_qos (sq_message request) = 2" "ucast (pm_packet_id (sq_message request)) = p"
    and "remembers un p commands s1"
    and "pu_packet_id publish = p" "pu_qos publish \<noteq> 0"
    and "flowie_session_owner_publish_begin publish (session_run un commands s1) = (Inr result, s2)"
  shows "ack = flowie_session_ack FLOWIE_SESSION_ACK_PUBREC p \<and> \<not> bg_admit_application result \<and> bg_has_ack result \<and>
    bg_ack result = flowie_session_ack FLOWIE_SESSION_ACK_PUBREC p \<and> s2 = session_run un commands s1"
proof -
  have inv: "session_invariant s" by (rule reachable_invariant [OF assms(1)])
  have promise: "received p s1" "ack = flowie_session_ack FLOWIE_SESSION_ACK_PUBREC p"
    using publish_settle_promise [OF inv assms(2,3,4)] by simp_all
  have "session_invariant s1" by (rule publish_settle_keeps [OF assms(2) inv])
  from session_run_received [OF this promise(1) assms(5)]
  have "session_invariant (session_run un commands s1)" "received p (session_run un commands s1)" by simp_all
  from publish_begin_of_received [OF this assms(6,7,8)] promise(2) show ?thesis by simp
qed

definition sample_publish :: flowie_mqtt_publish_view where
  "sample_publish = \<lparr>pu_qos = 2, pu_retain = 0, pu_duplicate = 1, pu_packet_id = 7, pu_topic = Span [0x61],
     pu_properties = \<lparr>pb_encoded = NullSpan 0, pb_values = NullSpan 0\<rparr>, pu_payload = Span []\<rparr>"

definition sample_request :: flowie_protocol_settlement_request where
  "sample_request = \<lparr>sq_message = \<lparr>pm_protocol = 1, pm_protocol_version = 4, pm_kind = 1, pm_qos = 2, pm_packet_id = 7,
     pm_session_generation = 1, pm_duplicate = 0, pm_retain = 0\<rparr>, sq_point = 2, sq_status = Inr (), sq_message_id = 1,
     sq_attempt = 1\<rparr>"

definition sample_route :: flowie_protocol_route where
  "sample_route = \<lparr>rt_protocol = 1, rt_owner_instance_id = 1, rt_session_id = 2, rt_session_generation = 1\<rparr>"

text \<open>The sample session admits a message, settles it, loses its connection and resumes.\<close>

definition sample_admitted :: flowie_session_owner where
  "sample_admitted = session_exec rfc3629_next (Publish_begin (sample_publish\<lparr>pu_duplicate := 0\<rparr>)) sample_owner"

lemma sample_admitted: "sample_admitted = sample_owner\<lparr>so_inflight :=
    [\<lparr>if_packet_id = 7, if_qos = 2, if_state = FLOWIE_SESSION_INFLIGHT_SETTLEMENT\<rparr>], so_resource_generation := 3\<rparr>"
  by (simp add: sample_admitted_def sample_owner_def session_zero_def sample_config_def sample_publish_def
      flowie_session_owner_publish_begin_def flowie_publish_message_map_def flowie_protocol_message_validate_def
      flowie_mqtt_version_is_supported_def Let_def obind_def session_attempt_def)

definition sample_promised :: flowie_session_owner where
  "sample_promised = sample_owner\<lparr>so_inflight :=
     [\<lparr>if_packet_id = 7, if_qos = 2, if_state = FLOWIE_SESSION_INFLIGHT_QOS2_RELEASE\<rparr>], so_resource_generation := 4\<rparr>"

lemma sample_settled:
  "flowie_session_owner_publish_settle sample_route sample_request sample_admitted =
     (Inr (flowie_session_ack FLOWIE_SESSION_ACK_PUBREC 7), sample_promised)"
  by (simp add: sample_admitted sample_promised_def flowie_session_owner_publish_settle_def flowie_session_route_check_def
      settlement_request_ok_def sample_route_def sample_request_def sample_owner_def session_zero_def sample_config_def
      flowie_protocol_message_validate_def is_ok_def Let_def flowie_session_required_settlement_def)

lemma sample_resumed:
  "session_run rfc3629_next [Close, Connect sample_connect] sample_promised =
     sample_promised\<lparr>so_session_generation := 2, so_resource_generation := 6\<rparr>"
proof -
  have clear: "inflight_clear_loop True 0
      [\<lparr>if_packet_id = 7, if_qos = 2, if_state = FLOWIE_SESSION_INFLIGHT_QOS2_RELEASE\<rparr>] =
      [\<lparr>if_packet_id = 7, if_qos = 2, if_state = FLOWIE_SESSION_INFLIGHT_QOS2_RELEASE\<rparr>]"
    by (simp add: inflight_clear_loop.simps)
  have close: "flowie_session_owner_close sample_promised =
      (Inr (), sample_promised\<lparr>so_resource_generation := 5, so_active := False\<rparr>)"
    by (simp add: flowie_session_owner_close_def flowie_session_generation_advance_def obind_def Let_def clear_defs
        sample_promised_def sample_owner_def session_zero_def clear)
  have "flowie_session_owner_open_impl rfc3629_next sample_connect False
      (sample_promised\<lparr>so_resource_generation := 5, so_active := False\<rparr>) =
      (Inr (), sample_promised\<lparr>so_session_generation := 2, so_resource_generation := 6\<rparr>)"
    using sample_client_id
    by (simp add: flowie_session_owner_open_impl_def open_checks_def sample_connect_def session_zero_def sample_owner_def
        sample_promised_def flowie_mqtt_version_is_supported_def flowie_session_expiry_def flowie_mqtt_version_is_3x_def
        Let_def session_allocs_no_faults obind_def open_will_def flowie_session_will_clear_def)
  then show ?thesis
    by (simp add: session_run_def close flowie_session_owner_connect_def flowie_session_owner_connect_impl_def Let_def
        split: sum.split)
qed

theorem inbound_exactly_once_witness:
  "\<exists>result. flowie_session_owner_publish_begin sample_publish
      (session_run rfc3629_next [Close, Connect sample_connect] sample_promised) =
      (Inr result, session_run rfc3629_next [Close, Connect sample_connect] sample_promised) \<and>
    \<not> bg_admit_application result \<and> bg_ack result = flowie_session_ack FLOWIE_SESSION_ACK_PUBREC 7"
proof -
  let ?s = "session_run rfc3629_next [Close, Connect sample_connect] sample_promised"
  have reachable: "session_reachable rfc3629_next sample_config sample_admitted"
    unfolding sample_admitted_def by (rule session_reachable.exec [OF sample_reachable])
  obtain result s2 where begin_run: "flowie_session_owner_publish_begin sample_publish ?s = (Inr result, s2)"
    unfolding sample_resumed
    by (simp add: sample_promised_def sample_owner_def session_zero_def sample_config_def sample_publish_def
        flowie_session_owner_publish_begin_def flowie_publish_message_map_def flowie_protocol_message_validate_def
        flowie_mqtt_version_is_supported_def Let_def)
  have "remembers rfc3629_next 7 [Close, Connect sample_connect] sample_promised"
    by (simp add: sample_promised_def sample_owner_def sample_connect_def)
  from inbound_exactly_once [OF reachable sample_settled _ _ this _ _ begin_run] show ?thesis
    using begin_run by (auto simp: sample_request_def sample_publish_def)
qed

end
