(* ===== verification/Session_Contract.thy ===== *)
theory Session_Contract
  imports Session_Admission
begin

text \<open>
  What a client and the rest of the broker may rely on at the interface of a session owner:
  the result of SUBSCRIBE and UNSUBSCRIBE, the session that a CONNECT resumes or starts, and the
  rejection of results that belong to an earlier connection.
\<close>

section \<open>Subscriptions\<close>

text \<open>C33: SUBSCRIBE is all or nothing. When it fails the session is as before, apart from the
  allocations used. When it succeeds, the map of subscriptions is the old one with every entry of
  the packet applied in order, an entry for a known filter replacing its options, and the generation
  of the session advances exactly when the result reports a change.\<close>

theorem subscribe_refines_map:
  assumes "session_reachable un config s"
    and "flowie_session_owner_subscribe un packet subscribe s = (r, s')"
  shows "case r of
      Inl e \<Rightarrow> s' = s\<lparr>so_faults := so_faults s'\<rparr>
    | Inr result \<Rightarrow> \<exists>sid it entries. subscribe_identifier un packet subscribe = Inr sid \<and>
        flowie_mqtt_subscription_iterator_init packet subscribe = Inr it \<and>
        iterates (flowie_mqtt_subscription_iterator_next un) it entries \<and>
        sr_packet_id result = sb_packet_id subscribe \<and> sr_accepted_count result = length entries \<and>
        subscription_map (so_subscriptions s') = subscribed sid entries (subscription_map (so_subscriptions s)) \<and>
        (\<not> sr_changed result \<longrightarrow> so_subscriptions s' = so_subscriptions s) \<and>
        s' = s\<lparr>so_faults := so_faults s', so_subscriptions := so_subscriptions s',
               so_resource_generation := so_resource_generation s + (if sr_changed result then 1 else 0)\<rparr>"
proof -
  have ok: "subscriptions_ok (sf_max_subscriptions (so_config s)) (so_subscriptions s)"
    using reachable_invariant [OF assms(1)] by (simp add: session_invariant_def)
  from assms(2) ok show ?thesis
  proof (cases rule: subscribe_run)
    case (refused e fs)
    then show ?thesis by simp
  next
    case (accepted sid it entries ss changed fs)
    then show ?thesis by (auto intro!: exI [of _ sid] exI [of _ it] exI [of _ entries])
  qed
qed

text \<open>C34: UNSUBSCRIBE is all or nothing. When it succeeds, exactly the filters of the packet are gone
  and every other subscription is untouched; a version 5 session reports for each filter in order
  0x00 if it was subscribed and 0x11 if not.\<close>

theorem unsubscribe_refines_map:
  assumes "session_reachable un config s"
    and "flowie_session_owner_unsubscribe un packet unsubscribe buffer s = (r, s')"
  shows "case r of
      Inl e \<Rightarrow> s' = s\<lparr>so_faults := so_faults s'\<rparr>
    | Inr result \<Rightarrow> \<exists>it filters codes. flowie_mqtt_topic_filter_iterator_init unsubscribe = Inr it \<and>
        iterates (flowie_mqtt_topic_filter_iterator_next un) it filters \<and>
        ur_packet_id result = us_packet_id unsubscribe \<and> ur_filter_count result = length filters \<and>
        unsubscribed (map span_bytes filters) (subscription_map (so_subscriptions s)) =
          (subscription_map (so_subscriptions s'), codes) \<and>
        subscription_map (so_subscriptions s') =
          (\<lambda>f. if f \<in> span_bytes ` set filters then None else subscription_map (so_subscriptions s) f) \<and>
        ur_removed_count result = length (filter (\<lambda>c. c = 0x00) codes) \<and>
        ur_reason_codes result = (if pv_version packet = FLOWIE_MQTT_VERSION_5 then Span codes else NullSpan 0) \<and>
        s' = s\<lparr>so_faults := so_faults s', so_subscriptions := so_subscriptions s',
               so_resource_generation := so_resource_generation s + (if ur_removed_count result \<noteq> 0 then 1 else 0)\<rparr>"
proof -
  have ok: "subscriptions_ok (sf_max_subscriptions (so_config s)) (so_subscriptions s)"
    using reachable_invariant [OF assms(1)] by (simp add: session_invariant_def)
  from assms(2) ok show ?thesis
  proof (cases rule: unsubscribe_run)
    case (refused e fs)
    then show ?thesis by simp
  next
    case (accepted it filters codes ss k fs)
    have "subscription_map ss =
        (\<lambda>f. if f \<in> span_bytes ` set filters then None else subscription_map (so_subscriptions s) f)"
      using accepted(6) unsubscribed_map [of "map span_bytes filters" "subscription_map (so_subscriptions s)"] by simp
    then show ?thesis
      using accepted by (auto intro!: exI [of _ it] exI [of _ filters] exI [of _ codes])
  qed
qed

section \<open>Connections\<close>

lemma opened_fields:
  "so_session_generation (opened connect expiry will_delay s) = so_session_generation s + 1"
  "so_config (opened connect expiry will_delay s) = so_config s"
  "so_active (opened connect expiry will_delay s)"
  "cv_clean_start connect = 0 \<Longrightarrow> so_subscriptions (opened connect expiry will_delay s) = so_subscriptions s"
  "cv_clean_start connect = 0 \<Longrightarrow> so_inflight (opened connect expiry will_delay s) = so_inflight s"
  "cv_clean_start connect = 0 \<Longrightarrow> so_deliveries (opened connect expiry will_delay s) = so_deliveries s"
  "cv_clean_start connect \<noteq> 0 \<Longrightarrow> so_subscriptions (opened connect expiry will_delay s) = []"
  "cv_clean_start connect \<noteq> 0 \<Longrightarrow> so_inflight (opened connect expiry will_delay s) = []"
  "cv_clean_start connect \<noteq> 0 \<Longrightarrow> so_deliveries (opened connect expiry will_delay s) = []"
  by (simp_all add: opened_def Let_def open_will_def clear_defs inflight_clear_all)

lemma connect_impl_cases:
  assumes "flowie_session_owner_connect_impl un connect allow_active s = (r, s')"
  obtains (refused) fs where "s' = s\<lparr>so_faults := fs\<rparr>" "\<And>result. r = Inr result \<Longrightarrow> \<not> cr_accepted result"
  | (connected) expiry will_delay fs where "open_checks un connect allow_active s = Inr expiry"
      "s' = opened connect expiry will_delay (s\<lparr>so_faults := fs\<rparr>)"
      "\<And>route. flowie_session_owner_route s' = Inr route \<Longrightarrow>
         \<exists>result. r = Inr result \<and> cr_accepted result \<and> cr_route result = Some route \<and>
           (cr_session_present result \<longleftrightarrow> so_initialized s \<and> cv_clean_start connect = 0)"
proof -
  obtain r1 s1 where open_run: "flowie_session_owner_open_impl un connect allow_active s = (r1, s1)" by fastforce
  have s': "s' = s1"
    using assms open_run by (auto simp: flowie_session_owner_connect_impl_def Let_def split: sum.splits if_splits)
  from open_run show thesis
  proof (cases rule: open_impl_cases)
    case (refused e fs)
    have same: "s' = s\<lparr>so_faults := fs\<rparr>" using refused(2) s' by simp
    have denied: "\<not> cr_accepted result" if "r = Inr result" for result
      using assms open_run refused(1) that
      by (auto simp: flowie_session_owner_connect_impl_def Let_def split: if_splits)
    show thesis by (rule that(1) [OF same denied])
  next
    case (opened expiry will_delay fs)
    have new: "s' = opened connect expiry will_delay (s\<lparr>so_faults := fs\<rparr>)" using opened(3) s' by simp
    have accepted: "\<exists>result. r = Inr result \<and> cr_accepted result \<and> cr_route result = Some route \<and>
           (cr_session_present result \<longleftrightarrow> so_initialized s \<and> cv_clean_start connect = 0)"
      if "flowie_session_owner_route s' = Inr route" for route
    proof -
      let ?present = "so_initialized s \<and> cv_clean_start connect = 0"
      have "r = Inr \<lparr>cr_accepted = True, cr_close_after_reply = False, cr_session_present = ?present, cr_route = Some route,
          cr_reply_session_present = (if cv_version connect = FLOWIE_MQTT_VERSION_3_1 then 0 else if ?present then 1 else 0),
          cr_reply_reason_code = 0\<rparr>"
        using assms [unfolded flowie_session_owner_connect_impl_def open_run opened(1)] that s' by (simp add: Let_def)
      then show ?thesis by simp
    qed
    show thesis by (rule that(2) [OF opened(2) new accepted])
  qed
qed

lemma route_of_active:
  "session_invariant s \<Longrightarrow> so_active s \<Longrightarrow> flowie_session_owner_route s =
     Inr \<lparr>rt_protocol = FLOWIE_PROTOCOL_MQTT, rt_owner_instance_id = sf_owner_instance_id (so_config s),
          rt_session_id = sf_session_id (so_config s), rt_session_generation = so_session_generation s\<rparr>"
  by (simp add: flowie_session_owner_route_def session_invariant_def)

text \<open>C35: an accepted CONNECT or takeover starts a new connection with its own generation and a route
  that names it. It reports a present session exactly when the owner was initialized and no clean
  start was asked for, and then subscriptions, deliveries and inbound packets are those of the
  session before; after a clean start there are none. A refused CONNECT changes nothing but
  the allocations used.\<close>

theorem connect_resumes_session:
  assumes "session_reachable un config s"
    and "flowie_session_owner_connect_impl un connect allow_active s = (r, s')"
  shows "case r of
      Inl e \<Rightarrow> s' = s\<lparr>so_faults := so_faults s'\<rparr>
    | Inr result \<Rightarrow>
        if cr_accepted result
        then so_active s' \<and> so_session_generation s' = so_session_generation s + 1 \<and> so_session_generation s' \<noteq> 0 \<and>
          (so_active s \<longrightarrow> allow_active) \<and>
          (\<exists>route. cr_route result = Some route \<and> flowie_session_owner_route s' = Inr route \<and>
             rt_session_generation route = so_session_generation s') \<and>
          (cr_session_present result \<longleftrightarrow> so_initialized s \<and> cv_clean_start connect = 0) \<and>
          (if cv_clean_start connect = 0
           then so_subscriptions s' = so_subscriptions s \<and> so_deliveries s' = so_deliveries s \<and>
                so_inflight s' = so_inflight s
           else so_subscriptions s' = [] \<and> so_deliveries s' = [] \<and> so_inflight s' = [])
        else s' = s\<lparr>so_faults := so_faults s'\<rparr>"
  using assms(2)
proof (cases rule: connect_impl_cases)
  case (refused fs)
  then show ?thesis by (simp split: sum.split)
next
  case (connected expiry will_delay fs)
  have inv: "session_invariant s" by (rule reachable_invariant [OF assms(1)])
  have "session_invariant s'" by (rule connect_impl_keeps [OF assms(2) inv])
  moreover have active: "so_active s'" by (simp add: connected(2) opened_fields)
  ultimately obtain route where route: "flowie_session_owner_route s' = Inr route"
    "rt_session_generation route = so_session_generation s'"
    by (simp add: route_of_active)
  from connected(3) [OF route(1)] obtain result where result: "r = Inr result" "cr_accepted result"
    "cr_route result = Some route" "cr_session_present result \<longleftrightarrow> so_initialized s \<and> cv_clean_start connect = 0"
    by blast
  note facts = open_checks_facts [OF connected(1)]
  show ?thesis
    using result route active facts(2,4) by (simp add: connected(2) opened_fields)
qed

section \<open>Results of an earlier connection\<close>

definition not_before :: "flowie_session_owner \<Rightarrow> flowie_session_owner \<Rightarrow> bool" where
  "not_before s s' \<longleftrightarrow> so_config s' = so_config s \<and> unat (so_session_generation s) \<le> unat (so_session_generation s')"

lemma same_inbound_not_before: "same_inbound s s' \<Longrightarrow> not_before s s'"
  by (simp add: same_inbound_def not_before_def)

lemma next_generation: "x + 1 \<noteq> (0::u64) \<Longrightarrow> unat (x + 1) = unat x + 1"
  by (metis Suc_eq_plus1 unatSuc add.commute)

lemma connect_impl_not_before:
  "flowie_session_owner_connect_impl un connect allow_active s = (r, s') \<Longrightarrow> not_before s s'"
proof (erule connect_impl_cases)
  fix expiry will_delay fs
  assume "open_checks un connect allow_active s = Inr expiry"
    "s' = opened connect expiry will_delay (s\<lparr>so_faults := fs\<rparr>)"
  then show "not_before s s'"
    using next_generation [OF open_checks_facts(2)] by (simp add: not_before_def opened_fields)
qed (simp add: not_before_def)

lemma session_exec_not_before:
  assumes inv: "session_invariant s"
  shows "not_before s (session_exec un command s)"
proof -
  have close: "not_before s (snd (flowie_session_owner_close s))"
    by (auto simp: not_before_def flowie_session_owner_close_def flowie_session_generation_advance_def obind_def Let_def clear_defs)
  have begin_run: "not_before s (snd (flowie_session_owner_publish_begin publish s))" for publish
    by (rule snd_keeps) (erule publish_begin_cases; simp add: not_before_def)
  have settle: "not_before s (snd (flowie_session_owner_publish_settle route request s))" for route request
    by (rule snd_keeps) (erule publish_settle_cases; simp add: not_before_def)
  have release: "not_before s (snd (flowie_session_owner_qos2_release route q s))" for route q
    by (simp add: not_before_def flowie_session_owner_qos2_release_def Let_def split: sum.split option.split)
  show ?thesis
    by (cases command)
       (simp_all add: same_inbound_not_before faults_inbound delivery_ops_inbound other_ops_inbound [OF inv]
         close begin_run settle release connect_impl_not_before [OF surjective_pairing]
         flowie_session_owner_connect_def flowie_session_owner_connect_takeover_def
         flowie_session_owner_delivery_commit_def flowie_session_owner_delivery_commit_queued_def)
qed

lemma session_run_not_before:
  "session_invariant s \<Longrightarrow> session_invariant (session_run un commands s) \<and> not_before s (session_run un commands s)"
proof (induction commands arbitrary: s)
  case (Cons c cs)
  from Cons.IH [OF session_exec_keeps [OF Cons.prems], of un c] session_exec_not_before [OF Cons.prems, of un c]
  show ?case by (auto simp: session_run_def not_before_def)
qed (simp add: session_run_def not_before_def)

text \<open>C36: a result that carries the route of an earlier connection never touches the session of a later
  one. After a CONNECT or takeover that was accepted, and any operations before and after it, a
  settlement or a PUBREL routed to the earlier connection is refused as busy and changes nothing.\<close>

theorem stale_route_rejected:
  assumes "session_reachable un config s" "flowie_session_owner_route s = Inr old"
    and "flowie_session_owner_connect_impl un connect allow_active (session_run un before s) = (Inr result, s1)"
    and "cr_accepted result"
  shows "flowie_session_owner_publish_settle old request (session_run un after s1) =
      (Inl SALTS_EBUSY, session_run un after s1) \<and>
    (q \<noteq> 0 \<longrightarrow> flowie_session_owner_qos2_release old q (session_run un after s1) =
      (Inl SALTS_EBUSY, session_run un after s1))"
proof -
  let ?b = "session_run un before s"
  have inv: "session_invariant ?b" "not_before s ?b"
    using session_run_not_before [OF reachable_invariant [OF assms(1)], of un before] by simp_all
  have gap: "unat (so_session_generation s1) = unat (so_session_generation ?b) + 1"
    using assms(3)
  proof (cases rule: connect_impl_cases)
    case (refused fs)
    then show ?thesis using assms(4) by simp
  next
    case (connected expiry will_delay fs)
    then show ?thesis
      using next_generation [OF open_checks_facts(2) [OF connected(1)]] by (simp add: opened_fields)
  qed
  have "session_invariant s1" by (rule connect_impl_keeps [OF assms(3) inv(1)])
  then have "not_before s1 (session_run un after s1)" using session_run_not_before by blast
  then have "so_session_generation (session_run un after s1) \<noteq> so_session_generation s"
    using inv(2) gap by (auto simp: not_before_def)
  moreover have "rt_protocol old = FLOWIE_PROTOCOL_MQTT" "rt_session_generation old = so_session_generation s"
    using assms(2) by (auto simp: flowie_session_owner_route_def split: if_splits)
  ultimately have "flowie_session_route_check (session_run un after s1) old = Inl SALTS_EBUSY"
    by (simp add: flowie_session_route_check_def)
  then show ?thesis
    by (simp add: flowie_session_owner_publish_settle_def flowie_session_owner_qos2_release_def)
qed

section \<open>Sample runs\<close>

lemma sample_takeover:
  "\<exists>result s1. flowie_session_owner_connect_impl rfc3629_next sample_connect True sample_owner = (Inr result, s1) \<and>
     cr_accepted result \<and> cr_session_present result"
proof -
  have "flowie_session_owner_open_impl rfc3629_next sample_connect True sample_owner =
      (Inr (), sample_owner\<lparr>so_session_generation := 2, so_resource_generation := 3\<rparr>)"
    using sample_client_id
    by (simp add: flowie_session_owner_open_impl_def open_checks_def sample_connect_def session_zero_def sample_owner_def
        flowie_mqtt_version_is_supported_def flowie_session_expiry_def flowie_mqtt_version_is_3x_def
        Let_def session_allocs_no_faults obind_def open_will_def flowie_session_will_clear_def)
  then show ?thesis
    by (simp add: flowie_session_owner_connect_impl_def Let_def flowie_session_owner_route_def sample_owner_def
        sample_connect_def)
qed

theorem stale_route_rejected_witness:
  "\<exists>result s1. flowie_session_owner_connect_impl rfc3629_next sample_connect True sample_owner = (Inr result, s1) \<and>
     flowie_session_owner_qos2_release sample_route 7 s1 = (Inl SALTS_EBUSY, s1)"
proof -
  obtain result s1 where run: "flowie_session_owner_connect_impl rfc3629_next sample_connect True sample_owner = (Inr result, s1)"
    "cr_accepted result" using sample_takeover by blast
  have "flowie_session_owner_route sample_owner = Inr sample_route"
    by (simp add: flowie_session_owner_route_def sample_owner_def sample_route_def session_zero_def sample_config_def)
  from stale_route_rejected [OF sample_reachable this, of sample_connect True "[]" result s1 _ "[]" 7] run
  show ?thesis by (auto simp: session_run_def)
qed

theorem connect_resumes_session_witness:
  "\<exists>result s1. flowie_session_owner_connect_impl rfc3629_next sample_connect True sample_owner = (Inr result, s1) \<and>
     cr_accepted result \<and> cr_session_present result \<and> so_session_generation s1 = 2 \<and> so_inflight s1 = so_inflight sample_owner"
proof -
  obtain result s1 where run: "flowie_session_owner_connect_impl rfc3629_next sample_connect True sample_owner = (Inr result, s1)"
    "cr_accepted result" "cr_session_present result" using sample_takeover by blast
  have "so_session_generation sample_owner = 1" by (simp add: sample_owner_def)
  then show ?thesis
    using connect_resumes_session [OF sample_reachable run(1)] run by (auto split: if_splits)
qed

definition sample_subscribe_packet :: flowie_mqtt_packet_view where
  "sample_subscribe_packet = \<lparr>pv_version = 4, pv_type = FLOWIE_MQTT_PACKET_SUBSCRIBE, pv_flags = 2, pv_remaining_length = 6,
     pv_fixed_header_size = 2, pv_packet = Span [0x82, 6, 0, 9, 0, 1, 0x61, 1], pv_body = Span [0, 9, 0, 1, 0x61, 1]\<rparr>"

definition sample_subscribe :: flowie_mqtt_subscribe_view where
  "sample_subscribe = \<lparr>sb_packet_id = 9, sb_properties = \<lparr>pb_encoded = NullSpan 0, pb_values = NullSpan 0\<rparr>,
     sb_entries = Span [0, 1, 0x61, 1], sb_entry_count = 1\<rparr>"

definition sample_entry :: flowie_mqtt_subscription_view where
  "sample_entry = \<lparr>sv_filter = Span [0x61], sv_qos = 1, sv_no_local = 0, sv_retain_as_published = 0, sv_retain_handling = 0\<rparr>"

lemma sample_entries:
  "flowie_mqtt_subscription_iterator_next rfc3629_next (4, Some [0, 1, 0x61, 1]) = Inr (sample_entry, (4, Some []))"
  "flowie_mqtt_subscription_iterator_next rfc3629_next (4, Some []) = Inl FLOWIE_MQTT_PARSE_NEED_MORE"
proof -
  have "subscription_write sample_entry = [0, 1, 0x61, 1]"
    by (simp add: subscription_write_def subscription_options_def sample_entry_def flowie_mqtt_length_span_write_def
        write_u16_def)
  moreover have "subscription_ok rfc3629_next 4 sample_entry"
    using sample_topic_ok
    by (simp add: subscription_ok_def flowie_mqtt_length_span_input_validate_def flowie_mqtt_span_input_valid_def
        subscription_entry_ok_def sample_entry_def)
  ultimately show "flowie_mqtt_subscription_iterator_next rfc3629_next (4, Some [0, 1, 0x61, 1]) =
      Inr (sample_entry, (4, Some []))"
    using subscriptions.next_wire [of rfc3629_next 4 sample_entry "[]"] by simp
qed (simp add: flowie_mqtt_subscription_iterator_next_def)

lemma sample_subscribed:
  "flowie_session_owner_subscribe rfc3629_next sample_subscribe_packet sample_subscribe sample_owner =
     (Inr \<lparr>sr_packet_id = 9, sr_accepted_count = 1, sr_changed = True\<rparr>,
      sample_owner\<lparr>so_subscriptions := [subscription_entry sample_entry 0], so_resource_generation := 3\<rparr>)"
proof -
  have loop: "subscribe_loop rfc3629_next 0 (4, Some [0, 1, 0x61, 1]) [] False 0 sample_owner =
      (Inr ([subscription_entry sample_entry 0], True, 1, FLOWIE_MQTT_PARSE_NEED_MORE), sample_owner)"
    by (simp add: subscribe_loop.simps sample_entries flowie_session_subscription_apply_def Let_def obind_def
        session_allocs_no_faults session_attempt_no_faults sample_owner_def session_zero_def sample_config_def)
  have "flowie_session_subscriptions_clone [] sample_owner = (Inr [], sample_owner)"
    by (simp add: flowie_session_subscriptions_clone_def obind_def session_attempt_no_faults sample_owner_def session_zero_def)
  with loop show ?thesis
    by (simp add: flowie_session_owner_subscribe_def sample_subscribe_packet_def sample_subscribe_def
        flowie_mqtt_subscription_iterator_init_def flowie_mqtt_version_is_supported_def subscribe_identifier_def obind_def
        flowie_session_generation_advance_def sample_owner_def session_zero_def)
qed

theorem subscribe_refines_map_witness:
  "\<exists>s'. flowie_session_owner_subscribe rfc3629_next sample_subscribe_packet sample_subscribe sample_owner =
      (Inr \<lparr>sr_packet_id = 9, sr_accepted_count = 1, sr_changed = True\<rparr>, s') \<and>
    (\<exists>entries. length entries = 1 \<and> subscription_map (so_subscriptions s') = subscribed 0 entries Map.empty)"
proof -
  have "so_subscriptions sample_owner = []" "subscribe_identifier rfc3629_next sample_subscribe_packet sample_subscribe = Inr 0"
    by (simp_all add: sample_owner_def session_zero_def subscribe_identifier_def sample_subscribe_packet_def)
  then show ?thesis
    using subscribe_refines_map [OF sample_reachable sample_subscribed] sample_subscribed
    by (auto simp: subscription_map_def)
qed

definition sample_unsubscribe_packet :: flowie_mqtt_packet_view where
  "sample_unsubscribe_packet = \<lparr>pv_version = 4, pv_type = FLOWIE_MQTT_PACKET_UNSUBSCRIBE, pv_flags = 2,
     pv_remaining_length = 5, pv_fixed_header_size = 2, pv_packet = Span [0xa2, 5, 0, 9, 0, 1, 0x61],
     pv_body = Span [0, 9, 0, 1, 0x61]\<rparr>"

definition sample_unsubscribe :: flowie_mqtt_unsubscribe_view where
  "sample_unsubscribe = \<lparr>us_packet_id = 9, us_properties = \<lparr>pb_encoded = NullSpan 0, pb_values = NullSpan 0\<rparr>,
     us_filters = Span [0, 1, 0x61], us_filter_count = 1\<rparr>"

lemma sample_unsubscribed:
  "\<exists>s'. flowie_session_owner_unsubscribe rfc3629_next sample_unsubscribe_packet sample_unsubscribe None sample_owner =
     (Inr \<lparr>ur_packet_id = 9, ur_filter_count = 1, ur_removed_count = 0, ur_changed = False, ur_reason_codes = NullSpan 0\<rparr>, s')"
proof -
  have "unsubscribe_filter_ok rfc3629_next (Span [0x61])"
    using sample_topic_ok
    by (simp add: unsubscribe_filter_ok_def flowie_mqtt_length_span_input_validate_def flowie_mqtt_span_input_valid_def)
  then have "flowie_mqtt_topic_filter_iterator_next rfc3629_next (Some [0, 1, 0x61]) = Inr (Span [0x61], Some [])"
    using topic_filters.next_wire [of rfc3629_next "Span [0x61]" "[]"]
    by (simp add: flowie_mqtt_length_span_write_def write_u16_def)
  moreover have "flowie_mqtt_topic_filter_iterator_next rfc3629_next (Some []) = Inl FLOWIE_MQTT_PARSE_NEED_MORE"
    by (simp add: flowie_mqtt_topic_filter_iterator_next_def)
  ultimately have loop: "unsubscribe_loop rfc3629_next (Some [0, 1, 0x61]) [] [] 0 =
      ([], [0x11], 0, FLOWIE_MQTT_PARSE_NEED_MORE)"
    by (simp add: unsubscribe_loop.simps flowie_session_subscription_remove_def)
  have "flowie_session_subscriptions_clone [] sample_owner = (Inr [], sample_owner)"
    by (simp add: flowie_session_subscriptions_clone_def obind_def session_attempt_no_faults sample_owner_def session_zero_def)
  with loop show ?thesis
    by (simp add: flowie_session_owner_unsubscribe_def sample_unsubscribe_packet_def sample_unsubscribe_def Let_def
        flowie_mqtt_topic_filter_iterator_init_def obind_def session_allocs_no_faults sample_owner_def session_zero_def)
qed

theorem unsubscribe_refines_map_witness:
  "\<exists>s' codes filters. flowie_session_owner_unsubscribe rfc3629_next sample_unsubscribe_packet sample_unsubscribe None sample_owner =
     (Inr \<lparr>ur_packet_id = 9, ur_filter_count = 1, ur_removed_count = 0, ur_changed = False, ur_reason_codes = NullSpan 0\<rparr>, s') \<and>
     length filters = 1 \<and> unsubscribed (map span_bytes filters) Map.empty = (subscription_map (so_subscriptions s'), codes)"
proof -
  obtain s' where run: "flowie_session_owner_unsubscribe rfc3629_next sample_unsubscribe_packet sample_unsubscribe None sample_owner =
     (Inr \<lparr>ur_packet_id = 9, ur_filter_count = 1, ur_removed_count = 0, ur_changed = False, ur_reason_codes = NullSpan 0\<rparr>, s')"
    using sample_unsubscribed by blast
  have none: "subscription_map (so_subscriptions sample_owner) = Map.empty"
    by (simp add: sample_owner_def session_zero_def subscription_map_def)
  from unsubscribe_refines_map [OF sample_reachable run] obtain filters codes where "1 = length filters"
    "unsubscribed (map span_bytes filters) (subscription_map (so_subscriptions sample_owner)) =
       (subscription_map (so_subscriptions s'), codes)" by auto
  then show ?thesis unfolding none using run by metis
qed

end
