(* ===== verification/Session_Restore.thy ===== *)
theory Session_Restore
  imports Session_Copy Session_Contract
begin

text \<open>
  Restart of the broker: what becomes of a session that is written to a row of the repository and
  restored from it, \<open>flowie/src/flowie_session.c\<close>.
\<close>

section \<open>What a row keeps\<close>

definition persisted_delivery :: "flowie_session_delivery \<Rightarrow> flowie_session_delivery" where
  "persisted_delivery d = d\<lparr>dl_state := persisted_state d\<rparr>"

definition restored_deliveries :: "flowie_session_delivery list \<Rightarrow> flowie_session_delivery list" where
  "restored_deliveries ds = map persisted_delivery (filter delivery_persisted ds)"

definition persisted :: "flowie_session_owner \<Rightarrow> flowie_session_owner" where
  "persisted s =
     s\<lparr>so_inflight := filter inflight_persisted (so_inflight s), so_deliveries := restored_deliveries (so_deliveries s),
       so_delivery_index := table_index (restored_deliveries (so_deliveries s)),
       so_will_pending := so_has_will s \<and> (so_will_pending s \<or> so_active s),
       so_initialized := False, so_active := False, so_clean_start := 0, so_faults := []\<rparr>"

lemma persisted_delivery_fields [simp]:
  "dl_packet_id (persisted_delivery d) = dl_packet_id d" "dl_packet (persisted_delivery d) = dl_packet d"
  by (simp_all add: persisted_delivery_def)

section \<open>Restoring step by step\<close>

lemma performs_restore_subscriptions:
  "performs (restore_subscriptions (map subscription_row es)) s () (s\<lparr>so_subscriptions := so_subscriptions s @ es\<rparr>)"
proof (induction es arbitrary: s)
  case (Cons e es)
  have row: "\<lparr>sn_filter = span_bytes (br_filter (subscription_row e)), sn_qos = br_qos (subscription_row e),
      sn_no_local = br_no_local (subscription_row e), sn_retain_as_published = br_retain_as_published (subscription_row e),
      sn_retain_handling = br_retain_handling (subscription_row e),
      sn_subscription_identifier = br_subscription_identifier (subscription_row e)\<rparr> = e"
    by (simp add: subscription_row_def)
  have attempt: "performs session_attempt (s\<lparr>so_faults := fs\<rparr>) () s" for fs
    by (rule performs_eq [OF performs_attempt]) simp
  have "performs (\<lambda>s. restore_subscriptions (map subscription_row es) (s\<lparr>so_subscriptions := so_subscriptions s @ [e]\<rparr>))
      (s\<lparr>so_faults := fs\<rparr>) () (s\<lparr>so_subscriptions := so_subscriptions s @ e # es\<rparr>)" for fs
    by (rule performs_after, rule performs_eq, rule Cons.IH) simp_all
  then show ?case
    by (simp only: list.map restore_subscriptions.simps row)
       (intro performs_obind [OF performs_allocs] performs_obind [OF attempt])
qed (simp add: performs_def)

lemma performs_restore_inflight:
  assumes "\<forall>e \<in> set es. inflight_persisted e"
  shows "performs (restore_inflight (map inflight_row es)) s () (s\<lparr>so_inflight := so_inflight s @ es\<rparr>)"
  using assms
proof (induction es arbitrary: s)
  case (Cons e es)
  have row: "\<lparr>if_packet_id = ir_packet_id (inflight_row e), if_qos = ir_qos (inflight_row e),
      if_state = FLOWIE_SESSION_INFLIGHT_QOS2_RELEASE\<rparr> = e"
    using Cons.prems by (simp add: inflight_row_def inflight_persisted_def)
  have "performs (\<lambda>s. restore_inflight (map inflight_row es) (s\<lparr>so_inflight := so_inflight s @ [e]\<rparr>))
      (s\<lparr>so_faults := fs\<rparr>) () (s\<lparr>so_inflight := so_inflight s @ e # es\<rparr>)" for fs
    by (rule performs_after, rule performs_eq, rule Cons.IH) (use Cons.prems in simp_all)
  then show ?case
    by (simp only: list.map restore_inflight.simps row) (rule performs_obind [OF performs_attempt])
qed (simp add: performs_def)

lemma delivery_rows_Some:
  assumes "delivery_rows ds = Some rows"
  shows "length rows = length (filter delivery_persisted ds) \<and> (\<forall>d \<in> set ds. delivery_persisted d \<longrightarrow> dl_packet d \<noteq> None)"
  using assms by (induction ds arbitrary: rows) (auto simp: delivery_row_def split: if_splits option.splits)

lemma performs_restore_delivery:
  assumes "delivery_table_ok s" "dl_packet_id d \<noteq> 0" "dl_packet_id d \<notin> dl_packet_id ` set (so_deliveries s)"
    and "delivery_row d = Some row"
    and "flowie_session_record_delivery_validate un (so_version s) (persisted_delivery d) = Inr ()"
  shows "performs (restore_delivery un row) s () (s\<lparr>so_deliveries := so_deliveries s @ [persisted_delivery d],
    so_delivery_index := table_index (so_deliveries s @ [persisted_delivery d])\<rparr>)"
proof -
  have entry: "\<lparr>dl_packet_id = dr_packet_id row, dl_qos = dr_qos row, dl_state = dr_state row,
      dl_expiry_at = dr_expiry_at_epoch_seconds row, dl_packet = Some (span_bytes (dr_packet row))\<rparr> = persisted_delivery d"
    using assms(4) by (auto simp: delivery_row_def persisted_delivery_def split: option.splits)
  let ?t = "s\<lparr>so_deliveries := so_deliveries s @ [persisted_delivery d],
    so_delivery_index := table_index (so_deliveries s @ [persisted_delivery d])\<rparr>"
  have append: "performs (flowie_session_delivery_append (persisted_delivery d)) (s\<lparr>so_faults := fs\<rparr>) () ?t" for fs
    by (rule performs_eq, rule performs_append) (use assms(1-3) in simp_all)
  have "performs (\<lambda>owner. case flowie_session_record_delivery_validate un (so_version owner) (persisted_delivery d) of
         Inl e \<Rightarrow> (Inl e, owner)
       | Inr u \<Rightarrow>
           (case flowie_session_delivery_append (persisted_delivery d) owner of
              (Inl e, owner) \<Rightarrow> (Inl (if e = SALTS_EALREADY then SALTS_EPROTO else e), owner)
            | (Inr u, owner) \<Rightarrow> (Inr (), owner))) (s\<lparr>so_faults := fs\<rparr>) () ?t" for fs
    using append [of fs] assms(5) by (auto simp: performs_def split: prod.splits sum.splits)
  then show ?thesis
    unfolding restore_delivery_def entry Let_def by (rule performs_obind [OF performs_allocs])
qed

lemma performs_restore_deliveries:
  assumes "delivery_table_ok s" "distinct (map dl_packet_id (so_deliveries s @ ds))"
    and "\<forall>d \<in> set ds. dl_packet_id d \<noteq> 0" "delivery_rows ds = Some rows"
    and "\<forall>d \<in> set ds. delivery_persisted d \<longrightarrow>
      flowie_session_record_delivery_validate un (so_version s) (persisted_delivery d) = Inr ()"
  shows "performs (restore_deliveries un rows) s () (s\<lparr>so_deliveries := so_deliveries s @ restored_deliveries ds,
    so_delivery_index := table_index (so_deliveries s @ restored_deliveries ds)\<rparr>)"
  using assms
proof (induction ds arbitrary: s rows)
  case Nil
  then have "s\<lparr>so_delivery_index := table_index (so_deliveries s)\<rparr> = s"
    by (simp add: table_ok_unique [symmetric])
  with Nil show ?case by (simp add: restored_deliveries_def performs_def)
next
  case (Cons d ds)
  show ?case
  proof (cases "delivery_persisted d")
    case False
    then show ?thesis
      using Cons.IH [of s rows] Cons.prems by (simp add: restored_deliveries_def)
  next
    case True
    then obtain row rest where rows: "delivery_row d = Some row" "delivery_rows ds = Some rest" "rows = row # rest"
      using Cons.prems(4) by (auto split: option.splits)
    let ?d = "persisted_delivery d"
    let ?t = "s\<lparr>so_deliveries := so_deliveries s @ [?d], so_delivery_index := table_index (so_deliveries s @ [?d])\<rparr>"
    have "performs (restore_delivery un row) s () ?t"
      by (rule performs_restore_delivery [OF _ _ _ rows(1)]) (use Cons.prems True in auto)
    moreover have "performs (restore_deliveries un rest) (?t\<lparr>so_faults := fs\<rparr>) ()
        (s\<lparr>so_deliveries := so_deliveries s @ restored_deliveries (d # ds),
           so_delivery_index := table_index (so_deliveries s @ restored_deliveries (d # ds))\<rparr>)" for fs
      by (rule performs_eq, rule Cons.IH)
         (use Cons.prems rows(2) table_ok_nonzero True in \<open>auto simp: restored_deliveries_def intro!: table_ok_index\<close>)
    ultimately show ?thesis by (simp add: rows(3) performs_obind)
  qed
qed

lemma performs_restore_will:
  assumes "so_has_will s \<longrightarrow> so_will_topic s \<noteq> None \<and> so_will_properties s \<noteq> None \<and> so_will_payload s \<noteq> None"
  shows "performs (restore_will (if so_has_will s then Some (will_row s) else None)) c ()
    (if so_has_will s
     then c\<lparr>so_will_topic := so_will_topic s, so_will_properties := so_will_properties s,
            so_will_payload := so_will_payload s, so_has_will := True,
            so_will_pending := so_will_pending s \<or> so_active s, so_will_qos := so_will_qos s,
            so_will_retain := so_will_retain s, so_will_delay_interval := so_will_delay_interval s\<rparr>
     else c)"
proof (cases "so_has_will s")
  case True
  then obtain t p b where texts: "so_will_topic s = Some t" "so_will_properties s = Some p" "so_will_payload s = Some b"
    using assms by auto
  let ?f = "\<lambda>c. c\<lparr>so_will_topic := Some t, so_will_properties := Some p, so_will_payload := Some b, so_has_will := True,
      so_will_pending := so_will_pending s \<or> so_active s, so_will_qos := so_will_qos s,
      so_will_retain := so_will_retain s, so_will_delay_interval := so_will_delay_interval s\<rparr>"
  have "performs (\<lambda>c. (Inr (), ?f c)) (c\<lparr>so_faults := fs\<rparr>) () (?f c)" for fs
    by (rule performs_eq, rule performs_update) simp_all
  then have "performs (obind (session_allocs 3) (\<lambda>_ c. (Inr (), ?f c))) c () (?f c)"
    by (rule performs_obind [OF performs_allocs])
  then show ?thesis using True by (simp add: restore_will_def will_row_def text_span_def texts)
qed (simp add: restore_will_def performs_def)

section \<open>The round trip\<close>

definition session_row ::
    "bytes \<Rightarrow> flowie_protocol_delivery_row list \<Rightarrow> flowie_session_owner \<Rightarrow> flowie_protocol_session_row" where
  "session_row client_id rows s =
     \<lparr>rw_client_id = Span client_id, rw_revision = so_resource_generation s,
      rw_session_id = sf_session_id (so_config s), rw_session_generation = so_session_generation s,
      rw_mqtt_version = so_version s, rw_keep_alive = so_keep_alive s,
      rw_session_expiry_interval = so_session_expiry_interval s,
      rw_next_delivery_packet_id = so_next_delivery_packet_id s,
      rw_subscriptions = map subscription_row (so_subscriptions s),
      rw_inflight = map inflight_row (filter inflight_persisted (so_inflight s)), rw_deliveries = rows,
      rw_will = if so_has_will s then Some (will_row s) else None\<rparr>"

lemma will_row_faults [simp]: "will_row (s\<lparr>so_faults := fs\<rparr>) = will_row s"
  by (simp add: will_row_def)

lemma repository_snapshot_row:
  assumes "flowie_session_owner_repository_snapshot s = (Inr row, s')"
  obtains client_id rows where "so_client_id s = Some client_id" "so_initialized s" "so_resource_generation s \<noteq> 0"
    "delivery_rows (so_deliveries s) = Some rows" "row = session_row client_id rows s"
proof -
  have allocs: "\<exists>fs. t = s\<lparr>so_faults := fs\<rparr>" if "row_allocs a b c s = (r, t)" for a b c r t
    using that by (auto simp: row_allocs_def dest!: session_attempt_frame split: prod.splits)
  obtain client_id where client_id: "so_client_id s = Some client_id"
    using assms by (auto simp: flowie_session_owner_repository_snapshot_def split: option.splits)
  from assms client_id obtain t where t: "so_initialized s" "so_resource_generation s \<noteq> 0"
    "row_allocs (length (so_subscriptions s)) (length (filter inflight_persisted (so_inflight s)))
       (length (filter delivery_persisted (so_deliveries s))) s = (Inr (), t)"
    by (auto simp: flowie_session_owner_repository_snapshot_def Let_def obind_Inr_iff split: if_splits)
  obtain fs where fs: "t = s\<lparr>so_faults := fs\<rparr>" using allocs [OF t(3)] by blast
  obtain rows where rows: "delivery_rows (so_deliveries s) = Some rows"
    using assms by (cases "delivery_rows (so_deliveries s)")
      (auto simp: flowie_session_owner_repository_snapshot_def client_id t fs Let_def obind_def)
  then have "row = session_row client_id rows s"
    using assms
    by (auto simp: flowie_session_owner_repository_snapshot_def client_id t fs Let_def obind_def session_row_def)
  then show thesis by (rule that [OF client_id t(1,2) rows])
qed

lemma performs_restore:
  assumes inv: "session_invariant s" and rows: "delivery_rows (so_deliveries s) = Some rows"
    and client_id: "so_client_id s = Some client_id"
    and valid: "\<forall>d \<in> set (so_deliveries s). delivery_persisted d \<longrightarrow>
      flowie_session_record_delivery_validate un (so_version s) (persisted_delivery d) = Inr ()"
  shows "performs (obind (session_allocs 1) (\<lambda>_ owner.
                obind (restore_subscriptions (rw_subscriptions (session_row client_id rows s))) (\<lambda>_.
                obind (restore_inflight (rw_inflight (session_row client_id rows s))) (\<lambda>_.
                obind (restore_deliveries un (rw_deliveries (session_row client_id rows s))) (\<lambda>_.
                obind (restore_will (rw_will (session_row client_id rows s))) (\<lambda>_ owner.
                  (Inr (), owner\<lparr>so_active := False, so_clean_start := 0\<rparr>)))))
                (restore_fields (session_row client_id rows s) owner))) (session_zero (so_config s) gs) () (persisted s)"
proof -
  let ?row = "session_row client_id rows s" and ?z = "session_zero (so_config s) gs"
  let ?ds = "restored_deliveries (so_deliveries s)"
  let ?o1 = "restore_fields ?row ?z"
  let ?o2 = "?o1\<lparr>so_subscriptions := so_subscriptions s\<rparr>"
  let ?o3 = "?o2\<lparr>so_inflight := filter inflight_persisted (so_inflight s)\<rparr>"
  let ?o4 = "?o3\<lparr>so_deliveries := ?ds, so_delivery_index := table_index ?ds\<rparr>"
  let ?o5 = "if so_has_will s
     then ?o4\<lparr>so_will_topic := so_will_topic s, so_will_properties := so_will_properties s,
            so_will_payload := so_will_payload s, so_has_will := True,
            so_will_pending := so_will_pending s \<or> so_active s, so_will_qos := so_will_qos s,
            so_will_retain := so_will_retain s, so_will_delay_interval := so_will_delay_interval s\<rparr>
     else ?o4"
  note table = session_invariant_table [OF inv]
  note fields = session_row_def restore_fields_def session_zero_def
  have 2: "performs (restore_subscriptions (rw_subscriptions ?row)) (restore_fields ?row (?z\<lparr>so_faults := fs\<rparr>)) () ?o2" for fs
    unfolding session_row_def flowie_protocol_session_row.select_convs
    by (rule performs_eq, rule performs_restore_subscriptions) (simp add: fields)
  have 3: "performs (restore_inflight (rw_inflight ?row)) (?o2\<lparr>so_faults := fs\<rparr>) () ?o3" for fs
    unfolding session_row_def flowie_protocol_session_row.select_convs
    by (rule performs_eq, rule performs_restore_inflight) (simp_all add: fields)
  have 4: "performs (restore_deliveries un (rw_deliveries ?row)) (?o3\<lparr>so_faults := fs\<rparr>) () ?o4" for fs
    unfolding session_row_def flowie_protocol_session_row.select_convs
    by (rule performs_eq, rule performs_restore_deliveries [OF _ _ _ rows])
       (use valid table_ok_nonzero [OF table] table_ok_distinct [OF table] in \<open>simp_all add: fields\<close>)
  have 5: "performs (restore_will (rw_will ?row)) (?o4\<lparr>so_faults := fs\<rparr>) () ?o5" for fs
    unfolding session_row_def flowie_protocol_session_row.select_convs
    by (rule performs_eq, rule performs_restore_will) (use inv in \<open>auto simp: session_invariant_def will_ok_def\<close>)
  have 6: "performs (\<lambda>owner. (Inr (), owner\<lparr>so_active := False, so_clean_start := 0\<rparr>)) (?o5\<lparr>so_faults := fs\<rparr>) () (persisted s)" for fs
    by (rule performs_eq, rule performs_update, simp, rule flowie_session_owner.equality)
       (use inv client_id in \<open>simp_all add: fields persisted_def session_invariant_def will_ok_def\<close>)
  show ?thesis
    by (rule performs_obind [OF performs_allocs], rule performs_after, rule performs_obind [OF 2],
        rule performs_obind [OF 3], rule performs_obind [OF 4], rule performs_obind [OF 5], rule 6)
       (simp add: restore_fields_def)
qed

lemma restore_run:
  assumes inv: "session_invariant s" and row: "row = session_row client_id rows s"
    and "delivery_rows (so_deliveries s) = Some rows" "so_client_id s = Some client_id" "so_resource_generation s \<noteq> 0"
    and "\<forall>d \<in> set (so_deliveries s). delivery_persisted d \<longrightarrow>
      flowie_session_record_delivery_validate un (so_version s) (persisted_delivery d) = Inr ()"
    and "length (filter inflight_persisted (so_inflight s)) + length (filter delivery_persisted (so_deliveries s)) \<le>
      sf_max_inflight (so_config s)"
  shows "(\<exists>e. flowie_session_owner_repository_restore un (so_config s) row faults = Inl e \<and> faults \<noteq> []) \<or>
    (\<exists>fs. flowie_session_owner_repository_restore un (so_config s) row faults = Inr ((persisted s)\<lparr>so_faults := fs\<rparr>) \<and>
       (faults = [] \<longrightarrow> fs = []))"
proof -
  have valid: "flowie_session_config_valid (so_config s)" using inv by (simp add: session_invariant_def)
  have checks: "\<not> (\<not> flowie_session_config_valid (so_config s) \<or> span_null (rw_client_id row) \<or>
      span_size (rw_client_id row) = 0 \<or> rw_revision row = 0 \<or>
      length (rw_subscriptions row) > sf_max_subscriptions (so_config s) \<or>
      length (rw_inflight row) + length (rw_deliveries row) > sf_max_inflight (so_config s))"
    using assms delivery_rows_Some [OF assms(3)] by (auto simp: session_row_def session_invariant_def subscriptions_ok_def)
  note run = flowie_session_owner_repository_restore_def [of un "so_config s" row faults, unfolded if_not_P [OF checks]]
  from valid show ?thesis
  proof (cases rule: create_cases [where faults = faults])
    case no_memory
    then show ?thesis by (simp add: run)
  next
    case (created gs)
    from performs_restore [OF inv assms(3,4,6), of gs] show ?thesis
      unfolding row [symmetric]
      by (cases rule: performs_cases) (use created in \<open>auto simp: run session_zero_def\<close>)
  qed
qed

section \<open>Rows that are refused\<close>

text \<open>The limits of admission and of the restore differ: a PUBLISH is admitted while the received
  messages alone are below the limit, but a row is refused when received messages and deliveries
  together exceed it.\<close>

lemma own_row_refused:
  assumes "flowie_session_owner_repository_snapshot s = (Inr row, s1)"
    and "sf_max_inflight config <
      length (filter inflight_persisted (so_inflight s)) + length (filter delivery_persisted (so_deliveries s))"
  shows "flowie_session_owner_repository_restore un config row faults = Inl SALTS_EINVAL"
  using assms(1)
proof (cases rule: repository_snapshot_row)
  case (1 client_id rows)
  then show ?thesis
    using assms(2) delivery_rows_Some [OF 1(4)]
    by (simp add: flowie_session_owner_repository_restore_def session_row_def)
qed

text \<open>Restoring a table leaves the version and the initialized flag of the owner alone.\<close>

definition same_version :: "flowie_session_owner \<Rightarrow> flowie_session_owner \<Rightarrow> bool" where
  "same_version s t \<longleftrightarrow> so_initialized t = so_initialized s \<and> so_version t = so_version s"

lemma append_same: "flowie_session_delivery_append d s = (r, s') \<Longrightarrow> same_version s s'"
  by (auto simp: same_version_def flowie_session_delivery_append_def Let_def dest!: session_attempt_frame
      split: if_splits sum.splits prod.splits)

lemma restore_subscriptions_same: "restore_subscriptions rows s = (r, s') \<Longrightarrow> same_version s s'"
  by (induction rows arbitrary: s)
     (auto simp: same_version_def obind_def dest!: session_attempt_frame session_allocs_frame split: prod.splits sum.splits)

lemma restore_inflight_same: "restore_inflight rows s = (r, s') \<Longrightarrow> same_version s s'"
  by (induction rows arbitrary: s)
     (auto simp: same_version_def obind_def dest!: session_attempt_frame split: prod.splits sum.splits)

lemma restore_delivery_same: "restore_delivery un row s = (r, s') \<Longrightarrow> same_version s s'"
  by (auto simp: same_version_def obind_def restore_delivery_def Let_def dest!: session_allocs_frame append_same
       split: prod.splits sum.splits)

lemma restore_deliveries_same: "restore_deliveries un rows s = (r, s') \<Longrightarrow> same_version s s'"
  by (induction rows arbitrary: s)
     (auto simp: same_version_def obind_def dest!: restore_delivery_same split: prod.splits sum.splits)

lemma restore_will_same: "restore_will will s = (r, s') \<Longrightarrow> same_version s s'"
  by (auto simp: same_version_def restore_will_def obind_def dest!: session_allocs_frame
      split: option.splits prod.splits sum.splits)

definition row_delivery :: "flowie_protocol_delivery_row \<Rightarrow> flowie_session_delivery" where
  "row_delivery row = \<lparr>dl_packet_id = dr_packet_id row, dl_qos = dr_qos row, dl_state = dr_state row,
     dl_expiry_at = dr_expiry_at_epoch_seconds row, dl_packet = Some (span_bytes (dr_packet row))\<rparr>"

lemma restore_delivery_valid:
  "restore_delivery un row s = (Inr u, s') \<Longrightarrow>
     flowie_session_record_delivery_validate un (so_version s) (row_delivery row) = Inr ()"
  by (cases "flowie_session_record_delivery_validate un (so_version s) (row_delivery row)")
     (auto simp: restore_delivery_def row_delivery_def obind_Inr_iff Let_def dest!: session_allocs_frame)

lemma restore_deliveries_valid:
  "restore_deliveries un rows s = (Inr u, s') \<Longrightarrow> row \<in> set rows \<Longrightarrow>
     flowie_session_record_delivery_validate un (so_version s) (row_delivery row) = Inr ()"
proof (induction rows arbitrary: s)
  case (Cons r rows)
  then obtain t where t: "restore_delivery un r s = (Inr (), t)" "restore_deliveries un rows t = (Inr u, s')"
    by (auto simp: obind_Inr_iff)
  show ?case
    using Cons.IH [OF t(2)] Cons.prems(2) restore_delivery_valid [OF t(1)] restore_delivery_same [OF t(1)]
    by (auto simp: same_version_def)
qed simp

lemma restore_valid:
  assumes "flowie_session_owner_repository_restore un config row faults = Inr s" "d \<in> set (rw_deliveries row)"
  shows "flowie_session_record_delivery_validate un (rw_mqtt_version row) (row_delivery d) = Inr ()"
  using assms
  by (auto simp: flowie_session_owner_repository_restore_def obind_Inr_iff
      dest!: restore_deliveries_valid [OF _ assms(2)] restore_subscriptions_same restore_inflight_same
      split: if_splits option.splits prod.splits sum.splits)
     (simp add: same_version_def restore_fields_def)

lemma delivery_rows_row:
  "delivery_rows ds = Some rows \<Longrightarrow> d \<in> set ds \<Longrightarrow> delivery_persisted d \<Longrightarrow>
     \<exists>row \<in> set rows. row_delivery row = persisted_delivery d"
  by (induction ds arbitrary: rows)
     (auto simp: delivery_row_def row_delivery_def persisted_delivery_def split: if_splits option.splits)

text \<open>The two conditions on which the restore of a session's own row depends.\<close>

definition stored_entries :: "flowie_session_owner \<Rightarrow> nat" where
  "stored_entries s =
     length (filter inflight_persisted (so_inflight s)) + length (filter delivery_persisted (so_deliveries s))"

definition stored_packets_ok :: "utf8_next \<Rightarrow> flowie_session_owner \<Rightarrow> bool" where
  "stored_packets_ok un s \<longleftrightarrow> list_all (\<lambda>d.
     flowie_session_record_delivery_validate un (so_version s) (persisted_delivery d) = Inr ())
     (filter delivery_persisted (so_deliveries s))"

lemma bad_packet_refused:
  assumes "flowie_session_owner_repository_snapshot s = (Inr row, s1)" "\<not> stored_packets_ok un s"
  shows "\<exists>e. flowie_session_owner_repository_restore un config row faults = Inl e"
proof (cases "flowie_session_owner_repository_restore un config row faults")
  case (Inr t)
  from assms(2) obtain d where d: "d \<in> set (so_deliveries s)" "delivery_persisted d"
    "flowie_session_record_delivery_validate un (so_version s) (persisted_delivery d) \<noteq> Inr ()"
    by (auto simp: stored_packets_ok_def list_all_iff)
  from assms(1) obtain client_id rows where rows: "delivery_rows (so_deliveries s) = Some rows"
    "row = session_row client_id rows s" by (rule repository_snapshot_row)
  from delivery_rows_row [OF rows(1) d(1,2)] obtain r where r: "r \<in> set rows" "row_delivery r = persisted_delivery d"
    by blast
  then have "flowie_session_record_delivery_validate un (so_version s) (persisted_delivery d) = Inr ()"
    using restore_valid [OF Inr, of r] by (simp add: rows(2) session_row_def)
  with d(3) show ?thesis ..
qed simp

section \<open>Restoring the own row\<close>

text \<open>C39: what becomes of a session that is written to the repository and restored from its own row.
  The row is refused when the received QoS 2 messages and the committed deliveries in it together
  exceed the inflight limit, and when a stored packet does not parse as the delivery it belongs to.
  Otherwise, with memory available, the restore succeeds, and whenever it succeeds the owner has the
  same configuration, subscriptions, will, generations and packet identifier counter; it keeps the
  received QoS 2 messages that wait for their release and every delivery that was committed, queued
  ones as sent, with a consistent index; reservations are gone and the will of an open connection is
  pending.\<close>

theorem repository_roundtrip:
  assumes "session_reachable un config s" "flowie_session_owner_repository_snapshot s = (Inr row, s1)"
  shows "let restore = flowie_session_owner_repository_restore un (so_config s) row faults in
    if sf_max_inflight (so_config s) < stored_entries s then restore = Inl SALTS_EINVAL
    else if \<not> stored_packets_ok un s then \<exists>e. restore = Inl e
    else (\<exists>e. restore = Inl e \<and> faults \<noteq> []) \<or>
      (\<exists>fs. restore = Inr ((persisted s)\<lparr>so_faults := fs\<rparr>) \<and> (faults = [] \<longrightarrow> fs = []))"
proof -
  from assms(2) obtain client_id rows where row: "so_client_id s = Some client_id" "so_resource_generation s \<noteq> 0"
    "delivery_rows (so_deliveries s) = Some rows" "row = session_row client_id rows s" by (rule repository_snapshot_row)
  show ?thesis
    using own_row_refused [OF assms(2), of "so_config s" un faults]
      bad_packet_refused [OF assms(2), of un "so_config s" faults]
      restore_run [OF reachable_invariant [OF assms(1)] row(4,3,1,2), of un faults]
    unfolding Let_def stored_entries_def stored_packets_ok_def by (auto simp: list_all_iff)
qed

section \<open>The restored session\<close>

lemma create_not_initialized: "flowie_session_owner_create config faults = Some s \<Longrightarrow> \<not> so_initialized s"
  by (auto simp: flowie_session_owner_create_def session_zero_def obind_Inr_iff dest!: session_attempt_frame
      split: if_splits prod.splits sum.splits)

lemma restore_not_initialized:
  assumes "flowie_session_owner_repository_restore un config row faults = Inr s"
  shows "\<not> so_initialized s" "\<not> so_active s"
  using assms
  by (auto simp: flowie_session_owner_repository_restore_def obind_Inr_iff restore_fields_def same_version_def
      dest!: session_allocs_frame create_not_initialized restore_subscriptions_same restore_inflight_same
        restore_deliveries_same restore_will_same
      split: if_splits option.splits prod.splits sum.splits)

text \<open>C40: a session restored from the repository is not recognised. The owner is left uninitialized, so a
  CONNECT without clean start is told that no session is present although the subscriptions,
  deliveries and received messages are still there; until that CONNECT messages for the absent
  client find no packet identifier and the session cannot be written again.\<close>

theorem restored_session_not_present:
  assumes "flowie_session_owner_repository_restore un config row faults = Inr s"
  shows "(flowie_session_owner_connect_impl un connect allow_active s = (Inr result, s') \<longrightarrow>
      \<not> cr_session_present result \<and>
      (cr_accepted result \<and> cv_clean_start connect = 0 \<longrightarrow> so_subscriptions s' = so_subscriptions s \<and>
         so_deliveries s' = so_deliveries s \<and> so_inflight s' = so_inflight s)) \<and>
    (qos = 1 \<or> qos = 2 \<longrightarrow> flowie_session_owner_delivery_reserve qos s = (Inl SALTS_EBUSY, s)) \<and>
    flowie_session_owner_repository_snapshot s = (Inl SALTS_EINVAL, s)"
proof -
  note state = restore_not_initialized [OF assms]
  have "\<not> cr_session_present result \<and>
      (cr_accepted result \<and> cv_clean_start connect = 0 \<longrightarrow> so_subscriptions s' = so_subscriptions s \<and>
         so_deliveries s' = so_deliveries s \<and> so_inflight s' = so_inflight s)"
    if run: "flowie_session_owner_connect_impl un connect allow_active s = (Inr result, s')"
  proof
    show "\<not> cr_session_present result"
      using run state by (auto simp: flowie_session_owner_connect_impl_def Let_def split: prod.splits sum.splits if_splits)
    from run show "cr_accepted result \<and> cv_clean_start connect = 0 \<longrightarrow> so_subscriptions s' = so_subscriptions s \<and>
         so_deliveries s' = so_deliveries s \<and> so_inflight s' = so_inflight s"
      by (cases rule: connect_impl_cases) (auto simp: opened_fields)
  qed
  moreover have "qos = 1 \<or> qos = 2 \<longrightarrow> flowie_session_owner_delivery_reserve qos s = (Inl SALTS_EBUSY, s)"
    using state by (auto simp: flowie_session_owner_delivery_reserve_def)
  ultimately show ?thesis
    using state by (simp add: flowie_session_owner_repository_snapshot_def split: option.split)
qed

section \<open>A sample restart\<close>

definition sample_row :: flowie_protocol_session_row where
  "sample_row = session_row [0x61] [] sample_owner"

lemma sample_snapshot: "flowie_session_owner_repository_snapshot sample_owner = (Inr sample_row, sample_owner)"
  by (simp add: flowie_session_owner_repository_snapshot_def sample_owner_def session_zero_def sample_row_def
      session_row_def row_allocs_def session_attempt_def obind_def is_ok_def Let_def)

text \<open>The sample session has a received QoS 2 message that waits for its release, a queued PUBLISH
  and a reservation.\<close>

definition sample_packet :: bytes where
  "sample_packet = [0x32, 0x06, 0x00, 0x01, 0x61, 0x00, 0x01, 0x62]"

definition sample_delivery :: "flowie_session_delivery_state \<Rightarrow> flowie_session_delivery" where
  "sample_delivery state =
     \<lparr>dl_packet_id = 1, dl_qos = 1, dl_state = state, dl_expiry_at = 0, dl_packet = Some sample_packet\<rparr>"

definition sample_reservation :: flowie_session_delivery where
  "sample_reservation =
     \<lparr>dl_packet_id = 2, dl_qos = 2, dl_state = FLOWIE_SESSION_DELIVERY_RESERVED, dl_expiry_at = 0, dl_packet = None\<rparr>"

definition sample_busy :: flowie_session_owner where
  "sample_busy = session_run rfc3629_next
     [Delivery_reserve 1, Delivery_commit_queued 1 (Span sample_packet) 0, Delivery_reserve 2] sample_promised"

lemma sample_busy: "sample_busy = sample_promised\<lparr>
    so_deliveries := [sample_delivery FLOWIE_SESSION_DELIVERY_QUEUED, sample_reservation],
    so_delivery_index := [1 \<mapsto> 0, 2 \<mapsto> 1], so_next_delivery_packet_id := 2, so_resource_generation := 5\<rparr>"
proof -
  let ?d = "\<lambda>p qos. \<lparr>dl_packet_id = p, dl_qos = qos, dl_state = FLOWIE_SESSION_DELIVERY_RESERVED, dl_expiry_at = 0,
    dl_packet = None\<rparr>"
  let ?s1 = "sample_promised\<lparr>so_deliveries := [?d 1 1], so_delivery_index := [1 \<mapsto> 0], so_next_delivery_packet_id := 1\<rparr>"
  let ?s2 = "?s1\<lparr>so_deliveries := [sample_delivery FLOWIE_SESSION_DELIVERY_QUEUED], so_resource_generation := 5\<rparr>"
  note fields = sample_promised_def sample_owner_def session_zero_def sample_config_def
  have loop: "reserve_loop 65535 0 sample_promised = Inr 1" "reserve_loop 65535 1 ?s2 = Inr 2"
    using reserve_loop.simps(2) [of 65534 0 sample_promised] reserve_loop.simps(2) [of 65534 1 ?s2]
    by (simp_all add: Let_def next_packet_id_def flowie_session_delivery_lookup_def fields)
  have 1: "flowie_session_owner_delivery_reserve 1 sample_promised = (Inr 1, ?s1)"
    using loop(1)
    by (simp add: flowie_session_owner_delivery_reserve_def flowie_session_delivery_append_def fields obind_def
        session_attempt_def flowie_session_delivery_lookup_def)
  have 2: "flowie_session_owner_delivery_commit_queued rfc3629_next 1 (Span sample_packet) 0 ?s1 = (Inr (), ?s2)"
    by (simp add: flowie_session_owner_delivery_commit_queued_def flowie_session_owner_delivery_commit_state_def fields
        obind_def session_allocs_no_faults flowie_session_delivery_lookup_def Let_def delivery_write_def
        sample_delivery_def sample_packet_def)
  have 3: "flowie_session_owner_delivery_reserve 2 ?s2 = (Inr 2, ?s2\<lparr>
      so_deliveries := [sample_delivery FLOWIE_SESSION_DELIVERY_QUEUED, sample_reservation],
      so_delivery_index := [1 \<mapsto> 0, 2 \<mapsto> 1], so_next_delivery_packet_id := 2\<rparr>)"
    using loop(2)
    by (simp add: flowie_session_owner_delivery_reserve_def flowie_session_delivery_append_def fields obind_def
        session_attempt_def flowie_session_delivery_lookup_def sample_reservation_def)
  show ?thesis by (simp add: sample_busy_def session_run_def 1 2 3 [simplified])
qed

lemma sample_busy_reachable: "session_reachable rfc3629_next sample_config sample_busy"
proof -
  have "session_reachable rfc3629_next sample_config sample_admitted"
    unfolding sample_admitted_def by (rule session_reachable.exec [OF sample_reachable])
  from session_reachable.exec [OF this, of "Publish_settle sample_route sample_request"]
  have "session_reachable rfc3629_next sample_config sample_promised" by (simp add: sample_settled)
  then show ?thesis by (simp add: sample_busy_def session_run_def session_reachable.exec del: session_exec.simps)
qed

definition sample_view :: flowie_mqtt_packet_view where
  "sample_view = frame_view 4 0x32 6 [0x00, 0x01, 0x61, 0x00, 0x01, 0x62]"

lemma sample_packet_frame: "whole_packet_parse 4 sample_packet = Some sample_view"
proof -
  have "frame_parse 4 8 sample_packet = Inr (sample_view, 8)" by code_simp
  then have "flowie_mqtt_packet_parse True (Span sample_packet) (Some (packet_options 4 8)) = Inr (sample_view, 8)"
    using packet_parse_frame [of "packet_options 4 8" sample_packet]
    by (simp add: options_ok_def packet_options_def packet_limit_def flowie_mqtt_version_is_supported_def)
  moreover have "length sample_packet = 8" by (simp add: sample_packet_def)
  ultimately show ?thesis by (simp add: whole_packet_parse_def)
qed

lemma sample_packet_publish:
  "\<exists>publish. flowie_mqtt_publish_parse rfc3629_next sample_view = Inr publish \<and> pu_packet_id publish = 1 \<and> pu_qos publish = 1"
proof -
  have "flowie_mqtt_read_u16 [0, 1, 0x61, 0, 1, 0x62] = 1" "flowie_mqtt_read_u16 [0, 1, 0x62] = 1"
    "pv_type sample_view = FLOWIE_MQTT_PACKET_PUBLISH" "drop_bit 1 (pv_flags sample_view) AND 3 = 1"
    by code_simp+
  then show ?thesis
    using sample_topic_ok
    by (simp add: flowie_mqtt_publish_parse_def flowie_mqtt_typed_args_def flowie_mqtt_length_span_def
        nonzero_packet_id_def read_u16_step_def block_parse_def sample_view_def frame_view_def Let_def
        flowie_mqtt_version_is_supported_def)
qed

lemma sample_busy_ok: "stored_packets_ok rfc3629_next sample_busy" "stored_entries sample_busy = 2"
proof -
  have "pv_type sample_view = FLOWIE_MQTT_PACKET_PUBLISH" by code_simp
  with sample_packet_publish
  have "flowie_session_record_delivery_validate rfc3629_next 4 (sample_delivery FLOWIE_SESSION_DELIVERY_WAIT_ACK) = Inr ()"
    by (auto simp: flowie_session_record_delivery_validate_def sample_delivery_def sample_packet_frame
        publish_delivery_ok_def)
  then show "stored_packets_ok rfc3629_next sample_busy"
    by (simp add: stored_packets_ok_def sample_busy sample_delivery_def sample_reservation_def persisted_delivery_def
        delivery_persisted_def persisted_state_def sample_promised_def sample_owner_def session_zero_def)
  show "stored_entries sample_busy = 2"
    by (simp add: stored_entries_def sample_busy sample_delivery_def sample_reservation_def delivery_persisted_def
        inflight_persisted_def sample_promised_def)
qed

theorem repository_roundtrip_witness:
  "\<exists>row s1 s. flowie_session_owner_repository_snapshot sample_busy = (Inr row, s1) \<and>
     flowie_session_owner_repository_restore rfc3629_next sample_config row [] = Inr s \<and>
     so_deliveries s = [sample_delivery FLOWIE_SESSION_DELIVERY_WAIT_ACK] \<and>
     so_inflight s = [\<lparr>if_packet_id = 7, if_qos = 2, if_state = FLOWIE_SESSION_INFLIGHT_QOS2_RELEASE\<rparr>] \<and>
     so_client_id s = Some [0x61] \<and> so_next_delivery_packet_id s = 2"
proof -
  note fields = sample_busy sample_promised_def sample_owner_def session_zero_def
  have config: "so_config sample_busy = sample_config" "sf_max_inflight sample_config = 4"
    by (simp_all add: fields sample_config_def)
  obtain row s1 where snapshot: "flowie_session_owner_repository_snapshot sample_busy = (Inr row, s1)"
    by (simp add: flowie_session_owner_repository_snapshot_def fields row_allocs_def session_attempt_def obind_def
        is_ok_def Let_def sample_delivery_def sample_reservation_def delivery_persisted_def delivery_row_def)
  have kept: "so_deliveries (persisted sample_busy) = [sample_delivery FLOWIE_SESSION_DELIVERY_WAIT_ACK]"
    "so_inflight (persisted sample_busy) = [\<lparr>if_packet_id = 7, if_qos = 2, if_state = FLOWIE_SESSION_INFLIGHT_QOS2_RELEASE\<rparr>]"
    "so_client_id (persisted sample_busy) = Some [0x61]" "so_next_delivery_packet_id (persisted sample_busy) = 2"
    by (simp_all add: persisted_def restored_deliveries_def fields sample_delivery_def sample_reservation_def
        persisted_delivery_def delivery_persisted_def persisted_state_def inflight_persisted_def)
  from repository_roundtrip [OF sample_busy_reachable snapshot, of "[]"]
  have "flowie_session_owner_repository_restore rfc3629_next sample_config row [] = Inr ((persisted sample_busy)\<lparr>so_faults := []\<rparr>)"
    by (simp add: config sample_busy_ok)
  with snapshot kept show ?thesis by auto
qed

lemma sample_restored:
  "flowie_session_owner_repository_restore rfc3629_next sample_config sample_row [] = Inr (persisted sample_owner)"
proof -
  have fields: "so_deliveries sample_owner = []" "so_inflight sample_owner = []" "so_config sample_owner = sample_config"
    "so_client_id sample_owner = Some [0x61]" "so_resource_generation sample_owner \<noteq> 0"
    by (simp_all add: sample_owner_def session_zero_def)
  have "(persisted sample_owner)\<lparr>so_faults := []\<rparr> = persisted sample_owner" by (simp add: persisted_def)
  then show ?thesis
    using restore_run [OF reachable_invariant [OF sample_reachable] sample_row_def, of rfc3629_next "[]"] fields
    by (simp add: sample_config_def)
qed

lemma sample_reconnect:
  "\<exists>result s'. flowie_session_owner_connect_impl rfc3629_next sample_connect False (persisted sample_owner) = (Inr result, s') \<and>
     cr_accepted result"
  using sample_client_id
  by (simp add: flowie_session_owner_connect_impl_def flowie_session_owner_open_impl_def open_checks_def sample_connect_def
      persisted_def sample_owner_def session_zero_def flowie_mqtt_version_is_supported_def flowie_session_expiry_def
      flowie_mqtt_version_is_3x_def Let_def session_allocs_no_faults obind_def open_will_def
      flowie_session_will_clear_def flowie_session_owner_route_def)

theorem restored_session_not_present_witness:
  "\<exists>result s'. flowie_session_owner_repository_restore rfc3629_next sample_config sample_row [] = Inr (persisted sample_owner) \<and>
     flowie_session_owner_connect_impl rfc3629_next sample_connect False (persisted sample_owner) = (Inr result, s') \<and>
     cr_accepted result \<and> \<not> cr_session_present result"
  using sample_restored sample_reconnect restored_session_not_present [OF sample_restored] by blast

end
