(* ===== verification/Flowie_Message.thy ===== *)
theory Flowie_Message
  imports Protocol_Contract
begin

text \<open>
  The message that carries one MQTT packet between the broker and its applications,
  \<open>flowie/src/flowie_message.c\<close> and \<open>flowie/include/flowie_message.h\<close>: the fixed flags with the
  protocol version, the route and the origin, and the settlement that an application completes.
  A field with its presence flag is an option; reference counts and the fields that only the
  transport uses are left out.
\<close>

section \<open>Data\<close>

record flowie_protocol_settlement_envelope =
  ev_message :: flowie_protocol_message
  ev_requested_point :: u32
  ev_settled_point :: u32

record flowie_message =
  mg_type :: u32
  mg_flags :: u32
  mg_payload :: bytes
  mg_route :: "flowie_protocol_route option"
  mg_origin :: "flowie_protocol_origin option"
  mg_settlement :: "flowie_protocol_settlement_envelope option"

record flowie_publish_result =
  pb_status :: "salts_error + unit"
  pb_protocol_settlement :: u32

definition FLOWIE_PUBLISH_RESULT_INIT :: flowie_publish_result where
  "FLOWIE_PUBLISH_RESULT_INIT = \<lparr>pb_status = Inr (), pb_protocol_settlement = 0\<rparr>"

section \<open>Operations\<close>

definition flowie_message_init :: flowie_message where
  "flowie_message_init =
     \<lparr>mg_type = 0, mg_flags = 0, mg_payload = [], mg_route = None, mg_origin = None, mg_settlement = None\<rparr>"

definition flowie_route_validate :: "flowie_protocol_route \<Rightarrow> salts_error + unit" where
  "flowie_route_validate route =
     (if rt_protocol route = FLOWIE_PROTOCOL_MQTT \<and> rt_owner_instance_id route \<noteq> 0 \<and> rt_session_id route \<noteq> 0 \<and>
         rt_session_generation route \<noteq> 0
      then Inr () else Inl SALTS_EINVAL)"

definition flowie_mqtt_message_flags_encode :: "flowie_mqtt_version \<Rightarrow> u8 \<Rightarrow> salts_error + u32" where
  "flowie_mqtt_message_flags_encode version fixed_flags =
     (if \<not> flowie_mqtt_version_is_supported version \<or> fixed_flags > 0x0f then Inl SALTS_EINVAL
      else Inr (push_bit 8 version OR ucast fixed_flags))"

definition flowie_mqtt_message_flags_version :: "u32 \<Rightarrow> salts_error + flowie_mqtt_version" where
  "flowie_mqtt_message_flags_version flags =
     (let version = drop_bit 8 flags AND 0xff in
      if \<not> flowie_mqtt_version_is_supported version then Inl SALTS_EPROTO else Inr version)"

definition flowie_message_set_protocol_route ::
    "flowie_protocol_route \<Rightarrow> flowie_message \<Rightarrow> salts_error + flowie_message" where
  "flowie_message_set_protocol_route route message =
     rbind (flowie_route_validate route) (\<lambda>_. Inr (message\<lparr>mg_route := Some route\<rparr>))"

definition flowie_message_set_protocol_origin ::
    "flowie_protocol_origin \<Rightarrow> flowie_message \<Rightarrow> salts_error + flowie_message" where
  "flowie_message_set_protocol_origin origin message =
     (if flowie_protocol_origin_validate origin \<noteq> Inr () then Inl SALTS_EINVAL
      else Inr (message\<lparr>mg_origin := Some origin\<rparr>))"

definition flowie_message_set_protocol_settlement ::
    "flowie_protocol_settlement_envelope \<Rightarrow> flowie_message \<Rightarrow> salts_error + flowie_message" where
  "flowie_message_set_protocol_settlement settlement message =
     (case mg_route message of
        None \<Rightarrow> Inl SALTS_EINVAL
      | Some route \<Rightarrow>
          if flowie_protocol_message_validate (ev_message settlement) \<noteq> Inr () \<or>
             ev_requested_point settlement < FLOWIE_PROTOCOL_SETTLE_RECEIVED \<or>
             ev_requested_point settlement > FLOWIE_PROTOCOL_SETTLE_DURABLE \<or> ev_settled_point settlement \<noteq> 0
          then Inl SALTS_EINVAL
          else if mg_settlement message \<noteq> None then Inl SALTS_EALREADY
          else if pm_protocol (ev_message settlement) \<noteq> rt_protocol route \<or>
                  pm_session_generation (ev_message settlement) \<noteq> rt_session_generation route
          then Inl SALTS_EPROTO
          else Inr (message\<lparr>mg_settlement := Some settlement\<rparr>))"

definition flowie_message_complete_protocol_settlement ::
    "u32 \<Rightarrow> flowie_message \<Rightarrow> salts_error + flowie_message" where
  "flowie_message_complete_protocol_settlement point message =
     (case mg_settlement message of
        None \<Rightarrow> Inl SALTS_EINVAL
      | Some settlement \<Rightarrow>
          if point \<noteq> ev_requested_point settlement then Inl SALTS_EINVAL
          else if ev_settled_point settlement \<noteq> 0 then Inl SALTS_EALREADY
          else Inr (message\<lparr>mg_settlement := Some (settlement\<lparr>ev_settled_point := point\<rparr>)\<rparr>))"

section \<open>Flags\<close>

lemma supported_version_cases:
  "flowie_mqtt_version_is_supported version \<Longrightarrow> version = 3 \<or> version = 4 \<or> version = 5"
  by (auto simp: flowie_mqtt_version_is_supported_def)

lemma flags_version:
  assumes "flowie_mqtt_version_is_supported version" "fixed_flags \<le> 0x0f"
  shows "drop_bit 8 (push_bit 8 version OR ucast (fixed_flags::u8)) AND 0xff = version"
proof -
  have "drop_bit 8 (ucast fixed_flags :: u32) = 0"
    by (rule bit_word_eqI) (auto simp: bit_simps dest: bit_imp_le_length)
  moreover have "drop_bit 8 (push_bit 8 version) AND 0xff = version"
    using supported_version_cases [OF assms(1)] by auto
  ultimately show ?thesis by (simp add: drop_bit_or bit_simps)
qed

lemma flags_fixed:
  assumes "flowie_mqtt_version_is_supported version" "fixed_flags \<le> 0x0f"
  shows "ucast (push_bit 8 version OR ucast (fixed_flags::u8)) = fixed_flags"
proof -
  have "ucast (push_bit 8 version) = (0::u8)"
    using supported_version_cases [OF assms(1)] by auto
  moreover have "ucast (ucast fixed_flags :: u32) = fixed_flags"
    by (rule bit_word_eqI) (simp add: bit_simps)
  ultimately show ?thesis by (simp add: unsigned_or_eq)
qed

text \<open>The flags of a message keep the version and the fixed flags of its packet.\<close>

lemma message_flags_roundtrip:
  "flowie_mqtt_message_flags_encode version fixed_flags = Inr flags \<Longrightarrow>
     flowie_mqtt_message_flags_version flags = Inr version \<and> ucast flags = fixed_flags"
  using flags_version [of version fixed_flags] flags_fixed [of version fixed_flags]
  by (auto simp: flowie_mqtt_message_flags_encode_def flowie_mqtt_message_flags_version_def
      not_less Let_def simp del: drop_bit_or split: if_splits)

text \<open>A settlement is completed at most once, at the point that was requested.\<close>

lemma settlement_completed_once:
  assumes "flowie_message_complete_protocol_settlement point message = Inr message'"
    "flowie_message_set_protocol_settlement settlement before = Inr message"
  shows "point = ev_requested_point settlement \<and>
    flowie_message_complete_protocol_settlement point' message' =
      Inl (if point' = point then SALTS_EALREADY else SALTS_EINVAL)"
proof -
  have here: "mg_settlement message = Some settlement" "ev_requested_point settlement \<noteq> 0"
    using assms(2) by (auto simp: flowie_message_set_protocol_settlement_def split: if_splits option.splits)
  then have "point = ev_requested_point settlement"
    "message' = message\<lparr>mg_settlement := Some (settlement\<lparr>ev_settled_point := point\<rparr>)\<rparr>"
    using assms(1) by (auto simp: flowie_message_complete_protocol_settlement_def split: if_splits)
  then show ?thesis using here by (simp add: flowie_message_complete_protocol_settlement_def)
qed

end
