(* ===== verification/Flowie_Ingress.thy ===== *)
theory Flowie_Ingress
  imports Flowie_Message Mqtt_Framing Mqtt_Parse
begin

text \<open>
  The receive path of a connection, \<open>flowie/src/flowie_ingress.c\<close>: bytes of the transport are
  buffered, complete packets are taken off the buffer, a hook of the protocol owner sees each of
  them, and the packets it selects go to the application. Callbacks are arguments that act on a
  context of their own and on the slots that they may set through the functions of the ingress.
  The frame buffer is a list of bytes with a capacity; the outcomes of coming
  allocations are part of the ingress.
\<close>

section \<open>Data\<close>

text \<open>What callbacks set: the route, the settlement and the replacement of the current packet.\<close>

record flowie_ingress_slots =
  is_route :: "flowie_protocol_route option"
  is_protocol_settlement :: "flowie_protocol_settlement_envelope option"
  is_publish_packet_override :: "bytes option"

record flowie_ingress =
  ig_parse_options :: flowie_mqtt_parse_options
  ig_capacity :: nat
  ig_framing :: bytes
  ig_slots :: flowie_ingress_slots
  ig_terminal_error :: "salts_error option"
  ig_disconnect_reason :: u8
  ig_faults :: faults

text \<open>The prepare hook returns whether the packet is published and whether the pump stops.\<close>

record 'c flowie_ingress_callbacks =
  cb_prepare :: "('c \<Rightarrow> flowie_mqtt_version \<Rightarrow> flowie_ingress_slots \<Rightarrow> flowie_mqtt_packet_view \<Rightarrow>
                    (salts_error + bool \<times> bool) \<times> 'c \<times> flowie_ingress_slots) option"
  cb_dispatch :: "'c \<Rightarrow> flowie_message \<Rightarrow> (salts_error + unit) \<times> flowie_publish_result \<times> flowie_message \<times> 'c"
  cb_publish_complete :: "('c \<Rightarrow> flowie_ingress_slots \<Rightarrow> flowie_message \<Rightarrow> flowie_publish_result \<Rightarrow>
                    (salts_error + unit) \<times> 'c \<times> flowie_ingress_slots) option"

record flowie_ingress_config =
  ic_version :: flowie_mqtt_version
  ic_max_packet_size :: nat
  ic_route :: "flowie_protocol_route option"

section \<open>Setters\<close>

definition flowie_ingress_set_route ::
    "flowie_protocol_route \<Rightarrow> flowie_ingress_slots \<Rightarrow> salts_error + flowie_ingress_slots" where
  "flowie_ingress_set_route route slots =
     rbind (flowie_message_set_protocol_route route flowie_message_init) (\<lambda>_.
       Inr (slots\<lparr>is_route := Some route\<rparr>))"

definition flowie_ingress_set_protocol_settlement ::
    "flowie_protocol_settlement_envelope \<Rightarrow> flowie_ingress_slots \<Rightarrow> salts_error + flowie_ingress_slots" where
  "flowie_ingress_set_protocol_settlement settlement slots =
     (if flowie_protocol_message_validate (ev_message settlement) \<noteq> Inr () \<or> ev_settled_point settlement \<noteq> 0
      then Inl SALTS_EINVAL
      else Inr (slots\<lparr>is_protocol_settlement := Some settlement\<rparr>))"

text \<open>The first argument is the outcome of the allocation.\<close>

definition flowie_ingress_set_publish_packet ::
    "bool \<Rightarrow> bytes \<Rightarrow> flowie_ingress_slots \<Rightarrow> salts_error + flowie_ingress_slots" where
  "flowie_ingress_set_publish_packet allocated packet slots =
     (if packet = [] \<or> is_publish_packet_override slots \<noteq> None then Inl SALTS_EINVAL
      else if \<not> allocated then Inl SALTS_ENOMEM
      else Inr (slots\<lparr>is_publish_packet_override := Some packet\<rparr>))"

section \<open>Errors\<close>

definition flowie_ingress_parse_disconnect_reason :: "flowie_mqtt_parse_result \<Rightarrow> u8" where
  "flowie_ingress_parse_disconnect_reason parse_rc =
     (case parse_rc of
        FLOWIE_MQTT_PARSE_MALFORMED \<Rightarrow> 0x81
      | FLOWIE_MQTT_PARSE_PROTOCOL_ERROR \<Rightarrow> 0x82
      | FLOWIE_MQTT_PARSE_TOO_LARGE \<Rightarrow> 0x95
      | _ \<Rightarrow> 0)"

definition flowie_ingress_parse_error :: "flowie_mqtt_parse_result \<Rightarrow> salts_error" where
  "flowie_ingress_parse_error parse_rc =
     (case parse_rc of
        FLOWIE_MQTT_PARSE_NO_MEMORY \<Rightarrow> SALTS_ENOMEM
      | FLOWIE_MQTT_PARSE_TOO_LARGE \<Rightarrow> SALTS_EMSGSIZE
      | FLOWIE_MQTT_PARSE_INVALID_ARGUMENT \<Rightarrow> SALTS_EINVAL
      | _ \<Rightarrow> SALTS_EPROTO)"

definition ingress_attempt :: "flowie_ingress \<Rightarrow> bool \<times> flowie_ingress" where
  "ingress_attempt ingress =
     (case ig_faults ingress of
        [] \<Rightarrow> (True, ingress)
      | status # rest \<Rightarrow> (is_ok (flowie_stl_error status), ingress\<lparr>ig_faults := rest\<rparr>))"

section \<open>One packet\<close>

definition flowie_ingress_message_create ::
    "flowie_ingress \<Rightarrow> flowie_mqtt_packet_view \<Rightarrow> bytes \<Rightarrow> bool \<Rightarrow> salts_error + flowie_message" where
  "flowie_ingress_message_create ingress packet bytes allocated =
     rbind (flowie_mqtt_message_flags_encode (po_version (ig_parse_options ingress)) (pv_flags packet)) (\<lambda>flags.
       if \<not> allocated then Inl SALTS_ENOMEM
       else let msg = flowie_message_init\<lparr>mg_type := pv_type packet, mg_flags := flags, mg_payload := bytes\<rparr> in
         rbind (case is_route (ig_slots ingress) of
                  None \<Rightarrow> Inr msg
                | Some route \<Rightarrow> flowie_message_set_protocol_route route msg) (\<lambda>msg.
         case is_protocol_settlement (ig_slots ingress) of
           None \<Rightarrow> Inr msg
         | Some settlement \<Rightarrow> flowie_message_set_protocol_settlement settlement msg))"

text \<open>A step of the pump returns from it, or goes on to the next packet, and counts what it published.\<close>

datatype pump_verdict = Pump_return "salts_error + unit" | Pump_continue

definition version_gate ::
    "utf8_next \<Rightarrow> flowie_mqtt_packet_view \<Rightarrow> flowie_ingress \<Rightarrow> flowie_ingress option" where
  "version_gate un packet ingress =
     (if po_version (ig_parse_options ingress) = FLOWIE_MQTT_VERSION_UNSPECIFIED
      then if pv_type packet \<noteq> FLOWIE_MQTT_PACKET_CONNECT then None
           else (case flowie_mqtt_connect_parse un packet of
                   Inl e \<Rightarrow> None
                 | Inr connect \<Rightarrow>
                     Some (ingress\<lparr>ig_parse_options := (ig_parse_options ingress)\<lparr>po_version := cv_version connect\<rparr>\<rparr>))
      else if pv_type packet = FLOWIE_MQTT_PACKET_CONNECT then None else Some ingress)"

definition consume_framing :: "nat \<Rightarrow> flowie_ingress \<Rightarrow> flowie_ingress" where
  "consume_framing consumed ingress = ingress\<lparr>ig_framing := drop consumed (ig_framing ingress)\<rparr>"

definition drop_override :: "flowie_ingress \<Rightarrow> flowie_ingress" where
  "drop_override ingress = ingress\<lparr>ig_slots := (ig_slots ingress)\<lparr>is_publish_packet_override := None\<rparr>\<rparr>"

definition pump_publish ::
    "'c flowie_ingress_callbacks \<Rightarrow> flowie_mqtt_packet_view \<Rightarrow> nat \<Rightarrow> bool \<Rightarrow> 'c \<Rightarrow> flowie_ingress \<Rightarrow>
       pump_verdict \<times> nat \<times> 'c \<times> flowie_ingress" where
  "pump_publish callbacks packet consumed stop ctx ingress =
     (let (allocated, ingress1) = ingress_attempt ingress;
          bytes = (case is_publish_packet_override (ig_slots ingress1) of
                     Some replacement \<Rightarrow> replacement
                   | None \<Rightarrow> take consumed (ig_framing ingress1));
          created = flowie_ingress_message_create ingress1 packet bytes allocated;
          ingress2 = drop_override ingress1;
          ingress3 = ingress2\<lparr>ig_slots := (ig_slots ingress2)\<lparr>is_protocol_settlement := None\<rparr>\<rparr>
      in case created of
           Inl e \<Rightarrow> (Pump_return (Inl e), 0, ctx, ingress3)
         | Inr msg \<Rightarrow>
             let ingress4 = consume_framing consumed ingress3;
                 (rc, result, msg', ctx1) = cb_dispatch callbacks ctx msg;
                 (rc', ctx2, slots) =
                   (case cb_publish_complete callbacks of
                      None \<Rightarrow> (rc, ctx1, ig_slots ingress4)
                    | Some complete \<Rightarrow>
                        (let (completion_rc, ctx', slots') = complete ctx1 (ig_slots ingress4) msg' result
                         in (if rc = Inr () then completion_rc else rc, ctx', slots')));
                 ingress5 = ingress4\<lparr>ig_slots := slots\<rparr>
             in if rc' \<noteq> Inr () then (Pump_return rc', 0, ctx2, ingress5)
                else if stop then (Pump_return (Inr ()), 1, ctx2, ingress5)
                else (Pump_continue, 1, ctx2, ingress5))"

definition pump_packet ::
    "'c flowie_ingress_callbacks \<Rightarrow> flowie_mqtt_packet_view \<Rightarrow> nat \<Rightarrow> 'c \<Rightarrow> flowie_ingress \<Rightarrow>
       pump_verdict \<times> nat \<times> 'c \<times> flowie_ingress" where
  "pump_packet callbacks packet consumed ctx ingress =
     (case cb_prepare callbacks of
        None \<Rightarrow> pump_publish callbacks packet consumed False ctx ingress
      | Some prepare \<Rightarrow>
          let ingress1 = ingress\<lparr>ig_slots := (ig_slots ingress)\<lparr>is_protocol_settlement := None\<rparr>\<rparr>;
              (rc, ctx1, slots) = prepare ctx (po_version (ig_parse_options ingress1)) (ig_slots ingress1) packet;
              ingress2 = ingress1\<lparr>ig_slots := slots\<rparr>
          in case rc of
               Inl e \<Rightarrow>
                 (Pump_return (Inl e), 0, ctx1,
                  drop_override
                    (if e = SALTS_EPROTO then ingress2\<lparr>ig_disconnect_reason := 0x82\<rparr>
                     else if e = SALTS_EMSGSIZE then ingress2\<lparr>ig_disconnect_reason := 0x95\<rparr> else ingress2))
             | Inr (publish_packet, stop) \<Rightarrow>
                 if publish_packet then pump_publish callbacks packet consumed stop ctx1 ingress2
                 else (if stop then Pump_return (Inr ()) else Pump_continue, 0, ctx1,
                       consume_framing consumed (drop_override ingress2)))"

definition pump_step ::
    "utf8_next \<Rightarrow> 'c flowie_ingress_callbacks \<Rightarrow> 'c \<Rightarrow> flowie_ingress \<Rightarrow>
       pump_verdict \<times> nat \<times> 'c \<times> flowie_ingress" where
  "pump_step un callbacks ctx ingress =
     (if ig_framing ingress = [] then (Pump_return (Inr ()), 0, ctx, ingress)
      else let (allocated, ingress) = ingress_attempt ingress in
        case map_error pe_code (flowie_mqtt_packet_parse allocated (Span (ig_framing ingress))
               (Some (ig_parse_options ingress))) of
          Inl rc \<Rightarrow>
            if rc = FLOWIE_MQTT_PARSE_NEED_MORE then (Pump_return (Inr ()), 0, ctx, ingress)
            else (Pump_return (Inl (flowie_ingress_parse_error rc)), 0, ctx,
                  ingress\<lparr>ig_disconnect_reason := flowie_ingress_parse_disconnect_reason rc\<rparr>)
        | Inr (packet, consumed) \<Rightarrow>
            if consumed = 0 \<or> consumed > length (ig_framing ingress)
            then (Pump_return (Inl SALTS_EPROTO), 0, ctx, ingress\<lparr>ig_disconnect_reason := 0x81\<rparr>)
            else case version_gate un packet ingress of
              None \<Rightarrow> (Pump_return (Inl SALTS_EPROTO), 0, ctx, ingress\<lparr>ig_disconnect_reason := 0x82\<rparr>)
            | Some ingress \<Rightarrow> pump_packet callbacks packet consumed ctx ingress)"

section \<open>The pump\<close>

lemma ingress_attempt_framing: "ig_framing (snd (ingress_attempt ingress)) = ig_framing ingress"
  by (simp add: ingress_attempt_def split: list.splits)

lemma version_gate_framing: "version_gate un packet ingress = Some ingress' \<Longrightarrow> ig_framing ingress' = ig_framing ingress"
  by (auto simp: version_gate_def split: if_splits sum.splits)

lemma pump_publish_continue:
  "pump_publish callbacks packet consumed stop ctx ingress = (Pump_continue, n, ctx', ingress') \<Longrightarrow>
     ig_framing ingress' = drop consumed (ig_framing ingress)"
  using ingress_attempt_framing [of ingress]
  by (auto simp: pump_publish_def consume_framing_def drop_override_def Let_def split: prod.splits sum.splits if_splits)

lemma pump_packet_continue:
  "pump_packet callbacks packet consumed ctx ingress = (Pump_continue, n, ctx', ingress') \<Longrightarrow>
     ig_framing ingress' = drop consumed (ig_framing ingress)"
  by (auto simp: pump_packet_def consume_framing_def drop_override_def Let_def dest!: pump_publish_continue
      split: option.splits prod.splits sum.splits if_splits)

lemma pump_step_shorter:
  "pump_step un callbacks ctx ingress = (Pump_continue, n, ctx', ingress') \<Longrightarrow>
     length (ig_framing ingress') < length (ig_framing ingress)"
  using ingress_attempt_framing [of ingress]
  by (auto simp: pump_step_def dest!: pump_packet_continue version_gate_framing
      split: prod.splits sum.splits if_splits option.splits)

function flowie_ingress_pump ::
    "utf8_next \<Rightarrow> 'c flowie_ingress_callbacks \<Rightarrow> nat \<Rightarrow> 'c \<Rightarrow> flowie_ingress \<Rightarrow>
       (salts_error + unit) \<times> nat \<times> 'c \<times> flowie_ingress" where
  "flowie_ingress_pump un callbacks published ctx ingress =
     (case pump_step un callbacks ctx ingress of
        (Pump_return rc, n, ctx', ingress') \<Rightarrow> (rc, published + n, ctx', ingress')
      | (Pump_continue, n, ctx', ingress') \<Rightarrow> flowie_ingress_pump un callbacks (published + n) ctx' ingress')"
  by pat_completeness auto
termination
  by (relation "measure (\<lambda>(un, callbacks, published, ctx, ingress). length (ig_framing ingress))")
     (auto dest!: pump_step_shorter [OF sym])

declare flowie_ingress_pump.simps [simp del]

section \<open>Feeding bytes\<close>

definition flowie_ingress_terminal :: "salts_error + unit \<Rightarrow> flowie_ingress \<Rightarrow> flowie_ingress" where
  "flowie_ingress_terminal rc ingress =
     (case rc of Inl e \<Rightarrow> ingress\<lparr>ig_terminal_error := Some e\<rparr> | Inr u \<Rightarrow> ingress)"

text \<open>The buffer has room when the step before has taken packets off it; otherwise the packet at its
  front is larger than the buffer.\<close>

function feed_loop ::
    "utf8_next \<Rightarrow> 'c flowie_ingress_callbacks \<Rightarrow> bytes \<Rightarrow> nat \<Rightarrow> 'c \<Rightarrow> flowie_ingress \<Rightarrow>
       (salts_error + unit) \<times> nat \<times> 'c \<times> flowie_ingress" where
  "feed_loop un callbacks remaining published ctx ingress =
     (if remaining = [] then (Inr (), published, ctx, ingress)
      else case (if ig_capacity ingress - length (ig_framing ingress) = 0
                 then flowie_ingress_pump un callbacks published ctx ingress
                 else (Inr (), published, ctx, ingress)) of
        (Inl e, published, ctx, ingress) \<Rightarrow> (Inl e, published, ctx, flowie_ingress_terminal (Inl e) ingress)
      | (Inr u, published, ctx, ingress) \<Rightarrow>
          let writable = ig_capacity ingress - length (ig_framing ingress) in
          if writable = 0
          then (Inl SALTS_EMSGSIZE, published, ctx, flowie_ingress_terminal (Inl SALTS_EMSGSIZE) ingress)
          else let chunk = take writable remaining;
                   (allocated, ingress) = ingress_attempt ingress in
            if \<not> allocated
            then (Inl SALTS_ENOMEM, published, ctx, flowie_ingress_terminal (Inl SALTS_ENOMEM) ingress)
            else case flowie_ingress_pump un callbacks published ctx
                        (ingress\<lparr>ig_framing := ig_framing ingress @ chunk\<rparr>) of
              (Inl e, published, ctx, ingress) \<Rightarrow> (Inl e, published, ctx, flowie_ingress_terminal (Inl e) ingress)
            | (Inr u, published, ctx, ingress) \<Rightarrow>
                feed_loop un callbacks (drop writable remaining) published ctx ingress)"
  by pat_completeness auto
termination
  by (relation "measure (\<lambda>(un, callbacks, remaining, published, ctx, ingress). length remaining)")
     (auto simp: neq_Nil_conv)

declare feed_loop.simps [simp del]

definition flowie_ingress_feed ::
    "utf8_next \<Rightarrow> 'c flowie_ingress_callbacks \<Rightarrow> bytes \<Rightarrow> 'c \<Rightarrow> flowie_ingress \<Rightarrow>
       (salts_error + unit) \<times> nat \<times> 'c \<times> flowie_ingress" where
  "flowie_ingress_feed un callbacks data ctx ingress =
     (case ig_terminal_error ingress of
        Some e \<Rightarrow> (Inl e, 0, ctx, ingress)
      | None \<Rightarrow> feed_loop un callbacks data 0 ctx ingress)"

definition flowie_ingress_resume ::
    "utf8_next \<Rightarrow> 'c flowie_ingress_callbacks \<Rightarrow> 'c \<Rightarrow> flowie_ingress \<Rightarrow>
       (salts_error + unit) \<times> nat \<times> 'c \<times> flowie_ingress" where
  "flowie_ingress_resume un callbacks ctx ingress =
     (case ig_terminal_error ingress of
        Some e \<Rightarrow> (Inl e, 0, ctx, ingress)
      | None \<Rightarrow>
          (case flowie_ingress_pump un callbacks 0 ctx ingress of
             (rc, published, ctx, ingress) \<Rightarrow> (rc, published, ctx, flowie_ingress_terminal rc ingress)))"

definition flowie_ingress_create :: "flowie_ingress_config \<Rightarrow> faults \<Rightarrow> flowie_ingress option" where
  "flowie_ingress_create config faults =
     (if ic_version config \<noteq> FLOWIE_MQTT_VERSION_UNSPECIFIED \<and> \<not> flowie_mqtt_version_is_supported (ic_version config)
      then None
      else let max_packet_size = (if ic_max_packet_size config \<noteq> 0 then ic_max_packet_size config
                                  else FLOWIE_MQTT_MAX_WIRE_PACKET_SIZE) in
        if max_packet_size > FLOWIE_MQTT_MAX_WIRE_PACKET_SIZE then None
        else let (allocated, ingress) = ingress_attempt
                   \<lparr>ig_parse_options = \<lparr>po_version = ic_version config, po_max_packet_size = max_packet_size\<rparr>,
                    ig_capacity = max_packet_size, ig_framing = [],
                    ig_slots = \<lparr>is_route = ic_route config, is_protocol_settlement = None,
                                is_publish_packet_override = None\<rparr>,
                    ig_terminal_error = None, ig_disconnect_reason = 0, ig_faults = faults\<rparr>
          in if \<not> allocated then None
             else if (case ic_route config of
                        None \<Rightarrow> False
                      | Some route \<Rightarrow> flowie_route_validate route \<noteq> Inr ()) then None
             else case ingress_attempt ingress of (allocated, ingress) \<Rightarrow> if allocated then Some ingress else None)"

end
