(* ===== verification/Ingress_Stream.thy ===== *)
theory Ingress_Stream
  imports Flowie_Ingress
begin

text \<open>
  The receive path of \<open>flowie/src/flowie_ingress.c\<close> does not depend on how the transport cuts the
  byte stream into chunks: the same packets are handed to the callbacks, in the same order and with
  the same effect, and the same error ends the connection. A prepare hook may pause the pump, as the one
  of the endpoint does; the owner of the connection then resumes it until the buffer no longer shrinks.
\<close>

section \<open>More bytes in the buffer\<close>

abbreviation more_bytes :: "bytes \<Rightarrow> flowie_ingress \<Rightarrow> flowie_ingress" where
  "more_bytes d ig \<equiv> ig\<lparr>ig_framing := ig_framing ig @ d\<rparr>"

definition never_stops :: "'c flowie_ingress_callbacks \<Rightarrow> bool" where
  "never_stops cb \<longleftrightarrow>
     (case cb_prepare cb of
        None \<Rightarrow> True
      | Some prepare \<Rightarrow> \<forall>ctx version slots packet publish stop.
          fst (prepare ctx version slots packet) = Inr (publish, stop) \<longrightarrow> \<not> stop)"

definition ingress_ok :: "flowie_ingress \<Rightarrow> bool" where
  "ingress_ok ig \<longleftrightarrow> options_ok (ig_parse_options ig) \<and> ig_faults ig = [] \<and>
     ig_capacity ig = packet_limit (ig_parse_options ig) \<and> 6 \<le> ig_capacity ig"

lemma ingress_ok_frame [simp]:
  "ingress_ok (ig\<lparr>ig_framing := bs\<rparr>) = ingress_ok ig"
  "ingress_ok (ig\<lparr>ig_slots := slots\<rparr>) = ingress_ok ig"
  "ingress_ok (ig\<lparr>ig_disconnect_reason := r\<rparr>) = ingress_ok ig"
  "ingress_ok (ig\<lparr>ig_terminal_error := t\<rparr>) = ingress_ok ig"
  by (simp_all add: ingress_ok_def)

lemma ingress_attempt_ok: "ig_faults ig = [] \<Longrightarrow> ingress_attempt ig = (True, ig)"
  by (simp add: ingress_attempt_def)

lemma connect_version_supported:
  "flowie_mqtt_connect_parse un packet = Inr connect \<Longrightarrow> flowie_mqtt_version_is_supported (cv_version connect)"
  by (auto simp: flowie_mqtt_connect_parse_def rbind_Inr_iff Let_def split: if_splits prod.splits)

lemma version_gate_ok: "version_gate un packet ig = Some ig' \<Longrightarrow> ingress_ok ig \<Longrightarrow> ingress_ok ig'"
  by (auto simp: version_gate_def ingress_ok_def options_ok_def packet_limit_def dest: connect_version_supported
      split: if_splits sum.splits)

lemma version_gate_more:
  "version_gate un packet (more_bytes d ig) = map_option (more_bytes d) (version_gate un packet ig)"
  by (simp add: version_gate_def split: sum.split)

lemma message_create_more [simp]:
  "flowie_ingress_message_create (more_bytes d ig) = flowie_ingress_message_create ig"
  by (simp add: flowie_ingress_message_create_def fun_eq_iff Let_def cong: if_cong option.case_cong)

lemma pump_publish_more:
  assumes "ig_faults ig = []" "consumed \<le> length (ig_framing ig)"
    and "pump_publish cb packet consumed stop ctx ig = (v, n, ctx', ig')"
  shows "pump_publish cb packet consumed stop ctx (more_bytes d ig) = (v, n, ctx', more_bytes d ig')"
proof -
  let ?bytes = "case is_publish_packet_override (ig_slots ig) of
      Some replacement \<Rightarrow> replacement | None \<Rightarrow> take consumed (ig_framing ig)"
  note run = pump_publish_def ingress_attempt_ok consume_framing_def drop_override_def Let_def
  have bytes: "(case is_publish_packet_override (ig_slots ig) of
      Some replacement \<Rightarrow> replacement | None \<Rightarrow> take consumed (ig_framing ig @ d)) = ?bytes"
    using assms(2) by (simp split: option.split)
  show ?thesis
  proof (cases "flowie_ingress_message_create ig packet ?bytes True")
    case (Inl e)
    then show ?thesis using assms by (auto simp: run bytes cong: option.case_cong)
  next
    case (Inr msg)
    obtain rc result msg' ctx1 where dispatch: "cb_dispatch cb ctx msg = (rc, result, msg', ctx1)"
      by (metis prod_cases4)
    show ?thesis
      using assms Inr dispatch
      by (cases "cb_publish_complete cb") (auto simp: run bytes cong: option.case_cong split: prod.splits if_splits)
  qed
qed

lemma more_bytes_slots: "(more_bytes d ig)\<lparr>ig_slots := slots\<rparr> = more_bytes d (ig\<lparr>ig_slots := slots\<rparr>)"
  by (rule flowie_ingress.equality) simp_all

lemma pump_packet_more:
  assumes "ig_faults ig = []" "consumed \<le> length (ig_framing ig)"
    and "pump_packet cb packet consumed ctx ig = (v, n, ctx', ig')"
  shows "pump_packet cb packet consumed ctx (more_bytes d ig) = (v, n, ctx', more_bytes d ig')"
proof (cases "cb_prepare cb")
  case None
  then show ?thesis using assms by (simp add: pump_packet_def pump_publish_more)
next
  case (Some prepare)
  obtain rc ctx1 slots where run: "prepare ctx (po_version (ig_parse_options ig))
      ((ig_slots ig)\<lparr>is_protocol_settlement := None\<rparr>) packet = (rc, ctx1, slots)"
    by (metis prod_cases3)
  have publish: "pump_publish cb packet consumed stop ctx1 ((more_bytes d ig)\<lparr>ig_slots := slots\<rparr>) =
      (v, n, ctx', more_bytes d ig')"
    if "pump_publish cb packet consumed stop ctx1 (ig\<lparr>ig_slots := slots\<rparr>) = (v, n, ctx', ig')" for stop
    unfolding more_bytes_slots by (rule pump_publish_more) (use assms that in simp_all)
  show ?thesis
    using assms publish
    by (cases rc) (auto simp: pump_packet_def Some run consume_framing_def drop_override_def Let_def split: if_splits)
qed

section \<open>Steps of the pump\<close>

lemma pump_publish_returns:
  "pump_publish cb packet consumed False ctx ig = (Pump_return (Inr ()), n, ctx', ig') \<Longrightarrow> False"
  by (auto simp: pump_publish_def Let_def split: prod.splits sum.splits if_splits)

lemma pump_packet_returns:
  assumes "never_stops cb" "pump_packet cb packet consumed ctx ig = (Pump_return (Inr ()), n, ctx', ig')"
  shows False
  using assms
  by (auto simp: pump_packet_def never_stops_def Let_def dest: pump_publish_returns
      split: prod.splits sum.splits if_splits option.splits)
     (metis fst_conv pump_publish_returns)+

lemma pump_publish_ok:
  "pump_publish cb packet consumed stop ctx ig = (v, n, ctx', ig') \<Longrightarrow> ingress_ok ig \<Longrightarrow> ingress_ok ig'"
  by (auto simp: pump_publish_def consume_framing_def drop_override_def Let_def ingress_attempt_ok ingress_ok_def
      split: prod.splits sum.splits if_splits)

lemma pump_packet_ok:
  "pump_packet cb packet consumed ctx ig = (v, n, ctx', ig') \<Longrightarrow> ingress_ok ig \<Longrightarrow> ingress_ok ig'"
  using pump_publish_ok [of cb packet consumed]
  by (auto simp: pump_packet_def consume_framing_def drop_override_def Let_def
      split: prod.splits sum.splits if_splits option.splits)

lemma vbi_need_more:
  "vbi_loop offset r m bs = Inl FLOWIE_MQTT_PARSE_NEED_MORE \<Longrightarrow> offset \<le> 4 \<Longrightarrow> length bs + offset \<le> 4"
  by (induction offset r m bs rule: vbi_loop.induct) (auto simp: Let_def split: if_splits)

lemma frame_need_more:
  assumes "frame_parse version limit bs = Inl FLOWIE_MQTT_PARSE_NEED_MORE" "6 \<le> limit"
  shows "length bs < limit"
proof (cases bs)
  case (Cons first after)
  show ?thesis
  proof (cases "vbi_loop 0 0 1 after")
    case (Inl e)
    then have "e = FLOWIE_MQTT_PARSE_NEED_MORE"
      using assms(1) by (auto simp: frame_parse_def Cons split: if_splits)
    with Inl vbi_need_more [of 0 0 1 after] assms(2) show ?thesis by (simp add: Cons)
  next
    case (Inr x)
    obtain rl n rest where x: "x = (rl, n, rest)" by (metis prod_cases3)
    have "after = flowie_mqtt_vbi_write rl @ rest" "n = flowie_mqtt_vbi_size rl"
      "unat rl \<le> FLOWIE_MQTT_MAX_REMAINING_LENGTH"
      using Inr x by (simp_all add: vbi_loop_iff)
    then show ?thesis
      using assms(1) Inr x by (auto simp: frame_parse_def Cons length_vbi_write split: if_splits)
  qed
qed (use assms in simp)

lemma frame_consumed:
  "frame_parse version limit bs = Inr (pv, n) \<Longrightarrow> n \<noteq> 0 \<and> n \<le> length bs"
  by (auto simp: frame_parse_iff length_vbi_write)

text \<open>A step either waits for more bytes and changes nothing, or it does the same when more bytes have
  arrived.\<close>

lemma pump_step_cases:
  assumes run: "pump_step un cb ctx ig = (v, n, ctx', ig')" and ok: "ingress_ok ig" and cb: "never_stops cb"
  obtains (wait) "v = Pump_return (Inr ())" "n = 0" "ctx' = ctx" "ig' = ig" "length (ig_framing ig) < ig_capacity ig"
  | (act) "v \<noteq> Pump_return (Inr ())" "ingress_ok ig'"
      "\<And>d. pump_step un cb ctx (more_bytes d ig) = (v, n, ctx', more_bytes d ig')"
proof -
  let ?frame = "frame_parse (po_version (ig_parse_options ig)) (packet_limit (ig_parse_options ig))"
  have parse: "map_error pe_code (flowie_mqtt_packet_parse True (Span bs) (Some (ig_parse_options ig))) = ?frame bs" for bs
    by (rule packet_parse_frame) (use ok in \<open>simp add: ingress_ok_def\<close>)
  have facts: "ig_faults ig = []" "6 \<le> packet_limit (ig_parse_options ig)"
    "ig_capacity ig = packet_limit (ig_parse_options ig)" "ig_faults (more_bytes d ig) = []" for d
    using ok by (simp_all add: ingress_ok_def)
  show thesis
  proof (cases "ig_framing ig = []")
    case True
    then show thesis using run facts by (intro wait) (simp_all add: pump_step_def)
  next
    case False
    note step = pump_step_def ingress_attempt_ok facts(1,4) parse False
    show thesis
    proof (cases "?frame (ig_framing ig)")
      case (Inl e)
      show thesis
      proof (cases "e = FLOWIE_MQTT_PARSE_NEED_MORE")
        case True
        then have "length (ig_framing ig) < ig_capacity ig"
          using frame_need_more [of _ _ "ig_framing ig"] Inl facts by simp
        then show thesis using run True Inl by (intro wait) (simp_all add: step)
      next
        case False
        then have "?frame (ig_framing ig @ d) = Inl e" for d
          using frame_parse_append_error [OF Inl] by simp
        then show thesis using run False Inl ok by (intro act) (auto simp: step)
      qed
    next
      case (Inr x)
      obtain packet consumed where x: "x = (packet, consumed)" by fastforce
      have consumed: "consumed \<noteq> 0" "consumed \<le> length (ig_framing ig)"
        using frame_consumed Inr x by blast+
      have more: "?frame (ig_framing ig @ d) = Inr (packet, consumed)" for d
        using frame_parse_append_ok Inr x by simp
      show thesis
      proof (cases "version_gate un packet ig")
        case None
        then show thesis using run ok Inr x consumed more by (intro act) (auto simp: step version_gate_more)
      next
        case (Some ig1)
        have ig1: "ingress_ok ig1" "ig_faults ig1 = []" "consumed \<le> length (ig_framing ig1)"
          using version_gate_ok [OF Some ok] version_gate_framing [OF Some] consumed(2) by (simp_all add: ingress_ok_def)
        have packet: "pump_packet cb packet consumed ctx ig1 = (v, n, ctx', ig')"
          using run Inr x consumed Some by (simp add: step)
        show thesis
        proof (rule act)
          show "v \<noteq> Pump_return (Inr ())" using pump_packet_returns [OF cb] packet by blast
          show "ingress_ok ig'" by (rule pump_packet_ok [OF packet ig1(1)])
          show "pump_step un cb ctx (more_bytes d ig) = (v, n, ctx', more_bytes d ig')" for d
            using pump_packet_more [OF ig1(2,3) packet, of d] more [of d] consumed Some
            by (simp add: step version_gate_more)
        qed
      qed
    qed
  qed
qed

lemma more_bytes_more [simp]: "more_bytes e (more_bytes d ig) = more_bytes (d @ e) ig"
  by simp

section \<open>A hook that pauses the pump\<close>

text \<open>The same callbacks without the pauses.\<close>

definition unstopped :: "'c flowie_ingress_callbacks \<Rightarrow> 'c flowie_ingress_callbacks" where
  "unstopped cb = cb\<lparr>cb_prepare := map_option (\<lambda>prepare ctx version slots packet.
     case prepare ctx version slots packet of
       (rc, ctx', slots') \<Rightarrow> (map_sum id (\<lambda>(publish, stop). (publish, False)) rc, ctx', slots')) (cb_prepare cb)\<rparr>"

lemma unstopped_never_stops: "never_stops (unstopped cb)"
proof (cases "cb_prepare cb")
  case (Some prepare)
  have "\<not> stop" if "fst (case prepare ctx version slots packet of (rc, ctx', slots') \<Rightarrow>
      (map_sum id (\<lambda>(publish, stop). (publish, False)) rc, ctx', slots')) = Inr (publish, stop)"
    for ctx version slots packet publish stop
    using that by (cases "fst (prepare ctx version slots packet)") (simp_all add: case_prod_beta)
  then show ?thesis by (simp add: never_stops_def unstopped_def Some) blast
qed (simp add: never_stops_def unstopped_def)

lemma unstopped_simps [simp]:
  "cb_dispatch (unstopped cb) = cb_dispatch cb" "cb_publish_complete (unstopped cb) = cb_publish_complete cb"
  by (simp_all add: unstopped_def)

definition go_on :: "pump_verdict \<Rightarrow> pump_verdict" where
  "go_on v = (if v = Pump_return (Inr ()) then Pump_continue else v)"

lemma pump_publish_unstopped:
  "pump_publish cb packet consumed stop ctx ig = (v, n, ctx', ig') \<Longrightarrow>
     pump_publish (unstopped cb) packet consumed False ctx ig = (go_on v, n, ctx', ig')"
  by (auto simp: pump_publish_def go_on_def Let_def split: prod.splits sum.splits if_splits)

lemma pump_packet_unstopped:
  "pump_packet cb packet consumed ctx ig = (v, n, ctx', ig') \<Longrightarrow>
     pump_packet (unstopped cb) packet consumed ctx ig = (go_on v, n, ctx', ig')"
  using pump_publish_unstopped [of cb packet consumed]
  by (auto simp: pump_packet_def unstopped_def go_on_def Let_def split: option.splits prod.splits sum.splits if_splits)

lemma pump_step_unstopped:
  "pump_step un cb ctx ig = (v, n, ctx', ig') \<Longrightarrow>
     pump_step un (unstopped cb) ctx ig = (v, n, ctx', ig') \<or> pump_step un (unstopped cb) ctx ig = (go_on v, n, ctx', ig')"
  using pump_packet_unstopped [of cb]
  by (auto simp: pump_step_def Let_def split: option.splits prod.splits sum.splits if_splits)

text \<open>A step waits for more bytes and changes nothing, or it does the same when more bytes have arrived.\<close>

definition waiting :: "utf8_next \<Rightarrow> 'c flowie_ingress_callbacks \<Rightarrow> 'c \<Rightarrow> flowie_ingress \<Rightarrow> bool" where
  "waiting un cb ctx ig \<longleftrightarrow> (\<forall>n. flowie_ingress_pump un cb n ctx ig = (Inr (), n, ctx, ig))"

lemma waiting_step: "pump_step un cb ctx ig = (Pump_return (Inr ()), 0, ctx, ig) \<Longrightarrow> waiting un cb ctx ig"
  by (simp add: waiting_def flowie_ingress_pump.simps [of un cb])

lemma pump_step_either:
  assumes "pump_step un cb ctx ig = (v, n, ctx', ig')" "ingress_ok ig"
  obtains (wait) "v = Pump_return (Inr ())" "n = 0" "ctx' = ctx" "ig' = ig" "length (ig_framing ig) < ig_capacity ig"
      "waiting un cb ctx ig" "waiting un (unstopped cb) ctx ig"
  | (act) "ingress_ok ig'" "v = Pump_return (Inr ()) \<or> v = Pump_continue \<Longrightarrow> length (ig_framing ig') < length (ig_framing ig)"
      "\<And>d. pump_step un (unstopped cb) ctx (more_bytes d ig) = (go_on v, n, ctx', more_bytes d ig')"
proof -
  obtain v' where v': "pump_step un (unstopped cb) ctx ig = (v', n, ctx', ig')" "v' = v \<or> v' = go_on v"
    using pump_step_unstopped [OF assms(1)] by auto
  from v'(1) assms(2) unstopped_never_stops show thesis
  proof (cases rule: pump_step_cases)
    case wait
    then have "v = Pump_return (Inr ())" using v'(2) by (auto simp: go_on_def split: if_splits)
    then show thesis using wait v' assms(1) by (intro that(1) waiting_step) auto
  next
    case act
    then have go: "v' = go_on v" using v'(2) by (auto simp: go_on_def)
    show thesis
      by (rule that(2)) (use act go v'(1) pump_step_shorter in \<open>auto simp: go_on_def\<close>)
  qed
qed

section \<open>The pump after more bytes\<close>

lemma pump_frame:
  "flowie_ingress_pump un cb n ctx ig = (r, m, ctx', ig') \<Longrightarrow>
     ig_terminal_error ig' = ig_terminal_error ig \<and> ig_capacity ig' = ig_capacity ig"
proof (induction un cb n ctx ig rule: flowie_ingress_pump.induct)
  case (1 un cb n ctx ig)
  obtain v k ctx1 ig1 where step: "pump_step un cb ctx ig = (v, k, ctx1, ig1)"
    by (metis prod_cases4)
  have publish: "pump_publish cb packet consumed stop c i = (v', k', c', i') \<Longrightarrow>
      ig_terminal_error i' = ig_terminal_error i \<and> ig_capacity i' = ig_capacity i" for packet consumed stop c i v' k' c' i'
    by (auto simp: pump_publish_def ingress_attempt_def consume_framing_def drop_override_def Let_def
        split: prod.splits sum.splits if_splits list.splits)
  have packet: "pump_packet cb packet consumed c i = (v', k', c', i') \<Longrightarrow>
      ig_terminal_error i' = ig_terminal_error i \<and> ig_capacity i' = ig_capacity i" for packet consumed c i v' k' c' i'
    by (auto simp: pump_packet_def consume_framing_def drop_override_def Let_def dest!: publish
        split: prod.splits sum.splits if_splits option.splits)
  have "ig_terminal_error ig1 = ig_terminal_error ig \<and> ig_capacity ig1 = ig_capacity ig"
    using step by (auto simp: pump_step_def version_gate_def ingress_attempt_def Let_def dest!: packet
        split: prod.splits sum.splits if_splits option.splits list.splits)
  then show ?case
    using "1.IH" [OF step [symmetric]] "1.prems"
    by (cases v) (simp_all add: flowie_ingress_pump.simps [of un cb n ctx ig] step)
qed

lemma pump_counts:
  "flowie_ingress_pump un cb (n + k) ctx ig =
     (case flowie_ingress_pump un cb n ctx ig of (r, m, ctx', ig') \<Rightarrow> (r, m + k, ctx', ig'))"
proof (induction un cb n ctx ig rule: flowie_ingress_pump.induct)
  case (1 un cb n ctx ig)
  obtain v j ctx1 ig1 where step: "pump_step un cb ctx ig = (v, j, ctx1, ig1)"
    by (metis prod_cases4)
  show ?case
  proof (cases v)
    case Pump_continue
    then show ?thesis
      using "1.IH" [OF step [symmetric] Pump_continue refl refl]
      by (simp add: flowie_ingress_pump.simps [of un cb _ ctx ig] step ac_simps)
  qed (simp add: flowie_ingress_pump.simps [of un cb _ ctx ig] step)
qed

section \<open>Feeding a stream\<close>

text \<open>After a terminal error nobody reads the buffer again.\<close>

fun outcome ::
    "(salts_error + unit) \<times> nat \<times> 'c \<times> flowie_ingress \<Rightarrow> (salts_error + unit) \<times> nat \<times> 'c \<times> flowie_ingress" where
  "outcome (Inl e, n, ctx, ig) = (Inl e, n, ctx, ig\<lparr>ig_framing := []\<rparr>)"
| "outcome (Inr u, n, ctx, ig) = (Inr u, n, ctx, ig)"

fun pumped ::
    "(salts_error + unit) \<times> nat \<times> 'c \<times> flowie_ingress \<Rightarrow> (salts_error + unit) \<times> nat \<times> 'c \<times> flowie_ingress" where
  "pumped (r, n, ctx, ig) = outcome (r, n, ctx, flowie_ingress_terminal r ig)"

lemma pump_more:
  assumes "flowie_ingress_pump un cb n ctx ig = (r, m, ctx', ig')" "ingress_ok ig"
  shows "case r of
      Inl e \<Rightarrow> \<forall>d. flowie_ingress_pump un (unstopped cb) n ctx (more_bytes d ig) = (Inl e, m, ctx', more_bytes d ig')
    | Inr u \<Rightarrow> ingress_ok ig' \<and>
        (ctx' = ctx \<and> ig' = ig \<and> length (ig_framing ig) < ig_capacity ig \<and> waiting un cb ctx ig \<and> waiting un (unstopped cb) ctx ig \<or>
         length (ig_framing ig') < length (ig_framing ig)) \<and>
        (\<forall>d. flowie_ingress_pump un (unstopped cb) n ctx (more_bytes d ig) =
             flowie_ingress_pump un (unstopped cb) m ctx' (more_bytes d ig'))"
  using assms
proof (induction un cb n ctx ig rule: flowie_ingress_pump.induct)
  case (1 un cb n ctx ig)
  obtain v k ctx1 ig1 where step: "pump_step un cb ctx ig = (v, k, ctx1, ig1)"
    by (metis prod_cases4)
  note here = flowie_ingress_pump.simps [of un cb n ctx ig]
    flowie_ingress_pump.simps [of un "unstopped cb" n ctx "more_bytes _ ig"]
  from step "1.prems"(2) show ?case
  proof (cases rule: pump_step_either)
    case wait
    then have "r = Inr ()" "m = n" "ctx' = ctx" "ig' = ig"
      using "1.prems"(1) by (simp_all add: here step)
    then show ?thesis using wait "1.prems"(2) by simp
  next
    case act
    show ?thesis
    proof (cases v)
      case (Pump_return rc)
      then show ?thesis
        using "1.prems"(1) act by (cases rc) (auto simp: here step go_on_def)
    next
      case Pump_continue
      then have "flowie_ingress_pump un cb (n + k) ctx1 ig1 = (r, m, ctx', ig')"
        using "1.prems"(1) by (simp add: here step)
      from "1.IH" [OF step [symmetric] Pump_continue refl refl this act(1)] act(2,3)
      show ?thesis by (auto simp: here step Pump_continue go_on_def split: sum.splits)
    qed
  qed
qed

lemma never_stops_waits:
  assumes "flowie_ingress_pump un cb n ctx ig = (Inr u, m, ctx', ig')" "ingress_ok ig" "never_stops cb"
  shows "waiting un cb ctx' ig'"
  using assms
proof (induction un cb n ctx ig rule: flowie_ingress_pump.induct)
  case (1 un cb n ctx ig)
  obtain v k ctx1 ig1 where step: "pump_step un cb ctx ig = (v, k, ctx1, ig1)"
    by (metis prod_cases4)
  note here = flowie_ingress_pump.simps [of un cb n ctx ig]
  from step "1.prems"(2,3) show ?case
  proof (cases rule: pump_step_cases)
    case wait
    then show ?thesis using "1.prems"(1) step by (auto simp: here intro: waiting_step)
  next
    case act
    show ?thesis
    proof (cases v)
      case (Pump_return rc)
      then show ?thesis using "1.prems"(1) act(1) by (simp add: here step)
    next
      case Pump_continue
      then have "flowie_ingress_pump un cb (n + k) ctx1 ig1 = (Inr u, m, ctx', ig')"
        using "1.prems"(1) by (simp add: here step)
      from "1.IH" [OF step [symmetric] Pump_continue refl refl this act(2) "1.prems"(3)] show ?thesis .
    qed
  qed
qed

section \<open>Progress on a stream\<close>

definition stream_ok :: "flowie_ingress \<Rightarrow> bool" where
  "stream_ok ig \<longleftrightarrow> ingress_ok ig \<and> length (ig_framing ig) \<le> ig_capacity ig \<and> ig_terminal_error ig = None"

text \<open>The result of a call after the bytes \<open>data\<close> is a point on the way of the pump without pauses over the
  whole stream, whatever bytes follow; an error is the one that this pump ends with.\<close>

definition advances ::
    "utf8_next \<Rightarrow> 'c flowie_ingress_callbacks \<Rightarrow> nat \<Rightarrow> 'c \<Rightarrow> flowie_ingress \<Rightarrow> bytes \<Rightarrow>
       (salts_error + unit) \<times> nat \<times> 'c \<times> flowie_ingress \<Rightarrow> bool" where
  "advances un cb n ctx ig data result \<longleftrightarrow> (case result of (r, m, ctx', ig') \<Rightarrow>
     (case r of
        Inl e \<Rightarrow> \<forall>d. pumped (flowie_ingress_pump un (unstopped cb) n ctx (more_bytes (data @ d) ig)) = outcome result
      | Inr u \<Rightarrow> stream_ok ig' \<and>
          (\<forall>d. flowie_ingress_pump un (unstopped cb) n ctx (more_bytes (data @ d) ig) =
               flowie_ingress_pump un (unstopped cb) m ctx' (more_bytes d ig'))))"

lemma advances_refl: "stream_ok ig \<Longrightarrow> advances un cb n ctx ig [] (Inr u, n, ctx, ig)"
  by (simp add: advances_def)

lemma advances_append:
  "stream_ok ig \<Longrightarrow> length (ig_framing ig) + length data \<le> ig_capacity ig \<Longrightarrow>
     advances un cb n ctx ig data (Inr u, n, ctx, more_bytes data ig)"
  by (simp add: advances_def stream_ok_def)

lemma advances_trans:
  assumes "advances un cb n ctx ig data (Inr u, m, ctx', ig')" "advances un cb m ctx' ig' data' result"
  shows "advances un cb n ctx ig (data @ data') result"
  using assms by (cases result rule: outcome.cases) (simp_all add: advances_def)

lemma advances_pump:
  assumes "flowie_ingress_pump un cb n ctx ig = (r, m, ctx', ig')" "stream_ok ig"
  shows "advances un cb n ctx ig [] (r, m, ctx', flowie_ingress_terminal r ig')"
proof -
  have ok: "ingress_ok ig" using assms(2) by (simp add: stream_ok_def)
  from pump_more [OF assms(1) ok] pump_frame [OF assms(1)] assms(2) show ?thesis
    by (cases r) (auto simp: advances_def stream_ok_def flowie_ingress_terminal_def)
qed

lemma advances_count:
  assumes "advances un cb n ctx ig data (r, m, ctx', ig')"
  shows "advances un cb (n + k) ctx ig data (r, m + k, ctx', ig')"
proof (cases r)
  case (Inl e)
  have "pumped (flowie_ingress_pump un (unstopped cb) (n + k) ctx (more_bytes (data @ d) ig)) =
      (Inl e, m + k, ctx', ig'\<lparr>ig_framing := []\<rparr>)" for d
  proof -
    obtain a b c i where run: "flowie_ingress_pump un (unstopped cb) n ctx (more_bytes (data @ d) ig) = (a, b, c, i)"
      by (metis prod_cases4)
    have "pumped (a, b, c, i) = (Inl e, m, ctx', ig'\<lparr>ig_framing := []\<rparr>)"
      using assms Inl by (simp add: run [symmetric] advances_def del: pumped.simps)
    then show ?thesis by (cases a) (simp_all add: pump_counts [of un "unstopped cb" n k] run)
  qed
  then show ?thesis by (simp add: advances_def Inl)
next
  case (Inr u)
  then show ?thesis using assms by (simp add: advances_def pump_counts [of un "unstopped cb" _ k])
qed

text \<open>After a pump the buffer has room, because it has become shorter or a packet is incomplete.\<close>

lemma pump_room:
  assumes "flowie_ingress_pump un cb n ctx ig = (Inr u, m, ctx', ig')" "stream_ok ig"
  shows "length (ig_framing ig') < ig_capacity ig'"
proof -
  have "ingress_ok ig" using assms(2) by (simp add: stream_ok_def)
  from pump_more [OF assms(1) this] pump_frame [OF assms(1)] assms(2) show ?thesis
    by (auto simp: stream_ok_def)
qed

lemma feed_loop_advances:
  assumes "stream_ok ig"
  shows "advances un cb n ctx ig data (feed_loop un cb data n ctx ig)"
  using assms
proof (induction data arbitrary: n ctx ig rule: length_induct)
  case (1 data)
  show ?case
  proof (cases "data = []")
    case True
    then show ?thesis using advances_refl [OF "1.prems"] by (simp add: feed_loop.simps [of un cb "[]"])
  next
    case False
    define first where "first = (if ig_capacity ig - length (ig_framing ig) = 0
      then flowie_ingress_pump un cb n ctx ig else (Inr (), n, ctx, ig))"
    obtain r0 n0 ctx0 ig0 where r0: "first = (r0, n0, ctx0, ig0)" by (metis prod_cases4)
    note loop = feed_loop.simps [of un cb data n ctx ig, folded first_def, unfolded r0]
    have begun: "advances un cb n ctx ig [] (r0, n0, ctx0, flowie_ingress_terminal r0 ig0)"
      using r0 advances_pump [OF _ "1.prems"] advances_refl [OF "1.prems"]
      by (auto simp: first_def flowie_ingress_terminal_def split: if_splits)
    show ?thesis
    proof (cases r0)
      case (Inl e)
      have "advances un cb n ctx ig data (Inl e, n0, ctx0, flowie_ingress_terminal (Inl e) ig0)"
        using begun Inl by (simp add: advances_def)
      then show ?thesis using False Inl by (simp add: loop)
    next
      case (Inr u)
      have ig0: "stream_ok ig0" "length (ig_framing ig0) < ig_capacity ig0"
        using begun Inr r0 "1.prems" pump_room [of un cb n ctx ig u n0 ctx0 ig0]
        by (auto simp: advances_def first_def flowie_ingress_terminal_def split: if_splits)
      have "advances un cb n ctx ig [] (Inr u, n0, ctx0, ig0)"
        using begun Inr by (simp add: flowie_ingress_terminal_def)
      note start = advances_trans [OF this advances_append]
      let ?w = "ig_capacity ig0 - length (ig_framing ig0)"
      let ?ig = "more_bytes (take ?w data) ig0"
      have appended: "advances un cb n ctx ig (take ?w data) (Inr (), n0, ctx0, ?ig)" and ok: "stream_ok ?ig"
        using start [of "take ?w data"] ig0 by (auto simp: stream_ok_def)
      obtain r1 n1 ctx1 ig1 where r1: "flowie_ingress_pump un cb n0 ctx0 ?ig = (r1, n1, ctx1, ig1)"
        by (metis prod_cases4)
      have pump: "advances un cb n ctx ig (take ?w data) (r1, n1, ctx1, flowie_ingress_terminal r1 ig1)"
        using advances_trans [OF appended advances_pump [OF r1 ok]] by simp
      have run: "feed_loop un cb data n ctx ig = (case r1 of
          Inl e \<Rightarrow> (Inl e, n1, ctx1, flowie_ingress_terminal (Inl e) ig1)
        | Inr u \<Rightarrow> feed_loop un cb (drop ?w data) n1 ctx1 ig1)"
        using False ig0 r1 Inr
        by (simp add: loop ingress_attempt_ok stream_ok_def ingress_ok_def Let_def split: sum.split)
      show ?thesis
      proof (cases r1)
        case (Inl e)
        have "advances un cb n ctx ig (take ?w data @ drop ?w data) (Inl e, n1, ctx1, flowie_ingress_terminal (Inl e) ig1)"
          using pump Inl unfolding advances_def by (simp del: append_take_drop_id)
        then show ?thesis using Inl by (simp add: run)
      next
        case (Inr u')
        then have ig1: "stream_ok ig1" and here: "advances un cb n ctx ig (take ?w data) (Inr u', n1, ctx1, ig1)"
          using pump by (simp_all add: advances_def flowie_ingress_terminal_def)
        have "length (drop ?w data) < length data" using ig0(2) False by (cases data) auto
        from advances_trans [OF here "1.IH" [rule_format, OF this ig1]] show ?thesis
          using Inr by (simp add: run)
      qed
    qed
  qed
qed

lemma feed_advances: "stream_ok ig \<Longrightarrow> advances un cb 0 ctx ig data (flowie_ingress_feed un cb data ctx ig)"
  using feed_loop_advances by (simp add: flowie_ingress_feed_def stream_ok_def)

lemma resume_advances: "stream_ok ig \<Longrightarrow> advances un cb 0 ctx ig [] (flowie_ingress_resume un cb ctx ig)"
  using advances_pump [of un cb 0 ctx ig]
  by (auto simp: flowie_ingress_resume_def stream_ok_def split: prod.split)

section \<open>Feeding and resuming\<close>

text \<open>The owner of a connection feeds chunks and resumes the pump, in any order, until an error ends the
  connection.\<close>

datatype ingress_event = Feed bytes | Resume

fun ingress_call ::
    "utf8_next \<Rightarrow> 'c flowie_ingress_callbacks \<Rightarrow> ingress_event \<Rightarrow> 'c \<Rightarrow> flowie_ingress \<Rightarrow>
       (salts_error + unit) \<times> nat \<times> 'c \<times> flowie_ingress" where
  "ingress_call un cb (Feed data) ctx ig = flowie_ingress_feed un cb data ctx ig"
| "ingress_call un cb Resume ctx ig = flowie_ingress_resume un cb ctx ig"

fun ingress_run ::
    "utf8_next \<Rightarrow> 'c flowie_ingress_callbacks \<Rightarrow> ingress_event list \<Rightarrow> 'c \<Rightarrow> flowie_ingress \<Rightarrow>
       (salts_error + unit) \<times> nat \<times> 'c \<times> flowie_ingress" where
  "ingress_run un cb [] ctx ig = (Inr (), 0, ctx, ig)"
| "ingress_run un cb (event # events) ctx ig =
     (case ingress_call un cb event ctx ig of
        (Inl e, n, ctx, ig) \<Rightarrow> (Inl e, n, ctx, ig)
      | (Inr u, n, ctx, ig) \<Rightarrow>
          (case ingress_run un cb events ctx ig of (r, m, ctx, ig) \<Rightarrow> (r, m + n, ctx, ig)))"

fun event_bytes :: "ingress_event \<Rightarrow> bytes" where
  "event_bytes (Feed data) = data"
| "event_bytes Resume = []"

abbreviation fed :: "ingress_event list \<Rightarrow> bytes" where
  "fed events \<equiv> concat (map event_bytes events)"

text \<open>Resuming until the buffer is empty or no longer becomes shorter.\<close>

function resume_all ::
    "utf8_next \<Rightarrow> 'c flowie_ingress_callbacks \<Rightarrow> 'c \<Rightarrow> flowie_ingress \<Rightarrow>
       (salts_error + unit) \<times> nat \<times> 'c \<times> flowie_ingress" where
  "resume_all un cb ctx ig =
     (if ig_framing ig = [] then (Inr (), 0, ctx, ig)
      else case flowie_ingress_resume un cb ctx ig of
        (Inl e, n, ctx', ig') \<Rightarrow> (Inl e, n, ctx', ig')
      | (Inr u, n, ctx', ig') \<Rightarrow>
          if length (ig_framing ig') \<ge> length (ig_framing ig) then (Inr u, n, ctx', ig')
          else (case resume_all un cb ctx' ig' of (r, m, ctx'', ig'') \<Rightarrow> (r, m + n, ctx'', ig'')))"
  by pat_completeness auto
termination
  by (relation "measure (\<lambda>(un, cb, ctx, ig). length (ig_framing ig))") auto

declare resume_all.simps [simp del]

definition ingress_deliver ::
    "utf8_next \<Rightarrow> 'c flowie_ingress_callbacks \<Rightarrow> ingress_event list \<Rightarrow> 'c \<Rightarrow> flowie_ingress \<Rightarrow>
       (salts_error + unit) \<times> nat \<times> 'c \<times> flowie_ingress" where
  "ingress_deliver un cb events ctx ig =
     (case ingress_run un cb events ctx ig of
        (Inl e, n, ctx, ig) \<Rightarrow> (Inl e, n, ctx, ig)
      | (Inr u, n, ctx, ig) \<Rightarrow> (case resume_all un cb ctx ig of (r, m, ctx, ig) \<Rightarrow> (r, m + n, ctx, ig)))"

lemma call_advances: "stream_ok ig \<Longrightarrow> advances un cb 0 ctx ig (event_bytes event) (ingress_call un cb event ctx ig)"
  by (cases event) (simp_all add: feed_advances resume_advances)

text \<open>A call, and then what the next ones do.\<close>

lemma advances_then:
  assumes "advances un cb 0 ctx ig data (Inr u, n, ctx', ig')" "advances un cb 0 ctx' ig' data' (r, m, ctx'', ig'')"
  shows "advances un cb 0 ctx ig (data @ data') (r, m + n, ctx'', ig'')"
  using advances_trans [OF assms(1)] advances_count [OF assms(2), of n] by simp

lemma advances_error:
  "advances un cb n ctx ig data (Inl e, m, ctx', ig') \<Longrightarrow> advances un cb n ctx ig (data @ data') (Inl e, m, ctx', ig')"
  by (simp add: advances_def)

lemma advances_ok: "advances un cb n ctx ig data (Inr u, m, ctx', ig') \<Longrightarrow> stream_ok ig'"
  by (simp add: advances_def)

lemma run_advances: "stream_ok ig \<Longrightarrow> advances un cb 0 ctx ig (fed events) (ingress_run un cb events ctx ig)"
proof (induction events arbitrary: ctx ig)
  case Nil
  then show ?case using advances_refl by simp
next
  case (Cons event events)
  obtain r n ctx1 ig1 where call: "ingress_call un cb event ctx ig = (r, n, ctx1, ig1)" by (metis prod_cases4)
  note here = call_advances [OF Cons.prems, of un cb ctx event, unfolded call]
  show ?case
  proof (cases r)
    case (Inl e)
    then show ?thesis using advances_error here by (simp add: call)
  next
    case (Inr u)
    obtain r2 m ctx2 ig2 where rest: "ingress_run un cb events ctx1 ig1 = (r2, m, ctx2, ig2)" by (metis prod_cases4)
    note here' = here [unfolded Inr]
    from advances_then [OF here' Cons.IH [OF advances_ok [OF here'], of ctx1, unfolded rest]] Inr
    show ?thesis by (simp add: call rest)
  qed
qed

lemma empty_waiting: "ig_framing ig = [] \<Longrightarrow> waiting un cb ctx ig"
  by (rule waiting_step) (simp add: pump_step_def)

lemma resume_all_settles:
  assumes "stream_ok ig" "resume_all un cb ctx ig = (r, n, ctx', ig')"
  shows "advances un cb 0 ctx ig [] (r, n, ctx', ig') \<and> (r = Inr () \<longrightarrow> waiting un (unstopped cb) ctx' ig')"
  using assms
proof (induction un cb ctx ig arbitrary: r n ctx' ig' rule: resume_all.induct)
  case (1 un cb ctx ig)
  show ?case
  proof (cases "ig_framing ig = []")
    case True
    then show ?thesis
      using "1.prems" by (auto simp: resume_all.simps [of un cb ctx ig] advances_refl empty_waiting)
  next
    case False
    obtain r1 n1 ctx1 ig1 where call: "flowie_ingress_resume un cb ctx ig = (r1, n1, ctx1, ig1)" by (metis prod_cases4)
    note here = resume_advances [OF "1.prems"(1), of un cb ctx, unfolded call]
    note run = resume_all.simps [of un cb ctx ig]
    show ?thesis
    proof (cases r1)
      case (Inl e)
      then show ?thesis using here "1.prems"(2) False by (auto simp: run call)
    next
      case (Inr u)
      have pump: "flowie_ingress_pump un cb 0 ctx ig = (Inr u, n1, ctx1, ig1)"
        using call Inr "1.prems"(1)
        by (auto simp: flowie_ingress_resume_def stream_ok_def flowie_ingress_terminal_def split: prod.splits sum.splits)
      show ?thesis
      proof (cases "length (ig_framing ig1) \<ge> length (ig_framing ig)")
        case True
        then have "waiting un (unstopped cb) ctx1 ig1"
          using pump_more [OF pump] "1.prems"(1) by (auto simp: stream_ok_def)
        then show ?thesis using here "1.prems"(2) False Inr True by (auto simp: run call)
      next
        case shorter: False
        obtain r2 m ctx2 ig2 where rest: "resume_all un cb ctx1 ig1 = (r2, m, ctx2, ig2)" by (metis prod_cases4)
        note here' = here [unfolded Inr]
        have IH: "advances un cb 0 ctx1 ig1 [] (r2, m, ctx2, ig2) \<and> (r2 = Inr () \<longrightarrow> waiting un (unstopped cb) ctx2 ig2)"
          by (rule "1.IH" [OF False call [symmetric] Inr refl refl shorter advances_ok [OF here'] rest])
        have "(r, n, ctx', ig') = (r2, m + n1, ctx2, ig2)"
          using "1.prems"(2) False shorter by (simp add: run call Inr rest)
        then show ?thesis using advances_then [OF here', of "[]"] IH by simp
      qed
    qed
  qed
qed

text \<open>Whatever the order of the calls, the owner ends where the pump without pauses ends on all the bytes.\<close>

lemma deliver_pumped:
  assumes "stream_ok ig"
  shows "outcome (ingress_deliver un cb events ctx ig) =
    pumped (flowie_ingress_pump un (unstopped cb) 0 ctx (more_bytes (fed events) ig))"
proof -
  obtain r n ctx1 ig1 where run: "ingress_run un cb events ctx ig = (r, n, ctx1, ig1)" by (metis prod_cases4)
  note here = run_advances [OF assms, of un cb ctx events, unfolded run]
  show ?thesis
  proof (cases r)
    case (Inl e)
    then show ?thesis
      using here by (simp add: ingress_deliver_def run advances_def del: pumped.simps) (metis append_Nil2)
  next
    case (Inr u)
    note here' = here [unfolded Inr]
    obtain r2 m ctx2 ig2 where rest: "resume_all un cb ctx1 ig1 = (r2, m, ctx2, ig2)" by (metis prod_cases4)
    note settled = resume_all_settles [OF advances_ok [OF here'] rest]
    have all: "advances un cb 0 ctx ig (fed events) (r2, m + n, ctx2, ig2)"
      using advances_then [OF here' settled [THEN conjunct1]] by simp
    have deliver: "ingress_deliver un cb events ctx ig = (r2, m + n, ctx2, ig2)"
      by (simp add: ingress_deliver_def run Inr rest)
    show ?thesis
    proof (cases r2)
      case (Inl e)
      then show ?thesis
        using all by (simp add: deliver advances_def del: pumped.simps) (metis append_Nil2)
    next
      case (Inr u2)
      then have "flowie_ingress_pump un (unstopped cb) 0 ctx (more_bytes (fed events @ []) ig) =
          flowie_ingress_pump un (unstopped cb) (m + n) ctx2 (more_bytes [] ig2)"
        using all unfolding advances_def by (simp del: append_Nil2)
      also have "\<dots> = (Inr (), m + n, ctx2, ig2)"
        using settled Inr by (simp add: waiting_def)
      finally show ?thesis using Inr by (simp add: deliver flowie_ingress_terminal_def)
    qed
  qed
qed

text \<open>When the hook never pauses the pump there is nothing left to resume.\<close>

lemma feed_loop_waits:
  assumes "never_stops cb" "ingress_ok ig" "waiting un cb ctx ig \<or> data \<noteq> []"
    and "feed_loop un cb data n ctx ig = (Inr u, m, ctx', ig')"
  shows "waiting un cb ctx' ig'"
  using assms(2-)
proof (induction data arbitrary: n ctx ig rule: length_induct)
  case (1 data)
  show ?case
  proof (cases "data = []")
    case True
    then show ?thesis using "1.prems" by (simp add: feed_loop.simps [of un cb "[]"])
  next
    case False
    define first where "first = (if ig_capacity ig - length (ig_framing ig) = 0
      then flowie_ingress_pump un cb n ctx ig else (Inr (), n, ctx, ig))"
    obtain r0 n0 ctx0 ig0 where r0: "first = (r0, n0, ctx0, ig0)" by (metis prod_cases4)
    note loop = feed_loop.simps [of un cb data n ctx ig, folded first_def, unfolded r0]
    obtain u0 where u0: "r0 = Inr u0" using "1.prems"(3) False by (cases r0) (simp_all add: loop)
    have ig0: "ingress_ok ig0"
      using r0 "1.prems"(1) pump_more [of un cb n ctx ig "Inr u0" n0 ctx0 ig0] u0 by (auto simp: first_def split: if_splits)
    let ?w = "ig_capacity ig0 - length (ig_framing ig0)"
    obtain r1 n1 ctx1 ig1 where r1:
        "flowie_ingress_pump un cb n0 ctx0 (more_bytes (take ?w data) ig0) = (r1, n1, ctx1, ig1)"
      by (metis prod_cases4)
    have run: "?w \<noteq> 0" "feed_loop un cb data n ctx ig = (case r1 of
        Inl e \<Rightarrow> (Inl e, n1, ctx1, flowie_ingress_terminal (Inl e) ig1)
      | Inr u \<Rightarrow> feed_loop un cb (drop ?w data) n1 ctx1 ig1)"
      using False ig0 r1 u0 "1.prems"(3)
      by (auto simp: loop ingress_attempt_ok ingress_ok_def Let_def split: sum.split if_splits)
    then obtain u1 where u1: "r1 = Inr u1" using "1.prems"(3) by (cases r1) simp_all
    have ig1: "ingress_ok ig1" "waiting un cb ctx1 ig1"
      using pump_more [OF r1] never_stops_waits [OF r1 [unfolded u1] _ assms(1)] ig0 u1 by simp_all
    have "length (drop ?w data) < length data" using run(1) False by (cases data) auto
    moreover have "feed_loop un cb (drop ?w data) n1 ctx1 ig1 = (Inr u, m, ctx', ig')"
      using "1.prems"(3) u1 by (simp add: run(2))
    ultimately show ?thesis using "1.IH" ig1 by blast
  qed
qed

lemma call_waits:
  assumes "never_stops cb" "stream_ok ig" "waiting un cb ctx ig" "ingress_call un cb event ctx ig = (Inr u, n, ctx', ig')"
  shows "waiting un cb ctx' ig'"
proof (cases event)
  case (Feed data)
  then have "feed_loop un cb data 0 ctx ig = (Inr u, n, ctx', ig')" "ingress_ok ig"
    using assms(2,4) by (simp_all add: flowie_ingress_feed_def stream_ok_def)
  then show ?thesis using feed_loop_waits [OF assms(1)] assms(3) by blast
next
  case Resume
  then show ?thesis using assms(2-) by (auto simp: flowie_ingress_resume_def stream_ok_def waiting_def flowie_ingress_terminal_def)
qed

lemma run_waits:
  "never_stops cb \<Longrightarrow> stream_ok ig \<Longrightarrow> waiting un cb ctx ig \<Longrightarrow> ingress_run un cb events ctx ig = (Inr u, n, ctx', ig') \<Longrightarrow>
     waiting un cb ctx' ig' \<and> stream_ok ig'"
proof (induction events arbitrary: ctx ig n)
  case (Cons event events)
  obtain r k ctx1 ig1 where call: "ingress_call un cb event ctx ig = (r, k, ctx1, ig1)" by (metis prod_cases4)
  then obtain u1 where u1: "r = Inr u1" using Cons.prems(4) by (cases r) simp_all
  note here = call_advances [OF Cons.prems(2), of un cb ctx event, unfolded call u1]
  have "waiting un cb ctx1 ig1" by (rule call_waits [OF Cons.prems(1-3) call [unfolded u1]])
  with Cons.IH [OF Cons.prems(1) advances_ok [OF here]] Cons.prems(4) show ?case
    by (auto simp: call u1 split: prod.splits)
qed simp

lemma waiting_resume_all:
  assumes "waiting un cb ctx ig" "stream_ok ig"
  shows "resume_all un cb ctx ig = (Inr (), 0, ctx, ig)"
  using assms by (auto simp: resume_all.simps [of un cb ctx ig] waiting_def flowie_ingress_resume_def
      flowie_ingress_terminal_def stream_ok_def)

lemma never_stops_deliver:
  assumes "never_stops cb" "stream_ok ig" "waiting un cb ctx ig"
  shows "ingress_deliver un cb events ctx ig = ingress_run un cb events ctx ig"
proof -
  obtain r n ctx1 ig1 where run: "ingress_run un cb events ctx ig = (r, n, ctx1, ig1)" by (metis prod_cases4)
  show ?thesis
    using run_waits [OF assms, of events] waiting_resume_all [of un cb ctx1 ig1] run
    by (cases r) (auto simp: ingress_deliver_def)
qed

lemma created_ok:
  assumes "flowie_ingress_create config [] = Some ig" "ic_max_packet_size config = 0 \<or> 6 \<le> ic_max_packet_size config"
  shows "stream_ok ig" "ig_framing ig = []"
  using assms
  by (auto simp: stream_ok_def flowie_ingress_create_def ingress_attempt_def ingress_ok_def options_ok_def packet_limit_def Let_def
      split: if_splits option.splits)

text \<open>C38: the receive path of a connection depends on the bytes of the stream only. However the transport cuts
  the same bytes into chunks, and wherever the prepare hook pauses the pump and the owner resumes it, the
  same packets reach the callbacks in the same order, with the same effect on their context, the same
  number is published, and the same error with the same DISCONNECT reason ends the connection, once the
  owner has resumed until the buffer no longer shrinks; the buffer left after such an error is never read.
  With a hook that never pauses, nothing has to be resumed. Memory is available, and the limit on
  packets is the default or holds a whole fixed header and a byte.\<close>

theorem ingress_chunking:
  assumes "flowie_ingress_create config [] = Some ig"
    and "ic_max_packet_size config = 0 \<or> 6 \<le> ic_max_packet_size config"
    and "fed events = fed events'"
  shows "outcome (ingress_deliver un callbacks events ctx ig) = outcome (ingress_deliver un callbacks events' ctx ig) \<and>
    (never_stops callbacks \<longrightarrow> ingress_deliver un callbacks events ctx ig = ingress_run un callbacks events ctx ig)"
proof
  note ok = created_ok [OF assms(1,2)]
  show "outcome (ingress_deliver un callbacks events ctx ig) = outcome (ingress_deliver un callbacks events' ctx ig)"
    by (simp only: deliver_pumped [OF ok(1)] assms(3))
  show "never_stops callbacks \<longrightarrow> ingress_deliver un callbacks events ctx ig = ingress_run un callbacks events ctx ig"
    by (intro impI never_stops_deliver ok(1) empty_waiting ok(2))
qed

definition sample_ingress_config :: flowie_ingress_config where
  "sample_ingress_config = \<lparr>ic_version = 4, ic_max_packet_size = 64, ic_route = None\<rparr>"

definition sample_ingress :: flowie_ingress where
  "sample_ingress =
     \<lparr>ig_parse_options = \<lparr>po_version = 4, po_max_packet_size = 64\<rparr>, ig_capacity = 64, ig_framing = [],
      ig_slots = \<lparr>is_route = None, is_protocol_settlement = None, is_publish_packet_override = None\<rparr>,
      ig_terminal_error = None, ig_disconnect_reason = 0, ig_faults = []\<rparr>"

text \<open>Callbacks that log the packets; the hook pauses the pump after each of them.\<close>

definition log_packets :: "bytes list flowie_ingress_callbacks" where
  "log_packets =
     \<lparr>cb_prepare = Some (\<lambda>log version slots packet. (Inr (True, True), log, slots)),
      cb_dispatch = (\<lambda>log msg. (Inr (), FLOWIE_PUBLISH_RESULT_INIT, msg, log @ [mg_payload msg])),
      cb_publish_complete = None\<rparr>"

lemma sample_ping: "frame_parse 4 64 [0xc0, 0] = Inr (frame_view 4 0xc0 0 [], 2)"
  by code_simp

lemma sample_flags: "flowie_mqtt_message_flags_encode 4 (pv_flags (frame_view 4 0xc0 0 [])) = Inr 0x400"
  "pv_type (frame_view 4 0xc0 0 []) \<noteq> FLOWIE_MQTT_PACKET_CONNECT"
  by code_simp+

lemma sample_created: "flowie_ingress_create sample_ingress_config [] = Some sample_ingress"
  by (simp add: flowie_ingress_create_def sample_ingress_config_def sample_ingress_def ingress_attempt_def
      flowie_mqtt_version_is_supported_def Let_def)

lemma sample_feed:
  "flowie_ingress_feed rfc3629_next log_packets [0xc0, 0] log sample_ingress =
     (Inr (), 1, log @ [[0xc0, 0]], sample_ingress)"
proof -
  have "options_ok (ig_parse_options sample_ingress)"
    by (simp add: sample_ingress_def options_ok_def flowie_mqtt_version_is_supported_def)
  then have "map_error pe_code (flowie_mqtt_packet_parse True (Span [0xc0, 0]) (Some (ig_parse_options sample_ingress))) =
      Inr (frame_view 4 0xc0 0 [], 2)"
    using sample_ping by (simp add: packet_parse_frame) (simp add: sample_ingress_def packet_limit_def)
  then show ?thesis
    using sample_flags
    by (simp add: flowie_ingress_feed_def feed_loop.simps flowie_ingress_pump.simps pump_step_def pump_packet_def
        pump_publish_def flowie_ingress_message_create_def version_gate_def consume_framing_def drop_override_def
        ingress_attempt_def sample_ingress_def log_packets_def Let_def)
qed

theorem ingress_chunking_witness:
  "flowie_ingress_create sample_ingress_config [] = Some sample_ingress \<and> \<not> never_stops log_packets \<and>
   outcome (ingress_deliver rfc3629_next log_packets [Feed [0xc0], Feed [0, 0xc0, 0]] [] sample_ingress) =
     (Inr (), 2, [[0xc0, 0], [0xc0, 0]], sample_ingress)"
proof -
  have "ig_framing sample_ingress = []" by (simp add: sample_ingress_def)
  then have "ingress_deliver rfc3629_next log_packets [Feed [0xc0, 0], Feed [0xc0, 0]] [] sample_ingress =
      (Inr (), 2, [[0xc0, 0], [0xc0, 0]], sample_ingress)"
    by (simp add: ingress_deliver_def sample_feed resume_all.simps [of _ _ _ sample_ingress])
  moreover have "outcome (ingress_deliver rfc3629_next log_packets [Feed [0xc0], Feed [0, 0xc0, 0]] [] sample_ingress) =
      outcome (ingress_deliver rfc3629_next log_packets [Feed [0xc0, 0], Feed [0xc0, 0]] [] sample_ingress)"
    by (rule ingress_chunking [OF sample_created, THEN conjunct1]) (simp_all add: sample_ingress_config_def)
  moreover have "\<not> never_stops log_packets" by (auto simp: never_stops_def log_packets_def)
  ultimately show ?thesis using sample_created by simp
qed

end
