(* ===== verification/Spec2Isabelle.thy ===== *)
theory Spec2Isabelle
  imports Mqtt_Encoders Mqtt_Acl Topic_Index_Store Security_Policy Pattern_Exchange
    Session_Outbound Session_Restore Ingress_Stream
begin

text \<open>
  A verification library for flowie, an MQTT 3.1, 3.1.1 and 5 broker in C. All paths below are
  relative to \<open>src/\<close>.

  \<^bold>\<open>The program.\<close> The broker is a set of pure or owner-local components around an event loop.
  \<^item> \<open>protocol/\<close> is the wire protocol: a lexer and grammar that frame packets, typed views of the
    packets that borrow their bytes, encoders, and the text rules for UTF-8, topics and filters.
  \<^item> \<open>flowie/src/flowie_topic_index.c\<close> is a trie of topic filters that answers which entries match a
    topic, or contain a filter.
  \<^item> \<open>flowie/src/flowie_security.c\<close> and \<open>flowie/src/flowie.c\<close> decide whether a principal may publish
    to a topic or subscribe to a filter; the rules of MQTT compile into a topic index.
  \<^item> \<open>flowie/src/flowie_protocol_contract.c\<close> holds what owners of sessions and applications exchange:
    messages, routes, settlements, selections and request/reply associations.
  \<^item> \<open>flowie/src/flowie_ingress.c\<close> takes the bytes of a connection and hands out packets.
  \<^item> \<open>flowie/src/flowie_session.c\<close> is the state of one MQTT session across its connections.
  \<^item> the endpoint, the control plane, the server process, the client and the optional cluster run
    these components on sockets, databases and threads.

  \<^bold>\<open>Conventions.\<close> A function that returns a status and writes outputs through pointers is a function
  into \<open>'e + 'a\<close>; one that changes an owner also returns the owner it leaves behind, also when it
  fails (\<open>Salts_Support\<close>). Integers keep their width as words. A span is either null with a size or
  a list of bytes, so pointer arithmetic is the suffix of a list. The outcomes of coming
  allocations are a list in the state: every theorem that does not ask for an empty list holds for
  every pattern of failing allocations. The decoder \<open>utf8_next\<close> of the Salts library and the
  providers of authentication are arguments; witnesses instantiate the decoder by the concrete
  \<open>rfc3629_next\<close>. ABI size and version fields, NULL output pointers and freeing of memory are
  outside the model.

  \<^bold>\<open>Theories.\<close>
  \<^item> \<open>Flowie_Prelude\<close>, \<open>Salts_Support\<close>: integers, spans, results, state operations, vectors.
  \<^item> \<open>Mqtt_Types\<close>, \<open>Mqtt_Text\<close>, \<open>Mqtt_Acl\<close>, \<open>Mqtt_Wire\<close>, \<open>Mqtt_Framing\<close>, \<open>Mqtt_Property\<close>,
    \<open>Mqtt_Parse\<close>, \<open>Mqtt_Encode\<close>, \<open>Mqtt_Roundtrip\<close>, \<open>Mqtt_Control\<close>, \<open>Mqtt_Encoders\<close> model
    \<open>protocol/parser/flowie_mqtt_lexer.re\<close>,
    \<open>flowie_mqtt_parser.y\<close>, \<open>protocol/src/flowie_mqtt_protocol.c\<close> and \<open>flowie_mqtt_packet_views.c\<close>.
    Text rules and matching agree with level-by-level specifications; framing accepts exactly the
    well-framed packets and is stable when more bytes arrive; property blocks are accepted exactly
    when they are the wire form of admissible properties; every encoder is inverted by framing and
    the typed parser, and once its checks pass it fails on size only and writes what it has announced.
    The locale \<open>wire_iterator\<close> is the contract of the payload iterators.
  \<^item> \<open>Topic_Index\<close> is the model of the trie with nodes in a heap. \<open>Topic_Index_Tree\<close>, \<open>_Ops\<close>, \<open>_Match\<close>,
    \<open>_Queries\<close> prove the tree invariant, the effect of insertion and removal on the map from
    filters to entries, and the result of the three walks. \<open>Topic_Index_Store\<close> states the contract
    for users as the locales \<open>filter_index\<close> and \<open>policy_index\<close>, interpreted on the trie, and the properties:
    every reachable index is a consistent tree, insertion is atomic under failing allocations,
    removal is exact, the two ways to match agree and report exactly the matching filters.
  \<^item> \<open>Security_Core\<close>, \<open>Security_Matcher\<close>, \<open>Security_Policy\<close>: authentication, realms and their
    decisions over the contract \<open>rule_matcher\<close>, interpreted on the MQTT matcher. A request passes
    exactly when its principal is current, some rule allows it and no rule denies it. What a topic pattern
    with placeholders gives is stated with the two cases in which the code gives less than the
    replaced filter. Kinds of subjects, matches and resources outside their enumerations are values
    of the model and take the branches of the code for unknown kinds.
  \<^item> \<open>Protocol_Contract\<close>, \<open>Pattern_Exchange\<close>: messages, settlements and selections, and the exchange
    both as functions and as programs of single atomic actions, with mutual exclusion for all
    interleavings of threads that keep the rule that only the holder ends an association.
  \<^item> \<open>Session_Owner\<close>, \<open>Session_Connect\<close>, \<open>Session_Delivery\<close>, \<open>Session_Subscribe\<close>, \<open>Session_Inbound\<close> and
    \<open>Session_Repository\<close> are the model of \<open>flowie_session.c\<close>, one definition per function and loop.
    \<open>Session_Table\<close> is the table of deliveries as a map, with its contract \<open>keyed_table\<close>;
    \<open>Session_Invariant\<close>, \<open>Session_Subscriptions\<close> and \<open>Session_System\<close> prove an invariant of every state
    that any sequence of operations reaches; \<open>Session_Outbound\<close> shows that packet identifiers are
    fresh and that every operation refines an abstract delivery protocol; \<open>Session_Frame\<close> and
    \<open>Session_Admission\<close> show that a QoS 2 message is admitted once; \<open>Session_Contract\<close> shows that SUBSCRIBE and
    UNSUBSCRIBE refine updates of a map, what a CONNECT resumes, and that results of an earlier
    connection are refused; \<open>Session_Copy\<close> shows that a clone equals its session; \<open>Session_Restore\<close>
    shows which rows a restart from the repository refuses and what it keeps of the others, and that
    a restored session is not recognised.
  \<^item> \<open>Flowie_Message\<close> and \<open>Flowie_Ingress\<close> model the message and the receive path of a connection,
    \<open>flowie_message.c\<close> and \<open>flowie_ingress.c\<close>, with the callbacks of the endpoint as arguments. \<open>Ingress_Stream\<close>
    lifts the stability of framing to the connection: the way in which the transport cuts the
    stream into chunks has no effect, and neither have pauses of the pump that the owner resumes.

  \<^bold>\<open>Bounds and fuel.\<close> Loops over bytes, entries and properties are structural or have a measure, so all
  functions are total. The search for a packet identifier has the bound 65535 of the code, and it
  always finds a free one below the configured limit. The walks over the topic trie take the
  depth of the topic as their measure. There is no other fuel.

  \<^bold>\<open>Not modelled.\<close> The endpoint, the client, the connections and the server are event loops over sockets,
  timers and coroutines of libraries that are not part of the sources. The protocol repository and
  the control plane are SQL, HTTP and RPC on such libraries, and the cluster runs on FlowMQ and
  TurboRaft. The binary session record uses the LTV codec of SaltsUtils; its delivery check is
  modelled, its encoder and decoder are not. The Lemon generator and the vendored libraries are third-party code; the
  generated MQTT parser is modelled by its grammar.
\<close>

end
